(* ===== verification/Prelude.thy ===== *)
theory Prelude
  imports Main "HOL-Library.Word"
begin

text \<open>
  Shared base of the development: the type names the components use for the Go types of the
  proxy (a byte slice is a list of 8-bit words, a Go string is a list of characters, one
  character per byte), a result type for functions that return a value and an error, big-endian
  fields, and the generic facts about lists that several components need.

  Two fact collections carry the proofs of the components. \<open>go_defs\<close> holds the definitions
  that are unfolded wherever they occur (string tests, byte fields); \<open>inv_rules\<close> holds the
  preservation lemmas of the components' invariants.
\<close>

named_theorems go_defs \<open>definitions of language primitives, unfolded by default\<close>

named_theorems inv_rules \<open>invariant preservation lemmas\<close>

type_synonym byte = "8 word"

type_synonym bytes = "byte list"

text \<open>A call that returns a value and an \<open>error\<close>: the error is the left injection.\<close>

type_synonym ('e, 'a) result = "'e + 'a"

fun bind_result :: "('e, 'a) result \<Rightarrow> ('a \<Rightarrow> ('e, 'b) result) \<Rightarrow> ('e, 'b) result" where
  "bind_result (Inl e) f = Inl e"
| "bind_result (Inr a) f = f a"

lemma bind_result_Inr_iff [simp]:
  "bind_result r f = Inr b \<longleftrightarrow> (\<exists>a. r = Inr a \<and> f a = Inr b)"
  by (cases r) auto

text \<open>The error of a call, wrapped by its caller.\<close>

definition wrap :: "('e \<Rightarrow> 'f) \<Rightarrow> ('e, 'a) result \<Rightarrow> ('f, 'a) result" where
  "wrap f x = (case x of Inl e \<Rightarrow> Inl (f e) | Inr a \<Rightarrow> Inr a)"

lemma wrap_Inr [simp]: "wrap f x = Inr a \<longleftrightarrow> x = Inr a"
  by (auto simp: wrap_def split: sum.splits)

subsection \<open>Bytes and strings\<close>

text \<open>
  \<open>string(b)\<close> of a byte slice: Go strings are byte sequences, so the conversion is one
  character per byte.
\<close>

definition char_of_byte :: "byte \<Rightarrow> char" where
  "char_of_byte b = char_of (unat b)"

definition byte_of_char :: "char \<Rightarrow> byte" where
  "byte_of_char c = of_nat (of_char c)"

definition string_of_bytes :: "bytes \<Rightarrow> string" where
  "string_of_bytes = map char_of_byte"

definition bytes_of_string :: "string \<Rightarrow> bytes" where
  "bytes_of_string = map byte_of_char"

lemma of_char_less_256 [simp]: "(of_char c :: nat) < 256"
  using of_char_mod_256 [of c] by (metis mod_less_divisor zero_less_numeral)

lemma char_of_byte_of_char [simp]: "char_of_byte (byte_of_char c) = c"
  by (simp add: char_of_byte_def byte_of_char_def unat_of_nat take_bit_eq_mod)

lemma unat_byte_less [simp]: "unat (b :: byte) < 256"
  using unsigned_less [of b, where 'a = nat] by simp

lemma byte_of_char_of_byte [simp]: "byte_of_char (char_of_byte b) = b"
  by (simp add: char_of_byte_def byte_of_char_def)

lemma string_of_bytes_of_string [simp]: "string_of_bytes (bytes_of_string s) = s"
  by (simp add: string_of_bytes_def bytes_of_string_def comp_def)

lemma bytes_of_string_of_bytes [simp]: "bytes_of_string (string_of_bytes b) = b"
  by (simp add: string_of_bytes_def bytes_of_string_def comp_def)

lemma length_string_of_bytes [simp]: "length (string_of_bytes b) = length b"
  by (simp add: string_of_bytes_def)

lemma length_bytes_of_string [simp]: "length (bytes_of_string s) = length s"
  by (simp add: bytes_of_string_def)

lemma bytes_of_string_append [simp]:
  "bytes_of_string (s @ t) = bytes_of_string s @ bytes_of_string t"
  by (simp add: bytes_of_string_def)

lemma string_of_bytes_append [simp]:
  "string_of_bytes (s @ t) = string_of_bytes s @ string_of_bytes t"
  by (simp add: string_of_bytes_def)

lemma string_of_bytes_Nil [simp]: "string_of_bytes [] = []"
  by (simp add: string_of_bytes_def)

lemma bytes_of_string_Nil [simp]: "bytes_of_string [] = []"
  by (simp add: bytes_of_string_def)

lemma bytes_of_string_eq_Nil [simp]: "bytes_of_string s = [] \<longleftrightarrow> s = []"
  by (simp add: bytes_of_string_def)

lemma bytes_of_string_eq_iff [simp]: "bytes_of_string s = bytes_of_string t \<longleftrightarrow> s = t"
  by (metis string_of_bytes_of_string)

subsection \<open>Big-endian fields\<close>

text \<open>
  \<open>int(a)<<8 | int(b)\<close> and \<open>int(a)<<16 | int(b)<<8 | int(c)\<close> of single bytes: the shifted
  bytes have no bit in common, so the disjunction is a sum.
\<close>

definition be16 :: "byte \<Rightarrow> byte \<Rightarrow> nat" where
  "be16 a b = unat a * 256 + unat b"

definition be24 :: "byte \<Rightarrow> byte \<Rightarrow> byte \<Rightarrow> nat" where
  "be24 a b c = unat a * 65536 + unat b * 256 + unat c"

text \<open>\<open>binary.BigEndian.AppendUint16\<close> appends these two bytes.\<close>

definition enc16 :: "nat \<Rightarrow> bytes" where
  "enc16 n = [of_nat (n div 256), of_nat (n mod 256)]"

definition enc24 :: "nat \<Rightarrow> bytes" where
  "enc24 n = [of_nat (n div 65536), of_nat (n div 256 mod 256), of_nat (n mod 256)]"

lemma unat_of_nat_byte: "unat (of_nat n :: byte) = n mod 256"
  by (simp add: unat_of_nat take_bit_eq_mod)

lemma be16_less [simp]: "be16 a b < 65536"
  using unat_byte_less [of a] unat_byte_less [of b] unfolding be16_def by linarith

lemma be16_enc16: "n < 65536 \<Longrightarrow> be16 (of_nat (n div 256)) (of_nat (n mod 256)) = n"
  by (simp add: be16_def unat_of_nat_byte less_mult_imp_div_less)

lemma be24_enc24:
  assumes "n < 16777216"
  shows "be24 (of_nat (n div 65536)) (of_nat (n div 256 mod 256)) (of_nat (n mod 256)) = n"
proof -
  have "n div 65536 < 256" using assms by (simp add: less_mult_imp_div_less)
  moreover have "n div 65536 = n div 256 div 256"
    by (simp add: div_mult2_eq [symmetric])
  moreover have "n div 256 div 256 * 65536 + n div 256 mod 256 * 256 + n mod 256 = n"
  proof -
    have "n div 256 div 256 * 256 + n div 256 mod 256 = n div 256" by simp
    moreover have "n div 256 * 256 + n mod 256 = n" by simp
    ultimately show ?thesis by linarith
  qed
  ultimately show ?thesis by (simp add: be24_def unat_of_nat_byte)
qed

lemma length_enc16 [simp]: "length (enc16 n) = 2"
  by (simp add: enc16_def)

lemma length_enc24 [simp]: "length (enc24 n) = 3"
  by (simp add: enc24_def)

subsection \<open>Lists\<close>

lemma drop_eq_nth_Cons: "i < length xs \<Longrightarrow> drop i xs = xs ! i # drop (Suc i) xs"
  by (simp add: Cons_nth_drop_Suc)

lemma list5_exhaust:
  assumes "5 \<le> length xs"
  obtains a b c d e ys where "xs = a # b # c # d # e # ys"
  using assms by (auto simp: numeral_eq_Suc Suc_le_length_iff)

lemma list4_exhaust:
  assumes "4 \<le> length xs"
  obtains a b c d ys where "xs = a # b # c # d # ys"
  using assms by (auto simp: numeral_eq_Suc Suc_le_length_iff)

text \<open>How a count over a list changes when one element is replaced.\<close>

lemma count_update:
  "i < length xs \<Longrightarrow>
   length (filter P (xs[i := y])) + (if P (xs ! i) then 1 else 0)
     = length (filter P xs) + (if P y then 1 else 0)"
proof (induction xs arbitrary: i)
  case (Cons x xs)
  then show ?case by (cases i) (auto dest: Cons.IH)
qed simp

text \<open>A list in which no value occurs at two places.\<close>

lemma distinct_occupied:
  "(\<And>i j c. i < length xs \<Longrightarrow> j < length xs \<Longrightarrow> xs ! i = Some c \<Longrightarrow> xs ! j = Some c \<Longrightarrow> i = j)
   \<Longrightarrow> distinct (filter (\<lambda>x. x \<noteq> None) xs)"
proof (induction xs)
  case (Cons x xs)
  have "distinct (filter (\<lambda>x. x \<noteq> None) xs)"
    by (rule Cons.IH) (use Cons.prems in \<open>metis Suc_inject Suc_less_eq length_Cons nth_Cons_Suc\<close>)
  moreover have "x \<notin> set xs" if "x \<noteq> None"
  proof
    assume "x \<in> set xs"
    then obtain i where "i < length xs" "xs ! i = x" by (auto simp: in_set_conv_nth)
    then show False using Cons.prems [of 0 "Suc i"] that by auto
  qed
  ultimately show ?case by auto
qed simp

text \<open>The head of a stable sort is the first element with the least key.\<close>

lemma first_of_sort_key:
  fixes f :: "'a \<Rightarrow> 'k::linorder"
  shows "find (\<lambda>r. \<forall>x\<in>set xs. f r \<le> f x) xs = (case sort_key f xs of [] \<Rightarrow> None | r # _ \<Rightarrow> Some r)"
proof (cases "sort_key f xs")
  case Nil
  then have "set xs = {}" by (metis set_sort list.set(1))
  then show ?thesis using Nil by simp
next
  case (Cons y ys)
  have set: "set xs = insert y (set ys)" by (metis Cons set_sort list.set(2))
  have "sorted (map f (y # ys))" by (metis Cons sorted_sort_key)
  then have least: "\<forall>x\<in>set xs. f y \<le> f x" using set by auto
  have "filter (\<lambda>x. f x = f y) xs = y # filter (\<lambda>x. f x = f y) ys"
    using sort_key_stable [of f "f y" xs] Cons by (simp add: eq_commute)
  moreover have "filter (\<lambda>r. \<forall>x\<in>set xs. f r \<le> f x) xs = filter (\<lambda>x. f x = f y) xs"
    using least set by (intro filter_cong refl) (force intro: antisym)
  moreover have "find P zs = (case filter P zs of [] \<Rightarrow> None | r # _ \<Rightarrow> Some r)" for P and zs :: "'a list"
    by (induction zs) auto
  ultimately show ?thesis using Cons by simp
qed

end
