(* ===== verification/Netip.thy ===== *)
theory Netip
  imports Go_Strings
begin

text \<open>
  The part of Go's \<open>net/netip\<close> and \<open>net\<close> packages the proxy uses: addresses, their textual form
  in both directions, IPv4-mapped IPv6 addresses, prefixes, and the TCP addresses of sockets.
  An IPv4 address holds four bytes, an IPv6 address sixteen and a zone (empty when there is none);
  \<open>valid_addr\<close> states those lengths.
\<close>

datatype addr = NoAddr | Addr4 bytes | Addr6 bytes string

fun valid_addr :: "addr \<Rightarrow> bool" where
  "valid_addr NoAddr = False"
| "valid_addr (Addr4 b) = (length b = 4)"
| "valid_addr (Addr6 b z) = (length b = 16)"

fun IsValid :: "addr \<Rightarrow> bool" where
  "IsValid NoAddr = False"
| "IsValid _ = True"

fun Is4 :: "addr \<Rightarrow> bool" where
  "Is4 (Addr4 b) = True"
| "Is4 _ = False"

fun Is6 :: "addr \<Rightarrow> bool" where
  "Is6 (Addr6 b z) = True"
| "Is6 _ = False"

fun Zone :: "addr \<Rightarrow> string" where
  "Zone (Addr6 b z) = z"
| "Zone _ = []"

fun WithZone :: "addr \<Rightarrow> string \<Rightarrow> addr" where
  "WithZone (Addr6 b _) z = Addr6 b z"
| "WithZone a _ = a"

definition mapped_prefix :: bytes where
  "mapped_prefix = replicate 10 0 @ [255, 255]"

text \<open>An IPv4-mapped IPv6 address is unmapped to its IPv4 address, zone included.\<close>

fun Unmap :: "addr \<Rightarrow> addr" where
  "Unmap (Addr6 b z) = (if take 12 b = mapped_prefix then Addr4 (drop 12 b) else Addr6 b z)"
| "Unmap a = a"

fun As16 :: "addr \<Rightarrow> bytes" where
  "As16 NoAddr = replicate 16 0"
| "As16 (Addr4 b) = mapped_prefix @ b"
| "As16 (Addr6 b z) = b"

fun AsSlice :: "addr \<Rightarrow> bytes" where
  "AsSlice NoAddr = []"
| "AsSlice (Addr4 b) = b"
| "AsSlice (Addr6 b z) = b"

definition AddrFrom16 :: "bytes \<Rightarrow> addr" where
  "AddrFrom16 b = Addr6 b []"

definition AddrFromSlice :: "bytes \<Rightarrow> addr option" where
  "AddrFromSlice b =
     (if length b = 4 then Some (Addr4 b) else if length b = 16 then Some (Addr6 b []) else None)"

fun IsUnspecified :: "addr \<Rightarrow> bool" where
  "IsUnspecified NoAddr = False"
| "IsUnspecified (Addr4 b) = (b = replicate 4 0)"
| "IsUnspecified (Addr6 b z) = (b = replicate 16 0 \<and> z = [])"

fun BitLen :: "addr \<Rightarrow> nat" where
  "BitLen NoAddr = 0"
| "BitLen (Addr4 b) = 32"
| "BitLen (Addr6 b z) = 128"

subsection \<open>Parsing\<close>

fun ip4_fields :: "nat \<Rightarrow> nat \<Rightarrow> bytes \<Rightarrow> string \<Rightarrow> bytes option" where
  "ip4_fields val digLen fields [] =
     (if length fields < 3 then None else Some (fields @ [of_nat val]))"
| "ip4_fields val digLen fields (c # s) =
     (if is_digit c
      then (if digLen = 1 \<and> val = 0 then None
            else let v = val * 10 + digit_val c
                 in if v > 255 then None else ip4_fields v (digLen + 1) fields s)
      else if c = CHR ''.''
      then (if digLen = 0 \<or> s = [] then None
            else if length fields = 3 then None
            else ip4_fields 0 0 (fields @ [of_nat val]) s)
      else None)"

abbreviation parseIPv4Fields :: "string \<Rightarrow> bytes option" where
  "parseIPv4Fields \<equiv> ip4_fields 0 0 []"

definition is_hex :: "char \<Rightarrow> bool" where
  "is_hex c \<longleftrightarrow> is_digit c \<or> 97 \<le> (of_char c :: nat) \<and> (of_char c :: nat) \<le> 102
     \<or> 65 \<le> (of_char c :: nat) \<and> (of_char c :: nat) \<le> 70"

definition hex_val :: "char \<Rightarrow> nat" where
  "hex_val c =
     (let n = of_char c in
      if is_digit c then n - 48 else if 97 \<le> n \<and> n \<le> 102 then n - 87 else n - 55)"

fun hex_number :: "nat \<Rightarrow> string \<Rightarrow> nat" where
  "hex_number acc [] = acc"
| "hex_number acc (c # s) = hex_number (16 * acc + hex_val c) s"

text \<open>
  The loop of \<open>parseIPv6\<close> over the hexadecimal groups: the bytes stored so far, the position of
  the ellipsis if one was seen, and the text that is left.
\<close>

lemma group_shorter: "dropWhile p s = c # t \<Longrightarrow> Suc (length t) \<le> length s"
  by (metis length_Cons length_dropWhile_le)

function parse6_loop :: "bytes \<Rightarrow> nat option \<Rightarrow> string \<Rightarrow> (bytes \<times> nat option \<times> string) option" where
  "parse6_loop ip ell s =
     (if 16 \<le> length ip then Some (ip, ell, s)
      else let d = takeWhile is_hex s; r = dropWhile is_hex s in
        if d = [] \<or> 4 < length d then None
        else if r \<noteq> [] \<and> hd r = CHR ''.''
        then (if ell = None \<and> length ip \<noteq> 12 then None
              else if 16 < length ip + 4 then None
              else map_option (\<lambda>b. (ip @ b, ell, [])) (parseIPv4Fields s))
        else let ip' = ip @ enc16 (hex_number 0 d) in
          (case r of
             [] \<Rightarrow> Some (ip', ell, [])
           | c # t \<Rightarrow>
               (if c \<noteq> CHR '':'' \<or> t = [] then None
                else if hd t = CHR '':''
                then (if ell \<noteq> None then None
                      else if tl t = [] then Some (ip', Some (length ip'), [])
                      else parse6_loop ip' (Some (length ip')) (tl t))
                else parse6_loop ip' ell t)))"
  by pat_completeness auto
termination
proof (relation "measure (\<lambda>(ip, ell, s). length s)", goal_cases)
  case 1
  then show ?case by simp
next
  case (2 ip ell s d r ip' c t)
  then show ?case using group_shorter [of is_hex s c t] by (cases t) auto
next
  case (3 ip ell s d r ip' c t)
  then show ?case using group_shorter [of is_hex s c t] by auto
qed

declare parse6_loop.simps [simp del]

text \<open>What follows the loop: all text used, and an ellipsis expands to at least one zero group.\<close>

fun parse6_finish :: "string \<Rightarrow> bytes \<times> nat option \<times> string \<Rightarrow> addr option" where
  "parse6_finish zone (ip, ell, s) =
     (if s \<noteq> [] then None
      else if length ip < 16
      then (case ell of
              None \<Rightarrow> None
            | Some e \<Rightarrow> Some (Addr6 (take e ip @ replicate (16 - length ip) 0 @ drop e ip) zone))
      else if ell \<noteq> None then None
      else Some (Addr6 ip zone))"

definition parse6_body :: "string \<Rightarrow> string \<Rightarrow> addr option" where
  "parse6_body s zone =
     (if HasPrefix s ''::''
      then (if length s = 2 then Some (Addr6 (replicate 16 0) zone)
            else Option.bind (parse6_loop [] (Some 0) (drop 2 s)) (parse6_finish zone))
      else Option.bind (parse6_loop [] None s) (parse6_finish zone))"

definition parseIPv6 :: "string \<Rightarrow> addr option" where
  "parseIPv6 s =
     (case IndexByte s (CHR ''%'') of
        None \<Rightarrow> parse6_body s []
      | Some i \<Rightarrow> (if drop (i + 1) s = [] then None else parse6_body (take i s) (drop (i + 1) s)))"

fun parse_addr_dispatch :: "string \<Rightarrow> string \<Rightarrow> addr option" where
  "parse_addr_dispatch s [] = None"
| "parse_addr_dispatch s (c # t) =
     (if c = CHR ''.'' then map_option Addr4 (parseIPv4Fields s)
      else if c = CHR '':'' then parseIPv6 s
      else if c = CHR ''%'' then None
      else parse_addr_dispatch s t)"

definition ParseAddr :: "string \<Rightarrow> addr option" where
  "ParseAddr s = parse_addr_dispatch s s"

subsection \<open>Printing\<close>

definition hex_char :: "nat \<Rightarrow> char" where
  "hex_char n = (if n < 10 then char_of (48 + n) else char_of (87 + n))"

fun hex_str :: "nat \<Rightarrow> string" where
  "hex_str n = (if n < 16 then [hex_char n] else hex_str (n div 16) @ [hex_char (n mod 16)])"

declare hex_str.simps [simp del]

fun groups_of :: "bytes \<Rightarrow> nat list" where
  "groups_of (a # b # r) = be16 a b # groups_of r"
| "groups_of _ = []"

definition zero_run :: "nat list \<Rightarrow> nat \<Rightarrow> nat" where
  "zero_run gs i = length (takeWhile (\<lambda>g. g = 0) (drop i gs))"

text \<open>The first longest run of at least two zero groups: its start and length.\<close>

definition best_run :: "nat list \<Rightarrow> nat \<times> nat" where
  "best_run gs =
     foldl (\<lambda>(st, l) i. let k = zero_run gs i in if 2 \<le> k \<and> l < k then (i, k) else (st, l))
       (0, 0) [0..<8]"

definition string6 :: "bytes \<Rightarrow> string" where
  "string6 b =
     (let gs = groups_of b; (st, l) = best_run gs in
      if l = 0 then Join '':'' (map hex_str gs)
      else Join '':'' (map hex_str (take st gs)) @ ''::'' @ Join '':'' (map hex_str (drop (st + l) gs)))"

definition string4 :: "bytes \<Rightarrow> string" where
  "string4 b = Join ''.'' (map (\<lambda>x. Itoa (unat x)) b)"

definition with_zone :: "string \<Rightarrow> string \<Rightarrow> string" where
  "with_zone s z = (if z = [] then s else s @ ''%'' @ z)"

fun addr_String :: "addr \<Rightarrow> string" where
  "addr_String NoAddr = ''invalid IP''"
| "addr_String (Addr4 b) = string4 b"
| "addr_String (Addr6 b z) =
     (if take 12 b = mapped_prefix then with_zone (''::ffff:'' @ string4 (drop 12 b)) z
      else with_zone (string6 b) z)"

subsection \<open>Prefixes\<close>

record prefix =
  paddr :: addr
  pbits :: nat

definition bits_of_bytes :: "bytes \<Rightarrow> bool list" where
  "bits_of_bytes b = concat (map (\<lambda>x. map (\<lambda>i. bit x (7 - i)) [0..<8]) b)"

text \<open>
  \<open>Prefix.Contains\<close>: the families agree, a zone never matches, and the leading bits are equal.
\<close>

definition prefix_Contains :: "prefix \<Rightarrow> addr \<Rightarrow> bool" where
  "prefix_Contains p a \<longleftrightarrow>
     (case (paddr p, a) of
        (Addr4 b, Addr4 c) \<Rightarrow> take (pbits p) (bits_of_bytes b) = take (pbits p) (bits_of_bytes c)
      | (Addr6 b _, Addr6 c z) \<Rightarrow>
          z = [] \<and> take (pbits p) (bits_of_bytes b) = take (pbits p) (bits_of_bytes c)
      | _ \<Rightarrow> False)"

subsection \<open>Socket addresses\<close>

text \<open>
  A \<open>net.Addr\<close>: a TCP address (IP bytes, port, zone) or any other kind, which carries its text.
\<close>

datatype net_addr = TCPAddr (tcp_ip: bytes) (tcp_port: int) (tcp_zone: string) | OtherAddr string

text \<open>\<open>net.TCPAddrFromAddrPort\<close>.\<close>

definition TCPAddrFrom :: "addr \<Rightarrow> int \<Rightarrow> net_addr" where
  "TCPAddrFrom a p = TCPAddr (AsSlice a) p (Zone a)"

subsection \<open>Facts\<close>

lemma valid_addr_IsValid: "valid_addr a \<Longrightarrow> IsValid a"
  by (cases a) auto

lemma Unmap_valid [simp]: "valid_addr a \<Longrightarrow> valid_addr (Unmap a)"
  by (cases a) auto

lemma length_mapped_prefix [simp]: "length mapped_prefix = 12"
  by (simp add: mapped_prefix_def)

lemma length_As16 [simp]: "valid_addr a \<Longrightarrow> length (As16 a) = 16"
  by (cases a) auto

lemma AddrFromSlice_AsSlice: "valid_addr a \<Longrightarrow> AddrFromSlice (AsSlice a) = Some (WithZone a [])"
  by (cases a) (auto simp: AddrFromSlice_def)

lemma AddrFromSlice_valid: "AddrFromSlice b = Some a \<Longrightarrow> valid_addr a"
  by (auto simp: AddrFromSlice_def split: if_splits)

lemma AddrFromSlice_zone: "AddrFromSlice b = Some a \<Longrightarrow> Zone a = []"
  by (auto simp: AddrFromSlice_def split: if_splits)

text \<open>An IPv4 address survives a mapping to IPv6 and back.\<close>

lemma Unmap_As16: "valid_addr a \<Longrightarrow> Zone a = [] \<Longrightarrow> Unmap (AddrFrom16 (As16 a)) = Unmap a"
  by (cases a) (auto simp: AddrFrom16_def)

lemma ip4_fields_length: "ip4_fields v d fs s = Some b \<Longrightarrow> length fs \<le> 3 \<Longrightarrow> length b = 4"
  by (induction v d fs s rule: ip4_fields.induct) (auto simp: Let_def split: if_splits)

lemma Itoa_cases_256:
  assumes "n < 256"
  shows "Itoa n = (if n < 10 then [digit_char n]
    else if n < 100 then [digit_char (n div 10), digit_char (n mod 10)]
    else [digit_char (n div 100), digit_char (n div 10 mod 10), digit_char (n mod 10)])"
proof -
  have "n div 10 div 10 = n div 100" by (simp add: div_mult2_eq [symmetric])
  with assms show ?thesis
    by (simp add: Itoa.simps [of n] Itoa.simps [of "n div 10"] Itoa.simps [of "n div 100"]
        div_less_iff_less_mult)
qed

text \<open>One printed octet is read back whole, whatever follows it.\<close>

lemma ip4_fields_digit:
  "n < 10 \<Longrightarrow> \<not> (digLen = 1 \<and> val = 0) \<Longrightarrow> val * 10 + n \<le> 255 \<Longrightarrow>
   ip4_fields val digLen fs (digit_char n # r) = ip4_fields (val * 10 + n) (digLen + 1) fs r"
  by (auto simp: Let_def)

lemma ip4_fields_Itoa:
  assumes "n < 256"
  shows "ip4_fields 0 0 fs (Itoa n @ r) = ip4_fields n (length (Itoa n)) fs r"
proof -
  consider "n < 10" | "10 \<le> n" "n < 100" | "100 \<le> n" by linarith
  then show ?thesis
  proof cases
    case 1
    then show ?thesis by (simp add: Itoa.simps [of n] ip4_fields_digit del: ip4_fields.simps)
  next
    case 2
    then have "n div 10 < 10" "n div 10 \<noteq> 0" "n div 10 * 10 + n mod 10 = n" by auto
    with 2 assms show ?thesis
      by (simp add: Itoa_cases_256 ip4_fields_digit [of _ 0 0] ip4_fields_digit [of _ "Suc 0"]
          del: ip4_fields.simps)
  next
    case 3
    have e: "n div 100 * 10 + n div 10 mod 10 = n div 10"
      using div_mult_mod_eq [of "n div 10" 10] by (simp add: div_mult2_eq [symmetric])
    have b: "n div 100 < 10" "n div 10 \<le> 255" "n div 100 \<noteq> 0" "n div 10 * 10 + n mod 10 = n"
      using assms 3 by auto
    have "ip4_fields 0 0 fs (Itoa n @ r) =
        ip4_fields (n div 100) 1 fs (digit_char (n div 10 mod 10) # digit_char (n mod 10) # r)"
      using assms 3 b by (simp add: Itoa_cases_256 ip4_fields_digit del: ip4_fields.simps)
    also have "\<dots> = ip4_fields (n div 10) (Suc (Suc 0)) fs (digit_char (n mod 10) # r)"
      using b e by (simp add: ip4_fields_digit del: ip4_fields.simps)
    also have "\<dots> = ip4_fields n (Suc (Suc (Suc 0))) fs r"
      using b assms by (simp add: ip4_fields_digit del: ip4_fields.simps)
    finally show ?thesis using assms 3 by (simp add: Itoa_cases_256 del: ip4_fields.simps)
  qed
qed

lemma string4_parse:
  assumes "length b = 4"
  shows "ParseAddr (string4 b) = Some (Addr4 b)"
proof -
  obtain a1 a2 a3 a4 where b: "b = [a1, a2, a3, a4]"
    using assms by (auto simp: numeral_eq_Suc length_Suc_conv)
  have dispatch: "parse_addr_dispatch s (Itoa n @ CHR ''.'' # r) = map_option Addr4 (parseIPv4Fields s)"
    for s n r
  proof -
    have "parse_addr_dispatch s (w @ CHR ''.'' # r) = map_option Addr4 (parseIPv4Fields s)"
      if "list_all is_digit w" for w
      using that by (induction w) (auto simp: is_digit_def)
    then show ?thesis using Itoa_digits [of n] by blast
  qed
  show ?thesis
    by (simp add: ParseAddr_def string4_def b dispatch ip4_fields_Itoa is_digit_def
        ip4_fields_Itoa [where r = "[]", simplified])
qed

subsection \<open>What parses is an address\<close>

lemma parse6_loop_length:
  "parse6_loop ip ell s = Some (ip', ell', s') \<Longrightarrow> even (length ip) \<Longrightarrow> length ip \<le> 16 \<Longrightarrow> length ip' \<le> 16"
proof (induction ip ell s rule: parse6_loop.induct)
  case (1 ip ell s)
  let ?d = "takeWhile is_hex s" and ?r = "dropWhile is_hex s"
  let ?ip = "ip @ enc16 (hex_number 0 ?d)"
  show ?case
  proof (cases "16 \<le> length ip")
    case True
    then show ?thesis using 1(3,5) by (simp add: parse6_loop.simps)
  next
    case False
    note lt = False
    then have len: "even (length ?ip)" "length ?ip \<le> 16" using 1(4) by auto
    have d: "\<not> (?d = [] \<or> 4 < length ?d)"
      using 1(3) lt by (subst (asm) parse6_loop.simps) (simp add: Let_def split: if_split_asm)
    show ?thesis
    proof (cases "?r \<noteq> [] \<and> hd ?r = CHR ''.''")
      case True
      then show ?thesis using 1(3) lt d
        by (subst (asm) parse6_loop.simps) (auto simp: Let_def split: if_split_asm dest: ip4_fields_length)
    next
      case r: False
      show ?thesis
      proof (cases ?r)
        case Nil
        have "(case ?r of [] \<Rightarrow> Some (?ip, ell, []) | c # t \<Rightarrow> None) = Some (ip', ell', s')"
          using 1(3) lt d r Nil by (subst (asm) parse6_loop.simps) (simp only: Let_def if_False list.case)
        then show ?thesis using Nil len by simp
      next
        case (Cons c t)
        then have "(if c \<noteq> CHR '':'' \<or> t = [] then None
                else if hd t = CHR '':''
                then (if ell \<noteq> None then None
                      else if tl t = [] then Some (?ip, Some (length ?ip), [])
                      else parse6_loop ?ip (Some (length ?ip)) (tl t))
                else parse6_loop ?ip ell t) = Some (ip', ell', s')"
          using 1(3) lt d r by (subst (asm) parse6_loop.simps) (simp add: Let_def)
        then show ?thesis
          using 1(1) [OF lt refl refl d r refl Cons _ _ _ _ _ len] 1(2) [OF lt refl refl d r refl Cons _ _ _ len] len
          by (auto split: if_split_asm)
      qed
    qed
  qed
qed

lemma parse6_finish_valid: "parse6_finish zone (ip, ell, s) = Some a \<Longrightarrow> length ip \<le> 16 \<Longrightarrow> valid_addr a"
  by (auto split: if_split_asm option.split_asm)

lemma parse6_body_valid: "parse6_body s zone = Some a \<Longrightarrow> valid_addr a"
  by (auto simp: parse6_body_def bind_eq_Some_conv split: if_split_asm
      dest!: parse6_loop_length intro: parse6_finish_valid)

lemma ParseAddr_valid: "ParseAddr s = Some a \<Longrightarrow> valid_addr a"
proof -
  have "parse_addr_dispatch s t = Some a \<Longrightarrow> valid_addr a" for t
    by (induction s t rule: parse_addr_dispatch.induct)
       (auto simp: parseIPv6_def split: if_split_asm option.split_asm dest: ip4_fields_length parse6_body_valid)
  then show "ParseAddr s = Some a \<Longrightarrow> valid_addr a" by (simp add: ParseAddr_def)
qed

end
