(* ===== verification/Host_Names.thy ===== *)
theory Host_Names
  imports Netip
begin

text \<open>
  The small parsers and checks of the configuration (config.go, localca.go, config_yaml.go):
  host characters and host names, lists, booleans, ports and host:port targets. The text of an
  error plays no role in what the program does next, so an error here is \<open>None\<close> where it carries
  nothing the callers look at.
\<close>

text \<open>A byte of a host name.\<close>

definition isHostChar :: "char \<Rightarrow> bool" where
  "isHostChar c \<longleftrightarrow>
     (let b = of_char c :: nat in
      97 \<le> b \<and> b \<le> 122 \<or> 65 \<le> b \<and> b \<le> 90 \<or> 48 \<le> b \<and> b \<le> 57)
     \<or> c = CHR ''.'' \<or> c = CHR ''-'' \<or> c = CHR ''_''"

definition validDomain :: "string \<Rightarrow> bool" where
  "validDomain d \<longleftrightarrow>
     \<not> (d = [] \<or> length d > 253 \<or> \<not> Contains d ''.'' \<or> HasPrefix d ''.'' \<or> HasSuffix d ''.''
        \<or> Contains d ''..'')
     \<and> (\<forall>c \<in> set d. isHostChar c \<and> c \<noteq> CHR ''_'')"

definition isHostName :: "string \<Rightarrow> bool" where
  "isHostName d \<longleftrightarrow> ParseAddr d = None \<and> validDomain d"

definition splitList :: "string \<Rightarrow> string list" where
  "splitList v = filter (\<lambda>item. item \<noteq> []) (map TrimSpace (FieldsFunc (\<lambda>r. r = CHR '';'' \<or> r = CHR '','') v))"

definition parseBool :: "string \<Rightarrow> bool option" where
  "parseBool v =
     (let w = ToLower v in
      if w = ''true'' \<or> w = ''yes'' \<or> w = ''on'' then Some True
      else if w = ''false'' \<or> w = ''no'' \<or> w = ''off'' then Some False
      else None)"

definition parsePort :: "string \<Rightarrow> nat option" where
  "parsePort v = (case ParseUint 16 v of None \<Rightarrow> None | Some p \<Rightarrow> if p = 0 then None else Some p)"

text \<open>
  \<open>strings.ReplaceAll(s, `\.`, ".")\<close>: the dot of an escaped pattern stands for itself.
\<close>

fun unescape_dots :: "string \<Rightarrow> string" where
  "unescape_dots (c # d # s) =
     (if c = CHR 0x5C \<and> d = CHR ''.'' then CHR ''.'' # unescape_dots s
      else c # unescape_dots (d # s))"
| "unescape_dots s = s"

definition literalName :: "string \<Rightarrow> string" where
  "literalName pattern = ToLower (unescape_dots (TrimSuffix (TrimPrefix pattern ''^'') ''$''))"

definition literalHost :: "string \<Rightarrow> string \<times> bool" where
  "literalHost pattern =
     (let p = TrimSuffix (TrimPrefix pattern ''^'') ''$'';
          q = ToLower (unescape_dots p)
      in (q, validDomain q))"

text \<open>
  \<open>splitTarget\<close>: an IPv6 host in brackets up to the first \<open>]:\<close>, else the part before the last
  colon, which must hold no other.
\<close>

fun split_bracket :: "string \<Rightarrow> (string \<times> string) option" where
  "split_bracket (c # d # s) =
     (if c = CHR '']'' \<and> d = CHR '':'' then Some ([], s)
      else map_option (\<lambda>(h, p). (c # h, p)) (split_bracket (d # s)))"
| "split_bracket _ = None"

definition split_last :: "char \<Rightarrow> string \<Rightarrow> (string \<times> string) option" where
  "split_last c s =
     (if c \<in> set s
      then let t = takeWhile (\<lambda>d. d \<noteq> c) (rev s)
           in Some (take (length s - length t - 1) s, rev t)
      else None)"

definition splitTarget :: "string \<Rightarrow> (string \<times> string) option" where
  "splitTarget v =
     (if HasPrefix v ''['' then map_option (\<lambda>(h, p). (tl h, p)) (split_bracket v)
      else case split_last (CHR '':'') v of
             None \<Rightarrow> None
           | Some (host, port) \<Rightarrow> if Contains host '':'' then None else Some (host, port))"

subsection \<open>Facts\<close>

lemma isHostChar_lower [simp]: "isHostChar (lower_char c) \<longleftrightarrow> isHostChar c"
proof (cases "65 \<le> (of_char c :: nat) \<and> (of_char c :: nat) \<le> 90")
  case True
  then show ?thesis by (simp add: isHostChar_def of_char_lower_char)
next
  case False
  then have "lower_char c = c" by (auto simp: lower_char_def Let_def)
  then show ?thesis by simp
qed

lemma not_isHostChar [simp]:
  "\<not> isHostChar (CHR ''$'')" "\<not> isHostChar (CHR '':'')" "\<not> isHostChar (CHR ''*'')"
  "\<not> isHostChar (CHR 0x00)" "\<not> isHostChar (CHR '' '')" "\<not> isHostChar (CHR ''%'')"
  "\<not> isHostChar (CHR ''^'')" "\<not> isHostChar (CHR 0x5C)" "\<not> isHostChar (CHR 0x0D)"
  "\<not> isHostChar (CHR 0x0A)"
  by (simp_all add: isHostChar_def)

lemma isHostChar_dot [simp]: "isHostChar (CHR ''.'')"
  by (simp add: isHostChar_def)

lemma isHostChar_digit: "is_digit c \<Longrightarrow> isHostChar c"
  by (auto simp: isHostChar_def is_digit_def)

lemma parsePort_bounds: "parsePort v = Some p \<Longrightarrow> 1 \<le> p \<and> p \<le> 65535"
  by (auto simp: parsePort_def split: option.splits if_splits dest!: ParseUint_bound)

lemma parsePort_Itoa: "1 \<le> p \<Longrightarrow> p \<le> 65535 \<Longrightarrow> parsePort (Itoa p) = Some p"
  by (simp add: parsePort_def ParseUint_Itoa)

lemma validDomain_chars: "validDomain d \<Longrightarrow> c \<in> set d \<Longrightarrow> isHostChar c \<and> c \<noteq> CHR ''_''"
  by (simp add: validDomain_def)

lemma split_last_join: "c \<notin> set p \<Longrightarrow> split_last c (h @ c # p) = Some (h, p)"
proof -
  assume c: "c \<notin> set p"
  have "takeWhile (\<lambda>d. d \<noteq> c) (rev p @ c # rev h) = rev p"
    using c by (subst takeWhile_append2) auto
  then show ?thesis by (simp add: split_last_def Let_def)
qed

lemma splitTarget_join:
  assumes "CHR '':'' \<notin> set h" "CHR ''['' \<notin> set h" "h \<noteq> []"
  shows "splitTarget (h @ CHR '':'' # Itoa p) = Some (h, Itoa p)"
proof -
  have "\<not> HasPrefix (h @ CHR '':'' # Itoa p) ''[''"
    using assms by (cases h) (auto simp: HasPrefix_def)
  with assms show ?thesis
    by (simp add: splitTarget_def split_last_join Itoa_no_sep)
qed

end
