(* ===== verification/Client_Hello.thy ===== *)
theory Client_Hello
  imports Host_Names
begin

text \<open>
  The ClientHello parser of sni.go: record framing (\<open>parseHello\<close>), the bounds-checked cursor,
  and the extensions (\<open>parseExtensions\<close>). A slice that is nil because a read failed is the empty
  list: the code looks at the cursor's \<open>bad\<close> flag, never at the difference. The keyed hash of
  the message (\<open>maphash\<close> with a random seed) is the argument \<open>hash\<close>.
\<close>

definition maxClientHello :: nat where
  "maxClientHello = 64 * 1024"

definition maxClientHelloRecords :: nat where
  "maxClientHelloRecords = 32"

datatype hello_error =
    NeedMore
  | NotHandshakeRecord byte
  | TooManyRecords
  | BadRecordVersion byte byte
  | EmptyRecord
  | HelloTooLarge
  | NotClientHello byte
  | TruncatedHello
  | InvalidSNI bytes

record helloInfo =
  SNI :: string
  SNIIP :: addr
  ALPN :: "string list"
  Digest :: "64 word"

definition empty_info :: helloInfo where
  "empty_info = \<lparr>SNI = [], SNIIP = NoAddr, ALPN = [], Digest = 0\<rparr>"

definition offers :: "helloInfo \<Rightarrow> string \<Rightarrow> bool" where
  "offers h proto \<longleftrightarrow> list_ex (\<lambda>p. p = proto) (ALPN h)"

subsection \<open>The cursor\<close>

record cursor =
  cb :: bytes
  bad :: bool

definition new_cursor :: "bytes \<Rightarrow> cursor" where
  "new_cursor b = \<lparr>cb = b, bad = False\<rparr>"

definition ctake :: "nat \<Rightarrow> cursor \<Rightarrow> bytes \<times> cursor" where
  "ctake n c =
     (if bad c \<or> length (cb c) < n then ([], c\<lparr>bad := True\<rparr>)
      else (take n (cb c), c\<lparr>cb := drop n (cb c)\<rparr>))"

definition cu8 :: "cursor \<Rightarrow> nat \<times> cursor" where
  "cu8 c = (let (b, c') = ctake 1 c in (case b of [] \<Rightarrow> 0 | x # _ \<Rightarrow> unat x, c'))"

definition cu16 :: "cursor \<Rightarrow> nat \<times> cursor" where
  "cu16 c = (let (b, c') = ctake 2 c in (case b of x # y # _ \<Rightarrow> be16 x y | _ \<Rightarrow> 0, c'))"

definition vec8 :: "cursor \<Rightarrow> bytes \<times> cursor" where
  "vec8 c = (let (n, c') = cu8 c in ctake n c')"

definition vec16 :: "cursor \<Rightarrow> bytes \<times> cursor" where
  "vec16 c = (let (n, c') = cu16 c in ctake n c')"

lemma new_cursor_simps [simp]: "cb (new_cursor b) = b" "bad (new_cursor b) = False"
  by (simp_all add: new_cursor_def)

lemma ctake_ok [simp]: "ctake (length b) \<lparr>cb = b @ r, bad = False\<rparr> = (b, \<lparr>cb = r, bad = False\<rparr>)"
  by (simp add: ctake_def)

lemma ctake_length: "length (cb (snd (ctake n c))) \<le> length (cb c)"
  by (simp add: ctake_def)

lemma cu8_length: "length (cb (snd (cu8 c))) \<le> length (cb c)"
  by (simp add: cu8_def split_beta ctake_length)

lemma cu16_length: "length (cb (snd (cu16 c))) \<le> length (cb c)"
  by (simp add: cu16_def split_beta ctake_length)

lemma vec8_length: "length (cb (snd (vec8 c))) \<le> length (cb c)"
  by (simp add: vec8_def split_beta) (meson ctake_length cu8_length le_trans)

lemma vec16_length: "length (cb (snd (vec16 c))) \<le> length (cb c)"
  by (simp add: vec16_def split_beta) (meson ctake_length cu16_length le_trans)

lemma cu8_shorter: "cb c \<noteq> [] \<Longrightarrow> \<not> bad (snd (cu8 c)) \<Longrightarrow> length (cb (snd (cu8 c))) < length (cb c)"
  by (auto simp: cu8_def ctake_def split_beta split: if_splits)

lemma cu16_shorter: "cb c \<noteq> [] \<Longrightarrow> \<not> bad (snd (cu16 c)) \<Longrightarrow> length (cb (snd (cu16 c))) < length (cb c)"
  by (auto simp: cu16_def ctake_def split_beta split: if_splits)

lemma ctake_bad: "bad c \<Longrightarrow> bad (snd (ctake n c))"
  by (simp add: ctake_def)

lemma vec8_bad: "bad c \<Longrightarrow> bad (snd (vec8 c))"
  by (simp add: vec8_def cu8_def ctake_def)

lemma vec16_bad: "bad c \<Longrightarrow> bad (snd (vec16 c))"
  by (simp add: vec16_def cu16_def ctake_def)

subsection \<open>Extensions\<close>

text \<open>
  The loop over the names of a server_name extension. The result is the name list's cursor when
  the loop ends, and what the loop found: nothing, an IP address, or a host name.
\<close>

datatype sni_found = NoName | IPName addr | HostName string

function sni_names :: "cursor \<Rightarrow> (hello_error, sni_found \<times> cursor) result" where
  "sni_names names =
     (if cb names = [] then Inr (NoName, names)
      else let (nameType, n1) = cu8 names; (name, n2) = vec16 n1 in
        if bad n2 then Inr (NoName, n2)
        else if nameType \<noteq> 0 then sni_names n2
        else if length name = 0 \<or> length name > 253 then Inl (InvalidSNI name)
        else (case ParseAddr (string_of_bytes name) of
                Some ip \<Rightarrow>
                  if Zone ip = [] then Inr (IPName (Unmap ip), n2)
                  else if list_all isHostChar (string_of_bytes name)
                       then Inr (HostName (ToLower (string_of_bytes name)), n2)
                       else Inl (InvalidSNI name)
              | None \<Rightarrow>
                  if list_all isHostChar (string_of_bytes name)
                  then Inr (HostName (ToLower (string_of_bytes name)), n2)
                  else Inl (InvalidSNI name)))"
  by pat_completeness auto
termination
proof (relation "measure (\<lambda>c. length (cb c))", goal_cases)
  case 1
  then show ?case by simp
next
  case (2 names p1 nameType n1 p2 name n2)
  then have n1: "n1 = snd (cu8 names)" and n2: "n2 = snd (vec16 n1)"
    by (metis snd_conv)+
  have "\<not> bad n1" using 2 n2 vec16_bad by auto
  then have "length (cb n1) < length (cb names)"
    using 2 n1 cu8_shorter by blast
  moreover have "length (cb n2) \<le> length (cb n1)" using n2 vec16_length by simp
  ultimately show ?case by simp
qed

declare sni_names.simps [simp del]

text \<open>The loop over the protocols of an ALPN extension: those read, and the list's cursor.\<close>

function alpn_protos :: "string list \<Rightarrow> cursor \<Rightarrow> string list \<times> cursor" where
  "alpn_protos acc protos =
     (if cb protos = [] then (acc, protos)
      else let (p, c) = vec8 protos in
        if bad c then (acc, c) else alpn_protos (acc @ [string_of_bytes p]) c)"
  by pat_completeness auto
termination
proof (relation "measure (\<lambda>(acc, c). length (cb c))", goal_cases)
  case 1
  then show ?case by simp
next
  case (2 acc protos v p c)
  then have c: "c = snd (vec8 protos)" by (metis snd_conv)
  have "\<not> bad (snd (cu8 protos))"
    using 2 c by (auto simp: vec8_def split_beta dest: ctake_bad)
  then have "length (cb (snd (cu8 protos))) < length (cb protos)"
    using 2 cu8_shorter by blast
  moreover have "length (cb c) \<le> length (cb (snd (cu8 protos)))"
    using c by (simp add: vec8_def split_beta ctake_length)
  ultimately show ?case by simp
qed

declare alpn_protos.simps [simp del]

text \<open>One server_name extension that is the first of its kind.\<close>

definition server_name_ext :: "bytes \<Rightarrow> helloInfo \<Rightarrow> (hello_error, helloInfo) result" where
  "server_name_ext data info =
     (let (nb, list) = vec16 (new_cursor data) in
      case (if bad list then Inr (NoName, new_cursor nb) else sni_names (new_cursor nb)) of
        Inl e \<Rightarrow> Inl e
      | Inr (found, names) \<Rightarrow>
          (if bad list \<or> bad names then Inl TruncatedHello
           else Inr (case found of
                       NoName \<Rightarrow> info
                     | IPName ip \<Rightarrow> info\<lparr>SNIIP := ip\<rparr>
                     | HostName h \<Rightarrow> info\<lparr>SNI := h\<rparr>)))"

definition alpn_ext :: "bytes \<Rightarrow> helloInfo \<Rightarrow> (hello_error, helloInfo) result" where
  "alpn_ext data info =
     (let (pb, list) = vec16 (new_cursor data);
          (ps, protos) = (if bad list then (ALPN info, new_cursor pb)
                          else alpn_protos (ALPN info) (new_cursor pb))
      in if bad list \<or> bad protos then Inl TruncatedHello else Inr (info\<lparr>ALPN := ps\<rparr>))"

text \<open>The switch on an extension's type: whether a server_name has been seen, and the info so far.\<close>

definition ext_step ::
  "nat \<Rightarrow> bytes \<Rightarrow> bool \<Rightarrow> helloInfo \<Rightarrow> (hello_error, bool \<times> helloInfo) result" where
  "ext_step typ data seenSNI info =
     (if typ = 0
      then (if seenSNI then Inr (seenSNI, info)
            else map_sum id (\<lambda>i. (True, i)) (server_name_ext data info))
      else if typ = 16 then map_sum id (\<lambda>i. (seenSNI, i)) (alpn_ext data info)
      else Inr (seenSNI, info))"

function ext_loop :: "cursor \<Rightarrow> bool \<Rightarrow> helloInfo \<Rightarrow> (hello_error, helloInfo) result" where
  "ext_loop exts seenSNI info =
     (if cb exts = [] then Inr info
      else let (typ, e1) = cu16 exts; (data, e2) = vec16 e1 in
        if bad e2 then Inl TruncatedHello
        else case ext_step typ data seenSNI info of
               Inl e \<Rightarrow> Inl e
             | Inr (seen', info') \<Rightarrow> ext_loop e2 seen' info')"
  by pat_completeness auto

lemma ext_progress:
  assumes "cb exts \<noteq> []" "(typ, e1) = cu16 exts" "(data, e2) = vec16 e1" "\<not> bad e2"
  shows "length (cb e2) < length (cb exts)"
proof -
  have e1: "e1 = snd (cu16 exts)" and e2: "e2 = snd (vec16 e1)"
    using assms by (metis snd_conv)+
  have "\<not> bad e1" using assms e2 vec16_bad by auto
  then have "length (cb e1) < length (cb exts)" using assms e1 cu16_shorter by blast
  moreover have "length (cb e2) \<le> length (cb e1)" using e2 vec16_length by simp
  ultimately show ?thesis by simp
qed

termination ext_loop
  by (relation "measure (\<lambda>(e, s, i). length (cb e))") (auto dest: ext_progress)

declare ext_loop.simps [simp del]

definition parseExtensions :: "bytes \<Rightarrow> (hello_error, helloInfo) result" where
  "parseExtensions body =
     (let c0 = new_cursor body;
          (_, c1) = ctake 2 c0;
          (_, c2) = ctake 32 c1;
          (_, c3) = vec8 c2;
          (_, c4) = vec16 c3;
          (_, c5) = vec8 c4
      in if bad c5 then Inl TruncatedHello
         else if length (cb c5) = 0 then Inr empty_info
         else let (eb, c6) = vec16 c5
              in if bad c6 then Inl TruncatedHello else ext_loop (new_cursor eb) False empty_info)"

subsection \<open>Records\<close>

text \<open>
  What the top of the loop of \<open>parseHello\<close> says of the handshake bytes gathered so far: nothing
  yet, or the final answer.
\<close>

definition hello_complete ::
  "(bytes \<Rightarrow> 64 word) \<Rightarrow> bytes \<Rightarrow> (hello_error, helloInfo) result option" where
  "hello_complete hash handshake =
     (if 4 \<le> length handshake
      then if handshake ! 0 \<noteq> 1 then Some (Inl (NotClientHello (handshake ! 0)))
           else let msgLen = be24 (handshake ! 1) (handshake ! 2) (handshake ! 3) in
             if 4 + msgLen > maxClientHello then Some (Inl HelloTooLarge)
             else if length handshake \<ge> 4 + msgLen
             then Some (case parseExtensions (take msgLen (drop 4 handshake)) of
                          Inl e \<Rightarrow> Inl e
                        | Inr info \<Rightarrow> Inr (info\<lparr>Digest := hash (take (4 + msgLen) handshake)\<rparr>))
             else None
      else None)"

function hello_loop ::
  "(bytes \<Rightarrow> 64 word) \<Rightarrow> nat \<Rightarrow> nat \<Rightarrow> bytes \<Rightarrow> bytes \<Rightarrow> (hello_error, helloInfo) result" where
  "hello_loop hash dlen records handshake rest =
     (case hello_complete hash handshake of
        Some r \<Rightarrow> r
      | None \<Rightarrow>
          (if length rest < 5
           then (if length rest > 0 \<and> rest ! 0 \<noteq> 0x16 then Inl (NotHandshakeRecord (rest ! 0))
                 else Inl NeedMore)
           else if rest ! 0 \<noteq> 0x16 then Inl (NotHandshakeRecord (rest ! 0))
           else if records \<ge> maxClientHelloRecords then Inl TooManyRecords
           else if rest ! 1 \<noteq> 3 then Inl (BadRecordVersion (rest ! 1) (rest ! 2))
           else let n = be16 (rest ! 3) (rest ! 4) in
             if n = 0 then Inl EmptyRecord
             else if dlen - length rest + 5 + n > maxClientHello then Inl HelloTooLarge
             else if length rest < 5 + n then Inl NeedMore
             else hello_loop hash dlen (records + 1)
                    (if records = 0 then take n (drop 5 rest) else handshake @ take n (drop 5 rest))
                    (drop (5 + n) rest)))"
  by pat_completeness auto
termination
  by (relation "measure (\<lambda>(h, t, r, hs, rest). length rest)") auto

declare hello_loop.simps [simp del]

definition parseHello :: "(bytes \<Rightarrow> 64 word) \<Rightarrow> bytes \<Rightarrow> (hello_error, helloInfo) result" where
  "parseHello hash data = hello_loop hash (length data) 0 [] data"

definition parseClientHello :: "(bytes \<Rightarrow> 64 word) \<Rightarrow> bytes \<Rightarrow> (hello_error, string) result" where
  "parseClientHello hash data =
     (case parseHello hash data of Inl e \<Rightarrow> Inl e | Inr h \<Rightarrow> Inr (SNI h))"

end
