(* ===== verification/Read_Hello.thy ===== *)
theory Read_Hello
  imports Client_Hello_Props
begin

text \<open>
  \<open>readHello\<close> of proxy.go: the ClientHello is read from the connection as it arrives, with the
  record framing scanned incrementally, so that the full parser runs once, on complete input.
  The connection is the list of segments the network delivers and the error its last read
  returns; a read hands over at most as many bytes as the buffer has room for.

  The main result is that the incremental reader is the whole-input parser: however the bytes
  are segmented and however large the first buffer is, the outcome is that of \<open>parseHello\<close> on
  all of them, with the read error where that asks for more.
\<close>

datatype read_end = EOF | ReadTimeout | ReadFault string

datatype read_error = HelloErr hello_error | ClosedEarly | ReadErr read_end

text \<open>What the last read's error becomes: an end of file is reported in words of its own.\<close>

fun end_error :: "read_end \<Rightarrow> read_error" where
  "end_error EOF = ClosedEarly"
| "end_error e = ReadErr e"

fun conn_read :: "nat \<Rightarrow> bytes list \<Rightarrow> bytes \<times> bytes list" where
  "conn_read room [] = ([], [])"
| "conn_read room (s # ss) = (if length s \<le> room then (s, ss) else (take room s, drop room s # ss))"

text \<open>
  The framing state kept across reads. \<open>hdr\<close> holds the bytes copied into the 4-byte header so
  far, so \<open>headerBytes\<close> is its length; \<open>helloBytes\<close> is -1 until the header is complete.
\<close>

record scan =
  scanAt :: nat
  nrecords :: nat
  handshakeBytes :: nat
  hdr :: bytes
  helloBytes :: int

definition scan_start :: scan where
  "scan_start = \<lparr>scanAt = 0, nrecords = 0, handshakeBytes = 0, hdr = [], helloBytes = -1\<rparr>"

datatype scan_out = Answer "(hello_error, helloInfo) result" | Continue scan

text \<open>
  One complete record's payload enters the framing state: \<open>Inl\<close> when its header bytes already
  refuse the message, \<open>Inr\<close> with the new header, message size and payload count otherwise.
\<close>

definition scan_payload :: "bytes \<Rightarrow> scan \<Rightarrow> (hello_error, scan) result" where
  "scan_payload payload sc =
     (let hdr' = (if length (hdr sc) < 4 then hdr sc @ take (4 - length (hdr sc)) payload else hdr sc);
          filled = length (hdr sc) < 4 \<and> length hdr' = 4
      in if filled \<and> hdr' ! 0 \<noteq> 1 then Inl (NotClientHello (hdr' ! 0))
         else let hb = (if filled then int (4 + be24 (hdr' ! 1) (hdr' ! 2) (hdr' ! 3)) else helloBytes sc)
           in if filled \<and> hb > int maxClientHello then Inl HelloTooLarge
              else Inr (sc\<lparr>hdr := hdr', helloBytes := hb,
                           handshakeBytes := handshakeBytes sc + length payload\<rparr>))"

function scan_loop :: "(bytes \<Rightarrow> 64 word) \<Rightarrow> bytes \<Rightarrow> scan \<Rightarrow> scan_out" where
  "scan_loop hash data sc =
     (if length data - scanAt sc < 5
      then (if length data > scanAt sc \<and> data ! scanAt sc \<noteq> 0x16
            then Answer (Inl (NotHandshakeRecord (data ! scanAt sc)))
            else Continue sc)
      else if data ! scanAt sc \<noteq> 0x16 then Answer (Inl (NotHandshakeRecord (data ! scanAt sc)))
      else if nrecords sc \<ge> maxClientHelloRecords then Answer (Inl TooManyRecords)
      else if data ! (scanAt sc + 1) \<noteq> 3
      then Answer (Inl (BadRecordVersion (data ! (scanAt sc + 1)) (data ! (scanAt sc + 2))))
      else let recordBytes = be16 (data ! (scanAt sc + 3)) (data ! (scanAt sc + 4));
               recordEnd = scanAt sc + 5 + recordBytes
        in if recordBytes = 0 then Answer (Inl EmptyRecord)
           else if recordEnd > maxClientHello then Answer (Inl HelloTooLarge)
           else if length data < recordEnd then Continue sc
           else case scan_payload (take recordBytes (drop (scanAt sc + 5) data)) sc of
                  Inl e \<Rightarrow> Answer (Inl e)
                | Inr sc' \<Rightarrow>
                    (if helloBytes sc' \<ge> 0 \<and> int (handshakeBytes sc') \<ge> helloBytes sc'
                     then Answer (parseHello hash data)
                     else scan_loop hash data (sc'\<lparr>scanAt := recordEnd, nrecords := nrecords sc + 1\<rparr>)))"
  by pat_completeness auto
termination
  by (relation "measure (\<lambda>(hash, data, sc). length data - scanAt sc)") auto

declare scan_loop.simps [simp del]

text \<open>
  The read loop. The buffer's capacity is \<open>length data + room\<close>; a full buffer is replaced by one
  of \<open>2 * capacity + 4096\<close> bytes, unless it is already larger than any ClientHello.
\<close>

function read_loop ::
  "(bytes \<Rightarrow> 64 word) \<Rightarrow> read_end \<Rightarrow> nat \<Rightarrow> bytes \<Rightarrow> scan \<Rightarrow> bytes list \<Rightarrow>
   (read_error, helloInfo) result \<times> bytes" where
  "read_loop hash rerr room data sc segs =
     (if room = 0 \<and> length data > maxClientHello + 16 then (Inl (HelloErr HelloTooLarge), data)
      else let room1 = (if room = 0 then 2 * length data + 4096 - length data else room) in
        case segs of
          [] \<Rightarrow> (Inl (end_error rerr), data)
        | s # ss \<Rightarrow>
            (let (b, segs') = conn_read room1 (s # ss); data' = data @ b; room2 = room1 - length b in
             if b = [] then read_loop hash rerr room2 data' sc segs'
             else case scan_loop hash data' sc of
                    Answer (Inl e) \<Rightarrow> (Inl (HelloErr e), data')
                  | Answer (Inr info) \<Rightarrow> (Inr info, data')
                  | Continue sc' \<Rightarrow> read_loop hash rerr room2 data' sc' segs'))"
  by pat_completeness auto

lemma conn_read_measure:
  "0 < room \<Longrightarrow> (b, segs') = conn_read room (s # ss) \<Longrightarrow>
   sum_list (map length segs') + length segs' < sum_list (map length (s # ss)) + length (s # ss)"
  by (auto split: if_splits)

lemma bigger_buffer_pos: "0 < (if room = 0 then 2 * n + 4096 - n else (room :: nat))"
  by simp

termination read_loop
  by (relation "measure (\<lambda>(h, r, room, data, sc, segs). sum_list (map length segs) + length segs)")
    (auto simp del: conn_read.simps dest!: conn_read_measure [OF bigger_buffer_pos] simp: Let_def)

declare read_loop.simps [simp del]

definition readHello ::
  "(bytes \<Rightarrow> 64 word) \<Rightarrow> nat \<Rightarrow> read_end \<Rightarrow> bytes list \<Rightarrow> (read_error, helloInfo) result \<times> bytes" where
  "readHello hash bufcap rerr segs = read_loop hash rerr bufcap [] scan_start segs"

subsection \<open>The framing state describes the parser's\<close>

text \<open>
  After the records before \<open>scanAt\<close>, the parser would stand at the same place with the handshake
  bytes \<open>hs\<close>, on this input and on every extension of it.
\<close>

definition scan_inv :: "(bytes \<Rightarrow> 64 word) \<Rightarrow> bytes \<Rightarrow> scan \<Rightarrow> bytes \<Rightarrow> bool" where
  "scan_inv hash data sc hs \<longleftrightarrow>
     scanAt sc \<le> length data \<and> scanAt sc \<le> maxClientHello
     \<and> handshakeBytes sc = length hs \<and> hdr sc = take 4 hs \<and> (nrecords sc = 0 \<longrightarrow> hs = [])
     \<and> helloBytes sc = (if 4 \<le> length hs then int (4 + be24 (hs ! 1) (hs ! 2) (hs ! 3)) else -1)
     \<and> hello_complete hash hs = None
     \<and> (\<forall>extra. parseHello hash (data @ extra) =
          hello_loop hash (length (data @ extra)) (nrecords sc) hs (drop (scanAt sc) data @ extra))"

lemma scan_inv_start: "scan_inv hash [] scan_start []"
  by (simp add: scan_inv_def scan_start_def hello_complete_def parseHello_def)

lemma scan_inv_append:
  assumes "scan_inv hash data sc hs"
  shows "scan_inv hash (data @ b) sc hs"
proof -
  have "drop (scanAt sc) (data @ b) @ extra = drop (scanAt sc) data @ b @ extra" for extra
    using assms by (simp add: scan_inv_def)
  then show ?thesis using assms by (simp add: scan_inv_def)
qed

lemma hello_complete_None_iff:
  "hello_complete hash hs = None \<longleftrightarrow>
     length hs < 4 \<or> hs ! 0 = 1 \<and> 4 + be24 (hs ! 1) (hs ! 2) (hs ! 3) \<le> maxClientHello
       \<and> length hs < 4 + be24 (hs ! 1) (hs ! 2) (hs ! 3)"
  by (auto simp: hello_complete_def Let_def)

lemma scan_payload_spec:
  assumes "hdr sc = take 4 hs" "handshakeBytes sc = length hs"
    and "helloBytes sc = (if 4 \<le> length hs then int (4 + be24 (hs ! 1) (hs ! 2) (hs ! 3)) else -1)"
    and "hello_complete hash hs = None"
  shows "case scan_payload payload sc of
      Inl e \<Rightarrow> hello_complete hash (hs @ payload) = Some (Inl e)
    | Inr sc' \<Rightarrow> sc' = sc\<lparr>hdr := take 4 (hs @ payload), handshakeBytes := length (hs @ payload),
        helloBytes := (if 4 \<le> length (hs @ payload)
          then int (4 + be24 ((hs @ payload) ! 1) ((hs @ payload) ! 2) ((hs @ payload) ! 3)) else -1)\<rparr>
        \<and> (hello_complete hash (hs @ payload) = None \<longleftrightarrow>
            \<not> (helloBytes sc' \<ge> 0 \<and> int (handshakeBytes sc') \<ge> helloBytes sc'))"
proof (cases "4 \<le> length hs")
  case True
  then have "(hs @ payload) ! i = hs ! i" if "i < 4" for i
    using that by (simp add: nth_append)
  then show ?thesis
    using True assms by (auto simp: scan_payload_def hello_complete_None_iff Let_def)
next
  case False
  let ?hs = "hs @ payload"
  have h: "(if length (hdr sc) < 4 then hdr sc @ take (4 - length (hdr sc)) payload else hdr sc) = take 4 ?hs"
    using assms(1) False by simp
  have nth: "take 4 ?hs ! i = ?hs ! i" if "i < 4" for i using that by (rule nth_take)
  show ?thesis
  proof (cases "4 \<le> length ?hs")
    case long: True
    then have "length (take 4 ?hs) = 4" by simp
    then show ?thesis
      using False long assms h nth [of 0] nth [of 1] nth [of 2] nth [of 3]
      by (auto simp: scan_payload_def hello_complete_None_iff Let_def hello_complete_def
          simp del: take_append nth_take)
  next
    case short: False
    then show ?thesis
      using False assms h by (auto simp: scan_payload_def hello_complete_None_iff Let_def)
  qed
qed

text \<open>One turn of the parser's loop at the scanner's place, with the next record complete.\<close>

lemma hello_loop_record:
  assumes inv: "scan_inv hash data sc hs"
    and at: "5 \<le> length data - scanAt sc" "data ! scanAt sc = 0x16" "data ! (scanAt sc + 1) = 3"
    and few: "nrecords sc < maxClientHelloRecords"
    and n: "n = be16 (data ! (scanAt sc + 3)) (data ! (scanAt sc + 4))" "0 < n"
    and fits: "scanAt sc + 5 + n \<le> maxClientHello" "scanAt sc + 5 + n \<le> length data"
  shows "parseHello hash (data @ extra) =
    hello_loop hash (length (data @ extra)) (nrecords sc + 1)
      (hs @ take n (drop (scanAt sc + 5) data)) (drop (scanAt sc + 5 + n) data @ extra)"
proof -
  let ?r = "drop (scanAt sc) data @ extra"
  have nths: "?r ! i = data ! (scanAt sc + i)" if "i < 5" for i
    using at(1) that by (simp add: nth_append)
  have len: "length (data @ extra) - length ?r = scanAt sc" "5 + n \<le> length ?r"
    using inv fits by (auto simp: scan_inv_def)
  have pay: "take n (drop 5 ?r) = take n (drop (scanAt sc + 5) data)"
    using fits at(1) by (simp add: add.commute)
  have rest: "drop (5 + n) ?r = drop (scanAt sc + 5 + n) data @ extra"
    using fits(2) by (simp add: add.commute add.left_commute)
  have first: "(if nrecords sc = 0 then x else hs @ x) = hs @ x" for x
    using inv by (simp add: scan_inv_def)
  have "parseHello hash (data @ extra) =
      hello_loop hash (length (data @ extra)) (nrecords sc) hs ?r"
    and none: "hello_complete hash hs = None"
    using inv by (simp_all add: scan_inv_def)
  moreover have "?r ! 0 = 0x16" "?r ! 1 = 3" "be16 (?r ! 3) (?r ! 4) = n" "5 \<le> length ?r"
    using nths [of 0] nths [of 1] nths [of 3] nths [of 4] at n(1) by simp_all
  moreover have "hello_loop hash (length (data @ extra)) (nrecords sc) hs ?r =
      hello_loop hash (length (data @ extra)) (nrecords sc + 1)
        (hs @ take n (drop (scanAt sc + 5) data)) (drop (scanAt sc + 5 + n) data @ extra)"
    by (subst hello_loop.simps)
      (use calculation none few n(2) fits(1) len in
        \<open>simp only: pay rest first Let_def, simp\<close>)
  ultimately show ?thesis by simp
qed

lemma parseHello_at:
  assumes "scan_inv hash data sc hs"
  shows "parseHello hash data =
    hello_loop hash (length data) (nrecords sc) hs (drop (scanAt sc) data)"
  using assms unfolding scan_inv_def by (metis append_Nil2)

text \<open>What a scan that stops for more bytes, or answers, says of the parser.\<close>

definition scan_ok :: "(bytes \<Rightarrow> 64 word) \<Rightarrow> bytes \<Rightarrow> scan_out \<Rightarrow> bool" where
  "scan_ok hash data out = (case out of
      Answer r \<Rightarrow> parseHello hash data = r \<and> r \<noteq> Inl NeedMore
    | Continue sc \<Rightarrow> (\<exists>hs. scan_inv hash data sc hs) \<and> parseHello hash data = Inl NeedMore
        \<and> length data < maxClientHello + 5)"

text \<open>The next record is there in full and its header is acceptable.\<close>

abbreviation record_size :: "bytes \<Rightarrow> scan \<Rightarrow> nat" where
  "record_size data sc \<equiv> be16 (data ! (scanAt sc + 3)) (data ! (scanAt sc + 4))"

abbreviation record_ready :: "bytes \<Rightarrow> scan \<Rightarrow> bool" where
  "record_ready data sc \<equiv> 5 \<le> length data - scanAt sc \<and> data ! scanAt sc = 0x16 \<and>
     nrecords sc < maxClientHelloRecords \<and> data ! (scanAt sc + 1) = 3 \<and>
     0 < record_size data sc \<and> scanAt sc + 5 + record_size data sc \<le> maxClientHello \<and>
     scanAt sc + 5 + record_size data sc \<le> length data"

lemma scan_loop_stop:
  assumes inv: "scan_inv hash data sc hs" and stop: "\<not> record_ready data sc"
  shows "scan_ok hash data (scan_loop hash data sc)"
proof -
  let ?r = "drop (scanAt sc) data"
  have le: "scanAt sc \<le> length data" "scanAt sc \<le> maxClientHello"
    and none: "hello_complete hash hs = None" using inv by (auto simp: scan_inv_def)
  have nths: "?r ! 0 = data ! scanAt sc" "?r ! 1 = data ! (scanAt sc + 1)"
    "?r ! 2 = data ! (scanAt sc + 2)" "?r ! 3 = data ! (scanAt sc + 3)"
    "?r ! 4 = data ! (scanAt sc + 4)" using le by simp_all
  have len: "length ?r = length data - scanAt sc" by simp
  have at: "length data - (length data - scanAt sc) = scanAt sc" using le by simp
  have room: "length data - scanAt sc < 5 + n \<longleftrightarrow> length data < scanAt sc + 5 + n" for n
    using le by arith
  have ex: "\<exists>hs. scan_inv hash data sc hs" using inv by blast
  have parse: "parseHello hash data = (if length data - scanAt sc < 5
      then (if length data - scanAt sc > 0 \<and> data ! scanAt sc \<noteq> 0x16
            then Inl (NotHandshakeRecord (data ! scanAt sc)) else Inl NeedMore)
      else if data ! scanAt sc \<noteq> 0x16 then Inl (NotHandshakeRecord (data ! scanAt sc))
      else if nrecords sc \<ge> maxClientHelloRecords then Inl TooManyRecords
      else if data ! (scanAt sc + 1) \<noteq> 3
      then Inl (BadRecordVersion (data ! (scanAt sc + 1)) (data ! (scanAt sc + 2)))
      else if record_size data sc = 0 then Inl EmptyRecord
      else if scanAt sc + 5 + record_size data sc > maxClientHello then Inl HelloTooLarge
      else Inl NeedMore)"
    using stop
    by (simp only: parseHello_at [OF inv] hello_loop.simps [of hash "length data" "nrecords sc" hs ?r]
        none option.case nths len at room Let_def)
      (auto simp add: not_less not_le)
  have small: "length data - scanAt sc < 5 \<Longrightarrow> length data < maxClientHello + 5"
    "scanAt sc + 5 + n \<le> maxClientHello \<Longrightarrow> length data < scanAt sc + 5 + n \<Longrightarrow>
     length data < maxClientHello + 5" for n
    using le by simp_all
  show ?thesis
    unfolding scan_ok_def parse scan_loop.simps [of hash data sc] Let_def
    using stop ex small by (auto simp: not_less not_le)
qed

lemma scan_loop_ready:
  "record_ready data sc \<Longrightarrow> scan_loop hash data sc =
     (case scan_payload (take (record_size data sc) (drop (scanAt sc + 5) data)) sc of
        Inl e \<Rightarrow> Answer (Inl e)
      | Inr sc' \<Rightarrow> (if helloBytes sc' \<ge> 0 \<and> int (handshakeBytes sc') \<ge> helloBytes sc'
          then Answer (parseHello hash data)
          else scan_loop hash data
            (sc'\<lparr>scanAt := scanAt sc + 5 + record_size data sc, nrecords := nrecords sc + 1\<rparr>)))"
  by (simp add: scan_loop.simps [of hash data sc] Let_def)

text \<open>Either the message is complete, or the framing state moves on by the record.\<close>

lemma scan_record:
  assumes inv: "scan_inv hash data sc hs" and ready: "record_ready data sc"
  defines "payload \<equiv> take (record_size data sc) (drop (scanAt sc + 5) data)"
  shows "case scan_payload payload sc of
      Inl e \<Rightarrow> parseHello hash data = Inl e \<and> e \<noteq> NeedMore
    | Inr sc' \<Rightarrow>
        (if helloBytes sc' \<ge> 0 \<and> int (handshakeBytes sc') \<ge> helloBytes sc'
         then parseHello hash data \<noteq> Inl NeedMore
         else scan_inv hash data
           (sc'\<lparr>scanAt := scanAt sc + 5 + record_size data sc, nrecords := nrecords sc + 1\<rparr>)
           (hs @ payload))"
proof -
  let ?hs = "hs @ payload"
  have step: "parseHello hash (data @ extra) = hello_loop hash (length (data @ extra))
      (nrecords sc + 1) ?hs (drop (scanAt sc + 5 + record_size data sc) data @ extra)" for extra
    using hello_loop_record [OF inv _ _ _ _ refl] ready unfolding payload_def by blast
  have final: "parseHello hash data = r" if "hello_complete hash ?hs = Some r" for r
    using step [of "[]"] that by (simp add: hello_loop.simps [of hash _ _ ?hs])
  have "hdr sc = take 4 hs" "handshakeBytes sc = length hs"
    "helloBytes sc = (if 4 \<le> length hs then int (4 + be24 (hs ! 1) (hs ! 2) (hs ! 3)) else -1)"
    "hello_complete hash hs = None"
    using inv unfolding scan_inv_def by blast+
  note spec = scan_payload_spec [OF this, of payload]
  show ?thesis
  proof (cases "scan_payload payload sc")
    case (Inl e)
    then have "hello_complete hash ?hs = Some (Inl e)" using spec by simp
    then show ?thesis using final hello_complete_final Inl by fastforce
  next
    case (Inr sc')
    then have sc': "sc' = sc\<lparr>hdr := take 4 ?hs, handshakeBytes := length ?hs,
        helloBytes := (if 4 \<le> length ?hs
          then int (4 + be24 (?hs ! 1) (?hs ! 2) (?hs ! 3)) else -1)\<rparr>"
      and fin: "hello_complete hash ?hs = None \<longleftrightarrow>
        \<not> (helloBytes sc' \<ge> 0 \<and> int (handshakeBytes sc') \<ge> helloBytes sc')"
      using spec by simp_all
    show ?thesis
    proof (cases "hello_complete hash ?hs")
      case (Some r)
      then show ?thesis using final [OF Some] hello_complete_final [OF Some] fin Inr by simp
    next
      case None
      have "scan_inv hash data
          (sc'\<lparr>scanAt := scanAt sc + 5 + record_size data sc, nrecords := nrecords sc + 1\<rparr>) ?hs"
        using None step ready unfolding scan_inv_def sc' by (simp del: append_assoc take_append)
      then show ?thesis unfolding Inr using None fin by (simp only: sum.case if_False simp_thms)
    qed
  qed
qed

lemma scan_loop_ok:
  assumes "scan_inv hash data sc hs"
  shows "scan_ok hash data (scan_loop hash data sc)"
  using assms
proof (induction hash data sc arbitrary: hs rule: scan_loop.induct)
  case (1 hash data sc)
  show ?case
  proof (cases "record_ready data sc")
    case False
    then show ?thesis by (rule scan_loop_stop [OF "1.prems"])
  next
    case True
    note rec = scan_record [OF "1.prems" True]
    show ?thesis
    proof (cases "scan_payload (take (record_size data sc) (drop (scanAt sc + 5) data)) sc")
      case (Inl e)
      then show ?thesis using rec by (simp add: scan_loop_ready [OF True] scan_ok_def)
    next
      case (Inr sc')
      show ?thesis
      proof (cases "helloBytes sc' \<ge> 0 \<and> int (handshakeBytes sc') \<ge> helloBytes sc'")
        case enough: True
        then show ?thesis using rec Inr by (simp add: scan_loop_ready [OF True] scan_ok_def)
      next
        case more: False
        then have "scan_inv hash data
            (sc'\<lparr>scanAt := scanAt sc + 5 + record_size data sc, nrecords := nrecords sc + 1\<rparr>)
            (hs @ take (record_size data sc) (drop (scanAt sc + 5) data))"
          using rec unfolding Inr by (simp only: sum.case more if_False)
        with True more Inr show ?thesis
          using "1.IH" [OF _ _ _ _ refl refl] by (auto simp: scan_loop_ready [OF True])
      qed
    qed
  qed
qed

subsection \<open>The read loop\<close>

text \<open>The bytes of a conversation, and what one read leaves of them.\<close>

lemma conn_read_concat: "conn_read room segs = (b, segs') \<Longrightarrow> b @ concat segs' = concat segs"
  by (cases segs) (auto split: if_splits)

lemma conn_read_le: "conn_read room segs = (b, segs') \<Longrightarrow> length b \<le> room"
  by (cases segs) (auto split: if_splits)

text \<open>The outcome \<open>parseHello\<close> gives for the bytes that arrive.\<close>

definition hello_outcome ::
  "(bytes \<Rightarrow> 64 word) \<Rightarrow> read_end \<Rightarrow> bytes \<Rightarrow> (read_error, helloInfo) result" where
  "hello_outcome hash rerr input = (case parseHello hash input of
      Inl NeedMore \<Rightarrow> Inl (end_error rerr)
    | Inl e \<Rightarrow> Inl (HelloErr e)
    | Inr info \<Rightarrow> Inr info)"

lemma hello_outcome_final:
  assumes "parseHello hash data = r" "r \<noteq> Inl NeedMore"
  shows "hello_outcome hash rerr (data @ extra) =
    (case r of Inl e \<Rightarrow> Inl (HelloErr e) | Inr info \<Rightarrow> Inr info)"
  using assms parseHello_final [of hash data extra]
  by (auto simp: hello_outcome_def split: sum.splits hello_error.splits)

lemma read_loop_spec:
  assumes "scan_inv hash data sc hs" "parseHello hash data = Inl NeedMore"
    and "length data < maxClientHello + 5"
  shows "fst (read_loop hash rerr room data sc segs) = hello_outcome hash rerr (data @ concat segs)"
  using assms
proof (induction hash rerr room data sc segs arbitrary: hs rule: read_loop.induct)
  case (1 hash rerr room data sc segs)
  show ?case
  proof (cases segs)
    case Nil
    then show ?thesis using "1.prems" by (simp add: read_loop.simps [of hash rerr room] hello_outcome_def)
  next
    case (Cons s ss)
    let ?room = "if room = 0 then 2 * length data + 4096 - length data else room"
    obtain b segs' where read: "conn_read ?room (s # ss) = (b, segs')" by fastforce
    note IH = "1.IH" [OF _ refl Cons read [symmetric] refl refl refl]
    have all: "data @ concat segs = (data @ b) @ concat segs'"
      using conn_read_concat [OF read] Cons by simp
    have inv: "scan_inv hash (data @ b) sc hs" by (rule scan_inv_append) fact
    have loop: "read_loop hash rerr room data sc segs =
        (if b = [] then read_loop hash rerr (?room - length b) (data @ b) sc segs'
         else case scan_loop hash (data @ b) sc of
            Answer (Inl e) \<Rightarrow> (Inl (HelloErr e), data @ b)
          | Answer (Inr info) \<Rightarrow> (Inr info, data @ b)
          | Continue sc' \<Rightarrow> read_loop hash rerr (?room - length b) (data @ b) sc' segs')"
      unfolding Cons using "1.prems"(3) read
      by (subst read_loop.simps) (simp only: Let_def list.case prod.case if_False, simp)
    show ?thesis
    proof (cases "b = []")
      case True
      then show ?thesis using IH(1) [OF _ True] "1.prems" inv all loop by simp
    next
      case False
      note ok = scan_loop_ok [OF inv, unfolded scan_ok_def]
      show ?thesis
      proof (cases "scan_loop hash (data @ b) sc")
        case (Answer r)
        then show ?thesis using ok False
          by (cases r) (simp_all add: all loop hello_outcome_final del: append_assoc)
      next
        case (Continue sc')
        then show ?thesis using ok False IH(2) [OF _ False Continue] "1.prems"(3)
          by (auto simp: all loop simp del: append_assoc)
      qed
    qed
  qed
qed

lemma read_loop_data:
  "\<exists>segs'. snd (read_loop hash rerr room data sc segs) @ concat segs' = data @ concat segs"
proof (induction hash rerr room data sc segs rule: read_loop.induct)
  case (1 hash rerr room data sc segs)
  show ?case
  proof (cases segs)
    case Nil
    then show ?thesis by (auto simp: read_loop.simps [of hash rerr room] intro: exI [of _ "[]"])
  next
    case (Cons s ss)
    let ?room = "if room = 0 then 2 * length data + 4096 - length data else room"
    obtain b segs' where read: "conn_read ?room (s # ss) = (b, segs')" by fastforce
    note IH = "1.IH" [OF _ refl Cons read [symmetric] refl refl refl]
    have all: "data @ concat segs = (data @ b) @ concat segs'"
      using conn_read_concat [OF read] Cons by simp
    show ?thesis
    proof (cases "room = 0 \<and> length data > maxClientHello + 16")
      case True
      then show ?thesis by (subst read_loop.simps) (auto intro: exI [of _ segs])
    next
      case False
      then have "read_loop hash rerr room data sc segs =
          (if b = [] then read_loop hash rerr (?room - length b) (data @ b) sc segs'
           else case scan_loop hash (data @ b) sc of
              Answer (Inl e) \<Rightarrow> (Inl (HelloErr e), data @ b)
            | Answer (Inr info) \<Rightarrow> (Inr info, data @ b)
            | Continue sc' \<Rightarrow> read_loop hash rerr (?room - length b) (data @ b) sc' segs')"
        unfolding Cons using read
        by (subst read_loop.simps) (simp only: Let_def list.case prod.case if_False)
      then show ?thesis unfolding all using IH(1) [OF False] IH(2) [OF False]
        by (auto split: scan_out.splits sum.splits)
    qed
  qed
qed

lemma readHello_outcome:
  "fst (readHello hash cap rerr segs) = hello_outcome hash rerr (concat segs)"
proof -
  have "parseHello hash [] = Inl NeedMore"
    by (simp add: parseHello_def hello_loop.simps hello_complete_def)
  then show ?thesis
    using read_loop_spec [OF scan_inv_start] by (simp add: readHello_def)
qed

lemma readHello_data:
  "\<exists>tail. snd (readHello hash cap rerr segs) @ tail = concat segs"
  using read_loop_data [of hash rerr cap "[]" scan_start segs] by (auto simp: readHello_def)

subsection \<open>Properties\<close>

text \<open>
  C1. The incremental reader is the parser: whatever the buffer's capacity and however the
  peer's bytes are cut into reads, \<open>readHello\<close> answers what \<open>parseHello\<close> says of all of them
  (the read error where that asks for more), and the bytes it returns, which are forwarded or
  replayed, are an untouched prefix of what arrived.
\<close>

theorem readHello_is_parser:
  "fst (readHello hash bufcap rerr segs) = hello_outcome hash rerr (concat segs)
   \<and> (\<exists>tail. snd (readHello hash bufcap rerr segs) @ tail = concat segs)"
  by (simp add: readHello_outcome readHello_data)

text \<open>
  An answer other than "need more" is final: bytes after it cannot change it, so acting on
  the first answer, before the rest of the stream is there, is sound.
\<close>

lemma answer_is_final:
  "parseHello hash data \<noteq> Inl NeedMore \<Longrightarrow> parseHello hash (data @ extra) = parseHello hash data"
  by (rule parseHello_final)

lemma answer_is_final_witness:
  "parseHello (\<lambda>_. 0) ([0x17, 3, 3] @ [1, 2]) = Inl (NotHandshakeRecord 0x17)"
proof -
  have "parseHello (\<lambda>_. 0) [0x17, 3, 3] = Inl (NotHandshakeRecord 0x17)"
    by (simp add: parseHello_def hello_loop.simps hello_complete_def)
  then show ?thesis using answer_is_final [of "\<lambda>_. 0" "[0x17, 3, 3]" "[1, 2]"] by simp
qed

end
