(* ===== verification/Client_Hello_Encode.thy ===== *)
theory Client_Hello_Encode
  imports Read_Hello
begin

text \<open>
  A specification encoder for ClientHello messages (RFC 8446 section 4.1.2, RFC 6066 and
  RFC 7301 extensions) and the round trip through the proxy's parser. The encoder is the
  client's side of the contract: it says what the parser must accept, under any framing of the
  message into records, and what it must return.
\<close>

definition frame :: "byte \<Rightarrow> bytes \<Rightarrow> bytes" where
  "frame minor p = [0x16, 3, minor] @ enc16 (length p) @ p"

definition handshake_msg :: "bytes \<Rightarrow> bytes" where
  "handshake_msg body = 1 # enc24 (length body) @ body"

fun enc_ext :: "nat \<times> bytes \<Rightarrow> bytes" where
  "enc_ext (t, d) = enc16 t @ enc16 (length d) @ d"

definition enc_exts :: "(nat \<times> bytes) list \<Rightarrow> bytes" where
  "enc_exts xs = concat (map enc_ext xs)"

definition sni_data :: "string \<Rightarrow> bytes" where
  "sni_data name = enc16 (3 + length name) @ 0 # enc16 (length name) @ bytes_of_string name"

definition enc_protos :: "string list \<Rightarrow> bytes" where
  "enc_protos ps = concat (map (\<lambda>p. of_nat (length p) # bytes_of_string p) ps)"

definition alpn_data :: "string list \<Rightarrow> bytes" where
  "alpn_data ps = enc16 (length (enc_protos ps)) @ enc_protos ps"

definition hello_body :: "bytes \<Rightarrow> bytes \<Rightarrow> bytes \<Rightarrow> bytes \<Rightarrow> bytes \<Rightarrow> (nat \<times> bytes) list \<Rightarrow> bytes" where
  "hello_body version random session ciphers comps exts =
     version @ random @ (of_nat (length session) # session) @ (enc16 (length ciphers) @ ciphers) @
     (of_nat (length comps) # comps) @ (enc16 (length (enc_exts exts)) @ enc_exts exts)"

subsection \<open>Reading fields back\<close>

lemma cu8_enc: "n < 256 \<Longrightarrow> cu8 \<lparr>cb = of_nat n # r, bad = False\<rparr> = (n, \<lparr>cb = r, bad = False\<rparr>)"
  by (simp add: cu8_def ctake_def unat_of_nat_byte)

lemma cu16_enc: "n < 65536 \<Longrightarrow> cu16 \<lparr>cb = enc16 n @ r, bad = False\<rparr> = (n, \<lparr>cb = r, bad = False\<rparr>)"
  by (simp add: cu16_def ctake_def enc16_def be16_enc16 numeral_2_eq_2)

lemma vec8_enc:
  "length d < 256 \<Longrightarrow>
   vec8 \<lparr>cb = of_nat (length d) # d @ r, bad = False\<rparr> = (d, \<lparr>cb = r, bad = False\<rparr>)"
  by (simp add: vec8_def cu8_enc)

lemma vec16_enc:
  "length d < 65536 \<Longrightarrow>
   vec16 \<lparr>cb = enc16 (length d) @ d @ r, bad = False\<rparr> = (d, \<lparr>cb = r, bad = False\<rparr>)"
  by (simp add: vec16_def cu16_enc)

lemma vec16_enc_all:
  "length d < 65536 \<Longrightarrow> vec16 (new_cursor (enc16 (length d) @ d)) = (d, new_cursor [])"
  using vec16_enc [of d "[]"] by (simp add: new_cursor_def)

lemma sni_names_enc:
  assumes "sni_ok (ToLower name)" "name \<noteq> []" "ParseAddr name = None"
  shows "sni_names (new_cursor (0 # enc16 (length name) @ bytes_of_string name)) =
    Inr (HostName (ToLower name), new_cursor [])"
proof -
  have len: "length name \<le> 253" and chars: "list_all isHostChar name"
    using assms(1) by (auto simp: sni_ok_def ToLower_def list_all_iff)
  have c: "cu8 (new_cursor (0 # enc16 (length name) @ bytes_of_string name)) =
      (0, new_cursor (enc16 (length (bytes_of_string name)) @ bytes_of_string name))"
    using cu8_enc [of 0] by (simp add: new_cursor_def)
  have v: "vec16 (new_cursor (enc16 (length (bytes_of_string name)) @ bytes_of_string name)) =
      (bytes_of_string name, new_cursor [])"
    using len by (intro vec16_enc_all) simp
  show ?thesis
    using assms len chars
    by (subst sni_names.simps) (use c v in simp)
qed

lemma server_name_ext_enc:
  assumes "sni_ok (ToLower name)" "name \<noteq> []" "ParseAddr name = None"
  shows "server_name_ext (sni_data name) info = Inr (info\<lparr>SNI := ToLower name\<rparr>)"
proof -
  let ?l = "0 # enc16 (length name) @ bytes_of_string name"
  have len: "length name \<le> 253" using assms(1) by (simp add: sni_ok_def)
  have "vec16 (new_cursor (sni_data name)) = (?l, new_cursor [])"
    using vec16_enc_all [of ?l] len by (simp add: sni_data_def numeral_3_eq_3)
  then show ?thesis
    using sni_names_enc [OF assms] by (simp add: server_name_ext_def)
qed

lemma alpn_protos_enc:
  assumes "\<forall>p\<in>set ps. length p < 256"
  shows "alpn_protos acc (new_cursor (enc_protos ps)) = (acc @ ps, new_cursor [])"
  using assms
proof (induction ps arbitrary: acc)
  case Nil
  then show ?case by (simp add: alpn_protos.simps enc_protos_def new_cursor_def)
next
  case (Cons p ps)
  have "vec8 (new_cursor (enc_protos (p # ps))) = (bytes_of_string p, new_cursor (enc_protos ps))"
    using Cons.prems vec8_enc [of "bytes_of_string p" "enc_protos ps"]
    by (simp add: enc_protos_def new_cursor_def)
  then show ?case
    using Cons by (subst alpn_protos.simps) (simp add: enc_protos_def new_cursor_def)
qed

lemma alpn_ext_enc:
  assumes "\<forall>p\<in>set ps. length p < 256" "length (enc_protos ps) < 65536"
  shows "alpn_ext (alpn_data ps) info = Inr (info\<lparr>ALPN := ALPN info @ ps\<rparr>)"
  using alpn_protos_enc [OF assms(1)] vec16_enc_all [OF assms(2)]
  by (simp add: alpn_ext_def alpn_data_def)

lemma ext_loop_enc:
  assumes "t < 65536" "length d < 65536"
  shows "ext_loop (new_cursor (enc_exts ((t, d) # xs))) seen info =
    (case ext_step t d seen info of Inl e \<Rightarrow> Inl e
     | Inr (seen', info') \<Rightarrow> ext_loop (new_cursor (enc_exts xs)) seen' info')"
proof -
  have "cu16 (new_cursor (enc_exts ((t, d) # xs))) =
      (t, new_cursor (enc16 (length d) @ d @ enc_exts xs))"
    using cu16_enc [OF assms(1)] by (simp add: enc_exts_def new_cursor_def)
  moreover have "vec16 (new_cursor (enc16 (length d) @ d @ enc_exts xs)) = (d, new_cursor (enc_exts xs))"
    using vec16_enc [OF assms(2)] by (simp add: new_cursor_def)
  moreover have "cb (new_cursor (enc_exts ((t, d) # xs))) \<noteq> []"
    by (simp add: enc_exts_def new_cursor_def enc16_def)
  ultimately show ?thesis by (subst ext_loop.simps) simp
qed

lemma ext_loop_other:
  assumes "\<forall>(t, d)\<in>set xs. t < 65536 \<and> length d < 65536 \<and> t \<noteq> 0 \<and> t \<noteq> 16"
  shows "ext_loop (new_cursor (enc_exts (xs @ ys))) seen info =
    ext_loop (new_cursor (enc_exts ys)) seen info"
  using assms
proof (induction xs)
  case (Cons x xs)
  then show ?case by (cases x) (simp add: ext_loop_enc ext_step_def)
qed simp

lemma ext_loop_done: "ext_loop (new_cursor (enc_exts [])) seen info = Inr info"
  by (subst ext_loop.simps) (simp add: enc_exts_def)

definition other_exts :: "(nat \<times> bytes) list \<Rightarrow> bool" where
  "other_exts xs \<longleftrightarrow> (\<forall>(t, d)\<in>set xs. t < 65536 \<and> length d < 65536 \<and> t \<noteq> 0 \<and> t \<noteq> 16)"

lemma ext_loop_hello:
  assumes "sni_ok (ToLower name)" "name \<noteq> []" "ParseAddr name = None"
    and "\<forall>p\<in>set ps. length p < 256" "length (enc_protos ps) < 65534"
    and "other_exts xs" "other_exts ys" "other_exts zs"
  shows "ext_loop (new_cursor (enc_exts (xs @ (0, sni_data name) # ys @ (16, alpn_data ps) # zs)))
      False empty_info =
    Inr (empty_info\<lparr>SNI := ToLower name, ALPN := ps\<rparr>)"
proof -
  have len: "length name \<le> 253" using assms(1) by (simp add: sni_ok_def)
  have "length (sni_data name) < 65536" "length (alpn_data ps) < 65536"
    using len assms(5) by (simp_all add: sni_data_def alpn_data_def)
  then show ?thesis
    using assms ext_loop_other [of zs "[]"]
    by (simp add: other_exts_def ext_loop_other ext_loop_enc ext_step_def server_name_ext_enc
        alpn_ext_enc ext_loop_done empty_info_def)
qed

lemma parseExtensions_enc:
  assumes "length version = 2" "length random = 32" "length session < 256"
    and "length ciphers < 65536" "length comps < 256" "length (enc_exts exts) < 65536"
  shows "parseExtensions (hello_body version random session ciphers comps exts) =
    ext_loop (new_cursor (enc_exts exts)) False empty_info"
proof -
  let ?E = "enc16 (length (enc_exts exts)) @ enc_exts exts"
  have 1: "ctake 2 (new_cursor (hello_body version random session ciphers comps exts)) =
      (version, new_cursor (random @ (of_nat (length session) # session @ enc16 (length ciphers) @ ciphers @
        of_nat (length comps) # comps @ ?E)))"
    using assms(1) by (simp add: hello_body_def new_cursor_def ctake_def)
  have 2: "ctake 32 (new_cursor (random @ r)) = (random, new_cursor r)" for r
    using assms(2) by (simp add: new_cursor_def ctake_def)
  have 3: "vec8 (new_cursor (of_nat (length session) # session @ r)) = (session, new_cursor r)" for r
    using vec8_enc [OF assms(3)] by (simp add: new_cursor_def)
  have 4: "vec16 (new_cursor (enc16 (length ciphers) @ ciphers @ r)) = (ciphers, new_cursor r)" for r
    using vec16_enc [OF assms(4)] by (simp add: new_cursor_def)
  have 5: "vec8 (new_cursor (of_nat (length comps) # comps @ r)) = (comps, new_cursor r)" for r
    using vec8_enc [OF assms(5)] by (simp add: new_cursor_def)
  have 6: "vec16 (new_cursor ?E) = (enc_exts exts, new_cursor [])"
    using assms(6) by (rule vec16_enc_all)
  show ?thesis
    by (simp add: parseExtensions_def 1 2 3 4 5 6)
qed

subsection \<open>Framing\<close>

definition framed :: "byte \<Rightarrow> bytes list \<Rightarrow> bytes" where
  "framed minor ps = concat (map (frame minor) ps)"

lemma hello_complete_msg:
  assumes "4 + length body \<le> maxClientHello"
  shows "hello_complete hash (handshake_msg body) =
    Some (case parseExtensions body of Inl e \<Rightarrow> Inl e
          | Inr info \<Rightarrow> Inr (info\<lparr>Digest := hash (handshake_msg body)\<rparr>))"
proof -
  have "length body < 16777216" using assms by (simp add: maxClientHello_def)
  then have hd: "be24 (handshake_msg body ! 1) (handshake_msg body ! 2) (handshake_msg body ! 3) = length body"
    "handshake_msg body ! 0 = 1"
    by (simp_all add: handshake_msg_def enc24_def be24_enc24)
  have len: "length (handshake_msg body) = 4 + length body" "drop 4 (handshake_msg body) = body"
    "take (4 + length body) (handshake_msg body) = handshake_msg body"
    by (simp_all add: handshake_msg_def enc24_def)
  show ?thesis
    using assms hd len by (simp add: hello_complete_def Let_def split: sum.split)
qed

text \<open>A proper prefix of the message is never complete and never refused.\<close>

lemma hello_complete_prefix:
  assumes "4 + length body \<le> maxClientHello" "hs @ tail = handshake_msg body" "tail \<noteq> []"
  shows "hello_complete hash hs = None"
proof (cases "4 \<le> length hs")
  case True
  have nth: "hs ! i = handshake_msg body ! i" if "i < 4" for i
    using True that assms(2) by (metis nth_append less_le_trans)
  have "length body < 16777216" using assms by (simp add: maxClientHello_def)
  then have "be24 (hs ! 1) (hs ! 2) (hs ! 3) = length body" "hs ! 0 = 1"
    by (simp_all add: nth handshake_msg_def enc24_def be24_enc24)
  moreover have "length hs < 4 + length body"
    using arg_cong [OF assms(2), of length] assms(3) by (cases tail) (auto simp: handshake_msg_def)
  ultimately show ?thesis using assms(1) by (simp add: hello_complete_def)
next
  case False
  then show ?thesis by (simp add: hello_complete_def)
qed

lemma length_frame [simp]: "length (frame minor p) = 5 + length p"
  by (simp add: frame_def)

lemma hello_loop_frame:
  assumes "hello_complete hash hs = None" "p \<noteq> []" "length p < 65536"
    and "records < maxClientHelloRecords"
    and "dlen - length (frame minor p @ r) + 5 + length p \<le> maxClientHello"
  shows "hello_loop hash dlen records hs (frame minor p @ r) =
    hello_loop hash dlen (records + 1) (if records = 0 then p else hs @ p) r"
proof -
  let ?rest = "frame minor p @ r"
  have "?rest ! 0 = 0x16" "?rest ! 1 = 3" "be16 (?rest ! 3) (?rest ! 4) = length p"
    "drop 5 ?rest = p @ r"
    using assms(3) by (simp_all add: frame_def enc16_def be16_enc16)
  moreover have "drop (5 + length p) ?rest = r" "\<not> length ?rest < 5 + length p" "\<not> length ?rest < 5"
    by simp_all
  ultimately show ?thesis
    using assms by (subst hello_loop.simps) (simp add: Let_def del: length_append)
qed

lemma hello_loop_framed:
  assumes "4 + length body \<le> maxClientHello"
    and "hs @ concat ps = handshake_msg body" "records = 0 \<longrightarrow> hs = []"
    and "\<forall>p\<in>set ps. p \<noteq> [] \<and> length p < 65536" "records + length ps \<le> maxClientHelloRecords"
    and "length (framed minor ps @ junk) \<le> dlen"
    and "dlen - length (framed minor ps @ junk) + length (framed minor ps) \<le> maxClientHello"
  shows "hello_loop hash dlen records hs (framed minor ps @ junk) =
    the (hello_complete hash (handshake_msg body))"
  using assms(2-)
proof (induction ps arbitrary: records hs)
  case Nil
  then show ?case
    using hello_complete_msg [OF assms(1)] by (subst hello_loop.simps) (simp add: framed_def)
next
  case (Cons p ps)
  have none: "hello_complete hash hs = None"
    using Cons.prems by (intro hello_complete_prefix [OF assms(1), of _ "concat (p # ps)"]) auto
  have "hello_loop hash dlen records hs (frame minor p @ framed minor ps @ junk) =
      hello_loop hash dlen (records + 1) (if records = 0 then p else hs @ p) (framed minor ps @ junk)"
    using Cons.prems by (intro hello_loop_frame none) (auto simp: framed_def)
  also have "(if records = 0 then p else hs @ p) = hs @ p" using Cons.prems(2) by auto
  also have "hello_loop hash dlen (records + 1) (hs @ p) (framed minor ps @ junk) =
      the (hello_complete hash (handshake_msg body))"
    using Cons.prems by (intro Cons.IH) (auto simp: framed_def)
  finally show ?case by (simp add: framed_def)
qed

lemma parseHello_framed:
  assumes "4 + length body \<le> maxClientHello" "concat ps = handshake_msg body"
    and "\<forall>p\<in>set ps. p \<noteq> [] \<and> length p < 65536" "length ps \<le> maxClientHelloRecords"
    and "length (framed minor ps) \<le> maxClientHello"
  shows "parseHello hash (framed minor ps @ junk) =
    (case parseExtensions body of Inl e \<Rightarrow> Inl e
     | Inr info \<Rightarrow> Inr (info\<lparr>Digest := hash (handshake_msg body)\<rparr>))"
  using hello_loop_framed [of body "[]" ps 0 minor junk "length (framed minor ps @ junk)" hash] assms
    hello_complete_msg [OF assms(1)]
  by (simp add: parseHello_def)

subsection \<open>Properties\<close>

definition well_sized :: "bytes \<Rightarrow> bytes \<Rightarrow> bytes \<Rightarrow> bytes \<Rightarrow> bytes \<Rightarrow> (nat \<times> bytes) list \<Rightarrow> bool" where
  "well_sized version random session ciphers comps exts \<longleftrightarrow>
     length version = 2 \<and> length random = 32 \<and> length session < 256 \<and> length ciphers < 65536
     \<and> length comps < 256 \<and> length (enc_exts exts) < 65536"

definition well_framed :: "bytes \<Rightarrow> bytes list \<Rightarrow> bool" where
  "well_framed msg ps \<longleftrightarrow> concat ps = msg \<and> list_all (\<lambda>p. p \<noteq> [] \<and> length p < 65536) ps
     \<and> length ps \<le> maxClientHelloRecords \<and> length msg + 5 * length ps \<le> maxClientHello"

definition name_ok :: "string \<Rightarrow> bool" where
  "name_ok name \<longleftrightarrow> name \<noteq> [] \<and> sni_ok (ToLower name) \<and> ParseAddr name = None"

definition protos_ok :: "string list \<Rightarrow> bool" where
  "protos_ok ps \<longleftrightarrow> list_all (\<lambda>p. length p < 256) ps \<and> length (enc_protos ps) < 65534"

lemma length_framed: "length (framed minor ps) = length (concat ps) + 5 * length ps"
  by (induction ps) (auto simp: framed_def)

lemma parseHello_hello:
  assumes "well_sized version random session ciphers comps exts"
    and "exts = xs @ (0, sni_data name) # ys @ (16, alpn_data protos) # zs"
    and "name_ok name" "protos_ok protos" "other_exts xs" "other_exts ys" "other_exts zs"
    and "msg = handshake_msg (hello_body version random session ciphers comps exts)"
    and "well_framed msg records"
  shows "parseHello hash (framed minor records @ junk) =
    Inr \<lparr>SNI = ToLower name, SNIIP = NoAddr, ALPN = protos, Digest = hash msg\<rparr>"
proof -
  let ?body = "hello_body version random session ciphers comps exts"
  have len: "4 + length ?body \<le> maxClientHello"
    using assms(8,9) by (simp add: well_framed_def handshake_msg_def)
  have "parseExtensions ?body = Inr (empty_info\<lparr>SNI := ToLower name, ALPN := protos\<rparr>)"
    using assms(1-7) parseExtensions_enc [of version random session ciphers comps exts]
      ext_loop_hello [of name protos xs ys zs]
    by (simp add: well_sized_def name_ok_def protos_ok_def list_all_iff)
  then show ?thesis
    using parseHello_framed [OF len, of records minor hash junk] assms(8,9)
    by (simp add: well_framed_def list_all_iff length_framed empty_info_def)
qed

text \<open>A concrete hello, which meets these conditions cut in two records.\<close>

definition sample_exts :: "(nat \<times> bytes) list" where
  "sample_exts = [(43, [2, 3, 4]), (0, sni_data ''Ex.com''), (16, alpn_data [''h2'', ''x''])]"

definition sample_msg :: bytes where
  "sample_msg = handshake_msg (hello_body [3, 3] (replicate 32 7) [] [0x13, 1] [0] sample_exts)"

lemma sample_sized: "well_sized [3, 3] (replicate 32 7) [] [0x13, 1] [0] sample_exts"
  by (simp add: well_sized_def sample_exts_def enc_exts_def sni_data_def alpn_data_def enc_protos_def)

lemma sample_split:
  "sample_exts = [(43, [2, 3, 4])] @ (0, sni_data ''Ex.com'') # [] @ (16, alpn_data [''h2'', ''x'']) # []"
  by (simp add: sample_exts_def)

lemma sample_name: "name_ok ''Ex.com''"
  by code_simp

lemma sample_protos: "protos_ok [''h2'', ''x'']"
  by (simp add: protos_ok_def enc_protos_def)

lemma sample_others: "other_exts [(43, [2, 3, 4])]" "other_exts []"
  by (simp_all add: other_exts_def)

lemma sample_framed: "well_framed sample_msg [take 9 sample_msg, drop 9 sample_msg]"
proof -
  have "length sample_msg = 80"
    by (simp add: sample_msg_def handshake_msg_def hello_body_def sample_exts_def enc_exts_def
        sni_data_def alpn_data_def enc_protos_def)
  then show ?thesis
    by (auto simp: well_framed_def maxClientHelloRecords_def maxClientHello_def)
qed

lemma sample_lower: "ToLower ''Ex.com'' = ''ex.com''"
  by code_simp

lemmas sample_facts = sample_sized sample_split sample_name sample_protos sample_others
  sample_others(2) sample_msg_def sample_framed

lemma sample_parsed:
  "parseHello hash (framed 1 [take 9 sample_msg, drop 9 sample_msg] @ junk) =
    Inr \<lparr>SNI = ''ex.com'', SNIIP = NoAddr, ALPN = [''h2'', ''x''], Digest = hash sample_msg\<rparr>"
  using parseHello_hello [OF sample_facts, of hash 1 junk] unfolding sample_lower .

text \<open>
  C2. Encode and parse: a ClientHello that names a host and offers protocols, with any other
  extensions around the two, cut into any admissible sequence of TLS records and followed by any
  bytes, is parsed to exactly that name (lower-cased), those protocols in order, and the hash of
  the whole message.
\<close>

theorem hello_round_trip:
  assumes "well_sized version random session ciphers comps exts"
    and "exts = xs @ (0, sni_data name) # ys @ (16, alpn_data protos) # zs"
    and "name_ok name" "protos_ok protos" "other_exts xs" "other_exts ys" "other_exts zs"
    and "msg = handshake_msg (hello_body version random session ciphers comps exts)"
    and "well_framed msg records"
  shows "parseHello hash (framed minor records @ junk) =
    Inr \<lparr>SNI = ToLower name, SNIIP = NoAddr, ALPN = protos, Digest = hash msg\<rparr>"
  using assms by (rule parseHello_hello)

theorem hello_round_trip_witness:
  "parseHello (\<lambda>_. 5) (framed 1 [take 9 sample_msg, drop 9 sample_msg] @ [22, 3]) =
    Inr \<lparr>SNI = ''ex.com'', SNIIP = NoAddr, ALPN = [''h2'', ''x''], Digest = 5\<rparr>"
  using hello_round_trip [OF sample_facts, of "\<lambda>_. 5" 1 "[22, 3]"] unfolding sample_lower .

text \<open>
  C3. The names a parsed ClientHello yields are safe to route, log and dial: the SNI is empty or
  a lower-case host name of at most 253 letters, digits, dots, hyphens and underscores, never
  the text of an IP address, and the SNI's IP literal, where the name was one, carries no zone
  and is unmapped.
\<close>

theorem hello_names_wellformed:
  assumes "parseHello hash data = Inr info"
  shows "length (SNI info) \<le> 253 \<and> list_all isHostChar (SNI info) \<and> ToLower (SNI info) = SNI info
    \<and> ParseAddr (SNI info) = None \<and> Zone (SNIIP info) = [] \<and> Unmap (SNIIP info) = SNIIP info"
  using parseHello_ok [OF assms] by (auto simp: info_ok_def sni_ok_def sni_ip_ok_def list_all_iff)

theorem hello_names_wellformed_witness:
  "\<exists>info. parseHello (\<lambda>_. 5) (framed 1 [take 9 sample_msg, drop 9 sample_msg] @ []) = Inr info
     \<and> list_all isHostChar (SNI info)"
proof -
  note parsed = sample_parsed [of "\<lambda>_. 5" "[]"]
  show ?thesis
    by (rule exI, rule conjI [OF parsed]) (use hello_names_wellformed [OF parsed] in blast)
qed

end
