(* ===== verification/Proxy_Protocol.thy ===== *)
theory Proxy_Protocol
  imports Netip Read_Hello
begin

text \<open>
  proxy_protocol.go: the PROXY protocol v1 and v2 headers, written to a target ahead of
  everything else and read from a trusted peer ahead of its ClientHello.

  An inbound connection is the bytes that will still arrive on it and how its reads end after
  them. A connection that is not a PROXY connection has to come out as it went in, so the bytes
  already inspected are kept in \<open>pc_prefix\<close> and replayed by \<open>proxyConn_Read\<close>.
\<close>

record inbound =
  pending :: bytes
  ending :: read_end

datatype io_error = IoEOF | UnexpectedEOF | IoFault read_end

text \<open>\<open>io.ReadFull\<close> and \<open>io.CopyN\<close> to \<open>io.Discard\<close>, with the number of bytes read.\<close>

definition ReadFull :: "nat \<Rightarrow> inbound \<Rightarrow> (io_error option \<times> bytes) \<times> inbound" where
  "ReadFull n s =
     (if n \<le> length (pending s) then ((None, take n (pending s)), s\<lparr>pending := drop n (pending s)\<rparr>)
      else ((Some (if ending s \<noteq> EOF then IoFault (ending s)
                   else if pending s = [] then IoEOF else UnexpectedEOF), pending s),
            s\<lparr>pending := []\<rparr>))"

definition CopyN :: "nat \<Rightarrow> inbound \<Rightarrow> io_error option \<times> inbound" where
  "CopyN n s =
     (if n \<le> length (pending s) then (None, s\<lparr>pending := drop n (pending s)\<rparr>)
      else (Some (if ending s \<noteq> EOF then IoFault (ending s) else IoEOF), s\<lparr>pending := []\<rparr>))"

definition proxyV1Prefix :: string where "proxyV1Prefix = ''PROXY ''"

definition proxyV1MaxLen :: nat where "proxyV1MaxLen = 108"

definition proxyV2Sig :: bytes where
  "proxyV2Sig = [13, 10, 13, 10, 0, 13, 10, 81, 85, 73, 84, 10]"

datatype proxy_error =
    NotTCPEndpoints
  | InvalidEndpoint
  | UnsupportedVersion int
  | ShortWrite
  | WriteFailed
  | FirstByte io_error
  | SignatureRead io_error
  | V1Read io_error
  | V1Invalid
  | V1Source
  | V1Destination
  | V1SourcePort
  | V1DestinationPort
  | V1TooLong
  | V2Header io_error
  | V2Version
  | V2Local io_error
  | V2Command
  | V2Family
  | V2Short
  | V2NotStream
  | V2Address io_error
  | V2Payload io_error

subsection \<open>Writing the header\<close>

definition SP :: string where "SP = '' ''"

definition CRLF :: string where "CRLF = [CHR 0x0D, CHR 0x0A]"

definition v1_line :: "addr \<Rightarrow> addr \<Rightarrow> nat \<Rightarrow> nat \<Rightarrow> string" where
  "v1_line sip dip sport dport =
     proxyV1Prefix @ (if Is4 sip then ''TCP4'' else ''TCP6'') @ SP @ addr_String sip @ SP @
     addr_String dip @ SP @ Itoa sport @ SP @ Itoa dport @ CRLF"

definition v2_header :: "addr \<Rightarrow> addr \<Rightarrow> nat \<Rightarrow> nat \<Rightarrow> bytes" where
  "v2_header sip dip sport dport =
     proxyV2Sig @ [0x21, (if Is4 sip then 0x11 else 0x21)] @ enc16 (if Is4 sip then 12 else 36) @
     AsSlice sip @ AsSlice dip @ enc16 sport @ enc16 dport"

definition proxyProtocolHeader :: "int \<Rightarrow> net_addr \<Rightarrow> net_addr \<Rightarrow> (proxy_error, bytes) result" where
  "proxyProtocolHeader version src dst =
     (case (src, dst) of
        (TCPAddr s_ip s_port _, TCPAddr d_ip d_port _) \<Rightarrow>
          (case (AddrFromSlice s_ip, AddrFromSlice d_ip) of
             (Some sip, Some dip) \<Rightarrow>
               if s_port < 0 \<or> s_port > 65535 \<or> d_port < 0 \<or> d_port > 65535 then Inl InvalidEndpoint
               else
                 let sip1 = Unmap sip; dip1 = Unmap dip;
                     (sip2, dip2) = (if Is4 sip1 \<noteq> Is4 dip1
                       then (AddrFrom16 (As16 sip1), AddrFrom16 (As16 dip1)) else (sip1, dip1))
                 in if version = 1
                    then Inr (bytes_of_string (v1_line sip2 dip2 (nat s_port) (nat d_port)))
                    else if version = 2 then Inr (v2_header sip2 dip2 (nat s_port) (nat d_port))
                    else Inl (UnsupportedVersion version)
           | _ \<Rightarrow> Inl InvalidEndpoint)
      | _ \<Rightarrow> Inl NotTCPEndpoints)"

text \<open>
  The write loop. What each \<open>conn.Write\<close> call accepts is a list of byte counts, each with
  whether the call also reports an error; a call beyond the list fails without accepting
  anything. The second component is what reached the connection.
\<close>

fun write_loop :: "(nat \<times> bool) list \<Rightarrow> bytes \<Rightarrow> proxy_error option \<times> bytes" where
  "write_loop _ [] = (None, [])"
| "write_loop [] header = (Some WriteFailed, [])"
| "write_loop ((n, failed) # ws) header =
     (if failed then (Some WriteFailed, take n header)
      else if n = 0 then (Some ShortWrite, [])
      else let (e, sent) = write_loop ws (drop n header) in (e, take n header @ sent))"

definition writeProxyProtocol ::
  "(nat \<times> bool) list \<Rightarrow> int \<Rightarrow> net_addr \<Rightarrow> net_addr \<Rightarrow> proxy_error option \<times> bytes" where
  "writeProxyProtocol ws version src dst =
     (case proxyProtocolHeader version src dst of
        Inl e \<Rightarrow> (Some e, [])
      | Inr header \<Rightarrow> write_loop ws header)"

subsection \<open>The connection handed on\<close>

record proxyConn =
  pc_conn :: inbound
  pc_prefix :: bytes
  pc_remote :: "net_addr option"
  pc_local :: "net_addr option"
  pc_version :: nat

text \<open>A read of at most \<open>room\<close> bytes: the replayed prefix first, then the connection.\<close>

definition proxyConn_Read :: "nat \<Rightarrow> proxyConn \<Rightarrow> bytes \<times> proxyConn" where
  "proxyConn_Read room c =
     (if pc_prefix c \<noteq> [] then (take room (pc_prefix c), c\<lparr>pc_prefix := drop room (pc_prefix c)\<rparr>)
      else (take room (pending (pc_conn c)),
            c\<lparr>pc_conn := (pc_conn c)\<lparr>pending := drop room (pending (pc_conn c))\<rparr>\<rparr>))"

definition proxyConn_RemoteAddr :: "net_addr \<Rightarrow> proxyConn \<Rightarrow> net_addr" where
  "proxyConn_RemoteAddr socket c = (case pc_remote c of Some a \<Rightarrow> a | None \<Rightarrow> socket)"

definition proxyConn_LocalAddr :: "net_addr \<Rightarrow> proxyConn \<Rightarrow> net_addr" where
  "proxyConn_LocalAddr socket c = (case pc_local c of Some a \<Rightarrow> a | None \<Rightarrow> socket)"

subsection \<open>Reading a v1 line\<close>

definition parseProxyPort :: "string \<Rightarrow> int option" where
  "parseProxyPort s =
     (case Atoi s of None \<Rightarrow> None | Some p \<Rightarrow> if p < 0 \<or> p > 65535 then None else Some p)"

text \<open>The address of a field, when it parses and belongs to the family the line states.\<close>

definition v1_addr :: "string \<Rightarrow> string \<Rightarrow> addr option" where
  "v1_addr family s =
     (case ParseAddr s of
        None \<Rightarrow> None
      | Some a \<Rightarrow> if family = ''TCP4'' \<and> \<not> Is4 a \<or> family = ''TCP6'' \<and> \<not> Is6 a then None else Some a)"

type_synonym endpoints = "(net_addr \<times> net_addr) option"

definition parse_v1_fields :: "string list \<Rightarrow> (proxy_error, endpoints) result" where
  "parse_v1_fields fs =
     (if length fs \<ge> 2 \<and> fs ! 0 = ''PROXY'' \<and> fs ! 1 = ''UNKNOWN'' then Inr None
      else if length fs \<noteq> 6 \<or> fs ! 0 \<noteq> ''PROXY'' \<or> (fs ! 1 \<noteq> ''TCP4'' \<and> fs ! 1 \<noteq> ''TCP6'')
      then Inl V1Invalid
      else case v1_addr (fs ! 1) (fs ! 2) of None \<Rightarrow> Inl V1Source | Some srcIP \<Rightarrow>
           (case v1_addr (fs ! 1) (fs ! 3) of None \<Rightarrow> Inl V1Destination | Some dstIP \<Rightarrow>
           (case parseProxyPort (fs ! 4) of None \<Rightarrow> Inl V1SourcePort | Some srcPort \<Rightarrow>
           (case parseProxyPort (fs ! 5) of None \<Rightarrow> Inl V1DestinationPort | Some dstPort \<Rightarrow>
             Inr (Some (TCPAddrFrom srcIP srcPort, TCPAddrFrom dstIP dstPort))))))"

function readProxyV1 :: "inbound \<Rightarrow> bytes \<Rightarrow> (proxy_error, endpoints) result \<times> inbound" where
  "readProxyV1 s line =
     (if length line < proxyV1MaxLen
      then (case ReadFull 1 s of
              ((Some e, _), s1) \<Rightarrow> (Inl (V1Read e), s1)
            | ((None, b), s1) \<Rightarrow>
                (let line1 = line @ b; n = length line1 in
                 if n \<ge> 2 \<and> line1 ! (n - 2) = 13 \<and> line1 ! (n - 1) = 10
                 then (parse_v1_fields (Split (CHR '' '') (string_of_bytes (take (n - 2) line1))), s1)
                 else readProxyV1 s1 line1))
      else (Inl V1TooLong, s))"
  by pat_completeness auto
termination
  by (relation "measure (\<lambda>(s, line). length (pending s))")
    (auto simp: ReadFull_def split: if_splits)

declare readProxyV1.simps [simp del]

subsection \<open>Reading a v2 header\<close>

definition hi4 :: "byte \<Rightarrow> nat" where "hi4 b = unat b div 16"

definition lo4 :: "byte \<Rightarrow> nat" where "lo4 b = unat b mod 16"

definition v2_need :: "nat \<Rightarrow> nat" where
  "v2_need family = (if family = 1 then 12 else if family = 2 then 36 else if family = 3 then 216 else 0)"

definition v2_endpoints :: "nat \<Rightarrow> bytes \<Rightarrow> endpoints" where
  "v2_endpoints family address =
     (if family = 1
      then Some (TCPAddr (take 4 address) (int (be16 (address ! 8) (address ! 9))) [],
                 TCPAddr (take 4 (drop 4 address)) (int (be16 (address ! 10) (address ! 11))) [])
      else if family = 2
      then Some (TCPAddr (take 16 address) (int (be16 (address ! 32) (address ! 33))) [],
                 TCPAddr (take 16 (drop 16 address)) (int (be16 (address ! 34) (address ! 35))) [])
      else None)"

definition readProxyV2 :: "inbound \<Rightarrow> (proxy_error, endpoints) result \<times> inbound" where
  "readProxyV2 s =
     (case ReadFull 4 s of
        ((Some e, _), s1) \<Rightarrow> (Inl (V2Header e), s1)
      | ((None, header), s1) \<Rightarrow>
          if hi4 (header ! 0) \<noteq> 2 then (Inl V2Version, s1)
          else let command = lo4 (header ! 0); len = be16 (header ! 2) (header ! 3) in
            if command = 0
            then (case CopyN len s1 of
                    (Some e, s2) \<Rightarrow> (Inl (V2Local e), s2)
                  | (None, s2) \<Rightarrow> (Inr None, s2))
            else if command \<noteq> 1 then (Inl V2Command, s1)
            else let family = hi4 (header ! 1); protocol = lo4 (header ! 1) in
              if family > 3 \<or> protocol > 2 then (Inl V2Family, s1)
              else if len < v2_need family then (Inl V2Short, s1)
              else if (family = 1 \<or> family = 2) \<and> protocol \<noteq> 1 then (Inl V2NotStream, s1)
              else let addressBytes = (if v2_need family > 36 then 0 else v2_need family) in
                (case ReadFull addressBytes s1 of
                   ((Some e, _), s2) \<Rightarrow> (Inl (V2Address e), s2)
                 | ((None, address), s2) \<Rightarrow>
                     (case CopyN (len - addressBytes) s2 of
                        (Some e, s3) \<Rightarrow> (Inl (V2Payload e), s3)
                      | (None, s3) \<Rightarrow> (Inr (v2_endpoints family address), s3))))"

subsection \<open>Detection\<close>

definition plain_conn :: "inbound \<Rightarrow> bytes \<Rightarrow> proxyConn" where
  "plain_conn s prefix =
     \<lparr>pc_conn = s, pc_prefix = prefix, pc_remote = None, pc_local = None, pc_version = 0\<rparr>"

definition stated_conn :: "nat \<Rightarrow> inbound \<Rightarrow> endpoints \<Rightarrow> proxyConn" where
  "stated_conn version s e =
     \<lparr>pc_conn = s, pc_prefix = [], pc_remote = map_option fst e, pc_local = map_option snd e,
      pc_version = version\<rparr>"

definition detectProxyProtocol :: "inbound \<Rightarrow> (proxy_error, proxyConn) result" where
  "detectProxyProtocol s =
     (case ReadFull 1 s of
        ((Some e, _), _) \<Rightarrow> Inl (FirstByte e)
      | ((None, first), s1) \<Rightarrow>
          let v1 = bytes_of_string proxyV1Prefix in
          if first ! 0 \<noteq> v1 ! 0 \<and> first ! 0 \<noteq> proxyV2Sig ! 0 then Inr (plain_conn s1 first)
          else let signature = (if first ! 0 = v1 ! 0 then v1 else proxyV2Sig) in
            (case ReadFull (length signature - 1) s1 of
               ((Some (IoFault e), _), _) \<Rightarrow> Inl (SignatureRead (IoFault e))
             | ((Some _, got), s2) \<Rightarrow> Inr (plain_conn s2 (first @ got))
             | ((None, got), s2) \<Rightarrow>
                 let seen = first @ got in
                 if seen \<noteq> signature then Inr (plain_conn s2 seen)
                 else if signature = v1
                 then (case readProxyV1 s2 seen of
                         (Inl e, _) \<Rightarrow> Inl e
                       | (Inr e, s3) \<Rightarrow> Inr (stated_conn 1 s3 e))
                 else (case readProxyV2 s2 of
                         (Inl e, _) \<Rightarrow> Inl e
                       | (Inr e, s3) \<Rightarrow> Inr (stated_conn 2 s3 e))))"

end
