(* ===== verification/Netip_Print.thy ===== *)
theory Netip_Print
  imports Netip
begin

text \<open>
  The printed form of an IP address parses back to the address, for both families: the longest
  run of zero groups written as an ellipsis, the IPv4-mapped form written with a dotted tail.
  Log lines, headers and configuration keys rely on it.
\<close>

subsection \<open>Hexadecimal groups\<close>

lemma hex_char_props: "n < 16 \<Longrightarrow> is_hex (hex_char n) \<and> hex_val (hex_char n) = n"
  by (cases "n < 10") (auto simp: hex_char_def is_hex_def hex_val_def is_digit_def Let_def)

lemma hex_number_append: "hex_number acc (s @ t) = hex_number (hex_number acc s) t"
  by (induction s arbitrary: acc) auto

lemma hex_str_number: "hex_number 0 (hex_str n) = n"
proof (induction n rule: hex_str.induct)
  case (1 n)
  show ?case
  proof (cases "n < 16")
    case True
    then show ?thesis by (subst hex_str.simps) (simp add: hex_char_props)
  next
    case False
    have "16 * (n div 16) + n mod 16 = n" by simp
    then show ?thesis using False 1
      by (subst hex_str.simps) (simp add: hex_number_append hex_char_props)
  qed
qed

lemma hex_str_hex: "list_all is_hex (hex_str n)"
proof (induction n rule: hex_str.induct)
  case (1 n)
  then show ?case by (subst hex_str.simps) (simp add: hex_char_props list_all_append)
qed

lemma hex_str_not_Nil [simp]: "hex_str n \<noteq> []"
  by (subst hex_str.simps) simp

lemma hex_str_length: "n < 16 ^ k \<Longrightarrow> 0 < k \<Longrightarrow> length (hex_str n) \<le> k"
proof (induction n arbitrary: k rule: hex_str.induct)
  case (1 n)
  show ?case
  proof (cases "n < 16")
    case True
    then show ?thesis using "1.prems" by (subst hex_str.simps) simp
  next
    case False
    then obtain j where k: "k = Suc j" "0 < j" using "1.prems" by (cases k; cases "k - 1") auto
    then have "n div 16 < 16 ^ j" using "1.prems" by (simp add: less_mult_imp_div_less mult.commute)
    then show ?thesis using "1.IH" [OF False _ k(2)] False k by (subst hex_str.simps) simp
  qed
qed

lemma hex_str_4: "n < 65536 \<Longrightarrow> length (hex_str n) \<le> 4"
  using hex_str_length [of n 4] by simp

lemma not_hex [simp]: "\<not> is_hex (CHR '':'')" "\<not> is_hex (CHR ''.'')" "\<not> is_hex (CHR ''%'')"
  by (simp_all add: is_hex_def is_digit_def)

lemma hex_str_set: "c \<in> set (hex_str n) \<Longrightarrow> is_hex c"
  using hex_str_hex [of n] by (simp add: list_all_iff)

lemma hex_takeWhile [simp]:
  "takeWhile is_hex (hex_str n @ CHR '':'' # t) = hex_str n" "takeWhile is_hex (hex_str n) = hex_str n"
  "dropWhile is_hex (hex_str n @ CHR '':'' # t) = CHR '':'' # t" "dropWhile is_hex (hex_str n) = []"
  using hex_str_set by (simp_all add: takeWhile_append dropWhile_append)

subsection \<open>The group loop on printed groups\<close>

lemma loop_last:
  "length ip < 16 \<Longrightarrow> n < 65536 \<Longrightarrow> parse6_loop ip ell (hex_str n) = Some (ip @ enc16 n, ell, [])"
  using hex_str_4 [of n] by (subst parse6_loop.simps) (simp add: hex_str_number Let_def)

lemma loop_next:
  "length ip < 16 \<Longrightarrow> n < 65536 \<Longrightarrow> t \<noteq> [] \<Longrightarrow> hd t \<noteq> CHR '':'' \<Longrightarrow>
   parse6_loop ip ell (hex_str n @ CHR '':'' # t) = parse6_loop (ip @ enc16 n) ell t"
  using hex_str_4 [of n] by (subst parse6_loop.simps) (simp add: hex_str_number Let_def)

lemma loop_ellipsis:
  "length ip < 16 \<Longrightarrow> n < 65536 \<Longrightarrow>
   parse6_loop ip None (hex_str n @ CHR '':'' # CHR '':'' # t) =
     (if t = [] then Some (ip @ enc16 n, Some (length ip + 2), [])
      else parse6_loop (ip @ enc16 n) (Some (length ip + 2)) t)"
  using hex_str_4 [of n] by (subst parse6_loop.simps) (simp add: hex_str_number Let_def)

definition enc_groups :: "nat list \<Rightarrow> bytes" where
  "enc_groups gs = concat (map enc16 gs)"

lemma enc_groups_simps [simp]:
  "enc_groups [] = []" "enc_groups (g # gs) = enc16 g @ enc_groups gs"
  "enc_groups (gs @ hs) = enc_groups gs @ enc_groups hs"
  "enc_groups (replicate k 0) = replicate (2 * k) 0"
  by (simp_all add: enc_groups_def) (induction k; simp add: enc16_def)

lemma length_enc_groups [simp]: "length (enc_groups gs) = 2 * length gs"
  by (induction gs) auto

abbreviation print_groups :: "nat list \<Rightarrow> string" where
  "print_groups gs \<equiv> Join '':'' (map hex_str gs)"

lemma print_groups_hd:
  assumes "gs \<noteq> []"
  shows "print_groups gs \<noteq> [] \<and> is_hex (hd (print_groups gs))"
proof -
  obtain g hs where gs: "gs = g # hs" using assms by (cases gs) auto
  have "is_hex (hd (hex_str g))" by (rule hex_str_set [of _ g]) (simp add: hd_in_set)
  then show ?thesis using gs by (cases hs) auto
qed

lemma print_groups_not_colon: "gs \<noteq> [] \<Longrightarrow> hd (print_groups gs) \<noteq> CHR '':''"
  using print_groups_hd [of gs] by auto

lemma loop_groups:
  assumes "gs \<noteq> []" "\<forall>g\<in>set gs. g < 65536" "length ip + 2 * length gs \<le> 16"
  shows "parse6_loop ip ell (print_groups gs) = Some (ip @ enc_groups gs, ell, [])"
  using assms
proof (induction gs arbitrary: ip)
  case (Cons g gs)
  show ?case
  proof (cases gs)
    case Nil
    then show ?thesis using Cons.prems by (simp add: loop_last)
  next
    case (Cons h hs)
    then have ne: "gs \<noteq> []" by simp
    have "print_groups (g # gs) = hex_str g @ CHR '':'' # print_groups gs" using Cons by simp
    then show ?thesis
      using Cons.prems Cons.IH [of "ip @ enc16 g"] ne loop_next [of ip g "print_groups gs" ell]
        print_groups_hd [OF ne] print_groups_not_colon [OF ne] by auto
  qed
qed simp

lemma loop_groups_ellipsis:
  assumes "gs \<noteq> []" "\<forall>g\<in>set gs. g < 65536" "length ip + 2 * length gs \<le> 16"
  shows "parse6_loop ip None (print_groups gs @ ''::'' @ t) =
    (let ip' = ip @ enc_groups gs in
     if t = [] then Some (ip', Some (length ip'), []) else parse6_loop ip' (Some (length ip')) t)"
  using assms
proof (induction gs arbitrary: ip)
  case (Cons g gs)
  show ?case
  proof (cases gs)
    case Nil
    then show ?thesis using Cons.prems loop_ellipsis [of ip g t] by (simp add: Let_def)
  next
    case (Cons h hs)
    then have ne: "gs \<noteq> []" by simp
    have "print_groups (g # gs) @ ''::'' @ t = hex_str g @ CHR '':'' # print_groups gs @ ''::'' @ t"
      using Cons by simp
    then show ?thesis
      using Cons.prems Cons.IH [of "ip @ enc16 g"] ne
        loop_next [of ip g "print_groups gs @ ''::'' @ t" None]
        print_groups_hd [OF ne] print_groups_not_colon [OF ne] by (auto simp: Let_def)
  qed
qed simp

subsection \<open>Groups of an address\<close>

lemma enc16_be16 [simp]: "enc16 (be16 a b) = [a, b]"
  by (simp add: enc16_def be16_def)

lemma enc_groups_of: "even (length b) \<Longrightarrow> enc_groups (groups_of b) = b"
  by (induction b rule: groups_of.induct) (auto simp: enc_groups_def)

lemma length_groups_of [simp]: "length (groups_of b) = length b div 2"
  by (induction b rule: groups_of.induct) auto

lemma groups_of_less: "g \<in> set (groups_of b) \<Longrightarrow> g < 65536"
  by (induction b rule: groups_of.induct) auto

definition run_ok :: "nat list \<Rightarrow> nat \<times> nat \<Rightarrow> bool" where
  "run_ok gs r \<longleftrightarrow> (case r of (st, l) \<Rightarrow>
     l = 0 \<or> 2 \<le> l \<and> st + l \<le> length gs \<and> take l (drop st gs) = replicate l 0)"

lemma takeWhile_zero: "take (length (takeWhile (\<lambda>g. g = 0) xs)) xs = replicate (length (takeWhile (\<lambda>g. g = 0) xs)) (0 :: nat)"
  by (induction xs) auto

lemma zero_run_ok: "2 \<le> zero_run gs i \<Longrightarrow> run_ok gs (i, zero_run gs i)"
  using length_takeWhile_le [of "\<lambda>g. g = 0" "drop i gs"] takeWhile_zero [of "drop i gs"]
  by (auto simp: run_ok_def zero_run_def)

lemma best_run_ok: "run_ok gs (best_run gs)"
proof -
  let ?f = "\<lambda>(st, l) i. let k = zero_run gs i in if 2 \<le> k \<and> l < k then (i, k) else (st, l)"
  have "run_ok gs r \<Longrightarrow> run_ok gs (foldl ?f r is)" for r "is"
    by (induction "is" arbitrary: r) (auto simp: Let_def zero_run_ok split: prod.splits)
  moreover have "run_ok gs (0, 0)" by (simp add: run_ok_def)
  ultimately show ?thesis unfolding best_run_def by blast
qed

subsection \<open>Round trip\<close>

lemma dispatch_colon:
  "list_all is_hex u \<Longrightarrow> parse_addr_dispatch s (u @ CHR '':'' # r) = parseIPv6 s"
proof (induction u)
  case (Cons c u)
  then have "c \<noteq> CHR ''.''" "c \<noteq> CHR '':''" "c \<noteq> CHR ''%''" by auto
  then show ?case using Cons by simp
qed simp

lemma print_groups_chars: "c \<in> set (print_groups gs) \<Longrightarrow> is_hex c \<or> c = CHR '':''"
  by (induction gs rule: induct_list012) (auto dest: hex_str_set)

lemma parseIPv6_no_zone: "CHR ''%'' \<notin> set s \<Longrightarrow> parseIPv6 s = parse6_body s []"
  by (simp add: parseIPv6_def IndexByte_def)

lemma body_plain:
  assumes "s \<noteq> []" "is_hex (hd s)"
  shows "parse6_body s z = Option.bind (parse6_loop [] None s) (parse6_finish z)"
proof -
  obtain c t where "s = c # t" "is_hex c" using assms by (cases s) auto
  then have "\<not> HasPrefix s ''::''" by (auto simp: HasPrefix_def)
  then show ?thesis by (simp add: parse6_body_def)
qed

text \<open>Eight groups with a run of zeros taken out, as \<open>string6\<close> writes them.\<close>

lemma body_ellipsis:
  assumes "length pre + length post < 8" "\<forall>g\<in>set pre \<union> set post. g < 65536"
  shows "parse6_body (print_groups pre @ ''::'' @ print_groups post) [] =
    Some (Addr6 (enc_groups (pre @ replicate (8 - length pre - length post) 0 @ post)) [])"
proof -
  have k: "16 - (2 * length pre + 2 * length post) = 2 * (8 - length pre - length post)" by simp
  show ?thesis
  proof (cases "pre = []")
    case True
    show ?thesis
    proof (cases "post = []")
      case True
      then show ?thesis using \<open>pre = []\<close> enc_groups_simps(4) [of 8] by (simp add: parse6_body_def HasPrefix_def)
    next
      case False
      have "parse6_loop [] (Some 0) (print_groups post) = Some (enc_groups post, Some 0, [])"
        using loop_groups [of post "[]" "Some 0"] False assms True by simp
      then show ?thesis
        using True False assms print_groups_hd [OF False] enc_groups_simps(4) [of "8 - length post"] k
        by (simp add: parse6_body_def HasPrefix_def)
    qed
  next
    case False
    let ?s = "print_groups pre @ ''::'' @ print_groups post"
    have hd: "is_hex (hd ?s)" "?s \<noteq> []" using print_groups_hd [OF False] by simp_all
    have body: "parse6_body ?s [] = Option.bind (parse6_loop [] None ?s) (parse6_finish [])"
      using hd by (intro body_plain)
    have "parse6_loop [] None ?s =
        Some (enc_groups pre @ enc_groups post, Some (2 * length pre), [])"
    proof (cases "post = []")
      case True
      then show ?thesis using loop_groups_ellipsis [of pre "[]" "[]"] False assms by (simp add: Let_def)
    next
      case ne: False
      then show ?thesis
        using loop_groups_ellipsis [of pre "[]" "print_groups post"] False assms print_groups_hd [OF ne]
          loop_groups [of post "enc_groups pre" "Some (2 * length pre)"] by (simp add: Let_def)
    qed
    then show ?thesis using assms(1) body k enc_groups_simps(4) [of "8 - length pre - length post"]
      by simp
  qed
qed

lemma string6_parse:
  assumes "length b = 16"
  shows "ParseAddr (string6 b) = Some (Addr6 b [])"
proof -
  let ?gs = "groups_of b"
  obtain st l where run: "best_run ?gs = (st, l)" by fastforce
  have len: "length ?gs = 8" and enc: "enc_groups ?gs = b" using assms enc_groups_of [of b] by simp_all
  have less: "\<forall>g\<in>set ?gs. g < 65536" using groups_of_less by blast
  have body: "parse6_body (string6 b) [] = Some (Addr6 b [])
      \<and> (\<exists>u r. string6 b = u @ CHR '':'' # r \<and> list_all is_hex u) \<and> CHR ''%'' \<notin> set (string6 b)"
  proof (cases "l = 0")
    case True
    then have s: "string6 b = print_groups ?gs" using run by (simp add: string6_def)
    have ne: "?gs \<noteq> []" using len by (auto simp del: length_groups_of)
    have "parse6_loop [] None (print_groups ?gs) = Some (b, None, [])"
      using loop_groups [OF ne less, of "[]" None] len enc by simp
    then have "parse6_body (string6 b) [] = Some (Addr6 b [])"
      using print_groups_hd [OF ne] assms by (simp add: s body_plain)
    moreover have "\<exists>u r. string6 b = u @ CHR '':'' # r \<and> list_all is_hex u"
    proof -
      have "4 \<le> length ?gs" using len by linarith
      then obtain g h x y ys where "?gs = g # h # x # y # ys" by (rule list4_exhaust)
      then show ?thesis unfolding s using hex_str_hex [of g]
        by (intro exI [of _ "hex_str g"] exI [of _ "print_groups (h # x # y # ys)"]) simp
    qed
    ultimately show ?thesis using print_groups_chars [of "CHR ''%''" ?gs] s by auto
  next
    case False
    let ?pre = "take st ?gs" and ?post = "drop (st + l) ?gs"
    have s: "string6 b = print_groups ?pre @ ''::'' @ print_groups ?post"
      using run False by (simp add: string6_def Let_def)
    have ok: "2 \<le> l" "st + l \<le> 8" "take l (drop st ?gs) = replicate l 0"
      using best_run_ok [of ?gs] run False len by (auto simp: run_ok_def)
    have "?gs = ?pre @ replicate l 0 @ ?post"
      by (metis add.commute append_take_drop_id drop_drop ok(3))
    moreover have "length ?pre = st" "length ?post = 8 - (st + l)" using ok len by auto
    moreover have "\<forall>g\<in>set ?pre \<union> set ?post. g < 65536" using less by (auto dest: in_set_takeD in_set_dropD)
    ultimately have "parse6_body (string6 b) [] = Some (Addr6 b [])"
      using body_ellipsis [of ?pre ?post] ok enc by (simp add: s)
    moreover have "\<exists>u r. string6 b = u @ CHR '':'' # r \<and> list_all is_hex u"
    proof (cases ?pre)
      case Nil
      show ?thesis unfolding s Nil by (rule exI [of _ "[]"]) simp
    next
      case (Cons g hs)
      show ?thesis unfolding s Cons
        by (rule exI [of _ "hex_str g"]) (use hex_str_hex [of g] in \<open>cases hs; simp\<close>)
    qed
    ultimately show ?thesis using print_groups_chars [of "CHR ''%''"] s by auto
  qed
  then show ?thesis by (auto simp: ParseAddr_def dispatch_colon parseIPv6_no_zone)
qed

lemma string4_fields: "length b = 4 \<Longrightarrow> parseIPv4Fields (string4 b) = Some b"
proof -
  assume "length b = 4"
  then obtain a1 a2 a3 a4 where b: "b = [a1, a2, a3, a4]"
    by (auto simp: numeral_eq_Suc length_Suc_conv)
  show ?thesis
    by (simp add: string4_def b ip4_fields_Itoa is_digit_def ip4_fields_Itoa [where r = "[]", simplified])
qed

lemma string4_shape:
  assumes "length b = 4"
  obtains d r where "string4 b = d @ CHR ''.'' # r" "list_all is_digit d" "d \<noteq> []" "length d \<le> 3"
    "CHR '':'' \<notin> set r" "CHR ''%'' \<notin> set r"
proof -
  obtain a1 a2 a3 a4 where b: "b = [a1, a2, a3, a4]"
    using assms by (auto simp: numeral_eq_Suc length_Suc_conv)
  have "length (Itoa (unat a1)) \<le> 3"
    using length_Itoa_le [of "unat a1" 3] unat_byte_less [of a1] by simp
  then show thesis using Itoa_digits
    by (intro that [of "Itoa (unat a1)" "Itoa (unat a2) @ ''.'' @ Itoa (unat a3) @ ''.'' @ Itoa (unat a4)"])
      (simp_all add: string4_def b Itoa_no_sep)
qed

lemma digit_hex: "is_digit c \<Longrightarrow> is_hex c"
  by (simp add: is_hex_def)

lemma mapped_parse:
  assumes "length d = 4"
  shows "ParseAddr (''::ffff:'' @ string4 d) = Some (Addr6 (mapped_prefix @ d) [])"
proof -
  obtain u r where u: "string4 d = u @ CHR ''.'' # r" "list_all is_digit u" "u \<noteq> []" "length u \<le> 3"
      "CHR '':'' \<notin> set r" "CHR ''%'' \<notin> set r"
    using assms by (rule string4_shape)
  have hex: "\<And>c. c \<in> set u \<Longrightarrow> is_hex c" using u(2) digit_hex by (auto simp: list_all_iff)
  then have tw: "takeWhile is_hex (string4 d) = u" "dropWhile is_hex (string4 d) = CHR ''.'' # r"
    unfolding u(1) by (simp_all add: takeWhile_append dropWhile_append)
  have hd: "string4 d \<noteq> []" "hd (string4 d) \<noteq> CHR '':''"
    using u(3) hex [of "hd u"] unfolding u(1) by auto
  have "char_of (102::nat) = CHR ''f''" by (rule of_char_eq_iff [where 'a = nat, THEN iffD1]) simp
  then have f: "hex_str 65535 = ''ffff''" by (simp add: hex_str.simps hex_char_def)
  have e: "enc16 65535 = [255, 255]" by (simp add: enc16_def)
  have "parse6_loop [] (Some 0) (''ffff:'' @ string4 d) = parse6_loop [255, 255] (Some 0) (string4 d)"
    using loop_next [of "[]" 65535 "string4 d" "Some 0"] hd by (simp add: f e)
  also have "\<dots> = Some ([255, 255] @ d, Some 0, [])"
    using u(3,4) by (subst parse6_loop.simps) (simp add: tw Let_def string4_fields [OF assms])
  finally have "parse6_loop [] (Some 0) (''ffff:'' @ string4 d) = Some ([255, 255] @ d, Some 0, [])" .
  then have body: "parse6_body (''::ffff:'' @ string4 d) [] = Some (Addr6 (mapped_prefix @ d) [])"
    using assms by (simp add: parse6_body_def HasPrefix_def mapped_prefix_def)
  have "CHR ''%'' \<notin> set (string4 d)" using u by (auto simp: list_all_iff is_digit_def)
  then have "parseIPv6 (''::ffff:'' @ string4 d) = Some (Addr6 (mapped_prefix @ d) [])"
    using body by (simp add: parseIPv6_no_zone)
  then show ?thesis by (simp add: ParseAddr_def)
qed

lemma addr_String_parse:
  assumes "valid_addr a" "Zone a = []"
  shows "ParseAddr (addr_String a) = Some a"
proof (cases a)
  case (Addr4 b)
  then show ?thesis using assms by (simp add: string4_parse)
next
  case (Addr6 b z)
  then have b: "length b = 16" "z = []" using assms by simp_all
  show ?thesis
  proof (cases "take 12 b = mapped_prefix")
    case True
    then have "mapped_prefix @ drop 12 b = b" by (metis append_take_drop_id)
    then show ?thesis using True b Addr6 mapped_parse [of "drop 12 b"] by (simp add: with_zone_def)
  next
    case False
    then show ?thesis using b Addr6 by (simp add: string6_parse with_zone_def)
  qed
qed (use assms in simp)

subsection \<open>Printed length\<close>

lemma print_groups_length:
  assumes "\<forall>g\<in>set gs. g < 65536"
  shows "length (print_groups gs) \<le> 5 * length gs - 1"
  using assms
proof (induction gs rule: induct_list012)
  case (3 g h gs)
  then show ?case using hex_str_4 [of g] by simp
qed (use hex_str_4 in force)+

lemma string4_length: "length b = 4 \<Longrightarrow> length (string4 b) \<le> 15"
proof -
  assume "length b = 4"
  then obtain a1 a2 a3 a4 where b: "b = [a1, a2, a3, a4]"
    by (auto simp: numeral_eq_Suc length_Suc_conv)
  have "length (Itoa (unat (x :: byte))) \<le> 3" for x
    using length_Itoa_le [of "unat x" 3] unat_byte_less [of x] by simp
  from this [of a1] this [of a2] this [of a3] this [of a4] show ?thesis
    by (simp add: string4_def b)
qed

lemma string6_length:
  assumes "length b = 16"
  shows "length (string6 b) \<le> 39"
proof -
  let ?gs = "groups_of b"
  obtain st l where run: "best_run ?gs = (st, l)" by fastforce
  have len: "length ?gs = 8" using assms by simp
  have less: "\<forall>g\<in>set ?gs. g < 65536" using groups_of_less by blast
  show ?thesis
  proof (cases "l = 0")
    case True
    then show ?thesis using print_groups_length [OF less] run len by (simp add: string6_def)
  next
    case False
    have ok: "2 \<le> l" "st + l \<le> 8" using best_run_ok [of ?gs] run False len by (auto simp: run_ok_def)
    have "length (print_groups (take st ?gs)) \<le> 5 * st - 1"
      using print_groups_length [of "take st ?gs"] less len ok by (auto dest: in_set_takeD)
    moreover have "length (print_groups (drop (st + l) ?gs)) \<le> 5 * (8 - (st + l)) - 1"
      using print_groups_length [of "drop (st + l) ?gs"] less len ok by (auto dest: in_set_dropD)
    ultimately show ?thesis using run False ok by (simp add: string6_def Let_def)
  qed
qed

lemma addr_String_length:
  assumes "valid_addr a" "Zone a = []"
  shows "length (addr_String a) \<le> 39"
proof (cases a)
  case (Addr4 b)
  then show ?thesis using assms string4_length [of b] by simp
next
  case (Addr6 b z)
  then show ?thesis using assms string4_length [of "drop 12 b"] string6_length [of b]
    by (simp add: with_zone_def)
qed (use assms in simp)

lemma addr_String_chars:
  assumes "valid_addr a" "Zone a = []" "c \<in> set (addr_String a)"
  shows "is_hex c \<or> c = CHR '':'' \<or> c = CHR ''.''"
proof -
  have s4: "is_hex c \<or> c = CHR ''.''" if "c \<in> set (string4 b)" for b
  proof -
    have "c \<in> set (Join ''.'' ws) \<Longrightarrow> c = CHR ''.'' \<or> (\<exists>w\<in>set ws. c \<in> set w)" for ws
      by (induction ws rule: induct_list012) auto
    then show ?thesis using that by (fastforce simp: string4_def dest: Itoa_set digit_hex)
  qed
  have s6: "is_hex c \<or> c = CHR '':''" if "c \<in> set (string6 b)" for b
    using that print_groups_chars by (auto simp: string6_def Let_def split: if_splits prod.splits)
  show ?thesis using assms s4 s6 by (cases a) (auto simp: with_zone_def is_hex_def split: if_splits)
qed

end
