(* ===== verification/Proxy_Protocol_Props.thy ===== *)
theory Proxy_Protocol_Props
  imports Proxy_Protocol Netip_Print
begin

text \<open>
  What the PROXY protocol code promises: a header it writes is read back as the same endpoints,
  and a connection that carries no header comes out byte for byte as it went in.
\<close>

subsection \<open>Reads\<close>

lemma ReadFull_append:
  "length b = n \<Longrightarrow> pending s = b @ r \<Longrightarrow> ReadFull n s = ((None, b), s\<lparr>pending := r\<rparr>)"
  by (simp add: ReadFull_def)

lemma ReadFull_pending: "ReadFull n s = ((e, b), s') \<Longrightarrow> b @ pending s' = pending s"
  by (auto simp: ReadFull_def split: if_splits)

lemma ReadFull_ending: "ReadFull n s = ((e, b), s') \<Longrightarrow> ending s' = ending s"
  by (auto simp: ReadFull_def split: if_splits)

lemma ReadFull_length: "ReadFull n s = ((None, b), s') \<Longrightarrow> length b = n"
  by (auto simp: ReadFull_def split: if_splits)

lemma CopyN_pending: "CopyN n s = (e, s') \<Longrightarrow> \<exists>b. b @ pending s' = pending s"
  by (auto simp: CopyN_def split: if_splits intro: exI [of _ "take n (pending s)"])

lemmas read_facts = ReadFull_pending ReadFull_ending ReadFull_length CopyN_pending

subsection \<open>The write loop\<close>

lemma write_loop_prefix: "write_loop ws h = (e, sent) \<Longrightarrow> \<exists>rest. sent @ rest = h"
proof (induction ws h arbitrary: e sent rule: write_loop.induct)
  case (3 n failed ws v va)
  then show ?case
    by (auto split: if_splits prod.splits)
      (metis append_take_drop_id, metis append_assoc append_take_drop_id)
qed auto

lemma write_loop_complete: "write_loop ws h = (None, sent) \<Longrightarrow> sent = h"
proof (induction ws h arbitrary: sent rule: write_loop.induct)
  case (3 n failed ws v va)
  then show ?case
    by (auto split: if_splits prod.splits)
qed auto

subsection \<open>Version 2\<close>

lemma hi4_values [simp]: "hi4 0x21 = 2" "hi4 0x11 = 1" "lo4 0x21 = 1" "lo4 0x11 = 1"
  by (simp_all add: hi4_def lo4_def)

lemma readProxyV2_inet:
  assumes "length a = 4" "length b = 4" "sp < 65536" "dp < 65536"
    and "pending s = [0x21, 0x11] @ enc16 12 @ a @ b @ enc16 sp @ enc16 dp @ rest"
  shows "readProxyV2 s =
    (Inr (Some (TCPAddr a (int sp) [], TCPAddr b (int dp) [])), s\<lparr>pending := rest\<rparr>)"
proof -
  obtain a1 a2 a3 a4 where a: "a = [a1, a2, a3, a4]"
    using assms(1) by (auto simp: numeral_eq_Suc length_Suc_conv)
  obtain b1 b2 b3 b4 where b: "b = [b1, b2, b3, b4]"
    using assms(2) by (auto simp: numeral_eq_Suc length_Suc_conv)
  have twelve: "be16 0 12 = 12" by (simp add: be16_def)
  show ?thesis
    using assms(3-5) twelve
    by (simp add: readProxyV2_def ReadFull_def CopyN_def a b enc16_def v2_need_def v2_endpoints_def
        be16_enc16 Let_def)
qed

lemma readProxyV2_inet6:
  assumes "length a = 16" "length b = 16" "sp < 65536" "dp < 65536"
    and "pending s = [0x21, 0x21] @ enc16 36 @ a @ b @ enc16 sp @ enc16 dp @ rest"
  shows "readProxyV2 s =
    (Inr (Some (TCPAddr a (int sp) [], TCPAddr b (int dp) [])), s\<lparr>pending := rest\<rparr>)"
proof -
  let ?block = "a @ b @ enc16 sp @ enc16 dp"
  have len: "length ?block = 36" using assms by simp
  have ends: "v2_endpoints 2 ?block = Some (TCPAddr a (int sp) [], TCPAddr b (int dp) [])"
    using assms(1-4) by (simp add: v2_endpoints_def nth_append enc16_def be16_enc16)
  have head: "ReadFull 4 s = ((None, [0x21, 0x21] @ enc16 36), s\<lparr>pending := ?block @ rest\<rparr>)"
    by (rule ReadFull_append) (simp_all add: assms(5))
  have addr: "ReadFull 36 (s\<lparr>pending := ?block @ rest\<rparr>) = ((None, ?block), s\<lparr>pending := rest\<rparr>)"
    using ReadFull_append [of ?block 36 "s\<lparr>pending := ?block @ rest\<rparr>" rest] len by simp
  have c0: "CopyN 0 (s\<lparr>pending := rest\<rparr>) = (None, s\<lparr>pending := rest\<rparr>)" by (simp add: CopyN_def)
  have "be16 0 36 = 36" by (simp add: be16_def)
  then show ?thesis
    unfolding readProxyV2_def head
    using addr c0 ends by (simp add: enc16_def v2_need_def Let_def del: append_assoc)
qed

lemma detect_v2:
  "pending s = proxyV2Sig @ r \<Longrightarrow> detectProxyProtocol s =
     (case readProxyV2 (s\<lparr>pending := r\<rparr>) of (Inl e, _) \<Rightarrow> Inl e
      | (Inr e, s3) \<Rightarrow> Inr (stated_conn 2 s3 e))"
  by (simp add: detectProxyProtocol_def ReadFull_def proxyV2Sig_def proxyV1Prefix_def
      bytes_of_string_def byte_of_char_def Let_def)

text \<open>
  Two socket addresses name the same endpoint when their ports agree and their IP addresses do,
  an IPv4-mapped IPv6 address counting as its IPv4 address.
\<close>

fun same_endpoint :: "net_addr \<Rightarrow> net_addr \<Rightarrow> bool" where
  "same_endpoint (TCPAddr ip p z) (TCPAddr ip' p' z') \<longleftrightarrow>
     p = p' \<and> AddrFromSlice ip \<noteq> None
     \<and> map_option Unmap (AddrFromSlice ip) = map_option Unmap (AddrFromSlice ip')"
| "same_endpoint _ _ \<longleftrightarrow> False"

text \<open>The pair of addresses one header states: one family for both.\<close>

definition one_family :: "addr \<Rightarrow> addr \<Rightarrow> addr \<times> addr" where
  "one_family a b = (if Is4 (Unmap a) \<noteq> Is4 (Unmap b)
     then (AddrFrom16 (As16 (Unmap a)), AddrFrom16 (As16 (Unmap b))) else (Unmap a, Unmap b))"

lemma Unmap_idem [simp]: "valid_addr a \<Longrightarrow> Unmap (Unmap a) = Unmap a"
  by (cases a) auto

lemma Zone_Unmap_le: "Zone a = [] \<Longrightarrow> Zone (Unmap a) = []"
  by (cases a) auto

lemma one_family_props:
  assumes "AddrFromSlice s = Some a" "AddrFromSlice d = Some b" "one_family a b = (x, y)"
  shows "valid_addr x" "valid_addr y" "Zone x = []" "Zone y = []" "Is4 x = Is4 y"
    "Unmap x = Unmap a" "Unmap y = Unmap b"
proof -
  have va: "valid_addr a" "valid_addr b" and za: "Zone a = []" "Zone b = []"
    using assms AddrFromSlice_valid AddrFromSlice_zone by blast+
  have len: "length (As16 (Unmap a)) = 16" "length (As16 (Unmap b)) = 16" using va by simp_all
  have un: "Unmap (AddrFrom16 (As16 (Unmap a))) = Unmap a" "Unmap (AddrFrom16 (As16 (Unmap b))) = Unmap b"
    using Unmap_As16 [of "Unmap a"] Unmap_As16 [of "Unmap b"] va za Zone_Unmap_le by simp_all
  have "valid_addr x \<and> valid_addr y \<and> Zone x = [] \<and> Zone y = [] \<and> Is4 x = Is4 y
      \<and> Unmap x = Unmap a \<and> Unmap y = Unmap b"
  proof (cases "Is4 (Unmap a) \<noteq> Is4 (Unmap b)")
    case True
    then have xy: "x = AddrFrom16 (As16 (Unmap a))" "y = AddrFrom16 (As16 (Unmap b))"
      using assms(3) by (simp_all add: one_family_def)
    have "valid_addr (AddrFrom16 c)" "Zone (AddrFrom16 c) = []" "\<not> Is4 (AddrFrom16 c)"
      if "length c = 16" for c using that by (simp_all add: AddrFrom16_def)
    then show ?thesis unfolding xy using un len by blast
  next
    case False
    then have "x = Unmap a" "y = Unmap b" using assms(3) by (simp_all add: one_family_def)
    then show ?thesis using False va za by (simp add: Zone_Unmap_le)
  qed
  then show "valid_addr x" "valid_addr y" "Zone x = []" "Zone y = []" "Is4 x = Is4 y"
    "Unmap x = Unmap a" "Unmap y = Unmap b" by blast+
qed

lemma proxyProtocolHeader_cases:
  assumes "proxyProtocolHeader version src dst = Inr h"
  obtains sip sport sz dip dport dz a b x y where
    "src = TCPAddr sip (int sport) sz" "dst = TCPAddr dip (int dport) dz"
    "AddrFromSlice sip = Some a" "AddrFromSlice dip = Some b" "sport < 65536" "dport < 65536"
    "one_family a b = (x, y)"
    "version = 1 \<and> h = bytes_of_string (v1_line x y sport dport)
       \<or> version = 2 \<and> h = v2_header x y sport dport"
proof -
  obtain sip sp sz where s: "src = TCPAddr sip sp sz"
    using assms by (cases src) (auto simp: proxyProtocolHeader_def)
  obtain dip dp dz where d: "dst = TCPAddr dip dp dz"
    using assms s by (cases dst) (auto simp: proxyProtocolHeader_def)
  obtain a b where ab: "AddrFromSlice sip = Some a" "AddrFromSlice dip = Some b"
    using assms s d by (auto simp: proxyProtocolHeader_def split: option.splits)
  obtain x y where xy: "one_family a b = (x, y)" by fastforce
  have ports: "0 \<le> sp" "sp \<le> 65535" "0 \<le> dp" "dp \<le> 65535"
    using assms s d ab by (auto simp: proxyProtocolHeader_def split: if_splits)
  have h: "version = 1 \<and> h = bytes_of_string (v1_line x y (nat sp) (nat dp))
      \<or> version = 2 \<and> h = v2_header x y (nat sp) (nat dp)"
    using assms s d ab xy by (auto simp: proxyProtocolHeader_def one_family_def Let_def split: if_splits)
  show thesis
    by (rule that [of sip "nat sp" sz dip "nat dp" dz a b x y]) (use s d ab xy ports h in auto)
qed

lemma readProxyV2_header:
  assumes "valid_addr x" "valid_addr y" "Is4 x = Is4 y" "sp < 65536" "dp < 65536"
    and "pending s = v2_header x y sp dp @ rest"
  shows "detectProxyProtocol s = Inr (stated_conn 2 (s\<lparr>pending := rest\<rparr>)
    (Some (TCPAddr (AsSlice x) (int sp) [], TCPAddr (AsSlice y) (int dp) [])))"
proof -
  let ?r = "[0x21, if Is4 x then 0x11 else 0x21] @ enc16 (if Is4 x then 12 else 36) @
      AsSlice x @ AsSlice y @ enc16 sp @ enc16 dp @ rest"
  have p: "pending s = proxyV2Sig @ ?r" using assms(6) by (simp add: v2_header_def)
  have "readProxyV2 (s\<lparr>pending := ?r\<rparr>) =
      (Inr (Some (TCPAddr (AsSlice x) (int sp) [], TCPAddr (AsSlice y) (int dp) [])), s\<lparr>pending := rest\<rparr>)"
  proof (cases "Is4 x")
    case True
    then have "length (AsSlice x) = 4" "length (AsSlice y) = 4"
      using assms(1-3) by (cases x; cases y; simp)+
    then show ?thesis using True assms(4,5) readProxyV2_inet [of "AsSlice x" "AsSlice y" sp dp "s\<lparr>pending := ?r\<rparr>" rest]
      by simp
  next
    case False
    then have "length (AsSlice x) = 16" "length (AsSlice y) = 16"
      using assms(1-3) by (cases x; cases y; simp)+
    then show ?thesis using False assms(4,5) readProxyV2_inet6 [of "AsSlice x" "AsSlice y" sp dp "s\<lparr>pending := ?r\<rparr>" rest]
      by simp
  qed
  then show ?thesis by (simp add: detect_v2 [OF p])
qed

subsection \<open>Connections without a header\<close>

text \<open>The bytes a connection still has to deliver: those replayed, then those that arrive.\<close>

definition unread :: "proxyConn \<Rightarrow> bytes" where
  "unread c = pc_prefix c @ pending (pc_conn c)"

lemma proxyConn_Read_unread:
  "proxyConn_Read room c = (b, c') \<Longrightarrow> b @ unread c' = unread c"
  by (auto simp: proxyConn_Read_def unread_def split: if_splits)

lemma detect_plain:
  assumes "detectProxyProtocol s = Inr c" "pc_version c = 0"
  shows "unread c = pending s" "ending (pc_conn c) = ending s" "pc_remote c = None" "pc_local c = None"
proof -
  obtain e first s1 where r1: "ReadFull 1 s = ((e, first), s1)" by (metis surj_pair)
  then have none: "e = None" using assms(1) by (auto simp: detectProxyProtocol_def split: option.splits)
  define sg where "sg = (if first ! 0 = bytes_of_string proxyV1Prefix ! 0
      then bytes_of_string proxyV1Prefix else proxyV2Sig)"
  obtain e2 got s2 where r2: "ReadFull (length sg - 1) s1 = ((e2, got), s2)" by (metis surj_pair)
  have "c = plain_conn s1 first \<or> c = plain_conn s2 (first @ got)"
    using assms r1 r2 none
    by (auto simp: detectProxyProtocol_def sg_def [symmetric] Let_def stated_conn_def
        split: option.splits io_error.splits if_splits prod.splits sum.splits)
  then show "unread c = pending s" "ending (pc_conn c) = ending s" "pc_remote c = None" "pc_local c = None"
    using ReadFull_pending [OF r1] ReadFull_pending [OF r2] ReadFull_ending [OF r1] ReadFull_ending [OF r2]
    by (auto simp: plain_conn_def unread_def)
qed

text \<open>What follows the first byte when it could start a signature.\<close>

definition detect_rest :: "bytes \<Rightarrow> byte \<Rightarrow> inbound \<Rightarrow> (proxy_error, proxyConn) result" where
  "detect_rest sg b s1 = (case ReadFull (length sg - 1) s1 of
      ((Some (IoFault e), _), _) \<Rightarrow> Inl (SignatureRead (IoFault e))
    | ((Some _, got), s2) \<Rightarrow> Inr (plain_conn s2 ([b] @ got))
    | ((None, got), s2) \<Rightarrow>
        if [b] @ got \<noteq> sg then Inr (plain_conn s2 ([b] @ got))
        else if sg = bytes_of_string proxyV1Prefix
        then (case readProxyV1 s2 ([b] @ got) of (Inl e, _) \<Rightarrow> Inl e | (Inr e, s3) \<Rightarrow> Inr (stated_conn 1 s3 e))
        else (case readProxyV2 s2 of (Inl e, _) \<Rightarrow> Inl e | (Inr e, s3) \<Rightarrow> Inr (stated_conn 2 s3 e)))"

lemma detect_eq:
  assumes "pending s = b # r"
  shows "detectProxyProtocol s =
    (if b \<noteq> bytes_of_string proxyV1Prefix ! 0 \<and> b \<noteq> proxyV2Sig ! 0
     then Inr (plain_conn (s\<lparr>pending := r\<rparr>) [b])
     else detect_rest (if b = bytes_of_string proxyV1Prefix ! 0
       then bytes_of_string proxyV1Prefix else proxyV2Sig) b (s\<lparr>pending := r\<rparr>))"
proof -
  have r1: "ReadFull 1 s = ((None, [b]), s\<lparr>pending := r\<rparr>)" using assms by (simp add: ReadFull_def)
  show ?thesis
    unfolding detectProxyProtocol_def r1 detect_rest_def Let_def prod.case option.case nth_Cons_0 ..
qed

lemma detect_rest_plain:
  assumes "ending s1 = EOF" "[b] @ take (length sg - 1) (pending s1) \<noteq> sg"
  shows "\<exists>c. detect_rest sg b s1 = Inr c \<and> pc_version c = 0"
proof (cases "length sg - 1 \<le> length (pending s1)")
  case True
  then show ?thesis using assms by (simp add: detect_rest_def ReadFull_def plain_conn_def)
next
  case False
  then show ?thesis using assms(1) by (simp add: detect_rest_def ReadFull_def plain_conn_def)
qed

lemma not_proxy_plain:
  assumes "pending s \<noteq> []" "ending s = EOF"
    and "take 6 (pending s) \<noteq> bytes_of_string proxyV1Prefix" "take 12 (pending s) \<noteq> proxyV2Sig"
  shows "\<exists>c. detectProxyProtocol s = Inr c \<and> pc_version c = 0"
proof -
  have lens: "length (bytes_of_string proxyV1Prefix) = 6" "length proxyV2Sig = 12"
    by (simp_all add: proxyV1Prefix_def proxyV2Sig_def)
  obtain b r where p: "pending s = b # r" using assms(1) by (cases "pending s") auto
  let ?s1 = "s\<lparr>pending := r\<rparr>"
  have "\<exists>c. detect_rest (bytes_of_string proxyV1Prefix) b ?s1 = Inr c \<and> pc_version c = 0"
    by (rule detect_rest_plain) (use assms(2,3) p lens in \<open>simp_all del: length_bytes_of_string\<close>)
  moreover have "\<exists>c. detect_rest proxyV2Sig b ?s1 = Inr c \<and> pc_version c = 0"
    by (rule detect_rest_plain) (use assms(2,4) p lens in simp_all)
  moreover have "\<exists>c. Inr (plain_conn ?s1 [b]) = (Inr c :: (proxy_error, proxyConn) result) \<and> pc_version c = 0"
    by (simp add: plain_conn_def)
  ultimately show ?thesis unfolding detect_eq [OF p] by (simp only: split: if_split) blast
qed

lemma readProxyV1_consumes:
  "readProxyV1 s line = (Inr e, s') \<Longrightarrow>
     \<exists>b. b @ pending s' = pending s \<and> length line + length b \<le> proxyV1MaxLen
       \<and> 2 \<le> length (line @ b) \<and> drop (length (line @ b) - 2) (line @ b) = [13, 10]"
proof (induction s line arbitrary: s' e rule: readProxyV1.induct)
  case (1 s line)
  obtain x b s1 where r: "ReadFull 1 s = ((x, b), s1)" by (metis surj_pair)
  have len: "length line < proxyV1MaxLen" and none: "x = None"
    using "1.prems" r by (auto simp: readProxyV1.simps [of s line] split: if_splits option.splits)
  note r = r [unfolded none]
  have b: "length b = 1" "b @ pending s1 = pending s" using ReadFull_length ReadFull_pending r by blast+
  let ?l = "line @ b"
  show ?case
  proof (cases "2 \<le> length ?l \<and> ?l ! (length ?l - 2) = 13 \<and> ?l ! (length ?l - 1) = 10")
    case True
    then have "s' = s1" using "1.prems" r len by (simp add: readProxyV1.simps [of s line] Let_def)
    moreover have "drop (length ?l - 2) ?l = [13, 10]"
    proof -
      have l: "length ?l = Suc (Suc (length ?l - 2))" "length ?l - 1 = Suc (length ?l - 2)"
        using True by arith+
      then have "drop (length ?l - 2) ?l = ?l ! (length ?l - 2) # ?l ! Suc (length ?l - 2) # drop (Suc (Suc (length ?l - 2))) ?l"
        by (metis Cons_nth_drop_Suc lessI less_SucI)
      then show ?thesis using True l by simp
    qed
    ultimately show ?thesis using b len True by (intro exI [of _ b]) auto
  next
    case False
    then have rec: "readProxyV1 s1 ?l = (Inr e, s')"
      using "1.prems" r len by (auto simp: readProxyV1.simps [of s line] Let_def)
    obtain b2 where b2: "b2 @ pending s' = pending s1" "length ?l + length b2 \<le> proxyV1MaxLen"
        "2 \<le> length (?l @ b2)" "drop (length (?l @ b2) - 2) (?l @ b2) = [13, 10]"
      using "1.IH" [OF len r [symmetric] refl refl refl refl _ rec] False by blast
    show ?thesis by (rule exI [of _ "b @ b2"]) (use b2 b in auto)
  qed
qed

subsection \<open>Version 1\<close>

lemma ReadFull_Cons: "pending s = b # r \<Longrightarrow> ReadFull (Suc 0) s = ((None, [b]), s\<lparr>pending := r\<rparr>)"
  by (simp add: ReadFull_def)

lemma readProxyV1_step:
  assumes "pending s = b # r" "length line < proxyV1MaxLen"
    and "\<not> (2 \<le> length (line @ [b]) \<and> line ! (length line - 1) = 13 \<and> b = 10)"
  shows "readProxyV1 s line = readProxyV1 (s\<lparr>pending := r\<rparr>) (line @ [b])"
  using assms by (subst readProxyV1.simps) (auto simp: ReadFull_Cons Let_def nth_append)

lemma readProxyV1_line:
  assumes "13 \<notin> set (line @ mid)" "length line + length mid + 2 \<le> proxyV1MaxLen" "line \<noteq> []"
    and "pending s = mid @ [13, 10] @ rest"
  shows "readProxyV1 s line =
    (parse_v1_fields (Split (CHR '' '') (string_of_bytes (line @ mid))), s\<lparr>pending := rest\<rparr>)"
  using assms
proof (induction mid arbitrary: line s)
  case Nil
  have "readProxyV1 s line = readProxyV1 (s\<lparr>pending := 10 # rest\<rparr>) (line @ [13])"
    by (rule readProxyV1_step) (use Nil in auto)
  also have "\<dots> = (parse_v1_fields (Split (CHR '' '') (string_of_bytes line)), s\<lparr>pending := rest\<rparr>)"
    using Nil by (subst readProxyV1.simps) (simp add: ReadFull_Cons Let_def nth_append)
  finally show ?case by simp
next
  case (Cons b mid)
  have last: "line ! (length line - 1) \<noteq> 13"
    using Cons.prems(1,3) by (metis Un_iff last_conv_nth last_in_set set_append)
  have "readProxyV1 s line = readProxyV1 (s\<lparr>pending := mid @ [13, 10] @ rest\<rparr>) (line @ [b])"
    by (rule readProxyV1_step) (use Cons.prems last in auto)
  also have "\<dots> = (parse_v1_fields (Split (CHR '' '') (string_of_bytes ((line @ [b]) @ mid))),
      s\<lparr>pending := mid @ [13, 10] @ rest\<rparr>\<lparr>pending := rest\<rparr>)"
    by (rule Cons.IH) (use Cons.prems in auto)
  finally show ?case by simp
qed

lemma parseProxyPort_Itoa: "p < 65536 \<Longrightarrow> parseProxyPort (Itoa p) = Some (int p)"
  using Atoi_Itoa [of p] by (simp add: parseProxyPort_def)

lemma v1_addr_printed:
  assumes "valid_addr a" "Zone a = []"
  shows "v1_addr (if Is4 a then ''TCP4'' else ''TCP6'') (addr_String a) = Some a"
  using assms by (cases a) (simp_all add: v1_addr_def addr_String_parse del: addr_String.simps)

lemma no_space_addr: "valid_addr a \<Longrightarrow> Zone a = [] \<Longrightarrow> CHR '' '' \<notin> set (addr_String a)"
  and no_cr_addr: "valid_addr a \<Longrightarrow> Zone a = [] \<Longrightarrow> CHR 0x0D \<notin> set (addr_String a)"
  using addr_String_chars [of a "CHR '' ''"] addr_String_chars [of a "CHR 0x0D"]
  by (auto simp: is_hex_def is_digit_def)

abbreviation v1_mid :: "addr \<Rightarrow> addr \<Rightarrow> nat \<Rightarrow> nat \<Rightarrow> string" where
  "v1_mid x y sp dp \<equiv> (if Is4 x then ''TCP4'' else ''TCP6'') @ SP @ addr_String x @ SP @
     addr_String y @ SP @ Itoa sp @ SP @ Itoa dp"

lemma v1_fields:
  assumes "valid_addr x" "valid_addr y" "Zone x = []" "Zone y = []"
  shows "Split (CHR '' '') (proxyV1Prefix @ v1_mid x y sp dp) =
    [''PROXY'', if Is4 x then ''TCP4'' else ''TCP6'', addr_String x, addr_String y, Itoa sp, Itoa dp]"
proof -
  have "Split (CHR '' '') (''PROXY'' @ CHR '' '' # (if Is4 x then ''TCP4'' else ''TCP6'') @ CHR '' '' #
      addr_String x @ CHR '' '' # addr_String y @ CHR '' '' # Itoa sp @ CHR '' '' # Itoa dp) =
    [''PROXY'', if Is4 x then ''TCP4'' else ''TCP6'', addr_String x, addr_String y, Itoa sp, Itoa dp]"
    using assms by (simp only: Split_append_sep no_space_addr Itoa_no_sep Split_single
        not_False_eq_True split: if_split) (simp add: Split_append_sep no_space_addr Itoa_no_sep Split_single)
  then show ?thesis by (simp add: proxyV1Prefix_def SP_def)
qed

lemma v1_mid_length:
  assumes "valid_addr x" "valid_addr y" "Zone x = []" "Zone y = []" "sp < 65536" "dp < 65536"
  shows "length (v1_mid x y sp dp) \<le> 96"
  using addr_String_length [OF assms(1,3)] addr_String_length [OF assms(2,4)]
    length_Itoa_le [of sp 5] length_Itoa_le [of dp 5] assms(5,6)
  by (simp add: SP_def)

lemma byte_of_char_CR: "byte_of_char c = 13 \<longleftrightarrow> c = CHR 0x0D"
proof
  assume "byte_of_char c = 13"
  also have "\<dots> = byte_of_char (CHR 0x0D)" by (simp add: byte_of_char_def)
  finally show "c = CHR 0x0D" by (metis char_of_byte_of_char)
qed (simp add: byte_of_char_def)

lemma v1_mid_no_cr:
  assumes "valid_addr x" "valid_addr y" "Zone x = []" "Zone y = []"
  shows "13 \<notin> set (bytes_of_string (proxyV1Prefix @ v1_mid x y sp dp))"
proof -
  have "CHR 0x0D \<notin> set (proxyV1Prefix @ v1_mid x y sp dp)"
    using assms by (simp add: proxyV1Prefix_def SP_def no_cr_addr Itoa_no_sep)
  then show ?thesis by (force simp: bytes_of_string_def byte_of_char_CR)
qed

lemma detect_v1:
  assumes "pending s = bytes_of_string proxyV1Prefix @ r"
  shows "detectProxyProtocol s =
     (case readProxyV1 (s\<lparr>pending := r\<rparr>) (bytes_of_string proxyV1Prefix) of (Inl e, _) \<Rightarrow> Inl e
      | (Inr e, s3) \<Rightarrow> Inr (stated_conn 1 s3 e))"
  using assms
  by (simp add: detectProxyProtocol_def ReadFull_def proxyV2Sig_def proxyV1Prefix_def
      bytes_of_string_def byte_of_char_def Let_def)

lemma readProxyV1_header:
  assumes "valid_addr x" "valid_addr y" "Zone x = []" "Zone y = []" "Is4 x = Is4 y"
    and "sp < 65536" "dp < 65536" "pending s = bytes_of_string (v1_line x y sp dp) @ rest"
  shows "detectProxyProtocol s = Inr (stated_conn 1 (s\<lparr>pending := rest\<rparr>)
    (Some (TCPAddr (AsSlice x) (int sp) [], TCPAddr (AsSlice y) (int dp) [])))"
proof -
  let ?mid = "bytes_of_string (v1_mid x y sp dp)" and ?p = "bytes_of_string proxyV1Prefix"
  have crlf: "bytes_of_string CRLF = [13, 10]" by (simp add: CRLF_def bytes_of_string_def byte_of_char_def)
  have p: "pending s = ?p @ (?mid @ [13, 10] @ rest)"
    using assms(8) crlf by (simp add: v1_line_def)
  have "readProxyV1 (s\<lparr>pending := ?mid @ [13, 10] @ rest\<rparr>) ?p =
      (parse_v1_fields (Split (CHR '' '') (string_of_bytes (?p @ ?mid))), s\<lparr>pending := rest\<rparr>)"
    using readProxyV1_line [of ?p ?mid "s\<lparr>pending := ?mid @ [13, 10] @ rest\<rparr>" rest]
      v1_mid_no_cr [OF assms(1-4)] v1_mid_length [OF assms(1-4,6,7)]
      length_bytes_of_string [of proxyV1Prefix]
    by (simp only: bytes_of_string_append [symmetric] length_bytes_of_string)
      (simp add: proxyV1Prefix_def proxyV1MaxLen_def)
  moreover have "Split (CHR '' '') (string_of_bytes (?p @ ?mid)) =
      [''PROXY'', if Is4 x then ''TCP4'' else ''TCP6'', addr_String x, addr_String y, Itoa sp, Itoa dp]"
    using v1_fields [OF assms(1-4)] by simp
  moreover have "parse_v1_fields [''PROXY'', if Is4 x then ''TCP4'' else ''TCP6'', addr_String x,
      addr_String y, Itoa sp, Itoa dp] = Inr (Some (TCPAddrFrom x (int sp), TCPAddrFrom y (int dp)))"
    using v1_addr_printed [OF assms(1,3)] v1_addr_printed [OF assms(2,4)] assms(5-7)
    by (simp add: parse_v1_fields_def parseProxyPort_Itoa)
  ultimately show ?thesis
    using assms(3,4) by (simp add: detect_v1 [OF p] TCPAddrFrom_def)
qed

lemma v1_line_length:
  assumes "valid_addr x" "valid_addr y" "Zone x = []" "Zone y = []" "sp < 65536" "dp < 65536"
  shows "length (v1_line x y sp dp) < proxyV1MaxLen"
  using v1_mid_length [OF assms] by (simp add: v1_line_def proxyV1Prefix_def CRLF_def proxyV1MaxLen_def SP_def)

text \<open>Both versions at once: what a written header is read back as.\<close>

lemma header_round_trip:
  assumes "proxyProtocolHeader version src dst = Inr h"
  shows "\<exists>c r l. detectProxyProtocol \<lparr>pending = h @ rest, ending = e\<rparr> = Inr c
    \<and> int (pc_version c) = version \<and> unread c = rest \<and> pc_remote c = Some r \<and> pc_local c = Some l
    \<and> same_endpoint r src \<and> same_endpoint l dst"
  using assms
proof (rule proxyProtocolHeader_cases)
  fix sip sport sz dip dport dz a b x y
  assume src: "src = TCPAddr sip (int sport) sz" and dst: "dst = TCPAddr dip (int dport) dz"
    and ab: "AddrFromSlice sip = Some a" "AddrFromSlice dip = Some b"
    and ports: "sport < 65536" "dport < 65536" and xy: "one_family a b = (x, y)"
    and h: "version = 1 \<and> h = bytes_of_string (v1_line x y sport dport)
       \<or> version = 2 \<and> h = v2_header x y sport dport"
  note f = one_family_props [OF ab xy]
  have "detectProxyProtocol \<lparr>pending = h @ rest, ending = e\<rparr> =
      Inr (stated_conn (nat version) \<lparr>pending = rest, ending = e\<rparr>
        (Some (TCPAddr (AsSlice x) (int sport) [], TCPAddr (AsSlice y) (int dport) [])))"
    using h readProxyV1_header [OF f(1-5) ports, of "\<lparr>pending = h @ rest, ending = e\<rparr>" rest]
      readProxyV2_header [OF f(1,2,5) ports, of "\<lparr>pending = h @ rest, ending = e\<rparr>" rest]
    by auto
  moreover have "AddrFromSlice (AsSlice x) = Some x" "AddrFromSlice (AsSlice y) = Some y"
    using f(1-4) by (cases x; cases y; simp add: AddrFromSlice_def)+
  ultimately show ?thesis
    using h f(6,7) ab by (auto simp: stated_conn_def unread_def src dst)
qed

subsection \<open>Properties\<close>

text \<open>
  C4. A header written to a target is read back as the endpoints it was written for, in both
  versions and both address families, mixed families included (the IPv4 address then travels in
  its IPv4-mapped form), and not one byte after the header is consumed.
\<close>

theorem proxy_header_round_trip:
  assumes "proxyProtocolHeader version src dst = Inr h"
  shows "\<exists>c r l. detectProxyProtocol \<lparr>pending = h @ rest, ending = e\<rparr> = Inr c
    \<and> int (pc_version c) = version \<and> unread c = rest \<and> pc_remote c = Some r \<and> pc_local c = Some l
    \<and> same_endpoint r src \<and> same_endpoint l dst"
  using assms by (rule header_round_trip)

theorem proxy_header_round_trip_witness:
  "\<exists>h c r l. proxyProtocolHeader 2 (TCPAddr [10, 0, 0, 1] 5000 []) (TCPAddr (replicate 15 0 @ [1]) 443 []) = Inr h
    \<and> detectProxyProtocol \<lparr>pending = h @ [22, 3, 1], ending = EOF\<rparr> = Inr c \<and> unread c = [22, 3, 1]
    \<and> pc_remote c = Some r \<and> pc_local c = Some l
    \<and> same_endpoint r (TCPAddr [10, 0, 0, 1] 5000 [])"
proof -
  have "\<exists>h. proxyProtocolHeader 2 (TCPAddr [10, 0, 0, 1] 5000 []) (TCPAddr (replicate 15 0 @ [1]) 443 []) = Inr h"
    by (simp add: proxyProtocolHeader_def AddrFromSlice_def Let_def split: prod.split)
  then show ?thesis using proxy_header_round_trip by blast
qed

text \<open>
  C5. Transparency: a connection taken not to be a PROXY connection keeps every byte. The replayed
  prefix followed by what still arrives is the original stream, no address is replaced, and
  reading it in any sizes only takes bytes off the front.
\<close>

theorem plain_connection_untouched:
  assumes "detectProxyProtocol s = Inr c" "pc_version c = 0"
  shows "unread c = pending s \<and> pc_remote c = None \<and> pc_local c = None
    \<and> (\<forall>room. fst (proxyConn_Read room c) @ unread (snd (proxyConn_Read room c)) = pending s)"
  using detect_plain [OF assms] proxyConn_Read_unread by (metis prod.collapse)

theorem plain_connection_untouched_witness:
  "detectProxyProtocol \<lparr>pending = [80, 82, 79, 33, 1, 2, 3], ending = EOF\<rparr> =
     Inr (plain_conn \<lparr>pending = [3], ending = EOF\<rparr> [80, 82, 79, 33, 1, 2])
   \<and> unread (plain_conn \<lparr>pending = [3], ending = EOF\<rparr> [80, 82, 79, 33, 1, 2]) = [80, 82, 79, 33, 1, 2, 3]"
proof -
  have "detectProxyProtocol \<lparr>pending = [80, 82, 79, 33, 1, 2, 3], ending = EOF\<rparr> =
     Inr (plain_conn \<lparr>pending = [3], ending = EOF\<rparr> [80, 82, 79, 33, 1, 2])"
    by (simp add: detectProxyProtocol_def ReadFull_def proxyV1Prefix_def bytes_of_string_def
        byte_of_char_def Let_def)
  then show ?thesis
    using plain_connection_untouched
      [of "\<lparr>pending = [80, 82, 79, 33, 1, 2, 3], ending = EOF\<rparr>"
        "plain_conn \<lparr>pending = [3], ending = EOF\<rparr> [80, 82, 79, 33, 1, 2]"]
    by (simp add: plain_conn_def)
qed

text \<open>
  No ordinary client is refused: a stream that starts with neither signature in full (even one
  that ends inside it) is always accepted as a plain connection.
\<close>

lemma no_signature_is_plain:
  assumes "pending s \<noteq> []" "ending s = EOF"
    and "take 6 (pending s) \<noteq> bytes_of_string proxyV1Prefix" "take 12 (pending s) \<noteq> proxyV2Sig"
  shows "\<exists>c. detectProxyProtocol s = Inr c \<and> pc_version c = 0 \<and> unread c = pending s"
  using not_proxy_plain [OF assms] detect_plain(1) by blast

lemma no_signature_is_plain_witness:
  "\<exists>c. detectProxyProtocol \<lparr>pending = [13, 10, 13], ending = EOF\<rparr> = Inr c \<and> pc_version c = 0
    \<and> unread c = [13, 10, 13]"
  using no_signature_is_plain [of "\<lparr>pending = [13, 10, 13], ending = EOF\<rparr>"]
  by (simp add: proxyV1Prefix_def proxyV2Sig_def bytes_of_string_def byte_of_char_def)

text \<open>
  The write loop sends the header exactly or reports an error: without an error every byte of
  the header was written once and in order, and with one, what was written is a prefix of it.
\<close>

lemma proxy_header_written:
  assumes "proxyProtocolHeader version src dst = Inr h"
    and "writeProxyProtocol ws version src dst = (e, sent)"
  shows "(e = None \<longrightarrow> sent = h) \<and> (\<exists>rest. sent @ rest = h)"
  using assms write_loop_complete write_loop_prefix by (auto simp: writeProxyProtocol_def)

lemma proxy_header_written_witness:
  "snd (writeProxyProtocol [(20, False), (100, False)] 2 (TCPAddr [10, 0, 0, 1] 5000 []) (TCPAddr [10, 0, 0, 2] 443 [])) =
   v2_header (Addr4 [10, 0, 0, 1]) (Addr4 [10, 0, 0, 2]) 5000 443"
proof -
  have h: "proxyProtocolHeader 2 (TCPAddr [10, 0, 0, 1] 5000 []) (TCPAddr [10, 0, 0, 2] 443 []) =
      Inr (v2_header (Addr4 [10, 0, 0, 1]) (Addr4 [10, 0, 0, 2]) 5000 443)"
    by (simp add: proxyProtocolHeader_def AddrFromSlice_def)
  have len: "length (v2_header (Addr4 [10, 0, 0, 1]) (Addr4 [10, 0, 0, 2]) 5000 443) = 28"
    by (simp add: v2_header_def proxyV2Sig_def)
  have last: "write_loop [(100, False)] b = (None, b)" if "length b \<le> 100" for b
    using that by (cases b) auto
  have "fst (write_loop [(20, False), (100, False)] b) = None" if "length b = 28" for b
    using that last [of "drop 20 b"] by (cases b) auto
  then show ?thesis
    using proxy_header_written [OF h, of "[(20, False), (100, False)]"] h len
    by (metis prod.collapse writeProxyProtocol_def sum.case(2))
qed

end
