(* ===== verification/Patterns.thy ===== *)
theory Patterns
  imports Host_Names
begin

text \<open>
  Domain patterns of config.go: how a rule's domain is classified, the regular expression that
  implements it, and the submatches that a matching name gives.

  The expressions the code builds have one shape, a sequence of literal characters and label
  captures, so a pattern is the list of those pieces: \<open>pat_String\<close> is the text handed to
  \<open>regexp.Compile\<close> and \<open>FindStringSubmatchIndex\<close> its leftmost-first, greedy matching, anchored
  at both ends and ignoring case.
\<close>

datatype ptok = Lit char | WholeLabel | PartLabel

datatype pattern = CatchAll | Toks "ptok list"

datatype ruleKind = kindNone | kindLiteral | kindWildcard | kindCatchAll

fun kind_rank :: "ruleKind \<Rightarrow> nat" where
  "kind_rank kindNone = 0"
| "kind_rank kindLiteral = 1"
| "kind_rank kindWildcard = 2"
| "kind_rank kindCatchAll = 3"

definition noSNI :: string where "noSNI = ''$no_sni''"

definition anythingElse :: string where "anythingElse = ''$anything_else''"

subsection \<open>The expression's text\<close>

definition BS :: char where "BS = CHR 0x5C"

definition regex_meta :: string where
  "regex_meta = BS # ''.+*?()|[]{}^$''"

definition QuoteMeta :: "string \<Rightarrow> string" where
  "QuoteMeta s = concat (map (\<lambda>c. if c \<in> set regex_meta then [BS, c] else [c]) s)"

fun tok_String :: "ptok \<Rightarrow> string" where
  "tok_String (Lit c) = QuoteMeta [c]"
| "tok_String WholeLabel = ''([^.]+)''"
| "tok_String PartLabel = ''([^.]*)''"

definition toks_String :: "ptok list \<Rightarrow> string" where
  "toks_String ts = concat (map tok_String ts)"

fun pat_String :: "pattern \<Rightarrow> string" where
  "pat_String CatchAll = ''(?i)^(?:.*)$''"
| "pat_String (Toks ts) = ''(?i)^(?:'' @ toks_String ts @ '')$''"

subsection \<open>Classification\<close>

datatype pattern_error =
    WriteNoSNI string
  | WriteAnythingElse string
  | SpecialDomains string
  | NotAHostName string
  | DoubleStar string

fun label_toks :: "string \<Rightarrow> ptok list" where
  "label_toks label =
     (if label = ''*'' then [WholeLabel]
      else map (\<lambda>c. if c = CHR ''*'' then PartLabel else Lit c) label)"

fun labels_toks :: "string list \<Rightarrow> ptok list" where
  "labels_toks [] = []"
| "labels_toks [l] = label_toks l"
| "labels_toks (l # ls) = label_toks l @ Lit (CHR ''.'') # labels_toks ls"

definition label_literals :: "string \<Rightarrow> nat" where
  "label_literals label = (if label = ''*'' then 0 else length (filter (\<lambda>c. c \<noteq> CHR ''*'') label))"

definition classify :: "string \<Rightarrow> (pattern_error, ruleKind \<times> pattern option \<times> nat) result" where
  "classify p =
     (if p = noSNI then Inr (kindNone, None, 0)
      else if p = anythingElse then Inr (kindCatchAll, Some CatchAll, 0)
      else if EqualFold p ''none'' then Inl (WriteNoSNI p)
      else if EqualFold p ''any'' \<or> TrimSuffix (TrimPrefix p ''^'') ''$'' = ''.*'' then Inl (WriteAnythingElse p)
      else if HasPrefix p ''$'' then Inl (SpecialDomains p)
      else let name = literalName p in
        if \<not> list_all (\<lambda>c. isHostChar c \<or> c = CHR ''*'') name then Inl (NotAHostName p)
        else if name = [] \<or> HasPrefix name ''.'' \<or> HasSuffix name ''.'' \<or> Contains name ''..''
        then Inl (NotAHostName p)
        else if \<not> Contains name ''*'' then Inr (kindLiteral, Some (Toks (map Lit name)), length name)
        else if Contains name ''**'' then Inl (DoubleStar p)
        else Inr (kindWildcard, Some (Toks (labels_toks (Split (CHR ''.'') name))),
                  sum_list (map label_literals (Split (CHR ''.'') name))
                    + length (filter (\<lambda>c. c = CHR ''.'') name)))"

subsection \<open>Matching\<close>

text \<open>The first of several attempts that succeeds.\<close>

fun first_some :: "('a \<Rightarrow> 'b option) \<Rightarrow> 'a list \<Rightarrow> 'b option" where
  "first_some f [] = None"
| "first_some f (x # xs) = (case f x of None \<Rightarrow> first_some f xs | Some y \<Rightarrow> Some y)"

text \<open>How many characters a capture at the head of \<open>s\<close> may take: a run without a dot.\<close>

definition label_run :: "string \<Rightarrow> nat" where
  "label_run s = length (takeWhile (\<lambda>c. c \<noteq> CHR ''.'') s)"

fun min_run :: "ptok \<Rightarrow> nat" where
  "min_run WholeLabel = 1"
| "min_run _ = 0"

text \<open>
  The captures of the first match in the order the engine tries them, longest first, as pairs
  of offsets; \<open>pos\<close> is the offset of \<open>s\<close> in the subject.
\<close>

primrec gmatch :: "ptok list \<Rightarrow> nat \<Rightarrow> string \<Rightarrow> (nat \<times> nat) list option" where
  "gmatch [] = (\<lambda>pos s. if s = [] then Some [] else None)"
| "gmatch (t # ts) = (\<lambda>pos s.
     (case t of
        Lit c \<Rightarrow>
          (case s of
             [] \<Rightarrow> None
           | d # s' \<Rightarrow> if lower_char c = lower_char d then gmatch ts (pos + 1) s' else None)
      | _ \<Rightarrow> first_some (\<lambda>k. map_option (\<lambda>cs. (pos, pos + k) # cs) (gmatch ts (pos + k) (drop k s)))
                       (rev [min_run t..<label_run s + 1])))"

fun pairs_flat :: "(nat \<times> nat) list \<Rightarrow> int list" where
  "pairs_flat [] = []"
| "pairs_flat ((a, b) # cs) = int a # int b # pairs_flat cs"

text \<open>\<open>.\<close> does not match a line feed, so the catch-all leaves names with one alone.\<close>

fun FindStringSubmatchIndex :: "pattern \<Rightarrow> string \<Rightarrow> int list option" where
  "FindStringSubmatchIndex CatchAll s =
     (if CHR 0x0A \<in> set s then None else Some [0, int (length s)])"
| "FindStringSubmatchIndex (Toks ts) s =
     map_option (\<lambda>cs. 0 # int (length s) # pairs_flat cs) (gmatch ts 0 s)"

fun is_capture :: "ptok \<Rightarrow> bool" where
  "is_capture (Lit c) = False"
| "is_capture _ = True"

fun NumSubexp :: "pattern \<Rightarrow> nat" where
  "NumSubexp CatchAll = 0"
| "NumSubexp (Toks ts) = length (filter is_capture ts)"

definition MatchString :: "pattern \<Rightarrow> string \<Rightarrow> bool" where
  "MatchString p s \<longleftrightarrow> FindStringSubmatchIndex p s \<noteq> None"

subsection \<open>What a match is\<close>

text \<open>
  The declarative reading of a pattern: the name is the concatenation of one piece per token, a
  literal's being its character in either case and a capture's a run without a dot, not empty
  for a whole label.
\<close>

fun piece_ok :: "ptok \<Rightarrow> string \<Rightarrow> bool" where
  "piece_ok (Lit c) w = (\<exists>d. w = [d] \<and> lower_char d = lower_char c)"
| "piece_ok WholeLabel w = (w \<noteq> [] \<and> CHR ''.'' \<notin> set w)"
| "piece_ok PartLabel w = (CHR ''.'' \<notin> set w)"

definition pieces :: "ptok list \<Rightarrow> string list \<Rightarrow> string \<Rightarrow> bool" where
  "pieces ts ws s \<longleftrightarrow> list_all2 piece_ok ts ws \<and> concat ws = s"

fun capture_spans :: "nat \<Rightarrow> ptok list \<Rightarrow> string list \<Rightarrow> (nat \<times> nat) list" where
  "capture_spans pos (t # ts) (w # ws) =
     (if is_capture t then [(pos, pos + length w)] else []) @ capture_spans (pos + length w) ts ws"
| "capture_spans pos _ _ = []"

lemma first_some_Some: "first_some f xs = Some y \<Longrightarrow> \<exists>x\<in>set xs. f x = Some y"
  by (induction xs) (auto split: option.splits)

lemma first_some_None: "first_some f xs = None \<longleftrightarrow> (\<forall>x\<in>set xs. f x = None)"
  by (induction xs) (auto split: option.splits)

lemma label_run_take: "k \<le> label_run s \<Longrightarrow> CHR ''.'' \<notin> set (take k s)"
proof -
  assume "k \<le> label_run s"
  then have "set (take k s) \<subseteq> set (takeWhile (\<lambda>c. c \<noteq> CHR ''.'') s)"
    by (metis label_run_def set_take_subset_set_take takeWhile_eq_take)
  then show ?thesis by (auto dest: set_takeWhileD)
qed

lemma label_run_prefix: "CHR ''.'' \<notin> set w \<Longrightarrow> length w \<le> label_run (w @ s)"
  by (induction w) (auto simp: label_run_def)

lemma label_run_le: "label_run s \<le> length s"
  by (simp add: label_run_def length_takeWhile_le)

lemma gmatch_capture:
  "is_capture t \<Longrightarrow> gmatch (t # ts) pos s =
     first_some (\<lambda>k. map_option (\<lambda>cs. (pos, pos + k) # cs) (gmatch ts (pos + k) (drop k s)))
       (rev [min_run t..<label_run s + 1])"
  by (cases t) simp_all

lemma gmatch_sound:
  "gmatch ts pos s = Some cs \<Longrightarrow> \<exists>ws. pieces ts ws s \<and> cs = capture_spans pos ts ws"
proof (induction ts arbitrary: pos s cs)
  case Nil
  then show ?case by (auto simp: pieces_def split: if_splits)
next
  case (Cons t ts)
  show ?case
  proof (cases "is_capture t")
    case False
    then obtain c where t: "t = Lit c" by (cases t) auto
    then obtain d s' where s: "s = d # s'" "lower_char c = lower_char d" "gmatch ts (pos + 1) s' = Some cs"
      using Cons.prems by (auto split: list.splits if_splits)
    then obtain ws where ws: "pieces ts ws s'" "cs = capture_spans (pos + 1) ts ws"
      using Cons.IH by blast
    show ?thesis by (rule exI [of _ "[d] # ws"]) (use ws s t in \<open>simp add: pieces_def\<close>)
  next
    case True
    then obtain k cs' where k: "min_run t \<le> k" "k \<le> label_run s"
        "gmatch ts (pos + k) (drop k s) = Some cs'" "cs = (pos, pos + k) # cs'"
      using Cons.prems unfolding gmatch_capture [OF True] by (auto dest!: first_some_Some)
    then obtain ws where ws: "pieces ts ws (drop k s)" "cs' = capture_spans (pos + k) ts ws"
      using Cons.IH by blast
    have len: "k \<le> length s" using k(2) label_run_le le_trans by blast
    then have "length (take k s) = k" by simp
    moreover have "piece_ok t (take k s)"
      using True k label_run_take [of k s] len by (cases t; cases s) auto
    ultimately show ?thesis using True k(4) ws
      by (intro exI [of _ "take k s # ws"]) (simp add: pieces_def)
  qed
qed

lemma gmatch_complete: "pieces ts ws s \<Longrightarrow> gmatch ts pos s \<noteq> None"
proof (induction ts arbitrary: ws s pos)
  case Nil
  then show ?case by (auto simp: pieces_def)
next
  case (Cons t ts)
  then obtain w ws' where ws: "ws = w # ws'" "piece_ok t w" "pieces ts ws' (concat ws')" "s = w @ concat ws'"
    by (cases ws) (auto simp: pieces_def)
  show ?case
  proof (cases "is_capture t")
    case False
    then obtain c d where t: "t = Lit c" "w = [d]" "lower_char d = lower_char c" using ws(2) by (cases t) auto
    then show ?thesis using Cons.IH [OF ws(3), of "pos + 1"] ws(4) by auto
  next
    case True
    have nodot: "CHR ''.'' \<notin> set w" using True ws(2) by (cases t) auto
    then have run: "length w \<le> label_run s" using ws(4) label_run_prefix by blast
    moreover have "min_run t \<le> length w" using True ws(2) by (cases t; cases w) auto
    moreover have "gmatch ts (pos + length w) (drop (length w) s) \<noteq> None"
      using Cons.IH [OF ws(3)] ws(4) by simp
    ultimately have "\<exists>k\<in>set (rev [min_run t..<label_run s + 1]). gmatch ts (pos + k) (drop k s) \<noteq> None"
      by (intro bexI [of _ "length w"]) auto
    then show ?thesis unfolding gmatch_capture [OF True] first_some_None by auto
  qed
qed

lemma capture_spans_length: "list_all2 piece_ok ts ws \<Longrightarrow> length (capture_spans pos ts ws) = length (filter is_capture ts)"
  by (induction pos ts ws rule: capture_spans.induct) auto

lemma pairs_flat_length [simp]: "length (pairs_flat cs) = 2 * length cs"
  by (induction cs rule: pairs_flat.induct) auto

text \<open>Every match has the whole name and one pair of offsets per capture.\<close>

lemma submatch_length: "FindStringSubmatchIndex p s = Some m \<Longrightarrow> length m = 2 * (NumSubexp p + 1)"
  by (cases p) (auto dest!: gmatch_sound simp: pieces_def capture_spans_length split: if_splits)

end
