(* ===== verification/Routing.thy ===== *)
theory Routing
  imports Patterns Netip_Print "HOL-Library.Product_Lexorder" Complex_Main
begin

text \<open>
  Rules and routing, from config.go: the rule record, target expansion, the order a listener's
  rules are tried in, and the decision for a name. A pointer to a rule is the rule's value, a
  nil pointer is \<open>None\<close>. Speeds are rationals; the certificate a console rule may serve is opaque.
\<close>

subsection \<open>Rules and listeners\<close>

record url =
  uScheme :: string
  uHost :: string

record ServiceRoute =
  sKey :: string
  sLine :: nat
  sType :: string
  sPrefix :: string
  sTarget :: "url option"
  sStripPrefix :: bool
  sForceHost :: string
  sTLSVerify :: bool
  sBaseDir :: string
  sListing :: bool
  sBasicAuth :: string
  sOIDC :: string
  sRequireMFA :: bool
  sRequireGroups :: "string list"
  sRequireRoles :: "string list"
  sIdentitySecretFile :: string
  sIdentitySecret :: "string option"

record Rule =
  rListener :: string
  rLine :: nat
  rSource :: string
  rKind :: ruleKind
  rLiteralChars :: nat
  rNoSNI :: bool
  rPattern :: "pattern option"
  rAllow :: bool
  rTargetHost :: string
  rTargetPort :: nat
  rCert :: string
  rCertDomains :: "string list"
  rCertNames :: "pattern list"
  rCertIPs :: "addr list"
  rCertHosts :: "string list"
  rCertKey :: string
  rCertValidateScript :: string
  rCertValidateArgs :: "string list"
  rUpstreamTLS :: bool
  rUpstreamTLSVerify :: bool
  rUpstreamSNI :: string
  rProxy :: bool
  rProxyVersion :: int
  rMaxAggregatedSpeed :: rat
  rMaxSingleConnectionSpeed :: rat
  rRoutes :: "ServiceRoute list"
  rConsole :: bool
  rFixedCert :: "string option"

text \<open>The part of a listener that routing uses.\<close>

record RouteTable =
  tName :: string
  literals :: "string \<Rightarrow> Rule option"
  byPriority :: "Rule list"

definition NUL :: string where "NUL = [CHR 0x00]"

definition Key :: "Rule \<Rightarrow> string" where
  "Key r = rListener r @ NUL @
     (if rNoSNI r then noSNI
      else if rKind r = kindCatchAll then anythingElse
      else case rPattern r of Some p \<Rightarrow> pat_String p | None \<Rightarrow> [])"

definition implicitDenyKey :: "string \<Rightarrow> string" where
  "implicitDenyKey listener = listener @ NUL @ anythingElse"

definition Terminates :: "Rule \<Rightarrow> bool" where
  "Terminates r \<longleftrightarrow> rCert r \<noteq> []"

definition Serves :: "Rule \<Rightarrow> bool" where
  "Serves r \<longleftrightarrow> rRoutes r \<noteq> [] \<or> rConsole r"

subsection \<open>Expanding a target\<close>

datatype expand_error =
    WriteBraces string
  | DollarAlone
  | Unterminated string
  | UnknownReference string
  | NoSuchCapture int

text \<open>\<open>input[m[2n]:m[2n+1]]\<close>.\<close>

definition slice :: "string \<Rightarrow> int \<Rightarrow> int \<Rightarrow> string" where
  "slice s a b = take (nat (b - a)) (drop (nat a) s)"

definition reference_number :: "string \<Rightarrow> nat option" where
  "reference_number name0 =
     (let name = (if name0 = ''host'' then ''0'' else name0) in
      case Atoi name of
        None \<Rightarrow> None
      | Some n \<Rightarrow> if n < 0 \<or> Itoa (nat n) \<noteq> name then None else Some (nat n))"

text \<open>One pass over the template; \<open>out\<close> is what has been written so far.\<close>

function expand_loop :: "string \<Rightarrow> string \<Rightarrow> int list \<Rightarrow> string \<Rightarrow> (expand_error, string) result" where
  "expand_loop t input m out =
     (if t = [] then Inr out
      else if hd t \<noteq> CHR ''$''
      then (let chunk = takeWhile (\<lambda>c. c \<noteq> CHR ''$'') t in
            expand_loop (drop (length chunk) t) input m (out @ chunk))
      else if length t < 2 \<or> t ! 1 \<noteq> CHR ''{''
      then (let bare = takeWhile is_digit (tl t) in
            if bare \<noteq> [] then Inl (WriteBraces bare) else Inl DollarAlone)
      else let body = drop 2 t; name = takeWhile (\<lambda>c. c \<noteq> CHR ''}'') body in
        if CHR ''}'' \<notin> set body then Inl (Unterminated t)
        else case reference_number name of
               None \<Rightarrow> Inl (UnknownReference name)
             | Some n \<Rightarrow>
                 if 2 * n + 1 \<ge> length m then Inl (NoSuchCapture (int n))
                 else expand_loop (drop (length name + 1) body) input m
                        (if m ! (2 * n) \<ge> 0 then out @ slice input (m ! (2 * n)) (m ! (2 * n + 1)) else out))"
  by pat_completeness auto

lemma chunk_nonempty: "t \<noteq> [] \<Longrightarrow> hd t \<noteq> c \<Longrightarrow> takeWhile (\<lambda>d. d \<noteq> c) t \<noteq> []"
  by (cases t) auto

termination expand_loop
  by (relation "measure (\<lambda>(t, input, m, out). length t)") (auto simp: takeWhile_eq_Nil_iff)

declare expand_loop.simps [simp del]

definition expand :: "string \<Rightarrow> string \<Rightarrow> int list \<Rightarrow> (expand_error, string) result" where
  "expand template input m = expand_loop template input m []"

subsection \<open>The decision\<close>

datatype route_error = ExpandFailed expand_error | InvalidTargetHost nat string

record Decision =
  dAllow :: bool
  dHost :: string
  dPort :: nat
  dRuleLine :: nat
  dRule :: "Rule option"
  dErr :: "route_error option"

definition no_decision :: Decision where
  "no_decision = \<lparr>dAllow = False, dHost = [], dPort = 0, dRuleLine = 0, dRule = None, dErr = None\<rparr>"

definition valid_target :: "string \<Rightarrow> bool" where
  "valid_target host \<longleftrightarrow> host \<noteq> [] \<and>
     (if Contains host '':'' then ParseAddr host \<noteq> None else list_all isHostChar host)"

definition decide :: "Rule \<Rightarrow> string \<Rightarrow> int list \<Rightarrow> Decision" where
  "decide r sni m =
     (if \<not> rAllow r then no_decision\<lparr>dRuleLine := rLine r, dRule := Some r\<rparr>
      else if Serves r then no_decision\<lparr>dAllow := True, dRuleLine := rLine r, dRule := Some r\<rparr>
      else case expand (rTargetHost r) sni m of
             Inl e \<Rightarrow> no_decision\<lparr>dRuleLine := rLine r, dRule := Some r, dErr := Some (ExpandFailed e)\<rparr>
           | Inr host \<Rightarrow>
               if \<not> valid_target host
               then no_decision\<lparr>dRuleLine := rLine r, dRule := Some r,
                                dErr := Some (InvalidTargetHost (rLine r) host)\<rparr>
               else \<lparr>dAllow = True, dHost = host, dPort = rTargetPort r, dRuleLine = rLine r,
                     dRule = Some r, dErr = None\<rparr>)"

text \<open>The submatches of one rule that is tried in order, \<open>None\<close> when it does not match.\<close>

definition rule_match :: "Rule \<Rightarrow> string \<Rightarrow> int list option" where
  "rule_match r sni =
     (if rNoSNI r then (if sni \<noteq> [] then None else Some [0, 0])
      else case rPattern r of Some p \<Rightarrow> FindStringSubmatchIndex p sni | None \<Rightarrow> None)"

fun try_rules :: "(string \<Rightarrow> bool) \<Rightarrow> string \<Rightarrow> Rule list \<Rightarrow> Decision" where
  "try_rules stopped sni [] = no_decision"
| "try_rules stopped sni (r # rs) =
     (if stopped (Key r) then try_rules stopped sni rs
      else case rule_match r sni of
             None \<Rightarrow> try_rules stopped sni rs
           | Some m \<Rightarrow> decide r sni m)"

definition RouteExcept :: "RouteTable \<Rightarrow> (string \<Rightarrow> bool) \<Rightarrow> string \<Rightarrow> Decision" where
  "RouteExcept l stopped sni =
     (case literals l sni of
        Some r \<Rightarrow> if \<not> stopped (Key r) then decide r sni [0, int (length sni)]
                  else try_rules stopped sni (byPriority l)
      | None \<Rightarrow> try_rules stopped sni (byPriority l))"

definition Route :: "RouteTable \<Rightarrow> string \<Rightarrow> Decision" where
  "Route l sni = RouteExcept l (\<lambda>_. False) sni"

subsection \<open>Ordering a listener's rules\<close>

datatype prioritise_error = NameTwice nat string nat | SameClients nat string nat string

record ordering =
  oLiterals :: "string \<Rightarrow> Rule option"
  oFirst :: "ruleKind \<Rightarrow> Rule option"
  oPriority :: "Rule list"

definition order_step :: "Rule \<Rightarrow> ordering \<Rightarrow> (prioritise_error, ordering) result" where
  "order_step r st =
     (let name = literalName (rSource r) in
      case rKind r of
        kindLiteral \<Rightarrow>
          (case oLiterals st name of
             Some prev \<Rightarrow> Inl (NameTwice (rLine r) name (rLine prev))
           | None \<Rightarrow> Inr (st\<lparr>oLiterals := (oLiterals st)(name := Some r)\<rparr>))
      | kindWildcard \<Rightarrow>
          (case oLiterals st (NUL @ name) of
             Some prev \<Rightarrow> Inl (NameTwice (rLine r) name (rLine prev))
           | None \<Rightarrow> Inr (st\<lparr>oLiterals := (oLiterals st)(NUL @ name := Some r),
                              oPriority := oPriority st @ [r]\<rparr>))
      | k \<Rightarrow>
          (case oFirst st k of
             Some prev \<Rightarrow> Inl (SameClients (rLine r) (rSource r) (rLine prev) (rSource prev))
           | None \<Rightarrow> Inr (st\<lparr>oFirst := (oFirst st)(k := Some r), oPriority := oPriority st @ [r]\<rparr>)))"

fun order_rules :: "Rule list \<Rightarrow> ordering \<Rightarrow> (prioritise_error, ordering) result" where
  "order_rules [] st = Inr st"
| "order_rules (r # rs) st = bind_result (order_step r st) (order_rules rs)"

definition rule_rank :: "Rule \<Rightarrow> nat \<times> int" where
  "rule_rank r = (kind_rank (rKind r), - int (rLiteralChars r))"

definition empty_ordering :: ordering where
  "empty_ordering = \<lparr>oLiterals = (\<lambda>_. None), oFirst = (\<lambda>_. None), oPriority = []\<rparr>"

definition listener_rules :: "string \<Rightarrow> Rule list \<Rightarrow> Rule list" where
  "listener_rules name rules = filter (\<lambda>r. rListener r = name) rules"

definition prioritiseListener :: "string \<Rightarrow> Rule list \<Rightarrow> (prioritise_error, RouteTable) result" where
  "prioritiseListener name rules =
     bind_result (order_rules (listener_rules name rules) empty_ordering)
       (\<lambda>st. Inr \<lparr>tName = name, literals = oLiterals st, byPriority = sort_key rule_rank (oPriority st)\<rparr>)"

text \<open>
  The rules reported as winning over an earlier, broader one: the pairs of which the warning
  names the lines.
\<close>

definition overtakes :: "Rule \<Rightarrow> Rule \<Rightarrow> bool" where
  "overtakes prev r \<longleftrightarrow> kind_rank (rKind prev) > kind_rank (rKind r) \<and>
     (rKind prev = kindCatchAll \<or>
      rKind r = kindLiteral \<and> (case rPattern prev of Some p \<Rightarrow> MatchString p (literalName (rSource r)) | None \<Rightarrow> False))"

fun order_warnings :: "Rule list \<Rightarrow> Rule list \<Rightarrow> (Rule \<times> Rule) list" where
  "order_warnings before [] = []"
| "order_warnings before (r # rs) =
     (if rConsole r then []
      else case find (\<lambda>prev. overtakes prev r) before of Some prev \<Rightarrow> [(r, prev)] | None \<Rightarrow> [])
     @ order_warnings (before @ [r]) rs"

fun prioritise :: "string list \<Rightarrow> Rule list \<Rightarrow> (prioritise_error, RouteTable list) result" where
  "prioritise [] rules = Inr []"
| "prioritise (l # ls) rules =
     bind_result (prioritiseListener l rules) (\<lambda>t.
       bind_result (prioritise ls rules) (\<lambda>ts. Inr (t # ts)))"

end
