(* ===== verification/Routing_Props.thy ===== *)
theory Routing_Props
  imports Routing
begin

text \<open>
  What routing promises: the rule that decides for a name is the most specific of those that
  match and are not stopped, whatever their order in the file; a stopped rule is as good as not
  configured; and what a decision hands to the dialler is a host.
\<close>

subsection \<open>Rules as the loader builds them\<close>

text \<open>The fields a loaded rule has by construction: those of its source's classification.\<close>

definition rule_ok :: "Rule \<Rightarrow> bool" where
  "rule_ok r \<longleftrightarrow> classify (rSource r) = Inr (rKind r, rPattern r, rLiteralChars r)
     \<and> rNoSNI r = (rKind r = kindNone)"

lemma classify_kindNone: "classify p = Inr (kindNone, pt, n) \<Longrightarrow> pt = None"
  by (auto simp: classify_def Let_def split: if_splits)

lemma classify_catchall: "classify p = Inr (kindCatchAll, pt, n) \<Longrightarrow> pt = Some CatchAll"
  by (auto simp: classify_def Let_def split: if_splits)

definition name_chars :: "string \<Rightarrow> bool" where
  "name_chars name \<longleftrightarrow> name \<noteq> [] \<and> list_all (\<lambda>c. isHostChar c \<or> c = CHR ''*'') name
     \<and> \<not> HasPrefix name ''.'' \<and> \<not> HasSuffix name ''.'' \<and> \<not> Contains name ''..''"

lemma classify_literal:
  "classify p = Inr (kindLiteral, pt, n) \<Longrightarrow>
     pt = Some (Toks (map Lit (literalName p))) \<and> n = length (literalName p)
     \<and> name_chars (literalName p) \<and> CHR ''*'' \<notin> set (literalName p)"
  by (auto simp: classify_def Let_def name_chars_def split: if_splits)

lemma classify_wildcard:
  "classify p = Inr (kindWildcard, pt, n) \<Longrightarrow>
     pt = Some (Toks (labels_toks (Split (CHR ''.'') (literalName p))))
     \<and> name_chars (literalName p) \<and> CHR ''*'' \<in> set (literalName p)
     \<and> \<not> Contains (literalName p) ''**''"
  by (auto simp: classify_def Let_def name_chars_def split: if_splits)

lemma classify_pattern_some: "classify p = Inr (k, pt, n) \<Longrightarrow> k \<noteq> kindNone \<Longrightarrow> \<exists>q. pt = Some q"
  by (auto simp: classify_def Let_def split: if_splits)

lemma literalName_lower: "ToLower (literalName p) = literalName p"
  by (simp add: literalName_def)

subsection \<open>Labels\<close>

text \<open>The pieces of a label pattern never hold a dot, so a match is label by label.\<close>

lemma label_toks_nodot:
  assumes "CHR ''.'' \<notin> set l" "list_all2 piece_ok (label_toks l) ws"
  shows "CHR ''.'' \<notin> set (concat ws)"
proof (cases "l = ''*''")
  case True
  then show ?thesis using assms(2) by (auto simp: list_all2_Cons1)
next
  case False
  have lower_dot: "c = CHR ''.''" if "lower_char (CHR ''.'') = lower_char c" for c
    using that lower_char_dot [of c] by (simp add: lower_char_def)
  have "CHR ''.'' \<notin> set (concat ws)"
    if "CHR ''.'' \<notin> set l" "list_all2 piece_ok (map (\<lambda>c. if c = CHR ''*'' then PartLabel else Lit c) l) ws" for l
    using that
  proof (induction l arbitrary: ws)
    case (Cons c l)
    then obtain w ws' where ws: "ws = w # ws'" "list_all2 piece_ok (map (\<lambda>c. if c = CHR ''*'' then PartLabel else Lit c) l) ws'"
        "piece_ok (if c = CHR ''*'' then PartLabel else Lit c) w"
      by (auto simp: list_all2_Cons1)
    have "CHR ''.'' \<notin> set w" using ws(3) Cons.prems(1) lower_dot by (auto split: if_splits)
    then show ?case using Cons.IH [OF _ ws(2)] Cons.prems(1) ws(1) by simp
  qed simp
  then show ?thesis using assms False by simp
qed

subsection \<open>The order rules are tried in\<close>

definition candidate :: "(string \<Rightarrow> bool) \<Rightarrow> string \<Rightarrow> Rule \<Rightarrow> bool" where
  "candidate stopped sni r \<longleftrightarrow> \<not> stopped (Key r) \<and> rule_match r sni \<noteq> None"

text \<open>
  The specification: \<open>r\<close> is more specific than \<open>x\<close> when its kind comes first, or, of the same kind,
  when its pattern has more literal characters; the rule chosen is the first candidate, in file
  order, than which no candidate is more specific.
\<close>

definition more_specific :: "Rule \<Rightarrow> Rule \<Rightarrow> bool" where
  "more_specific r x \<longleftrightarrow> kind_rank (rKind r) < kind_rank (rKind x)
     \<or> rKind r = rKind x \<and> rLiteralChars x < rLiteralChars r"

definition chosen :: "(string \<Rightarrow> bool) \<Rightarrow> string \<Rightarrow> Rule list \<Rightarrow> Rule option" where
  "chosen stopped sni rules =
     (let rs = filter (candidate stopped sni) rules in
      find (\<lambda>r. \<forall>x\<in>set rs. \<not> more_specific x r) rs)"

lemma kind_rank_inject: "kind_rank a = kind_rank b \<longleftrightarrow> a = b"
  by (cases a; cases b) simp_all

lemma more_specific_rank: "more_specific r x \<longleftrightarrow> rule_rank r < rule_rank x"
  by (auto simp: more_specific_def rule_rank_def kind_rank_inject)

lemma chosen_sorted:
  "chosen stopped sni rules =
     (case sort_key rule_rank (filter (candidate stopped sni) rules) of [] \<Rightarrow> None | r # _ \<Rightarrow> Some r)"
  by (simp add: chosen_def more_specific_rank not_less first_of_sort_key)

definition decision_of :: "string \<Rightarrow> Rule option \<Rightarrow> Decision" where
  "decision_of sni choice = (case choice of None \<Rightarrow> no_decision | Some r \<Rightarrow> decide r sni (the (rule_match r sni)))"

lemma try_rules_filter:
  "try_rules stopped sni rs =
     decision_of sni (case filter (candidate stopped sni) rs of [] \<Rightarrow> None | r # _ \<Rightarrow> Some r)"
  by (induction rs) (auto simp: candidate_def decision_of_def split: option.splits)

definition lit_key :: "Rule \<Rightarrow> string option" where
  "lit_key r = (case rKind r of kindLiteral \<Rightarrow> Some (literalName (rSource r))
     | kindWildcard \<Rightarrow> Some (NUL @ literalName (rSource r)) | _ \<Rightarrow> None)"

definition first_key :: "Rule \<Rightarrow> ruleKind option" where
  "first_key r = (case rKind r of kindNone \<Rightarrow> Some kindNone | kindCatchAll \<Rightarrow> Some kindCatchAll | _ \<Rightarrow> None)"

definition with_key :: "'k option \<Rightarrow> Rule \<Rightarrow> ('k \<Rightarrow> Rule option) \<Rightarrow> ('k \<Rightarrow> Rule option)" where
  "with_key k r f = (case k of None \<Rightarrow> f | Some x \<Rightarrow> f(x := Some r))"

text \<open>One step in closed form: refused when its key is taken, else remembered.\<close>

lemma order_step_ok:
  "order_step r st = Inr st' \<longleftrightarrow>
     (\<forall>x. lit_key r = Some x \<longrightarrow> oLiterals st x = None) \<and> (\<forall>k. first_key r = Some k \<longrightarrow> oFirst st k = None)
     \<and> st' = \<lparr>oLiterals = with_key (lit_key r) r (oLiterals st), oFirst = with_key (first_key r) r (oFirst st),
        oPriority = oPriority st @ (if rKind r = kindLiteral then [] else [r])\<rparr>"
  by (cases st) (auto simp: order_step_def lit_key_def first_key_def with_key_def Let_def
      split: ruleKind.splits option.splits)

lemma order_rules_priority:
  "order_rules rs st = Inr st' \<Longrightarrow> oPriority st' = oPriority st @ filter (\<lambda>r. rKind r \<noteq> kindLiteral) rs"
  by (induction rs arbitrary: st) (auto simp: order_step_ok)

lemma order_rules_literals:
  "order_rules rs st = Inr st' \<Longrightarrow>
     oLiterals st' x = Some r \<longleftrightarrow> oLiterals st x = Some r \<or> r \<in> set rs \<and> lit_key r = Some x"
proof (induction rs arbitrary: st)
  case (Cons a rs)
  then obtain st1 where st1: "order_step a st = Inr st1" "order_rules rs st1 = Inr st'" by auto
  have "oLiterals st1 x = Some r \<longleftrightarrow> oLiterals st x = Some r \<or> r = a \<and> lit_key a = Some x"
    using st1(1) by (auto simp: order_step_ok with_key_def split: option.splits if_splits)
  then show ?case using Cons.IH [OF st1(2)] by auto
qed simp

lemma map_le_None: "m \<subseteq>\<^sub>m m' \<Longrightarrow> m' x = None \<Longrightarrow> m x = None"
  by (metis domIff map_le_implies_dom_le subsetD)

lemma with_key_mono: "m \<subseteq>\<^sub>m m' \<Longrightarrow> with_key k a m \<subseteq>\<^sub>m with_key k a m'"
  by (auto simp: with_key_def map_le_def split: option.splits)

lemma with_key_grow:
  "m \<subseteq>\<^sub>m m' \<Longrightarrow> (\<And>x. k = Some x \<Longrightarrow> m' x = None) \<Longrightarrow> m \<subseteq>\<^sub>m with_key k a m'"
  by (auto simp: with_key_def map_le_def split: option.splits) (metis domI option.distinct(1))

lemma order_rules_filter:
  assumes "order_rules rs st = Inr st'" "oLiterals st0 \<subseteq>\<^sub>m oLiterals st" "oFirst st0 \<subseteq>\<^sub>m oFirst st"
  shows "\<exists>st0'. order_rules (filter P rs) st0 = Inr st0'"
  using assms
proof (induction rs arbitrary: st st0)
  case (Cons a rs)
  then obtain st1 where st1: "order_step a st = Inr st1" "order_rules rs st1 = Inr st'" by auto
  note s1 = st1(1) [unfolded order_step_ok]
  show ?case
  proof (cases "P a")
    case True
    define st01 where "st01 = \<lparr>oLiterals = with_key (lit_key a) a (oLiterals st0),
      oFirst = with_key (first_key a) a (oFirst st0),
      oPriority = oPriority st0 @ (if rKind a = kindLiteral then [] else [a])\<rparr>"
    have "order_step a st0 = Inr st01"
      unfolding order_step_ok st01_def
      using s1 by (simp add: map_le_None [OF Cons.prems(2)] map_le_None [OF Cons.prems(3)])
    moreover have "oLiterals st01 \<subseteq>\<^sub>m oLiterals st1" "oFirst st01 \<subseteq>\<^sub>m oFirst st1"
      using s1 Cons.prems(2,3) with_key_mono by (simp_all add: st01_def)
    ultimately show ?thesis using True Cons.IH [OF st1(2)] by simp
  next
    case False
    have "oLiterals st0 \<subseteq>\<^sub>m oLiterals st1" "oFirst st0 \<subseteq>\<^sub>m oFirst st1"
      using s1 Cons.prems(2,3) by (auto intro!: with_key_grow)
    then show ?thesis using False Cons.IH [OF st1(2)] by simp
  qed
qed simp

subsection \<open>Routing meets its specification\<close>

lemma gmatch_lits: "gmatch (map Lit n) pos s = (if ToLower n = ToLower s then Some [] else None)"
  by (induction n arbitrary: pos s) (auto split: list.splits dest: sym [of "[]"])

lemma literal_match:
  assumes "rule_ok r" "rKind r = kindLiteral" "ToLower sni = sni"
  shows "rule_match r sni = (if literalName (rSource r) = sni then Some [0, int (length sni)] else None)"
  using assms classify_literal [of "rSource r" "rPattern r" "rLiteralChars r"] literalName_lower [of "rSource r"]
  by (auto simp: rule_match_def rule_ok_def gmatch_lits)

lemma literal_name_nonempty: "rule_ok r \<Longrightarrow> rKind r = kindLiteral \<Longrightarrow> literalName (rSource r) \<noteq> []"
  using classify_literal [of "rSource r"] by (auto simp: rule_ok_def name_chars_def)

lemma hd_sort_key:
  assumes "r \<in> set xs" "\<forall>x\<in>set xs. x = r \<or> f r < f x"
  shows "\<exists>ys. sort_key f xs = r # ys"
proof (cases "sort_key f xs")
  case Nil
  then show ?thesis using assms(1) by (metis empty_iff empty_set set_sort)
next
  case (Cons y ys)
  have mem: "y \<in> set xs" "r = y \<or> r \<in> set ys" using Cons assms(1) by (metis list.set_intros(1) set_sort, metis set_ConsD set_sort)
  moreover have "\<forall>z\<in>set ys. f y \<le> f z" using sorted_sort_key [of f xs] Cons by simp
  ultimately have "y = r" using assms(2) by force
  then show ?thesis using Cons by blast
qed

lemma table_lookup:
  assumes "order_rules rs empty_ordering = Inr st" "CHR 0x00 \<notin> set sni"
  shows "oLiterals st sni = Some r \<longleftrightarrow> r \<in> set rs \<and> rKind r = kindLiteral \<and> literalName (rSource r) = sni"
proof -
  have "lit_key r = Some sni \<longleftrightarrow> rKind r = kindLiteral \<and> literalName (rSource r) = sni"
    using assms(2) by (cases "rKind r") (auto simp: lit_key_def NUL_def)
  then show ?thesis using order_rules_literals [OF assms(1), of sni r] by (simp add: empty_ordering_def)
qed

text \<open>A literal rule for the name outranks every other candidate.\<close>

lemma literal_best:
  assumes "rule_ok r" "rKind r = kindLiteral" "literalName (rSource r) = sni" "ToLower sni = sni"
    and "rule_ok x" "candidate stopped sni x"
    and "rKind x = kindLiteral \<Longrightarrow> literalName (rSource x) = sni \<Longrightarrow> x = r"
  shows "x = r \<or> rule_rank r < rule_rank x"
proof (cases "rKind x")
  case kindNone
  then have "sni = []" using assms(5,6) by (simp add: candidate_def rule_match_def rule_ok_def split: if_splits)
  then show ?thesis using literal_name_nonempty [OF assms(1,2)] assms(3) by simp
next
  case kindLiteral
  then show ?thesis using assms(4-7) literal_match [of x sni] by (simp add: candidate_def split: if_splits)
next
  case kindWildcard
  then show ?thesis using assms(2) by (simp add: rule_rank_def)
next
  case kindCatchAll
  then show ?thesis using assms(2) by (simp add: rule_rank_def)
qed

lemma RouteExcept_chosen:
  assumes l: "prioritiseListener name rules = Inr l" and ok: "\<forall>r\<in>set rules. rule_ok r"
    and sni: "CHR 0x00 \<notin> set sni" "ToLower sni = sni"
  shows "RouteExcept l stopped sni = decision_of sni (chosen stopped sni (listener_rules name rules))"
proof -
  let ?rs = "listener_rules name rules" and ?c = "candidate stopped sni"
  obtain st where st: "order_rules ?rs empty_ordering = Inr st"
    and lit: "literals l = oLiterals st" and prio: "byPriority l = sort_key rule_rank (oPriority st)"
    using l by (auto simp: prioritiseListener_def)
  have ok': "\<And>r. r \<in> set ?rs \<Longrightarrow> rule_ok r" using ok by (auto simp: listener_rules_def)
  have prio': "oPriority st = filter (\<lambda>r. rKind r \<noteq> kindLiteral) ?rs"
    using order_rules_priority [OF st] by (simp add: empty_ordering_def)
  note found = table_lookup [OF st sni(1), folded lit]
  show ?thesis
  proof (cases "\<exists>r. literals l sni = Some r \<and> \<not> stopped (Key r)")
    case True
    then obtain r where r: "literals l sni = Some r" "\<not> stopped (Key r)" by blast
    have rr: "r \<in> set ?rs" "rKind r = kindLiteral" "literalName (rSource r) = sni"
      using found [of r] r(1) by simp_all
    have m: "rule_match r sni = Some [0, int (length sni)]"
      using literal_match [OF ok' [OF rr(1)] rr(2) sni(2)] rr(3) by simp
    have best: "x = r \<or> rule_rank r < rule_rank x" if x: "x \<in> set (filter ?c ?rs)" for x
    proof (rule literal_best [OF ok' [OF rr(1)] rr(2,3) sni(2)])
      show "rule_ok x" "?c x" using x ok' by simp_all
      show "x = r" if "rKind x = kindLiteral" "literalName (rSource x) = sni"
        using found [of x] that x r(1) by simp
    qed
    have mem: "r \<in> set (filter ?c ?rs)" using rr(1) r(2) m by (simp add: candidate_def)
    have "\<exists>ys. sort_key rule_rank (filter ?c ?rs) = r # ys"
      by (rule hd_sort_key [OF mem]) (rule ballI, rule best)
    then have "chosen stopped sni ?rs = Some r" unfolding chosen_sorted by (elim exE) simp
    moreover have "RouteExcept l stopped sni = decide r sni [0, int (length sni)]"
      using r by (simp add: RouteExcept_def)
    ultimately show ?thesis by (simp only: decision_of_def option.case m option.sel)
  next
    case False
    have nolit: "rKind r \<noteq> kindLiteral" if "?c r" "r \<in> set ?rs" for r
    proof
      assume k: "rKind r = kindLiteral"
      then have "literals l sni = Some r"
        using found [of r] that literal_match [OF ok' k sni(2)] by (simp add: candidate_def split: if_splits)
      then show False using False that(1) by (simp add: candidate_def)
    qed
    have "filter ?c (filter (\<lambda>r. rKind r \<noteq> kindLiteral) ?rs) = filter ?c ?rs"
      unfolding filter_filter by (rule filter_cong [OF refl]) (use nolit in blast)
    then have "try_rules stopped sni (byPriority l) = decision_of sni (chosen stopped sni ?rs)"
      by (simp add: try_rules_filter prio prio' filter_sort chosen_sorted)
    then show ?thesis using False by (cases "literals l sni") (simp_all add: RouteExcept_def)
  qed
qed

lemma prioritise_filter:
  assumes "prioritiseListener name rules = Inr l"
  shows "\<exists>l'. prioritiseListener name (filter P rules) = Inr l'"
proof -
  obtain st where "order_rules (listener_rules name rules) empty_ordering = Inr st"
    using assms by (auto simp: prioritiseListener_def)
  then obtain st' where "order_rules (filter P (listener_rules name rules)) empty_ordering = Inr st'"
    using order_rules_filter [of _ empty_ordering st empty_ordering P] by auto
  moreover have "filter P (listener_rules name rules) = listener_rules name (filter P rules)"
    by (simp add: listener_rules_def conj_commute)
  ultimately show ?thesis by (simp add: prioritiseListener_def)
qed

lemma Route_unconfigured:
  assumes "prioritiseListener name rules = Inr l" "\<forall>r\<in>set rules. rule_ok r"
    and "CHR 0x00 \<notin> set sni" "ToLower sni = sni"
  shows "\<exists>l'. prioritiseListener name (filter (\<lambda>r. \<not> stopped (Key r)) rules) = Inr l'
    \<and> Route l' sni = RouteExcept l stopped sni"
proof -
  let ?f = "filter (\<lambda>r. \<not> stopped (Key r)) rules"
  obtain l' where l': "prioritiseListener name ?f = Inr l'" using prioritise_filter [OF assms(1)] by blast
  have "filter (candidate (\<lambda>_. False) sni) (listener_rules name ?f) =
      filter (candidate stopped sni) (listener_rules name rules)"
    by (simp add: listener_rules_def candidate_def conj_ac)
  then have "chosen (\<lambda>_. False) sni (listener_rules name ?f) = chosen stopped sni (listener_rules name rules)"
    by (simp add: chosen_def)
  then have "Route l' sni = RouteExcept l stopped sni"
    using RouteExcept_chosen [OF l'] RouteExcept_chosen [OF assms(1)] assms(2-4) by (simp add: Route_def)
  then show ?thesis using l' by blast
qed

subsection \<open>Wildcards are matched label by label\<close>

definition label_match :: "string \<Rightarrow> string \<Rightarrow> bool" where
  "label_match l w \<longleftrightarrow> (\<exists>ws. list_all2 piece_ok (label_toks l) ws \<and> concat ws = w)"

lemma Split_Cons2:
  "Split sep s = w # v # vs \<Longrightarrow> \<exists>t. s = w @ sep # t \<and> Split sep t = v # vs"
proof (induction s arbitrary: w)
  case (Cons c s)
  show ?case
  proof (cases "c = sep")
    case False
    then obtain w' where w': "Split sep s = w' # v # vs" "w = c # w'"
      using Cons.prems by (cases "Split sep s") auto
    then obtain t where "s = w' @ sep # t" "Split sep t = v # vs" using Cons.IH by blast
    then show ?thesis using w' by auto
  qed (use Cons.prems in auto)
qed simp

lemma piece_dot: "piece_ok (Lit (CHR ''.'')) w \<longleftrightarrow> w = ''.''"
proof -
  have "lower_char (CHR ''.'') = CHR ''.''" by (simp add: lower_char_def)
  then show ?thesis by (auto dest: lower_char_dot)
qed

lemma pieces_labels:
  assumes "ls \<noteq> []" "\<forall>l\<in>set ls. CHR ''.'' \<notin> set l"
  shows "(\<exists>ws. pieces (labels_toks ls) ws s) \<longleftrightarrow> list_all2 label_match ls (Split (CHR ''.'') s)"
  using assms
proof (induction ls arbitrary: s rule: labels_toks.induct)
  case 1
  then show ?case by simp
next
  case (2 l)
  have nodot: "CHR ''.'' \<notin> set (concat ws)" if "list_all2 piece_ok (label_toks l) ws" for ws
    by (rule label_toks_nodot [OF _ that]) (use 2(2) in simp)
  show ?case
  proof
    assume "\<exists>ws. pieces (labels_toks [l]) ws s"
    then obtain ws where ws: "list_all2 piece_ok (label_toks l) ws" "concat ws = s" by (auto simp: pieces_def simp del: label_toks.simps)
    then have "Split (CHR ''.'') s = [s]" using nodot Split_single by blast
    then show "list_all2 label_match [l] (Split (CHR ''.'') s)" using ws by (auto simp: label_match_def simp del: label_toks.simps)
  next
    assume "list_all2 label_match [l] (Split (CHR ''.'') s)"
    then obtain w where w: "Split (CHR ''.'') s = [w]" "label_match l w"
      by (auto simp: list_all2_Cons1 simp del: label_toks.simps)
    have "s = w" using Join_Split [of "CHR ''.''" s] w(1) by simp
    then show "\<exists>ws. pieces (labels_toks [l]) ws s" using w(2) by (auto simp: pieces_def label_match_def simp del: label_toks.simps)
  qed
next
  case (3 l v va)
  let ?ls = "v # va"
  have IH: "(\<exists>ws. pieces (labels_toks ?ls) ws t) \<longleftrightarrow> list_all2 label_match ?ls (Split (CHR ''.'') t)" for t
    using "3.IH" [of t] "3.prems" by simp
  have nodot: "CHR ''.'' \<notin> set (concat ws)" if "list_all2 piece_ok (label_toks l) ws" for ws
    by (rule label_toks_nodot [OF _ that]) (use "3.prems"(2) in simp)
  have toks: "labels_toks (l # ?ls) = label_toks l @ Lit (CHR ''.'') # labels_toks ?ls" by simp
  show ?case
  proof
    assume "\<exists>ws. pieces (labels_toks (l # ?ls)) ws s"
    then obtain ws1 ws2 d where ws: "list_all2 piece_ok (label_toks l) ws1" "d = ''.''"
        "list_all2 piece_ok (labels_toks ?ls) ws2" "s = concat ws1 @ d @ concat ws2"
      unfolding pieces_def toks list_all2_append1 list_all2_Cons1 piece_dot
      by (elim exE conjE) (simp only: concat_append concat.simps)
    have "Split (CHR ''.'') s = concat ws1 # Split (CHR ''.'') (concat ws2)"
      using nodot [OF ws(1)] ws(2,4) by (simp add: Split_append_sep)
    moreover have "list_all2 label_match ?ls (Split (CHR ''.'') (concat ws2))"
      using IH [of "concat ws2"] ws(3) by (auto simp: pieces_def)
    moreover have "label_match l (concat ws1)" using ws(1) by (auto simp: label_match_def)
    ultimately show "list_all2 label_match (l # ?ls) (Split (CHR ''.'') s)" by simp
  next
    assume "list_all2 label_match (l # ?ls) (Split (CHR ''.'') s)"
    then obtain w u us where split: "Split (CHR ''.'') s = w # u # us" "label_match l w"
        "list_all2 label_match ?ls (u # us)"
      unfolding list_all2_Cons1 by blast
    obtain t where t: "s = w @ CHR ''.'' # t" "Split (CHR ''.'') t = u # us" using Split_Cons2 [OF split(1)] by blast
    obtain ws1 where ws1: "list_all2 piece_ok (label_toks l) ws1" "concat ws1 = w"
      using split(2) by (auto simp: label_match_def)
    obtain ws2 where ws2: "pieces (labels_toks ?ls) ws2 t" using IH [of t] t(2) split(3) by auto
    have "list_all2 piece_ok (Lit (CHR ''.'') # labels_toks ?ls) (''.'' # ws2)"
      using ws2 by (simp only: pieces_def list_all2_Cons piece_dot simp_thms)
    then have "list_all2 piece_ok (labels_toks (l # ?ls)) (ws1 @ ''.'' # ws2)"
      unfolding toks by (rule list_all2_appendI [OF ws1(1)])
    moreover have "concat (ws1 @ ''.'' # ws2) = s" using ws1(2) ws2 t(1) by (simp add: pieces_def)
    ultimately have "pieces (labels_toks (l # ?ls)) (ws1 @ ''.'' # ws2) s" by (simp only: pieces_def simp_thms)
    then show "\<exists>ws. pieces (labels_toks (l # ?ls)) ws s" by blast
  qed
qed

lemma gmatch_iff: "gmatch ts pos s \<noteq> None \<longleftrightarrow> (\<exists>ws. pieces ts ws s)"
  using gmatch_sound gmatch_complete by fastforce

lemma wildcard_labels:
  assumes "rule_ok r" "rKind r = kindWildcard"
  shows "rule_match r sni \<noteq> None \<longleftrightarrow>
    list_all2 label_match (Split (CHR ''.'') (literalName (rSource r))) (Split (CHR ''.'') sni)"
proof -
  let ?ls = "Split (CHR ''.'') (literalName (rSource r))"
  have "rPattern r = Some (Toks (labels_toks ?ls))" "\<not> rNoSNI r"
    using assms classify_wildcard [of "rSource r"] by (auto simp: rule_ok_def)
  then have "rule_match r sni \<noteq> None \<longleftrightarrow> gmatch (labels_toks ?ls) 0 sni \<noteq> None" by (simp add: rule_match_def)
  also have "\<dots> \<longleftrightarrow> list_all2 label_match ?ls (Split (CHR ''.'') sni)"
    unfolding gmatch_iff by (rule pieces_labels) (use Split_no_sep in auto)
  finally show ?thesis .
qed

subsection \<open>Targets\<close>

text \<open>Whether a template expands depends on the number of captures alone.\<close>

lemma expand_loop_length:
  "length m = length m' \<Longrightarrow>
     (\<exists>x. expand_loop t i m out = Inr x) \<longleftrightarrow> (\<exists>x. expand_loop t i' m' out' = Inr x)"
proof (induction t i m out arbitrary: out' rule: expand_loop.induct)
  case (1 t i m out)
  show ?case
  proof (cases "t = []")
    case True
    then show ?thesis by (simp add: expand_loop.simps)
  next
    case False
    note IH = "1.IH" [OF False]
    show ?thesis
    proof (cases "hd t \<noteq> CHR ''$''")
      case True
      then show ?thesis using False IH(1) [OF True refl "1.prems"]
        by (simp add: expand_loop.simps [of t] Let_def)
    next
      case dollar: False
      show ?thesis
      proof (cases "length t < 2 \<or> t ! 1 \<noteq> CHR ''{'' \<or> CHR ''}'' \<notin> set (drop 2 t)")
        case True
        then show ?thesis using False dollar
          by (auto simp: expand_loop.simps [of t] Let_def)
      next
        case brace: False
        let ?name = "takeWhile (\<lambda>c. c \<noteq> CHR ''}'') (drop 2 t)"
        show ?thesis
        proof (cases "reference_number ?name")
          case None
          then show ?thesis using False dollar brace by (simp add: expand_loop.simps [of t] Let_def)
        next
          case (Some n)
          have step: "expand_loop t j k o1 = (if 2 * n + 1 \<ge> length k then Inl (NoSuchCapture (int n))
              else expand_loop (drop (length ?name + 1) (drop 2 t)) j k
                (if k ! (2 * n) \<ge> 0 then o1 @ slice j (k ! (2 * n)) (k ! (2 * n + 1)) else o1))" for j k o1
            by (subst expand_loop.simps) (use False dollar brace Some in \<open>simp add: Let_def\<close>)
          show ?thesis
            unfolding step using IH(2) [OF dollar _ refl refl _ Some _ "1.prems"] brace "1.prems" by auto
        qed
      qed
    qed
  qed
qed

definition probe_ok :: "Rule \<Rightarrow> bool" where
  "probe_ok r \<longleftrightarrow> (\<exists>x. expand (rTargetHost r) []
     (replicate (2 * ((case rPattern r of Some p \<Rightarrow> NumSubexp p | None \<Rightarrow> 0) + 1)) 0) = Inr x)"

lemma rule_match_length:
  assumes "rule_match r sni = Some m" "rule_ok r"
  shows "length m = 2 * ((case rPattern r of Some p \<Rightarrow> NumSubexp p | None \<Rightarrow> 0) + 1)"
proof (cases "rNoSNI r")
  case True
  then have "rPattern r = None" using assms(2) classify_kindNone by (auto simp: rule_ok_def)
  then show ?thesis using assms True by (auto simp: rule_match_def split: if_splits)
next
  case False
  then show ?thesis using assms by (auto simp: rule_match_def submatch_length split: option.splits)
qed

lemma decide_after_probe:
  assumes "rule_ok r" "probe_ok r" "rule_match r sni = Some m"
  shows "(\<forall>e. dErr (decide r sni m) \<noteq> Some (ExpandFailed e))
    \<and> (dAllow (decide r sni m) \<longrightarrow> rAllow r \<and> (Serves r \<or> valid_target (dHost (decide r sni m))))
    \<and> (dErr (decide r sni m) \<noteq> None \<longrightarrow> \<not> dAllow (decide r sni m))
    \<and> dRule (decide r sni m) = Some r"
proof -
  have "\<exists>x. expand (rTargetHost r) sni m = Inr x"
    using assms(2) rule_match_length [OF assms(3,1)]
      expand_loop_length [of m "replicate (2 * ((case rPattern r of Some p \<Rightarrow> NumSubexp p | None \<Rightarrow> 0) + 1)) 0"
        "rTargetHost r" sni "[]" "[]" "[]"]
    by (auto simp: probe_ok_def expand_def)
  then show ?thesis by (auto simp: decide_def no_decision_def split: if_splits)
qed

subsection \<open>Keys\<close>

definition tok_ok :: "ptok \<Rightarrow> bool" where
  "tok_ok t \<longleftrightarrow> (case t of Lit c \<Rightarrow> isHostChar c | _ \<Rightarrow> True)"

lemma host_char_meta: "isHostChar c \<Longrightarrow> QuoteMeta [c] = (if c = CHR ''.'' then [BS, c] else [c])"
  by (auto simp: QuoteMeta_def regex_meta_def BS_def isHostChar_def Let_def)

lemma host_char_not: "isHostChar c \<Longrightarrow> c \<noteq> BS \<and> c \<noteq> CHR ''(''"
  by (auto simp: BS_def isHostChar_def Let_def)

lemma tok_String_prefix:
  assumes "tok_ok t" "tok_ok u" "tok_String t @ x = tok_String u @ y"
  shows "t = u \<and> x = y"
  using assms host_char_not by (cases t; cases u) (auto simp: tok_ok_def host_char_meta BS_def split: if_splits)

lemma toks_String_inject:
  assumes "list_all tok_ok ts" "list_all tok_ok us" "toks_String ts @ z = toks_String us @ z'"
    and "\<forall>c. [c] = z \<or> z = c # ''$'' \<longrightarrow> c = CHR '')''" "z = '')$''" "z' = '')$''"
  shows "ts = us"
  using assms(1-3)
proof (induction ts arbitrary: us)
  case Nil
  show ?case
  proof (cases us)
    case (Cons u us')
    then have "tok_ok u" "'')$'' = tok_String u @ toks_String us' @ '')$''"
      using Nil assms(5,6) by (simp_all add: toks_String_def)
    then show ?thesis by (cases u) (auto simp: tok_ok_def host_char_meta BS_def isHostChar_def Let_def split: if_splits)
  qed simp
next
  case (Cons t ts)
  show ?case
  proof (cases us)
    case Nil
    then have "tok_ok t" "tok_String t @ toks_String ts @ '')$'' = '')$''"
      using Cons.prems assms(5,6) by (simp_all add: toks_String_def)
    then show ?thesis by (cases t) (auto simp: tok_ok_def host_char_meta BS_def isHostChar_def Let_def split: if_splits)
  next
    case (Cons u us')
    have "t = u \<and> toks_String ts @ z = toks_String us' @ z'"
      by (rule tok_String_prefix) (use Cons.prems Cons in \<open>simp_all add: toks_String_def\<close>)
    then show ?thesis using Cons.IH [of us'] Cons.prems Cons by simp
  qed
qed

lemma pat_String_inject:
  assumes "list_all tok_ok ts" "list_all tok_ok us" "pat_String (Toks ts) = pat_String (Toks us)"
  shows "ts = us"
  by (rule toks_String_inject [OF assms(1,2), of "'')$''" "'')$''"]) (use assms(3) in simp_all)

text \<open>The tokens of a pattern spell the name it was written as.\<close>

fun tok_char :: "ptok \<Rightarrow> char" where
  "tok_char (Lit c) = c"
| "tok_char _ = CHR ''*''"

lemma label_toks_chars: "map tok_char (label_toks l) = l"
proof -
  have "map tok_char (map (\<lambda>c. if c = CHR ''*'' then PartLabel else Lit c) l) = l" by (induction l) auto
  then show ?thesis by simp
qed

lemma labels_toks_chars: "map tok_char (labels_toks ls) = Join ''.'' ls"
  by (induction ls rule: labels_toks.induct) (simp_all add: label_toks_chars del: label_toks.simps)

lemma label_toks_ok: "\<forall>c\<in>set l. isHostChar c \<or> c = CHR ''*'' \<Longrightarrow> list_all tok_ok (label_toks l)"
  by (auto simp: tok_ok_def list_all_iff)

lemma labels_toks_ok:
  "\<forall>l\<in>set ls. \<forall>c\<in>set l. isHostChar c \<or> c = CHR ''*'' \<Longrightarrow> list_all tok_ok (labels_toks ls)"
  by (induction ls rule: labels_toks.induct)
    (simp_all add: label_toks_ok tok_ok_def isHostChar_def del: label_toks.simps)

lemma rule_tokens:
  assumes "rule_ok r" "rKind r = kindLiteral \<or> rKind r = kindWildcard"
  shows "\<exists>ts. rPattern r = Some (Toks ts) \<and> list_all tok_ok ts \<and> map tok_char ts = literalName (rSource r)"
proof (cases "rKind r = kindLiteral")
  case True
  then have "rPattern r = Some (Toks (map Lit (literalName (rSource r))))"
    "name_chars (literalName (rSource r))" "CHR ''*'' \<notin> set (literalName (rSource r))"
    using assms(1) classify_literal [of "rSource r"] by (auto simp: rule_ok_def)
  then show ?thesis by (auto simp: tok_ok_def name_chars_def list_all_iff comp_def)
next
  case False
  let ?ls = "Split (CHR ''.'') (literalName (rSource r))"
  have p: "rPattern r = Some (Toks (labels_toks ?ls))" "name_chars (literalName (rSource r))"
    using False assms classify_wildcard [of "rSource r"] by (auto simp: rule_ok_def)
  have "list_all tok_ok (labels_toks ?ls)"
    by (rule labels_toks_ok) (use p(2) Split_set in \<open>fastforce simp: name_chars_def list_all_iff\<close>)
  then show ?thesis using p(1) labels_toks_chars [of ?ls] by simp
qed

lemma star_kind:
  "rule_ok r \<Longrightarrow> rKind r = kindLiteral \<Longrightarrow> CHR ''*'' \<notin> set (literalName (rSource r))"
  "rule_ok r \<Longrightarrow> rKind r = kindWildcard \<Longrightarrow> CHR ''*'' \<in> set (literalName (rSource r))"
  using classify_literal [of "rSource r"] classify_wildcard [of "rSource r"] by (auto simp: rule_ok_def)

definition key_tail :: "Rule \<Rightarrow> string" where
  "key_tail r = (if rNoSNI r then noSNI else if rKind r = kindCatchAll then anythingElse
     else case rPattern r of Some p \<Rightarrow> pat_String p | None \<Rightarrow> [])"

lemma key_tail_patterns:
  assumes "rule_ok r"
  shows "rKind r = kindNone \<Longrightarrow> key_tail r = noSNI"
    "rKind r = kindCatchAll \<Longrightarrow> key_tail r = anythingElse"
    "rKind r = kindLiteral \<or> rKind r = kindWildcard \<Longrightarrow>
      \<exists>ts. key_tail r = pat_String (Toks ts) \<and> list_all tok_ok ts \<and> map tok_char ts = literalName (rSource r)"
  using assms rule_tokens [OF assms] by (auto simp: key_tail_def rule_ok_def)

lemma key_tail_inject:
  assumes "rule_ok r" "rule_ok q" "key_tail r = key_tail q"
  shows "lit_key r = lit_key q \<and> first_key r = first_key q"
proof -
  have heads: "pat_String (Toks ts) \<noteq> noSNI" "pat_String (Toks ts) \<noteq> anythingElse" "noSNI \<noteq> anythingElse" for ts
    by (simp_all add: noSNI_def anythingElse_def)
  let ?p = "\<lambda>r. rKind r = kindLiteral \<or> rKind r = kindWildcard"
  show ?thesis
  proof (cases "?p r \<and> ?p q")
    case True
    obtain ts us where t: "key_tail r = pat_String (Toks ts)" "list_all tok_ok ts" "map tok_char ts = literalName (rSource r)"
      and u: "key_tail q = pat_String (Toks us)" "list_all tok_ok us" "map tok_char us = literalName (rSource q)"
      using key_tail_patterns(3) [OF assms(1)] key_tail_patterns(3) [OF assms(2)] True by blast
    have "ts = us" using pat_String_inject [OF t(2) u(2)] t(1) u(1) assms(3) by simp
    then have name: "literalName (rSource r) = literalName (rSource q)" using t(3) u(3) by simp
    moreover have "rKind r = rKind q"
      using True star_kind [OF assms(1)] star_kind [OF assms(2)] name by (elim conjE disjE) simp_all
    ultimately show ?thesis by (cases "rKind q") (simp_all add: lit_key_def first_key_def)
  next
    case False
    then have "rKind r = kindNone \<or> rKind r = kindCatchAll \<or> rKind q = kindNone \<or> rKind q = kindCatchAll"
      by (cases "rKind r"; cases "rKind q") auto
    have other: "key_tail q \<noteq> noSNI \<and> key_tail q \<noteq> anythingElse" if "rule_ok q" "?p q" for q
      using key_tail_patterns(3) [OF that] heads by metis
    have "rKind r = rKind q"
    proof (rule ccontr)
      assume ne: "rKind r \<noteq> rKind q"
      have "key_tail r \<noteq> key_tail q"
        using \<open>rKind r = kindNone \<or> rKind r = kindCatchAll \<or> rKind q = kindNone \<or> rKind q = kindCatchAll\<close> ne
          key_tail_patterns(1,2) [OF assms(1)] key_tail_patterns(1,2) [OF assms(2)] other [OF assms(1)]
          other [OF assms(2)] heads(3)
        by (cases "rKind r"; cases "rKind q") auto
      then show False using assms(3) by blast
    qed
    then show ?thesis using False by (cases "rKind r") (auto simp: lit_key_def first_key_def)
  qed
qed

lemma order_rules_distinct:
  "order_rules rs st = Inr st' \<Longrightarrow>
     distinct (map (\<lambda>r. (lit_key r, first_key r)) rs)
     \<and> (\<forall>r\<in>set rs. (\<forall>x. lit_key r = Some x \<longrightarrow> oLiterals st x = None)
          \<and> (\<forall>k. first_key r = Some k \<longrightarrow> oFirst st k = None))"
proof (induction rs arbitrary: st)
  case (Cons a rs)
  then obtain st1 where st1: "order_step a st = Inr st1" "order_rules rs st1 = Inr st'" by auto
  note IH = Cons.IH [OF st1(2)]
  note s1 = st1(1) [unfolded order_step_ok]
  have some: "(\<exists>x. lit_key a = Some x) \<or> (\<exists>k. first_key a = Some k)"
    by (cases "rKind a") (auto simp: lit_key_def first_key_def)
  have fresh: "lit_key r \<noteq> lit_key a \<or> first_key r \<noteq> first_key a" if "r \<in> set rs" for r
    using IH that some s1 by (fastforce simp: with_key_def)
  have older: "(\<forall>x. lit_key r = Some x \<longrightarrow> oLiterals st x = None) \<and> (\<forall>k. first_key r = Some k \<longrightarrow> oFirst st k = None)"
    if "r \<in> set rs" for r
    using IH that s1 by (auto simp: with_key_def split: option.splits if_splits)
  show ?case using IH fresh older s1 by force
qed simp

lemma distinct_map_coarser:
  "distinct (map f xs) \<Longrightarrow> (\<And>x y. x \<in> set xs \<Longrightarrow> y \<in> set xs \<Longrightarrow> g x = g y \<Longrightarrow> f x = f y) \<Longrightarrow> distinct (map g xs)"
  unfolding distinct_map inj_on_def by blast

lemma Key_tail: "Key r = rListener r @ NUL @ key_tail r"
  by (simp add: Key_def key_tail_def)

lemma keys_distinct:
  assumes "prioritiseListener name rules = Inr l" "\<forall>r\<in>set rules. rule_ok r"
  shows "distinct (map Key (listener_rules name rules))"
proof -
  let ?rs = "listener_rules name rules"
  obtain st where "order_rules ?rs empty_ordering = Inr st" using assms(1) by (auto simp: prioritiseListener_def)
  then have "distinct (map (\<lambda>r. (lit_key r, first_key r)) ?rs)" by (rule order_rules_distinct [THEN conjunct1])
  then show ?thesis
  proof (rule distinct_map_coarser)
    fix x y assume "x \<in> set ?rs" "y \<in> set ?rs" "Key x = Key y"
    then have "rule_ok x" "rule_ok y" "key_tail x = key_tail y"
      using assms(2) by (simp_all add: listener_rules_def Key_tail)
    from key_tail_inject [OF this] show "(lit_key x, first_key x) = (lit_key y, first_key y)" by simp
  qed
qed

subsection \<open>Properties\<close>

text \<open>A small configuration for the witnesses: a literal, a wildcard, and the catch-all.\<close>

definition plain_rule :: "nat \<Rightarrow> string \<Rightarrow> ruleKind \<Rightarrow> pattern option \<Rightarrow> nat \<Rightarrow> string \<Rightarrow> Rule" where
  "plain_rule line source kind pt chars host =
     \<lparr>rListener = ''https'', rLine = line, rSource = source, rKind = kind, rLiteralChars = chars,
      rNoSNI = (kind = kindNone), rPattern = pt, rAllow = True, rTargetHost = host, rTargetPort = 443,
      rCert = [], rCertDomains = [], rCertNames = [], rCertIPs = [], rCertHosts = [], rCertKey = [],
      rCertValidateScript = [], rCertValidateArgs = [], rUpstreamTLS = False, rUpstreamTLSVerify = False,
      rUpstreamSNI = [], rProxy = False, rProxyVersion = 2, rMaxAggregatedSpeed = 0,
      rMaxSingleConnectionSpeed = 0, rRoutes = [], rConsole = False,
      rFixedCert = None\<rparr>"

definition wild_toks :: "ptok list" where "wild_toks = [WholeLabel, Lit (CHR ''.''), Lit (CHR ''a'')]"

definition sample_rules :: "Rule list" where
  "sample_rules =
     [plain_rule 1 ''$anything_else'' kindCatchAll (Some CatchAll) 0 ''any'',
      plain_rule 2 ''*.a'' kindWildcard (Some (Toks wild_toks)) 2 ''${1}.b'',
      plain_rule 3 ''w.a'' kindLiteral (Some (Toks (map Lit ''w.a''))) 3 ''lit'']"

lemma sample_classes:
  "classify ''$anything_else'' = Inr (kindCatchAll, Some CatchAll, 0)"
  "classify ''*.a'' = Inr (kindWildcard, Some (Toks wild_toks), 2)"
  "classify ''w.a'' = Inr (kindLiteral, Some (Toks (map Lit ''w.a'')), 3)"
  by code_simp+

lemma sample_rules_ok: "\<forall>r\<in>set sample_rules. rule_ok r"
  by (simp add: sample_rules_def rule_ok_def plain_rule_def sample_classes)

lemma sample_names: "literalName ''w.a'' = ''w.a''" "literalName ''*.a'' = ''*.a''"
  by code_simp+

lemma sample_prioritised: "\<exists>l. prioritiseListener ''https'' sample_rules = Inr l"
  by (simp add: prioritiseListener_def listener_rules_def sample_rules_def plain_rule_def order_step_def
      empty_ordering_def NUL_def sample_names Let_def)

lemma sample_name_ok: "CHR 0x00 \<notin> set ''w.a''" "ToLower ''w.a'' = ''w.a''"
  by (simp_all add: lower_char_def)

lemma sample_wild_match: "rule_match (sample_rules ! 1) ''w.a'' = Some [0, 3, 0, 1]"
  by code_simp

lemma no_sni_kinds:
  assumes "rule_ok r" "rule_match r [] \<noteq> None"
  shows "rKind r = kindNone \<or> rKind r = kindCatchAll"
proof (rule ccontr)
  assume "\<not> (rKind r = kindNone \<or> rKind r = kindCatchAll)"
  then consider "rKind r = kindLiteral" | "rKind r = kindWildcard" by (cases "rKind r") auto
  then show False
  proof cases
    case 1
    then show False
      using literal_match [OF assms(1), of "[]"] literal_name_nonempty [OF assms(1)] assms(2)
      by (simp split: if_splits)
  next
    case 2
    have "list_all2 label_match (Split (CHR ''.'') (literalName (rSource r))) [[]]"
      using wildcard_labels [OF assms(1) 2, of "[]"] assms(2) by simp
    then obtain l where l: "Split (CHR ''.'') (literalName (rSource r)) = [l]" "label_match l []"
      by (auto simp: list_all2_Cons2)
    have name: "literalName (rSource r) = l" using Join_Split [of "CHR ''.''"] l(1) by (metis Join.simps(2))
    have w: "name_chars l" "CHR ''*'' \<in> set l" "\<not> Contains l ''**''"
      using assms(1) 2 classify_wildcard [of "rSource r"] name by (auto simp: rule_ok_def)
    obtain ws where ws: "list_all2 piece_ok (label_toks l) ws" "concat ws = []" using l(2) by (auto simp: label_match_def)
    show False
    proof (cases "l = ''*''")
      case True
      then show False using ws by (auto simp: list_all2_Cons1)
    next
      case False
      then obtain c d s where cd: "l = c # d # s" using w(1,2) by (cases l; cases "tl l") (auto simp: name_chars_def)
      have "c \<noteq> CHR ''*'' \<or> d \<noteq> CHR ''*''" using w(3) cd by (auto simp: HasPrefix_def)
      then show False using ws False cd by (auto simp: list_all2_Cons1 split: if_splits)
    qed
  qed
qed

text \<open>
  C6. The rule that decides is the most specific one that matches, whatever the order in the file:
  a literal name before wildcards, wildcards with more literal characters first, the catch-all
  last, and file order only between equally specific rules; stopped rules are passed over.
\<close>

theorem route_most_specific:
  assumes "prioritiseListener name rules = Inr l" "\<forall>r\<in>set rules. rule_ok r"
    and "CHR 0x00 \<notin> set sni" "ToLower sni = sni"
  shows "RouteExcept l stopped sni = decision_of sni (chosen stopped sni (listener_rules name rules))"
  using assms by (rule RouteExcept_chosen)

theorem route_most_specific_witness:
  "\<exists>l. prioritiseListener ''https'' sample_rules = Inr l \<and>
     RouteExcept l (\<lambda>_. False) ''w.a'' =
       decision_of ''w.a'' (chosen (\<lambda>_. False) ''w.a'' (listener_rules ''https'' sample_rules))"
  using sample_prioritised route_most_specific [OF _ sample_rules_ok sample_name_ok] by blast

text \<open>
  C7. Stopping rules is the same as not having them: the configuration without the stopped rules
  loads, and routes every name as the configuration with them routes it while they are stopped.
\<close>

theorem stopped_is_unconfigured:
  assumes "prioritiseListener name rules = Inr l" "\<forall>r\<in>set rules. rule_ok r"
    and "CHR 0x00 \<notin> set sni" "ToLower sni = sni"
  shows "\<exists>l'. prioritiseListener name (filter (\<lambda>r. \<not> stopped (Key r)) rules) = Inr l'
    \<and> Route l' sni = RouteExcept l stopped sni"
  using assms by (rule Route_unconfigured)

theorem stopped_is_unconfigured_witness:
  "\<exists>l l'. prioritiseListener ''https'' sample_rules = Inr l \<and>
     prioritiseListener ''https'' (filter (\<lambda>r. \<not> Key r = Key (sample_rules ! 2)) sample_rules) = Inr l' \<and>
     Route l' ''w.a'' = RouteExcept l (\<lambda>k. k = Key (sample_rules ! 2)) ''w.a''"
proof -
  obtain l where l: "prioritiseListener ''https'' sample_rules = Inr l" using sample_prioritised by blast
  show ?thesis
    using l stopped_is_unconfigured [OF l sample_rules_ok sample_name_ok, of "\<lambda>k. k = Key (sample_rules ! 2)"]
    by blast
qed

text \<open>
  A wildcard matches label by label: the name has exactly as many labels as the pattern, and
  each label of the name matches the pattern's label at its place, so that a star never crosses a
  dot and a label that is only a star stands for one label that is not empty.
\<close>

lemma wildcard_by_labels:
  assumes "rule_ok r" "rKind r = kindWildcard"
  shows "rule_match r sni \<noteq> None \<longleftrightarrow>
    list_all2 label_match (Split (CHR ''.'') (literalName (rSource r))) (Split (CHR ''.'') sni)"
  using assms by (rule wildcard_labels)

lemma wildcard_by_labels_witness:
  "list_all2 label_match (Split (CHR ''.'') (literalName ''*.a'')) (Split (CHR ''.'') ''w.a'')"
proof -
  have "rule_ok (sample_rules ! 1)" "rKind (sample_rules ! 1) = kindWildcard" "rSource (sample_rules ! 1) = ''*.a''"
    using sample_rules_ok by (simp_all add: sample_rules_def plain_rule_def)
  then show ?thesis using wildcard_by_labels [of "sample_rules ! 1" "''w.a''"] sample_wild_match by simp
qed

text \<open>
  A client that sends no name is never taken by a literal or a wildcard rule: only the rule
  for such clients or the catch-all can match it.
\<close>

lemma no_name_no_host_rule:
  assumes "rule_ok r" "rule_match r [] \<noteq> None"
  shows "rKind r = kindNone \<or> rKind r = kindCatchAll"
  using assms by (rule no_sni_kinds)

lemma no_name_no_host_rule_witness: "rKind (sample_rules ! 0) = kindNone \<or> rKind (sample_rules ! 0) = kindCatchAll"
proof (rule no_name_no_host_rule)
  show "rule_ok (sample_rules ! 0)" using sample_rules_ok by (simp add: sample_rules_def)
  show "rule_match (sample_rules ! 0) [] \<noteq> None" by (simp add: sample_rules_def plain_rule_def rule_match_def)
qed



end
