(* ===== verification/Clock_Cache.thy ===== *)
theory Clock_Cache
  imports Prelude
begin

text \<open>
  cache.go: the CLOCK cache, a capped map with second-chance eviction. Entries are shared
  between the index and the slots, so they live in a heap: \<open>index\<close> and \<open>slots\<close> hold their
  addresses. Whether another insert holds the mutex, so that \<open>TryLock\<close> fails, is the argument
  \<open>busy\<close> of the operations that try it.
\<close>

record 'v clockEntry =
  eKey :: string
  eVal :: 'v
  eUsed :: bool

record 'v clock =
  index :: "string \<Rightarrow> nat option"
  cap :: nat
  cn :: nat
  slots :: "nat list"
  hand :: nat
  heap :: "nat \<Rightarrow> 'v clockEntry option"
  fresh :: nat

definition newClock :: "nat \<Rightarrow> 'v clock" where
  "newClock capacity =
     \<lparr>index = (\<lambda>_. None), cap = capacity, cn = 0, slots = [], hand = 0, heap = (\<lambda>_. None), fresh = 0\<rparr>"

definition entry_used :: "(nat \<Rightarrow> 'v clockEntry option) \<Rightarrow> nat \<Rightarrow> bool" where
  "entry_used h i = (case h i of Some e \<Rightarrow> eUsed e | None \<Rightarrow> False)"

definition set_used :: "bool \<Rightarrow> nat \<Rightarrow> (nat \<Rightarrow> 'v clockEntry option) \<Rightarrow> (nat \<Rightarrow> 'v clockEntry option)" where
  "set_used b i h = h(i := map_option (\<lambda>e. e\<lparr>eUsed := b\<rparr>) (h i))"

definition clock_Get :: "string \<Rightarrow> 'v clock \<Rightarrow> 'v option \<times> 'v clock" where
  "clock_Get key c =
     (case index c key of
        None \<Rightarrow> (None, c)
      | Some i \<Rightarrow> (map_option eVal (heap c i), c\<lparr>heap := set_used True i (heap c)\<rparr>))"

text \<open>
  The second-chance loop: from the hand, clear the flag of each recently used entry, and stop at
  the first one without it.
\<close>

function sweep :: "nat list \<Rightarrow> nat \<Rightarrow> nat \<Rightarrow> (nat \<Rightarrow> 'v clockEntry option) \<Rightarrow> nat \<times> (nat \<Rightarrow> 'v clockEntry option)" where
  "sweep ss capacity hnd h =
     (if hnd < length ss \<and> entry_used h (ss ! hnd)
      then sweep ss capacity ((hnd + 1) mod capacity) (set_used False (ss ! hnd) h)
      else (hnd, h))"
  by pat_completeness auto

lemma set_used_other: "i \<noteq> j \<Longrightarrow> entry_used (set_used b i h) j = entry_used h j"
  by (simp add: entry_used_def set_used_def)

lemma set_used_False: "\<not> entry_used (set_used False i h) i"
  by (simp add: entry_used_def set_used_def split: option.split)

lemma sweep_measure:
  assumes "hnd < length ss" "entry_used h (ss ! hnd)"
  shows "length (filter (entry_used (set_used False (ss ! hnd) h)) ss) < length (filter (entry_used h) ss)"
proof -
  have le: "length (filter (entry_used (set_used False i h)) xs) \<le> length (filter (entry_used h) xs)" for i xs
    by (induction xs) (auto simp: set_used_False set_used_other le_Suc_eq intro: le_SucI,
        metis set_used_False set_used_other)
  have less: "i \<in> set xs \<Longrightarrow> entry_used h i \<Longrightarrow>
      length (filter (entry_used (set_used False i h)) xs) < length (filter (entry_used h) xs)" for i xs
  proof (induction xs)
    case (Cons x xs)
    show ?case
    proof (cases "x = i")
      case True
      then show ?thesis using Cons.prems le [of i xs] by (simp add: set_used_False less_Suc_eq_le)
    next
      case False
      then show ?thesis using Cons by (simp add: set_used_other)
    qed
  qed simp
  show ?thesis by (rule less) (use assms in simp_all)
qed

termination sweep
  by (relation "measure (\<lambda>(ss, capacity, hnd, h). length (filter (entry_used h) ss))")
    (use sweep_measure in auto)

declare sweep.simps [simp del]

definition clock_Put :: "bool \<Rightarrow> string \<Rightarrow> 'v \<Rightarrow> 'v clock \<Rightarrow> 'v clock" where
  "clock_Put busy key val c =
     (if cap c = 0 then c
      else case index c key of
        Some i \<Rightarrow> c\<lparr>heap := (heap c)(i := map_option (\<lambda>e. e\<lparr>eVal := val\<rparr>) (heap c i))\<rparr>
      | None \<Rightarrow>
          if busy then c
          else let e = fresh c;
                   h = (heap c)(e := Some \<lparr>eKey = key, eVal = val, eUsed = False\<rparr>) in
            if length (slots c) < cap c
            then c\<lparr>slots := slots c @ [e], cn := cn c + 1, heap := h, fresh := e + 1,
                   index := (index c)(key := Some e)\<rparr>
            else let (hnd, h') = sweep (slots c) (cap c) (hand c) h;
                     old = slots c ! hnd;
                     oldKey = (case h' old of Some oe \<Rightarrow> eKey oe | None \<Rightarrow> []) in
              c\<lparr>slots := (slots c)[hnd := e], hand := (hnd + 1) mod cap c, heap := h', fresh := e + 1,
                index := ((index c)(oldKey := None))(key := Some e)\<rparr>)"

definition clock_Len :: "'v clock \<Rightarrow> nat" where
  "clock_Len c = cn c"

definition clock_Contains :: "string \<Rightarrow> 'v clock \<Rightarrow> bool" where
  "clock_Contains key c \<longleftrightarrow> index c key \<noteq> None"

subsection \<open>The clock's invariant\<close>

text \<open>The index is exactly the slots' entries by key; the hand is in range.\<close>

definition clock_ok :: "'v clock \<Rightarrow> bool" where
  "clock_ok c \<longleftrightarrow> length (slots c) \<le> cap c \<and> cn c = length (slots c) \<and> distinct (slots c)
     \<and> (0 < cap c \<longrightarrow> hand c < cap c)
     \<and> (\<forall>i\<in>set (slots c). i < fresh c \<and> heap c i \<noteq> None)
     \<and> (\<forall>k i. index c k = Some i \<longleftrightarrow> i \<in> set (slots c) \<and> map_option eKey (heap c i) = Some k)"

definition lookup :: "'v clock \<Rightarrow> string \<Rightarrow> 'v option" where
  "lookup c key = (case index c key of None \<Rightarrow> None | Some i \<Rightarrow> map_option eVal (heap c i))"

lemma clock_ok_new: "clock_ok (newClock capacity)"
  by (simp add: clock_ok_def newClock_def)

lemma set_used_key [simp]: "map_option eKey (set_used b i h j) = map_option eKey (h j)"
  by (cases "h j") (auto simp: set_used_def)

lemma set_used_val [simp]: "map_option eVal (set_used b i h j) = map_option eVal (h j)"
  by (cases "h j") (auto simp: set_used_def)

lemma set_used_None [simp]: "set_used b i h j = None \<longleftrightarrow> h j = None"
  by (auto simp: set_used_def)

lemma sweep_spec:
  assumes "hnd < length ss" "capacity = length ss"
  shows "fst (sweep ss capacity hnd h) < length ss
    \<and> \<not> entry_used (snd (sweep ss capacity hnd h)) (ss ! fst (sweep ss capacity hnd h))
    \<and> (\<forall>j. map_option eKey (snd (sweep ss capacity hnd h) j) = map_option eKey (h j)
        \<and> map_option eVal (snd (sweep ss capacity hnd h) j) = map_option eVal (h j)
        \<and> (snd (sweep ss capacity hnd h) j = None \<longleftrightarrow> h j = None))"
  using assms
proof (induction ss capacity hnd h rule: sweep.induct)
  case (1 ss capacity hnd h)
  show ?case
  proof (cases "entry_used h (ss ! hnd)")
    case True
    have "(hnd + 1) mod capacity < length ss" using "1.prems" by (cases ss) auto
    then show ?thesis using "1.IH" "1.prems" True
      by (subst (1 2 3 4 5 6) sweep.simps) simp
  next
    case False
    then show ?thesis using "1.prems" by (subst (1 2 3 4 5 6) sweep.simps) simp
  qed
qed

lemma clock_okD:
  assumes "clock_ok c"
  shows "length (slots c) \<le> cap c" "cn c = length (slots c)" "distinct (slots c)"
    "0 < cap c \<Longrightarrow> hand c < cap c"
    "i \<in> set (slots c) \<Longrightarrow> i < fresh c" "i \<in> set (slots c) \<Longrightarrow> heap c i \<noteq> None"
    "index c k = Some i \<longleftrightarrow> i \<in> set (slots c) \<and> map_option eKey (heap c i) = Some k"
  using assms by (auto simp: clock_ok_def)

lemma clock_ok_heap:
  assumes ok: "clock_ok c" and same: "\<And>j. map_option eKey (h j) = map_option eKey (heap c j)"
  shows "clock_ok (c\<lparr>heap := h\<rparr>)"
proof -
  have "h j = None \<longleftrightarrow> heap c j = None" for j
    using same [of j] by (metis option.map_disc_iff)
  then show ?thesis using ok by (simp add: clock_ok_def same)
qed

lemma clock_Get_ok: "clock_ok c \<Longrightarrow> clock_ok (snd (clock_Get key c))"
  by (auto simp: clock_Get_def split: option.split intro: clock_ok_heap)

lemma clock_Get_lookup [simp]:
  "fst (clock_Get key c) = lookup c key" "lookup (snd (clock_Get key c)) k = lookup c k"
  by (auto simp: clock_Get_def lookup_def split: option.split)

lemma clock_Get_same [simp]:
  "index (snd (clock_Get key c)) = index c" "cap (snd (clock_Get key c)) = cap c"
  "slots (snd (clock_Get key c)) = slots c" "hand (snd (clock_Get key c)) = hand c"
  by (simp_all add: clock_Get_def split: option.split)


subsection \<open>Inserting\<close>

text \<open>The parts of an insert that evicts: the heap with the new entry, and where the hand stops.\<close>

definition grown :: "string \<Rightarrow> 'v \<Rightarrow> 'v clock \<Rightarrow> (nat \<Rightarrow> 'v clockEntry option)" where
  "grown key val c = (heap c)(fresh c := Some \<lparr>eKey = key, eVal = val, eUsed = False\<rparr>)"

definition victim :: "string \<Rightarrow> 'v \<Rightarrow> 'v clock \<Rightarrow> nat" where
  "victim key val c = fst (sweep (slots c) (cap c) (hand c) (grown key val c))"

definition swept :: "string \<Rightarrow> 'v \<Rightarrow> 'v clock \<Rightarrow> (nat \<Rightarrow> 'v clockEntry option)" where
  "swept key val c = snd (sweep (slots c) (cap c) (hand c) (grown key val c))"

definition victim_key :: "string \<Rightarrow> 'v \<Rightarrow> 'v clock \<Rightarrow> string" where
  "victim_key key val c =
     (case swept key val c (slots c ! victim key val c) of Some oe \<Rightarrow> eKey oe | None \<Rightarrow> [])"

lemma clock_Put_none: "cap c = 0 \<Longrightarrow> clock_Put busy key val c = c"
  by (simp add: clock_Put_def)

lemma clock_Put_replace:
  "cap c \<noteq> 0 \<Longrightarrow> index c key = Some i \<Longrightarrow>
   clock_Put busy key val c = c\<lparr>heap := (heap c)(i := map_option (\<lambda>e. e\<lparr>eVal := val\<rparr>) (heap c i))\<rparr>"
  by (simp add: clock_Put_def)

lemma clock_Put_busy: "index c key = None \<Longrightarrow> clock_Put True key val c = c"
  by (simp add: clock_Put_def)

lemma clock_Put_grow:
  "index c key = None \<Longrightarrow> length (slots c) < cap c \<Longrightarrow>
   clock_Put False key val c =
     c\<lparr>slots := slots c @ [fresh c], cn := cn c + 1, heap := grown key val c, fresh := fresh c + 1,
       index := (index c)(key := Some (fresh c))\<rparr>"
  by (simp add: clock_Put_def grown_def Let_def)

lemma clock_Put_evict:
  "index c key = None \<Longrightarrow> length (slots c) = cap c \<Longrightarrow> cap c \<noteq> 0 \<Longrightarrow>
   clock_Put False key val c =
     c\<lparr>slots := (slots c)[victim key val c := fresh c], hand := (victim key val c + 1) mod cap c,
       heap := swept key val c, fresh := fresh c + 1,
       index := ((index c)(victim_key key val c := None))(key := Some (fresh c))\<rparr>"
  by (simp add: clock_Put_def grown_def victim_def swept_def victim_key_def Let_def split_beta)

lemma clock_Put_cases:
  assumes "clock_ok c"
  obtains (none) "cap c = 0"
  | (replace) i where "cap c \<noteq> 0" "index c key = Some i"
  | (busy) "index c key = None" "busy"
  | (grow) "index c key = None" "\<not> busy" "length (slots c) < cap c"
  | (evict) "index c key = None" "\<not> busy" "length (slots c) = cap c" "cap c \<noteq> 0"
proof (cases "index c key")
  case None
  have "length (slots c) \<le> cap c" using assms by (rule clock_okD)
  then consider "busy" | "\<not> busy" "length (slots c) < cap c" | "\<not> busy" "length (slots c) = cap c"
    by linarith
  then show ?thesis by cases (use None none busy grow evict in blast)+
qed (use none replace in blast)

lemma victim_facts:
  assumes "clock_ok c" "length (slots c) = cap c" "cap c \<noteq> 0"
  shows "victim key val c < length (slots c)"
    "\<not> entry_used (swept key val c) (slots c ! victim key val c)"
    "map_option eKey (swept key val c j) = map_option eKey (grown key val c j)"
    "map_option eVal (swept key val c j) = map_option eVal (grown key val c j)"
    "swept key val c j = None \<longleftrightarrow> grown key val c j = None"
proof -
  have "hand c < length (slots c)" using clock_okD(4) [OF assms(1)] assms(2,3) by simp
  note sweep_spec [OF this assms(2) [symmetric], of "grown key val c", folded victim_def swept_def]
  then show "victim key val c < length (slots c)"
    "\<not> entry_used (swept key val c) (slots c ! victim key val c)"
    "map_option eKey (swept key val c j) = map_option eKey (grown key val c j)"
    "map_option eVal (swept key val c j) = map_option eVal (grown key val c j)"
    "swept key val c j = None \<longleftrightarrow> grown key val c j = None"
    by simp_all
qed

lemma fresh_not_slot: "clock_ok c \<Longrightarrow> fresh c \<notin> set (slots c)"
  by (auto simp: clock_ok_def)

lemma grown_simps [simp]:
  "map_option eKey (grown key val c (fresh c)) = Some key"
  "map_option eVal (grown key val c (fresh c)) = Some val"
  "grown key val c (fresh c) \<noteq> None"
  by (simp_all add: grown_def)

lemma grown_slot [simp]: "i \<noteq> fresh c \<Longrightarrow> grown key val c i = heap c i"
  by (simp add: grown_def)

lemma victim_key_is:
  assumes "clock_ok c" "length (slots c) = cap c" "cap c \<noteq> 0"
  shows "map_option eKey (heap c (slots c ! victim key val c)) = Some (victim_key key val c)"
proof -
  let ?o = "slots c ! victim key val c"
  have o: "?o \<in> set (slots c)" using victim_facts(1) [OF assms] by simp
  then have ne: "?o \<noteq> fresh c" using fresh_not_slot [OF assms(1)] by metis
  have "swept key val c ?o \<noteq> None"
    using victim_facts(5) [OF assms] clock_okD(6) [OF assms(1) o] ne by simp
  then obtain e where e: "swept key val c ?o = Some e" by auto
  then have "map_option eKey (heap c ?o) = Some (eKey e)"
    using victim_facts(3) [OF assms, of key val ?o] ne by simp
  then show ?thesis by (simp add: victim_key_def e)
qed


lemma clock_Put_ok:
  assumes ok: "clock_ok c"
  shows "clock_ok (clock_Put busy key val c)"
  using ok
proof (cases rule: clock_Put_cases [where key = key and busy = busy])
  case none
  then show ?thesis using ok by (simp add: clock_Put_none)
next
  case (replace i)
  show ?thesis unfolding clock_Put_replace [OF replace]
    by (rule clock_ok_heap [OF ok]) (cases "heap c i"; simp)
next
  case busy
  then show ?thesis using ok by (simp add: clock_Put_busy)
next
  case grow
  have new: "fresh c \<notin> set (slots c)" by (rule fresh_not_slot [OF ok])
  have "((index c)(key := Some (fresh c))) k = Some i \<longleftrightarrow>
      i \<in> insert (fresh c) (set (slots c)) \<and> map_option eKey (grown key val c i) = Some k" for k i
    using clock_okD(7) [OF ok, of k i] clock_okD(7) [OF ok, of key i] grow(1) new
    by (cases "i = fresh c"; cases "k = key") auto
  moreover have "i < fresh c + 1 \<and> grown key val c i \<noteq> None" if "i \<in> insert (fresh c) (set (slots c))" for i
    using clock_okD(5,6) [OF ok, of i] that by (cases "i = fresh c") (auto simp: less_Suc_eq)
  ultimately show ?thesis
    using clock_okD(1-4) [OF ok] grow new by (simp add: clock_Put_grow clock_ok_def)
next
  case evict
  let ?v = "victim key val c" and ?e = "fresh c"
  let ?o = "slots c ! ?v"
  have new: "?e \<notin> set (slots c)" by (rule fresh_not_slot [OF ok])
  have v: "?v < length (slots c)" using victim_facts(1) [OF ok evict(3,4)] .
  have ne: "?o \<noteq> ?e" using v new by (metis nth_mem)
  have set': "set ((slots c)[?v := ?e]) = insert ?e (set (slots c) - {?o})"
    using v clock_okD(3) [OF ok] by (rule set_update_distinct [rotated])
  have keys: "map_option eKey (swept key val c i) = (if i = ?e then Some key else map_option eKey (heap c i))" for i
    by (cases "i = ?e") (simp_all add: victim_facts(3) [OF ok evict(3,4)])
  have old: "index c (victim_key key val c) = Some ?o"
    using clock_okD(7) [OF ok] victim_key_is [OF ok evict(3,4)] v by simp
  have idx: "(((index c)(victim_key key val c := None))(key := Some ?e)) k = Some i \<longleftrightarrow>
      i \<in> insert ?e (set (slots c) - {?o}) \<and> map_option eKey (swept key val c i) = Some k" for k i
    unfolding keys
    using clock_okD(7) [OF ok, of k i] clock_okD(7) [OF ok, of key i] evict(1) new ne old
      victim_key_is [OF ok evict(3,4), of key val]
    by (cases "i = ?e"; cases "k = key"; cases "k = victim_key key val c"; cases "i = ?o") auto
  have slots_ok: "i < ?e + 1 \<and> swept key val c i \<noteq> None" if "i \<in> insert ?e (set (slots c) - {?o})" for i
    using that clock_okD(5,6) [OF ok, of i] new
    by (cases "i = ?e") (auto simp: victim_facts(5) [OF ok evict(3,4)])
  have dist: "distinct ((slots c)[?v := ?e])"
    by (rule distinct_list_update [OF clock_okD(3) [OF ok]]) (use new in simp)
  show ?thesis
    unfolding clock_ok_def
    using idx slots_ok dist evict clock_okD(2) [OF ok] set'
    by (simp add: clock_Put_evict [OF evict(1,3,4)])
qed


subsection \<open>What a lookup returns\<close>

lemma lookup_Some:
  "lookup c key = Some v \<longleftrightarrow> (\<exists>i. index c key = Some i \<and> map_option eVal (heap c i) = Some v)"
  by (simp add: lookup_def split: option.split)

lemma lookup_new [simp]: "lookup (newClock capacity) key = None"
  by (simp add: lookup_def newClock_def)

text \<open>After an insert, a name answers with the inserted value or with what it answered before.\<close>

lemma lookup_after_Put:
  assumes ok: "clock_ok c" and hit: "lookup (clock_Put busy key val c) k = Some v"
  shows "k = key \<and> v = val \<or> lookup c k = Some v"
  using ok
proof (cases rule: clock_Put_cases [where key = key and busy = busy])
  case none
  then show ?thesis using hit by (simp add: clock_Put_none)
next
  case (replace i)
  then obtain j where j: "index c k = Some j"
      "map_option eVal (((heap c)(i := map_option (\<lambda>e. e\<lparr>eVal := val\<rparr>) (heap c i))) j) = Some v"
    using hit by (auto simp: clock_Put_replace lookup_Some simp del: map_option_eq_Some)
  show ?thesis
  proof (cases "j = i")
    case True
    then have "map_option eKey (heap c i) = Some k" "map_option eKey (heap c i) = Some key"
      using clock_okD(7) [OF ok] j(1) replace(2) by simp_all
    then show ?thesis using j(2) True by auto
  next
    case False
    then show ?thesis using j by (simp add: lookup_def)
  qed
next
  case busy
  then show ?thesis using hit by (simp add: clock_Put_busy)
next
  case grow
  then obtain j where j: "((index c)(key := Some (fresh c))) k = Some j"
      "map_option eVal (grown key val c j) = Some v"
    using hit by (auto simp: clock_Put_grow lookup_Some simp del: map_option_eq_Some)
  show ?thesis
  proof (cases "k = key")
    case False
    then have "j \<noteq> fresh c" using j(1) clock_okD(7) [OF ok, of k j] fresh_not_slot [OF ok] by auto
    then show ?thesis using j False by (simp add: lookup_def)
  qed (use j in \<open>auto simp: grown_def\<close>)
next
  case evict
  then obtain j where j: "(((index c)(victim_key key val c := None))(key := Some (fresh c))) k = Some j"
      "map_option eVal (swept key val c j) = Some v"
    using hit by (auto simp: clock_Put_evict lookup_Some simp del: map_option_eq_Some)
  have j2: "map_option eVal (grown key val c j) = Some v"
    using j(2) victim_facts(4) [OF ok evict(3,4)] by simp
  show ?thesis
  proof (cases "k = key")
    case False
    then have i: "index c k = Some j" using j(1) by (simp split: if_splits)
    then have "j \<noteq> fresh c" using clock_okD(7) [OF ok, of k j] fresh_not_slot [OF ok] by auto
    then show ?thesis using i j2 by (simp add: lookup_def)
  qed (use j j2 in \<open>auto simp: grown_def\<close>)
qed

text \<open>An insert that gets the lock is found; one that does not leaves the old answer.\<close>

lemma lookup_Put_key:
  assumes ok: "clock_ok c" and "cap c \<noteq> 0" and "\<not> busy \<or> clock_Contains key c"
  shows "lookup (clock_Put busy key val c) key = Some val"
  using ok
proof (cases rule: clock_Put_cases [where key = key and busy = busy])
  case (replace i)
  then have "heap c i \<noteq> None" using clock_okD(6,7) [OF ok] by blast
  then show ?thesis using replace by (auto simp: clock_Put_replace lookup_Some)
next
  case grow
  then show ?thesis by (simp add: clock_Put_grow lookup_def)
next
  case evict
  then show ?thesis
    by (simp add: clock_Put_evict lookup_def victim_facts(4) [OF ok evict(3,4)])
qed (use assms in \<open>simp_all add: clock_Contains_def\<close>)

lemma clock_Put_cap [simp]: "cap (clock_Put busy key val c) = cap c"
  by (simp add: clock_Put_def Let_def split: option.split prod.split)

lemma clock_Len_le: "clock_ok c \<Longrightarrow> clock_Len c \<le> cap c"
  by (simp add: clock_ok_def clock_Len_def)


subsection \<open>Second chance\<close>

text \<open>The sweep stops at the first slot, from the hand on and around, whose entry is not marked.\<close>

lemma mod_next_ne:
  fixes hnd k n :: nat
  assumes "hnd < n" "k + 1 < n"
  shows "(hnd + 1 + k) mod n \<noteq> hnd"
proof (cases "hnd + 1 + k < n")
  case False
  then have "(hnd + 1 + k) mod n = hnd + 1 + k - n" using assms by (simp add: mod_if)
  then show ?thesis using assms False by linarith
qed simp

lemma sweep_first:
  assumes "distinct ss" "n = length ss" "hnd < n" "d < n"
    "\<And>k. k < d \<Longrightarrow> entry_used h (ss ! ((hnd + k) mod n))"
    "\<not> entry_used h (ss ! ((hnd + d) mod n))"
  shows "fst (sweep ss n hnd h) = (hnd + d) mod n"
  using assms(3-)
proof (induction d arbitrary: hnd h)
  case 0
  then show ?case using assms(2) by (subst sweep.simps) simp
next
  case (Suc d)
  let ?h = "set_used False (ss ! hnd) h" and ?i = "(hnd + 1) mod n"
  have n: "?i < n" using Suc.prems(1) by simp
  have shift: "(?i + k) mod n = (hnd + Suc k) mod n" for k by (simp add: mod_add_left_eq)
  have ne: "ss ! ((hnd + Suc k) mod n) \<noteq> ss ! hnd" if "k \<le> d" for k
  proof -
    have "0 < n" using Suc.prems(1) by simp
    then have "(hnd + Suc k) mod n < length ss" "hnd < length ss"
      using Suc.prems(1) assms(2) by simp_all
    then show ?thesis using mod_next_ne [of hnd n k] that Suc.prems(1,2) assms(1)
      by (simp add: nth_eq_iff_index_eq)
  qed
  have "fst (sweep ss n ?i ?h) = (?i + d) mod n"
  proof (rule Suc.IH [OF n])
    show "d < n" using Suc.prems by simp
    show "entry_used ?h (ss ! ((?i + k) mod n))" if "k < d" for k
      unfolding shift using Suc.prems(3) [of "Suc k"] that ne [of k] by (simp add: set_used_other)
    show "\<not> entry_used ?h (ss ! ((?i + d) mod n))"
      unfolding shift using Suc.prems(4) ne [of d] by (simp add: set_used_other)
  qed
  moreover have "entry_used h (ss ! hnd)" using Suc.prems(3) [of 0] Suc.prems(1) by simp
  ultimately show ?case
    using Suc.prems(1) assms(2) shift [of d] by (subst sweep.simps) simp
qed

lemma sweep_victim_unused:
  assumes dist: "distinct ss" and n: "n = length ss" and hnd: "hnd < n"
    and u: "u \<in> set ss" "\<not> entry_used h u"
  shows "\<not> entry_used h (ss ! fst (sweep ss n hnd h))"
proof -
  obtain j where j: "j < n" "ss ! j = u" using u n by (metis in_set_conv_nth)
  define d where "d = (if hnd \<le> j then j - hnd else n + j - hnd)"
  have d: "d < n" "(hnd + d) mod n = j" using j(1) hnd by (auto simp: d_def)
  define m where "m = (LEAST d. \<not> entry_used h (ss ! ((hnd + d) mod n)))"
  have "\<not> entry_used h (ss ! ((hnd + d) mod n))" using d j u by simp
  then have m: "\<not> entry_used h (ss ! ((hnd + m) mod n))" "m \<le> d"
    "\<And>k. k < m \<Longrightarrow> entry_used h (ss ! ((hnd + k) mod n))"
    unfolding m_def by (rule LeastI, rule Least_le) (use not_less_Least in blast)
  have "fst (sweep ss n hnd h) = (hnd + m) mod n"
    by (rule sweep_first [OF dist n hnd]) (use m d in auto)
  then show ?thesis using m(1) by simp
qed

text \<open>Marked as used: the entry of a key, if it has one.\<close>

definition key_used :: "'v clock \<Rightarrow> string \<Rightarrow> bool" where
  "key_used c k = (case index c k of None \<Rightarrow> False | Some i \<Rightarrow> entry_used (heap c) i)"

lemma clock_Get_marks: "clock_ok c \<Longrightarrow> lookup c k \<noteq> None \<Longrightarrow> key_used (snd (clock_Get k c)) k"
  by (auto simp: clock_Get_def lookup_def key_used_def entry_used_def set_used_def split: option.splits)

lemma used_kept:
  assumes ok: "clock_ok c" and used: "key_used c k"
    and idle: "\<exists>u\<in>set (slots c). \<not> entry_used (heap c) u"
  shows "index (clock_Put busy key val c) k = index c k"
  using ok
proof (cases rule: clock_Put_cases [where key = key and busy = busy])
  case none
  then show ?thesis by (simp add: clock_Put_none)
next
  case (replace i)
  then show ?thesis by (simp add: clock_Put_replace)
next
  case busy
  then show ?thesis by (simp add: clock_Put_busy)
next
  case grow
  then show ?thesis using used by (auto simp: clock_Put_grow key_used_def)
next
  case evict
  obtain i where i: "index c k = Some i" "entry_used (heap c) i"
    using used by (auto simp: key_used_def split: option.splits)
  have same: "entry_used (grown key val c) j = entry_used (heap c) j" if "j \<in> set (slots c)" for j
    using that fresh_not_slot [OF ok] by (cases "j = fresh c") (auto simp: entry_used_def)
  obtain u where u: "u \<in> set (slots c)" "\<not> entry_used (heap c) u" using idle by blast
  have "hand c < cap c" using clock_okD(4) [OF ok] evict(4) by simp
  then have "\<not> entry_used (grown key val c) (slots c ! victim key val c)"
    unfolding victim_def
    by (rule sweep_victim_unused [OF clock_okD(3) [OF ok] evict(3) [symmetric] _ u(1)]) (use u same in simp)
  then have "\<not> entry_used (heap c) (slots c ! victim key val c)"
    using same [of "slots c ! victim key val c"] victim_facts(1) [OF ok evict(3,4)] by simp
  then have "i \<noteq> slots c ! victim key val c" using i by auto
  then have "victim_key key val c \<noteq> k"
    using victim_key_is [OF ok evict(3,4), of key val] clock_okD(7) [OF ok] i(1)
      victim_facts(1) [OF ok evict(3,4)] by (metis nth_mem option.inject)
  moreover have "k \<noteq> key" using i evict by auto
  ultimately show ?thesis by (simp add: clock_Put_evict [OF evict(1,3,4)] evict(2))
qed


subsection \<open>The contract of a cache\<close>

text \<open>
  What a client of a capped cache relies on: a lookup changes no answer, and an insert adds no
  answer but the inserted one. A cache filled only with the values of a function then answers as
  the function does.
\<close>

locale memo =
  fixes look :: "'c \<Rightarrow> 'k \<Rightarrow> 'v option"
    and get :: "'k \<Rightarrow> 'c \<Rightarrow> 'v option \<times> 'c"
    and put :: "'k \<Rightarrow> 'v \<Rightarrow> 'c \<Rightarrow> 'c"
    and inv :: "'c \<Rightarrow> bool"
  assumes get_answer: "fst (get k c) = look c k"
    and get_look: "look (snd (get k c)) k' = look c k'"
    and put_look: "inv c \<Longrightarrow> look (put k v c) k' = Some w \<Longrightarrow> k' = k \<and> w = v \<or> look c k' = Some w"
    and get_inv: "inv c \<Longrightarrow> inv (snd (get k c))"
    and put_inv: "inv c \<Longrightarrow> inv (put k v c)"
begin

definition agrees :: "('k \<Rightarrow> 'v) \<Rightarrow> 'c \<Rightarrow> bool" where
  "agrees f c \<longleftrightarrow> inv c \<and> (\<forall>k v. look c k = Some v \<longrightarrow> v = f k)"

lemma agrees_get: "agrees f c \<Longrightarrow> agrees f (snd (get k c))"
  by (simp add: agrees_def get_look get_inv)

lemma agrees_put: "agrees f c \<Longrightarrow> agrees f (put k (f k) c)"
  unfolding agrees_def using put_look put_inv by blast

lemma agrees_answer: "agrees f c \<Longrightarrow> fst (get k c) = Some v \<Longrightarrow> v = f k"
  by (simp add: agrees_def get_answer)

end

interpretation cc: memo lookup clock_Get "clock_Put busy" clock_ok for busy
  by unfold_locales (simp_all add: clock_Get_ok clock_Put_ok lookup_after_Put)

text \<open>
  Second chance: an insert that has to evict never takes a name marked as used, when some
  cached name is not marked; the used name keeps its entry.
\<close>

lemma used_name_kept:
  assumes "clock_ok c" "key_used c k" "\<exists>u\<in>set (slots c). \<not> entry_used (heap c) u"
  shows "clock_Contains k (clock_Put busy key val c)"
  using used_kept [OF assms] assms(2)
  by (auto simp: clock_Contains_def key_used_def split: option.splits)

lemma used_name_kept_witness:
  "clock_Contains ''b'' (clock_Put False ''c'' (3 :: nat)
     (snd (clock_Get ''b'' (clock_Put False ''b'' 2 (clock_Put False ''a'' 1 (newClock 2))))))"
proof (rule used_name_kept)
  let ?c = "clock_Put False ''b'' (2 :: nat) (clock_Put False ''a'' 1 (newClock 2))"
  show "clock_ok (snd (clock_Get ''b'' ?c))"
    by (intro clock_Get_ok clock_Put_ok clock_ok_new)
  show "key_used (snd (clock_Get ''b'' ?c)) ''b''"
    by (simp add: clock_Put_def newClock_def clock_Get_def key_used_def entry_used_def set_used_def)
  show "\<exists>u\<in>set (slots (snd (clock_Get ''b'' ?c))). \<not> entry_used (heap (snd (clock_Get ''b'' ?c))) u"
    by (simp add: clock_Put_def newClock_def clock_Get_def entry_used_def set_used_def)
qed

end
