(* ===== verification/Route_Cache.thy ===== *)
theory Route_Cache
  imports Routing_Props Clock_Cache
begin

text \<open>
  cache.go: the routing cache, one CLOCK cache of the allowed names' decisions and one of the
  denied names'.
\<close>

record RouteCache =
  allowed :: "Decision clock"
  denied :: "Decision clock"

definition NewRouteCache :: "nat \<Rightarrow> nat \<Rightarrow> RouteCache" where
  "NewRouteCache allowCap denyCap = \<lparr>allowed = newClock allowCap, denied = newClock denyCap\<rparr>"

definition GetOrRoute :: "bool \<Rightarrow> string \<Rightarrow> (string \<Rightarrow> Decision) \<Rightarrow> RouteCache \<Rightarrow> (Decision \<times> bool) \<times> RouteCache" where
  "GetOrRoute busy sni route c =
     (case clock_Get sni (allowed c) of
        (Some d, a) \<Rightarrow> ((d, True), c\<lparr>allowed := a\<rparr>)
      | (None, a) \<Rightarrow>
          (case clock_Get sni (denied c) of
             (Some d, n) \<Rightarrow> ((d, True), c\<lparr>allowed := a, denied := n\<rparr>)
           | (None, n) \<Rightarrow>
               let d = route sni in
               if dAllow d then ((d, False), c\<lparr>allowed := clock_Put busy sni d a, denied := n\<rparr>)
               else ((d, False), c\<lparr>allowed := a, denied := clock_Put busy sni d n\<rparr>)))"

definition RouteCache_Len :: "RouteCache \<Rightarrow> nat \<times> nat" where
  "RouteCache_Len c = (clock_Len (allowed c), clock_Len (denied c))"


subsection \<open>Transparency\<close>

text \<open>Every cached decision is the one routing gives, in the half its verdict belongs to.\<close>

definition half :: "bool \<Rightarrow> (string \<Rightarrow> Decision) \<Rightarrow> Decision clock \<Rightarrow> bool" where
  "half b route c \<longleftrightarrow> cc.agrees route c \<and> (\<forall>k d. lookup c k = Some d \<longrightarrow> dAllow d = b)"

definition cache_ok :: "(string \<Rightarrow> Decision) \<Rightarrow> RouteCache \<Rightarrow> bool" where
  "cache_ok route c \<longleftrightarrow> half True route (allowed c) \<and> half False route (denied c)"

lemma cache_ok_new: "cache_ok route (NewRouteCache a d)"
  by (simp add: cache_ok_def half_def NewRouteCache_def cc.agrees_def clock_ok_new)

lemma half_ok: "half b route c \<Longrightarrow> clock_ok c"
  by (simp add: half_def cc.agrees_def)

lemma half_answer: "half b route c \<Longrightarrow> lookup c k = Some d \<Longrightarrow> d = route k"
  by (simp add: half_def cc.agrees_def)

lemma half_get: "half b route c \<Longrightarrow> half b route (snd (clock_Get k c))"
  by (simp add: half_def cc.agrees_get)

lemma half_put:
  assumes "half b route c" "dAllow (route k) = b"
  shows "half b route (clock_Put busy k (route k) c)"
  using assms lookup_after_Put [OF half_ok [OF assms(1)]] unfolding half_def
  by (blast intro: cc.agrees_put)

lemma GetOrRoute_cases:
  obtains (allowed) d where "lookup (allowed c) sni = Some d"
      "GetOrRoute busy sni route c = ((d, True), c\<lparr>allowed := snd (clock_Get sni (allowed c))\<rparr>)"
  | (denied) d where "lookup (allowed c) sni = None" "lookup (denied c) sni = Some d"
      "GetOrRoute busy sni route c =
        ((d, True), c\<lparr>allowed := snd (clock_Get sni (allowed c)), denied := snd (clock_Get sni (denied c))\<rparr>)"
  | (allow) "lookup (allowed c) sni = None" "lookup (denied c) sni = None" "dAllow (route sni)"
      "GetOrRoute busy sni route c = ((route sni, False),
        c\<lparr>allowed := clock_Put busy sni (route sni) (snd (clock_Get sni (allowed c))),
          denied := snd (clock_Get sni (denied c))\<rparr>)"
  | (deny) "lookup (allowed c) sni = None" "lookup (denied c) sni = None" "\<not> dAllow (route sni)"
      "GetOrRoute busy sni route c = ((route sni, False),
        c\<lparr>allowed := snd (clock_Get sni (allowed c)),
          denied := clock_Put busy sni (route sni) (snd (clock_Get sni (denied c)))\<rparr>)"
proof -
  obtain x a where a: "clock_Get sni (RouteCache.allowed c) = (x, a)" by fastforce
  obtain y n where n: "clock_Get sni (RouteCache.denied c) = (y, n)" by fastforce
  have xa: "x = lookup (RouteCache.allowed c) sni" and yn: "y = lookup (RouteCache.denied c) sni"
    using clock_Get_lookup(1) [of sni] a n by (metis fst_conv)+
  show ?thesis
    using that [unfolded a n] xa yn
    by (cases x; cases y; cases "dAllow (route sni)") (auto simp: GetOrRoute_def a n Let_def)
qed

lemma GetOrRoute_ok:
  assumes "cache_ok route c"
  shows "fst (fst (GetOrRoute busy sni route c)) = route sni
    \<and> cache_ok route (snd (GetOrRoute busy sni route c))"
proof -
  have a: "half True route (allowed c)" and n: "half False route (denied c)"
    using assms by (simp_all add: cache_ok_def)
  show ?thesis
  proof (cases rule: GetOrRoute_cases [of c sni busy route])
    case (allowed d)
    then show ?thesis using half_get [OF a] n half_answer [OF a] by (simp add: cache_ok_def)
  next
    case (denied d)
    then show ?thesis using half_get [OF a] half_get [OF n] half_answer [OF n] by (simp add: cache_ok_def)
  next
    case allow
    then show ?thesis using half_put [OF half_get [OF a]] half_get [OF n] by (simp add: cache_ok_def)
  next
    case deny
    then show ?thesis using half_put [OF half_get [OF n]] half_get [OF a] by (simp add: cache_ok_def)
  qed
qed

fun cache_run :: "(string \<Rightarrow> Decision) \<Rightarrow> (bool \<times> string) list \<Rightarrow> RouteCache \<Rightarrow> Decision list \<times> RouteCache" where
  "cache_run route [] c = ([], c)"
| "cache_run route ((busy, sni) # qs) c =
     (let ((d, _), c') = GetOrRoute busy sni route c;
          (ds, c'') = cache_run route qs c' in (d # ds, c''))"

lemma cache_run_ok:
  "cache_ok route c \<Longrightarrow>
   fst (cache_run route qs c) = map (route \<circ> snd) qs \<and> cache_ok route (snd (cache_run route qs c))"
proof (induction route qs c rule: cache_run.induct)
  case (2 route busy sni qs c)
  obtain d hit c' where g: "GetOrRoute busy sni route c = ((d, hit), c')" by (metis surj_pair)
  then have "d = route sni" "cache_ok route c'" using GetOrRoute_ok [OF 2(2), of busy sni] by auto
  then show ?case using 2(1) [OF g [symmetric] refl refl] g by (simp add: split_beta)
qed simp


lemma GetOrRoute_caps:
  "cap (allowed (snd (GetOrRoute busy sni route c))) = cap (allowed c)
   \<and> cap (denied (snd (GetOrRoute busy sni route c))) = cap (denied c)"
  by (cases rule: GetOrRoute_cases [of c sni busy route]) simp_all

lemma cache_run_caps:
  "cap (allowed (snd (cache_run route qs c))) = cap (allowed c)
   \<and> cap (denied (snd (cache_run route qs c))) = cap (denied c)"
proof (induction route qs c rule: cache_run.induct)
  case (2 route busy sni qs c)
  obtain d hit c' where g: "GetOrRoute busy sni route c = ((d, hit), c')" by (metis surj_pair)
  then show ?case using 2(1) [OF g [symmetric] refl refl] GetOrRoute_caps [of busy sni route c]
    by (simp add: split_beta)
qed simp

lemma cache_run_len:
  "fst (RouteCache_Len (snd (cache_run route qs (NewRouteCache a d)))) \<le> a
   \<and> snd (RouteCache_Len (snd (cache_run route qs (NewRouteCache a d)))) \<le> d"
proof -
  let ?c = "snd (cache_run route qs (NewRouteCache a d))"
  have "cache_ok route ?c" using cache_run_ok [OF cache_ok_new] by blast
  then have "clock_ok (allowed ?c)" "clock_ok (denied ?c)"
    by (auto simp: cache_ok_def half_ok)
  from clock_Len_le [OF this(1)] clock_Len_le [OF this(2)] show ?thesis
    using cache_run_caps [of route qs "NewRouteCache a d"]
    by (simp add: RouteCache_Len_def NewRouteCache_def newClock_def)
qed

lemma GetOrRoute_denied:
  assumes "cache_ok route c" "\<not> dAllow (route sni)"
  shows "index (allowed (snd (GetOrRoute busy sni route c))) = index (allowed c)"
  by (cases rule: GetOrRoute_cases [of c sni busy route]) (use assms in simp_all)

lemma denied_flood:
  assumes "cache_ok route c" "\<And>busy sni. (busy, sni) \<in> set qs \<Longrightarrow> \<not> dAllow (route sni)"
  shows "clock_Contains k (allowed (snd (cache_run route qs c))) = clock_Contains k (allowed c)"
  using assms
proof (induction route qs c rule: cache_run.induct)
  case (2 route busy sni qs c)
  obtain d hit c' where g: "GetOrRoute busy sni route c = ((d, hit), c')" by (metis surj_pair)
  have "cache_ok route c'" using GetOrRoute_ok [OF 2(2), of busy sni] g by simp
  moreover have "index (allowed c') = index (allowed c)"
    using GetOrRoute_denied [OF 2(2), of sni busy] 2(3) [of busy sni] g by simp
  moreover have "\<And>busy sni. (busy, sni) \<in> set qs \<Longrightarrow> \<not> dAllow (route sni)"
    using 2(3) by (metis list.set_intros(2))
  ultimately show ?case using 2(1) [OF g [symmetric] refl refl, of c'] g
    by (simp add: split_beta clock_Contains_def)
qed simp

text \<open>
  C9. The cache is transparent: over any sequence of requests, each with the insert lock free or
  taken, every answer is the one routing gives, and neither half outgrows its cap.
\<close>

theorem cache_transparent:
  "fst (cache_run route qs (NewRouteCache a d)) = map (route \<circ> snd) qs
   \<and> fst (RouteCache_Len (snd (cache_run route qs (NewRouteCache a d)))) \<le> a
   \<and> snd (RouteCache_Len (snd (cache_run route qs (NewRouteCache a d)))) \<le> d"
  using cache_run_ok [OF cache_ok_new] cache_run_len by blast

text \<open>
  A flood of denied names evicts only denied names: whatever names are asked for, as long as
  routing denies every one of them the allowed half keeps its entries.
\<close>

lemma denied_flood_harmless:
  assumes "cache_ok route c" "\<And>busy sni. (busy, sni) \<in> set qs \<Longrightarrow> \<not> dAllow (route sni)"
  shows "clock_Contains k (allowed (snd (cache_run route qs c))) = clock_Contains k (allowed c)"
  by (rule denied_flood [OF assms])

text \<open>A full allowed half of one name, and three names routing denies.\<close>

lemma denied_flood_harmless_witness:
  "let route = (\<lambda>sni. no_decision\<lparr>dAllow := sni = ''a''\<rparr>);
       c = snd (GetOrRoute False ''a'' route (NewRouteCache 1 1)) in
   clock_Contains ''a'' (allowed (snd (cache_run route [(False, ''b''), (True, ''c''), (False, ''d'')] c)))"
proof -
  let ?route = "\<lambda>sni. no_decision\<lparr>dAllow := sni = ''a''\<rparr>"
  let ?c = "snd (GetOrRoute False ''a'' ?route (NewRouteCache 1 1))"
  let ?qs = "[(False, ''b''), (True, ''c''), (False, ''d'')]"
  have "cache_ok ?route ?c" using GetOrRoute_ok [OF cache_ok_new] by blast
  then have "clock_Contains ''a'' (allowed (snd (cache_run ?route ?qs ?c)))
      = clock_Contains ''a'' (allowed ?c)"
    by (rule denied_flood_harmless) (auto simp: no_decision_def)
  also have "clock_Contains ''a'' (allowed ?c)"
    by (simp add: GetOrRoute_def NewRouteCache_def newClock_def clock_Get_def clock_Put_def
        clock_Contains_def no_decision_def Let_def)
  finally show ?thesis by (simp add: Let_def)
qed

end
