(* ===== verification/Nonce.thy ===== *)
theory Nonce
  imports Prelude
begin

unbundle bit_operations_syntax

text \<open>
  nonce.go: loop detection. A fixed table of 64-bit words remembers the hashes of forwarded
  ClientHellos: the low 20 bits of a hash pick its slot, which holds the other 44 bits and a
  stamp of when it was stored. Times are nanoseconds since the cache was made; each operation is
  one atomic store or load, so a sequence of them is a sequence of steps on the table.
\<close>

definition nonceIndexBits :: nat where "nonceIndexBits = 20"

definition nonceSlots :: "64 word" where "nonceSlots = push_bit nonceIndexBits 1"

definition nonceStampBits :: nat where "nonceStampBits = 20"

definition nonceStampMask :: "64 word" where "nonceStampMask = push_bit nonceStampBits 1 - 1"

definition nonceTick :: nat where "nonceTick = 1000000000 div 16"

definition nonceTTL :: nat where "nonceTTL = 10 * 1000000000"

definition nonceTTLTicks :: "64 word" where "nonceTTLTicks = of_nat (nonceTTL div nonceTick)"

type_synonym nonceCache = "64 word \<Rightarrow> 64 word"

definition newNonceCache :: nonceCache where
  "newNonceCache = (\<lambda>_. 0)"

definition stamp :: "nat \<Rightarrow> 64 word" where
  "stamp now = of_nat (now div nonceTick) mod nonceStampMask + 1"

definition remember :: "nonceCache \<Rightarrow> 64 word \<Rightarrow> nat \<Rightarrow> nonceCache" where
  "remember c digest now =
     c(digest AND (nonceSlots - 1) :=
         push_bit nonceStampBits (drop_bit nonceIndexBits digest) OR stamp now)"

definition seen :: "nonceCache \<Rightarrow> 64 word \<Rightarrow> nat \<Rightarrow> bool" where
  "seen c digest now =
     (let v = c (digest AND (nonceSlots - 1)); stored = v AND nonceStampMask in
      if stored = 0 \<or> drop_bit nonceStampBits v \<noteq> drop_bit nonceIndexBits digest then False
      else (stamp now + nonceStampMask - stored) mod nonceStampMask < nonceTTLTicks)"

subsection \<open>Stamps\<close>

definition tick :: "nat \<Rightarrow> nat" where "tick now = now div nonceTick"

definition stamp_cycle :: nat where "stamp_cycle = 1048575"

lemma nonceStampMask_mask: "nonceStampMask = mask 20"
  by (simp add: nonceStampMask_def nonceStampBits_def mask_eq_exp_minus_1)

lemma nonceSlots_mask: "nonceSlots - 1 = mask 20"
  by (simp add: nonceSlots_def nonceIndexBits_def mask_eq_exp_minus_1)

lemma unat_nonceStampMask: "unat nonceStampMask = stamp_cycle"
  by (simp add: nonceStampMask_def nonceStampBits_def stamp_cycle_def)

lemma unat_stamp: "tick now < 2 ^ 64 \<Longrightarrow> unat (stamp now) = tick now mod stamp_cycle + 1"
proof -
  assume t: "tick now < 2 ^ 64"
  have "unat (of_nat (tick now) mod nonceStampMask :: 64 word) = tick now mod stamp_cycle"
    using t by (simp add: unat_mod_distrib unat_nonceStampMask unat_of_nat take_bit_nat_eq_self)
  moreover have "tick now mod stamp_cycle + 1 < 2 ^ 64"
    using mod_less_divisor [of stamp_cycle "tick now"] by (simp add: stamp_cycle_def)
  ultimately show ?thesis
    by (simp add: stamp_def tick_def unat_word_ariths)
qed

lemma stamp_small: "tick now < 2 ^ 64 \<Longrightarrow> stamp now AND mask 20 = stamp now \<and> stamp now \<noteq> 0"
proof -
  assume t: "tick now < 2 ^ 64"
  have "unat (stamp now) < 1048576"
    using unat_stamp [OF t] mod_less_divisor [of stamp_cycle "tick now"] by (simp add: stamp_cycle_def)
  then have "int (unat (stamp now)) < 1048576" by linarith
  then have "stamp now AND mask 20 = stamp now"
    unfolding mask_eq_iff uint_nat by simp
  moreover have "unat (stamp now) \<noteq> 0" using unat_stamp [OF t] by simp
  ultimately show ?thesis by auto
qed

subsection \<open>Slots\<close>

lemma stored_stamp: "s AND mask 20 = s \<Longrightarrow> (push_bit 20 x OR s) AND mask 20 = (s :: 64 word)"
proof -
  assume s: "s AND mask 20 = s"
  have "push_bit 20 x AND mask 20 = (0 :: 64 word)" by (intro bit_word_eqI) (simp add: bit_simps)
  then show ?thesis using s by (simp add: and.commute [of _ "mask 20"] bit.conj_disj_distrib)
qed

lemma stored_tag: "s AND mask 20 = s \<Longrightarrow> drop_bit 20 (push_bit 20 (drop_bit 20 d) OR s) = drop_bit 20 (d :: 64 word)"
proof -
  assume s: "s AND mask 20 = s"
  have "bit s n \<Longrightarrow> n < 20" for n using s by (metis bit_and_iff bit_mask_iff)
  then show ?thesis by (intro bit_word_eqI) (auto simp: bit_simps dest: bit_imp_le_length)
qed

lemma digest_parts:
  "(d AND mask 20 = e AND mask 20 \<and> drop_bit 20 d = drop_bit 20 e) \<longleftrightarrow> d = (e :: 64 word)"
  by (metis and.commute bits_ident take_bit_eq_mask)

text \<open>One lookup after one store, in terms of the ticks that passed.\<close>

lemma seen_remember:
  assumes "t \<le> now" "tick now < 2 ^ 63"
  shows "seen (remember c d t) e now \<longleftrightarrow>
    (if e AND mask 20 = d AND mask 20 then e = d \<and> (tick now - tick t) mod stamp_cycle < 160
     else seen c e now)"
proof -
  have tk: "tick t \<le> tick now" using assms(1) by (simp add: tick_def div_le_mono)
  have small: "tick t < 2 ^ 64" "tick now < 2 ^ 64" using assms(2) tk by simp_all
  note st = stamp_small [OF small(1)]
  have "unat ((stamp now + nonceStampMask - stamp t) mod nonceStampMask) =
      (tick now mod stamp_cycle + 1 + stamp_cycle - (tick t mod stamp_cycle + 1)) mod stamp_cycle"
  proof -
    let ?a = "tick now mod stamp_cycle" and ?b = "tick t mod stamp_cycle"
    have ab: "?a < stamp_cycle" "?b < stamp_cycle" by (simp_all add: stamp_cycle_def)
    have u: "unat (stamp now) = ?a + 1" "unat (stamp t) = ?b + 1" using unat_stamp small by simp_all
    have add: "unat (stamp now + nonceStampMask) = ?a + 1 + stamp_cycle"
      using u ab by (simp add: unat_word_ariths unat_nonceStampMask stamp_cycle_def)
    have "stamp t \<le> stamp now + nonceStampMask"
      using add u ab by (simp add: word_le_nat_alt)
    then have "unat (stamp now + nonceStampMask - stamp t) = ?a + 1 + stamp_cycle - (?b + 1)"
      using add u by (simp add: unat_sub)
    then show ?thesis by (simp add: unat_mod_distrib unat_nonceStampMask)
  qed
  also have "\<dots> = (tick now - tick t) mod stamp_cycle"
  proof -
    have "int ((tick now mod stamp_cycle + 1 + stamp_cycle - (tick t mod stamp_cycle + 1)) mod stamp_cycle) =
        (int (tick now mod stamp_cycle) - int (tick t mod stamp_cycle) + int stamp_cycle) mod int stamp_cycle"
    proof -
      have "tick t mod stamp_cycle + 1 \<le> tick now mod stamp_cycle + 1 + stamp_cycle"
        using mod_less_divisor [of stamp_cycle "tick t"] by (simp add: stamp_cycle_def)
      then show ?thesis by (simp add: of_nat_diff zmod_int algebra_simps)
    qed
    also have "\<dots> = (int (tick now) - int (tick t)) mod int stamp_cycle"
      by (simp add: zmod_int mod_diff_eq)
    also have "\<dots> = int ((tick now - tick t) mod stamp_cycle)"
      using tk by (simp add: zmod_int of_nat_diff)
    finally show ?thesis by simp
  qed
  finally have age: "(stamp now + nonceStampMask - stamp t) mod nonceStampMask < nonceTTLTicks \<longleftrightarrow>
      (tick now - tick t) mod stamp_cycle < 160"
    by (simp add: word_less_nat_alt nonceTTLTicks_def nonceTTL_def nonceTick_def)
  show ?thesis
  proof (cases "e AND mask 20 = d AND mask 20")
    case True
    have v: "remember c d t (d AND mask 20) = push_bit 20 (drop_bit 20 d) OR stamp t"
      by (simp add: remember_def nonceSlots_mask nonceStampBits_def nonceIndexBits_def)
    show ?thesis
      using True st stored_stamp [of "stamp t" "drop_bit 20 d"] stored_tag [of "stamp t" d] age
        digest_parts [of e d]
      by (auto simp: seen_def nonceSlots_mask nonceStampMask_mask v nonceStampBits_def nonceIndexBits_def
          Let_def)
  next
    case False
    then show ?thesis by (simp add: seen_def remember_def nonceSlots_mask Let_def)
  qed
qed

text \<open>A sequence of stores, oldest first.\<close>

definition remember_all :: "nonceCache \<Rightarrow> (64 word \<times> nat) list \<Rightarrow> nonceCache" where
  "remember_all c ops = fold (\<lambda>(d, t) c. remember c d t) ops c"

lemma seen_empty: "\<not> seen newNonceCache e now"
  by (simp add: seen_def newNonceCache_def Let_def)

text \<open>The last store to a hash's slot decides.\<close>

lemma seen_history:
  assumes "\<forall>(d, t)\<in>set ops. t \<le> now" "tick now < 2 ^ 63"
  shows "seen (remember_all newNonceCache ops) e now \<longleftrightarrow>
    (case filter (\<lambda>(d, t). d AND mask 20 = e AND mask 20) (rev ops) of
       [] \<Rightarrow> False
     | (d, t) # _ \<Rightarrow> d = e \<and> (tick now - tick t) mod stamp_cycle < 160)"
  using assms(1)
proof (induction ops rule: rev_induct)
  case Nil
  then show ?case by (simp add: remember_all_def seen_empty)
next
  case (snoc x ops)
  obtain d t where x: "x = (d, t)" by fastforce
  have "remember_all newNonceCache (ops @ [x]) = remember (remember_all newNonceCache ops) d t"
    by (simp add: remember_all_def x)
  then show ?case
    using snoc seen_remember [OF _ assms(2), of t "remember_all newNonceCache ops" d e]
    by (auto simp: x eq_commute [of "e AND mask 20"])
qed

subsection \<open>Properties\<close>

text \<open>
  The table answers from the last store to a hash's slot alone: a hash is reported exactly
  when that store was of this very hash (all 64 bits, so never for another hash) less than 160
  ticks before, counted on the stamps' cycle of about 18 hours.
\<close>

lemma nonce_answers_from_history:
  assumes "list_all (\<lambda>(d, t). t \<le> now) ops" "tick now < 2 ^ 63"
  shows "seen (remember_all newNonceCache ops) e now \<longleftrightarrow>
    (case filter (\<lambda>(d, t). d AND mask 20 = e AND mask 20) (rev ops) of
       [] \<Rightarrow> False
     | (d, t) # _ \<Rightarrow> d = e \<and> (tick now - tick t) mod stamp_cycle < 160)"
  by (rule seen_history) (use assms in \<open>simp_all add: list_all_iff\<close>)

lemma nonce_answers_from_history_witness:
  "seen (remember_all newNonceCache [(0x100005, 1), (7, 2)]) 0x100005 3
   \<and> \<not> seen (remember_all newNonceCache [(0x100005, 1), (5, 2)]) 0x100005 3"
  using nonce_answers_from_history [of 3 "[(0x100005, 1), (7, 2)]" "0x100005"]
    nonce_answers_from_history [of 3 "[(0x100005, 1), (5, 2)]" "0x100005"]
  by (simp add: tick_def nonceTick_def mask_eq_exp_minus_1)

lemma tick_diff:
  assumes "t \<le> now"
  shows "tick now - tick t \<le> (now - t) div nonceTick + 1" "(now - t) div nonceTick \<le> tick now - tick t"
proof -
  have pos: "0 < nonceTick" by (simp add: nonceTick_def)
  have "now = t + (now - t)" using assms by simp
  then have "now div nonceTick = t div nonceTick + (now - t) div nonceTick
      + (t mod nonceTick + (now - t) mod nonceTick) div nonceTick"
    by (metis div_add1_eq)
  moreover have "(t mod nonceTick + (now - t) mod nonceTick) div nonceTick \<le> 1"
  proof -
    have "t mod nonceTick + (now - t) mod nonceTick < 2 * nonceTick"
      using mod_less_divisor [OF pos, of t] mod_less_divisor [OF pos, of "now - t"] by linarith
    then have "(t mod nonceTick + (now - t) mod nonceTick) div nonceTick < 2"
      by (rule less_mult_imp_div_less)
    then show ?thesis by simp
  qed
  ultimately show "tick now - tick t \<le> (now - t) div nonceTick + 1" "(now - t) div nonceTick \<le> tick now - tick t"
    by (simp_all add: tick_def)
qed

lemma seen_age:
  assumes "t \<le> now" "tick now < 2 ^ 63" "tick now - tick t < stamp_cycle"
  shows "seen (remember c d t) d now \<longleftrightarrow> tick now - tick t < 160"
  using seen_remember [OF assms(1,2), of c d d] assms(3) by simp



text \<open>
  The stamps are cyclic: a hash whose slot nobody reused is reported again, long after its
  lifetime, one full cycle (65535.9375 seconds, about 18 hours) after it was stored.
\<close>

lemma nonce_reported_again:
  assumes "tick (t + stamp_cycle * nonceTick) < 2 ^ 63"
  shows "seen (remember c d t) d (t + stamp_cycle * nonceTick)"
proof -
  have "tick (t + stamp_cycle * nonceTick) = tick t + stamp_cycle"
    by (simp add: tick_def nonceTick_def)
  then show ?thesis using seen_remember [of t "t + stamp_cycle * nonceTick" c d d] assms by simp
qed

lemma nonce_reported_again_witness:
  "seen (remember newNonceCache 9 0) 9 (stamp_cycle * nonceTick)"
  using nonce_reported_again [of 0 newNonceCache 9] by (simp add: stamp_cycle_def nonceTick_def tick_def)

end
