(* ===== verification/Ring.thy ===== *)
theory Ring
  imports Prelude
begin

unbundle bit_operations_syntax

text \<open>
  The lock-free ring of lockfree.go: a bounded queue for any number of producers and consumers.
  A state holds the shared words (head, tail, each cell's sequence number and value) and, for
  each thread, the point its \<open>TryPush\<close> or \<open>TryPop\<close> has reached; one step is one atomic access.
  The counters are unbounded: 2^64 operations are out of reach of a process.

  Two fields are history and do not influence the steps: \<open>hpush\<close> lists the values in the order
  their positions were claimed, \<open>hpop\<close> the positions and values of the pops that returned.
\<close>

text \<open>\<open>newRing\<close>'s loop: the capacity rounded up to a power of two, at least 2.\<close>

function ring_size :: "nat \<Rightarrow> nat \<Rightarrow> nat" where
  "ring_size n capacity = (if 0 < n \<and> n < capacity then ring_size (2 * n) capacity else n)"
  by pat_completeness auto
termination by (relation "measure (\<lambda>(n, c). c - n)") auto

declare ring_size.simps [simp del]

datatype 'a pc =
    Ready
  | PushTail 'a        \<comment> \<open>about to load tail\<close>
  | PushSeq 'a nat     \<comment> \<open>position loaded, about to load the cell's seq\<close>
  | PushCAS 'a nat     \<comment> \<open>seq was the position\<close>
  | PushVal 'a nat     \<comment> \<open>position claimed\<close>
  | PushStore 'a nat   \<comment> \<open>value written\<close>
  | Pushed bool
  | PopHead
  | PopSeq nat
  | PopCAS nat
  | PopVal nat
  | PopZero nat 'a
  | PopStore nat 'a
  | Popped "'a option"

record 'a ring =
  rmask :: nat
  rhead :: nat
  rtail :: nat
  rseq :: "nat \<Rightarrow> nat"
  rval :: "nat \<Rightarrow> 'a option"
  rpc :: "nat \<Rightarrow> 'a pc"
  hpush :: "'a list"
  hpop :: "(nat \<times> 'a) list"

definition newRing :: "nat \<Rightarrow> 'a ring" where
  "newRing capacity =
     \<lparr>rmask = ring_size 2 capacity - 1, rhead = 0, rtail = 0, rseq = (\<lambda>i. i), rval = (\<lambda>_. None),
      rpc = (\<lambda>_. Ready), hpush = [], hpop = []\<rparr>"

definition cell_at :: "'a ring \<Rightarrow> nat \<Rightarrow> nat" where
  "cell_at r pos = pos AND rmask r"

abbreviation goto :: "nat \<Rightarrow> 'a pc \<Rightarrow> 'a ring \<Rightarrow> 'a ring" where
  "goto t pc r \<equiv> r\<lparr>rpc := (rpc r)(t := pc)\<rparr>"

text \<open>The next access of thread \<open>t\<close>; a thread between calls, or that returned, stays as it is.\<close>

definition ring_step :: "nat \<Rightarrow> 'a ring \<Rightarrow> 'a ring" where
  "ring_step t r =
     (case rpc r t of
        PushTail v \<Rightarrow> goto t (PushSeq v (rtail r)) r
      | PushSeq v pos \<Rightarrow>
          (let seq = rseq r (cell_at r pos) in
           if seq = pos then goto t (PushCAS v pos) r
           else if seq < pos then goto t (Pushed False) r
           else goto t (PushTail v) r)
      | PushCAS v pos \<Rightarrow>
          (if rtail r = pos
           then goto t (PushVal v pos) (r\<lparr>rtail := pos + 1, hpush := hpush r @ [v]\<rparr>)
           else goto t (PushTail v) r)
      | PushVal v pos \<Rightarrow> goto t (PushStore v pos) (r\<lparr>rval := (rval r)(cell_at r pos := Some v)\<rparr>)
      | PushStore v pos \<Rightarrow> goto t (Pushed True) (r\<lparr>rseq := (rseq r)(cell_at r pos := pos + 1)\<rparr>)
      | PopHead \<Rightarrow> goto t (PopSeq (rhead r)) r
      | PopSeq pos \<Rightarrow>
          (let seq = rseq r (cell_at r pos) in
           if seq = pos + 1 then goto t (PopCAS pos) r
           else if seq < pos + 1 then goto t (Popped None) r
           else goto t PopHead r)
      | PopCAS pos \<Rightarrow>
          (if rhead r = pos then goto t (PopVal pos) (r\<lparr>rhead := pos + 1\<rparr>)
           else goto t PopHead r)
      | PopVal pos \<Rightarrow>
          (case rval r (cell_at r pos) of Some v \<Rightarrow> goto t (PopZero pos v) r | None \<Rightarrow> r)
      | PopZero pos v \<Rightarrow> goto t (PopStore pos v) (r\<lparr>rval := (rval r)(cell_at r pos := None)\<rparr>)
      | PopStore pos v \<Rightarrow>
          goto t (Popped (Some v))
            (r\<lparr>rseq := (rseq r)(cell_at r pos := pos + rmask r + 1), hpop := hpop r @ [(pos, v)]\<rparr>)
      | _ \<Rightarrow> r)"

text \<open>A call begins only where the thread is between calls.\<close>

definition idle :: "'a pc \<Rightarrow> bool" where
  "idle pc = (case pc of Ready \<Rightarrow> True | Pushed _ \<Rightarrow> True | Popped _ \<Rightarrow> True | _ \<Rightarrow> False)"

inductive ring_next :: "'a ring \<Rightarrow> 'a ring \<Rightarrow> bool" where
  call_push: "idle (rpc r t) \<Longrightarrow> ring_next r (goto t (PushTail v) r)"
| call_pop: "idle (rpc r t) \<Longrightarrow> ring_next r (goto t PopHead r)"
| access: "ring_next r (ring_step t r)"

inductive ring_reach :: "nat \<Rightarrow> 'a ring \<Rightarrow> bool" for capacity where
  start: "ring_reach capacity (newRing capacity)"
| more: "ring_reach capacity r \<Longrightarrow> ring_next r r' \<Longrightarrow> ring_reach capacity r'"

definition Ring_Len :: "'a ring \<Rightarrow> nat" where
  "Ring_Len r = (if rtail r < rhead r then 0 else rtail r - rhead r)"

definition Ring_Cap :: "'a ring \<Rightarrow> nat" where
  "Ring_Cap r = rmask r + 1"

subsection \<open>Size\<close>

lemma ring_size_power: "0 < n \<Longrightarrow> n = 2 ^ k \<Longrightarrow> \<exists>j. ring_size n c = 2 ^ j \<and> n \<le> ring_size n c \<and> c \<le> ring_size n c
    \<and> (ring_size n c = n \<or> ring_size n c < 2 * c)"
proof (induction n c arbitrary: k rule: ring_size.induct)
  case (1 n c)
  show ?case
  proof (cases "n < c")
    case True
    have "\<exists>j. ring_size (2 * n) c = 2 ^ j \<and> 2 * n \<le> ring_size (2 * n) c \<and> c \<le> ring_size (2 * n) c
        \<and> (ring_size (2 * n) c = 2 * n \<or> ring_size (2 * n) c < 2 * c)"
      using "1.IH" [of "Suc k"] "1.prems" True by simp
    moreover have "ring_size n c = ring_size (2 * n) c"
      using "1.prems" True by (subst ring_size.simps) simp
    ultimately show ?thesis using True by (auto dest: add_leD1)
  next
    case False
    then have "ring_size n c = n" by (subst ring_size.simps) simp
    then show ?thesis using False "1.prems" by auto
  qed
qed

definition ring_cells :: "'a ring \<Rightarrow> nat" where
  "ring_cells r = rmask r + 1"

lemma ring_cells_simps [simp]:
  "ring_cells (r\<lparr>rhead := a\<rparr>) = ring_cells r" "ring_cells (r\<lparr>rtail := a\<rparr>) = ring_cells r"
  "ring_cells (r\<lparr>rseq := b\<rparr>) = ring_cells r" "ring_cells (r\<lparr>rval := c\<rparr>) = ring_cells r"
  "ring_cells (r\<lparr>rpc := d\<rparr>) = ring_cells r" "ring_cells (r\<lparr>hpush := e\<rparr>) = ring_cells r"
  "ring_cells (r\<lparr>hpop := g\<rparr>) = ring_cells r"
  by (simp_all add: ring_cells_def)

definition sized :: "'a ring \<Rightarrow> bool" where
  "sized r \<longleftrightarrow> 2 \<le> ring_cells r \<and> (\<exists>k. ring_cells r = 2 ^ k)"

lemma cell_at_mod: "sized r \<Longrightarrow> cell_at r pos = pos mod ring_cells r"
proof -
  assume "sized r"
  then obtain k where "rmask r + 1 = 2 ^ k" by (auto simp: sized_def ring_cells_def)
  then have "rmask r = mask k" by (simp add: mask_nat_def)
  then show ?thesis
    using \<open>rmask r + 1 = 2 ^ k\<close> by (simp add: cell_at_def ring_cells_def take_bit_eq_mask [symmetric] take_bit_eq_mod)
qed

lemma sized_new: "sized (newRing c)"
  using ring_size_power [of 2 1 c] by (auto simp: sized_def ring_cells_def newRing_def)

lemma mod_window:
  assumes "p mod n = q mod n" "p \<le> q" "q < p + n"
  shows "p = (q :: nat)"
proof -
  have "n dvd q - p" using assms(1,2) by (metis mod_eq_dvd_iff_nat)
  moreover have "q - p < n" using assms(2,3) by linarith
  ultimately have "q - p = 0" using nat_dvd_not_less by (metis gr0I)
  then show ?thesis using assms(2) by simp
qed

subsection \<open>The invariant\<close>

text \<open>The position a thread has claimed and not yet handed over.\<close>

fun pushing :: "'a pc \<Rightarrow> nat option" where
  "pushing (PushVal v p) = Some p"
| "pushing (PushStore v p) = Some p"
| "pushing _ = None"

fun popping :: "'a pc \<Rightarrow> nat option" where
  "popping (PopVal p) = Some p"
| "popping (PopZero p v) = Some p"
| "popping (PopStore p v) = Some p"
| "popping _ = None"

text \<open>
  The cell of a position in the current window \<open>[head, head + n)\<close>: filled, being filled, free,
  or still being emptied by the pop one lap before.
\<close>

definition cell_rule :: "nat \<Rightarrow> nat \<Rightarrow> nat \<Rightarrow> nat \<Rightarrow> 'a option \<Rightarrow> 'a \<Rightarrow> bool \<Rightarrow> bool \<Rightarrow> bool" where
  "cell_rule n p tail seq val pushed in_push in_pop \<longleftrightarrow>
     (if p < tail then (if in_push then seq = p else seq = p + 1 \<and> val = Some pushed)
      else (if in_pop then seq + n = p + 1 else seq = p))"

definition cell_ok :: "'a ring \<Rightarrow> nat \<Rightarrow> bool" where
  "cell_ok r p = cell_rule (ring_cells r) p (rtail r) (rseq r (p mod ring_cells r))
     (rval r (p mod ring_cells r)) (hpush r ! p) (\<exists>t. pushing (rpc r t) = Some p)
     (\<exists>t q. popping (rpc r t) = Some q \<and> q + ring_cells r = p)"

fun thread_ok :: "'a ring \<Rightarrow> 'a pc \<Rightarrow> bool" where
  "thread_ok r (PushSeq v p) = (p \<le> rtail r)"
| "thread_ok r (PushCAS v p) =
     (p \<le> rtail r \<and> (p = rtail r \<longrightarrow> p < rhead r + ring_cells r \<and> rseq r (p mod ring_cells r) = p))"
| "thread_ok r (PushVal v p) = (rhead r \<le> p \<and> p < rtail r \<and> v = hpush r ! p)"
| "thread_ok r (PushStore v p) =
     (rhead r \<le> p \<and> p < rtail r \<and> v = hpush r ! p \<and> rval r (p mod ring_cells r) = Some v)"
| "thread_ok r (PopSeq p) = (p \<le> rhead r)"
| "thread_ok r (PopCAS p) =
     (p \<le> rhead r \<and> (p = rhead r \<longrightarrow> p < rtail r \<and> rseq r (p mod ring_cells r) = p + 1))"
| "thread_ok r (PopVal p) =
     (p < rhead r \<and> rtail r \<le> p + ring_cells r \<and> rval r (p mod ring_cells r) = Some (hpush r ! p))"
| "thread_ok r (PopZero p v) = (p < rhead r \<and> rtail r \<le> p + ring_cells r \<and> v = hpush r ! p)"
| "thread_ok r (PopStore p v) = (p < rhead r \<and> rtail r \<le> p + ring_cells r \<and> v = hpush r ! p)"
| "thread_ok r _ = True"

definition one_each :: "('a pc \<Rightarrow> nat option) \<Rightarrow> 'a ring \<Rightarrow> bool" where
  "one_each f r \<longleftrightarrow> (\<forall>t u p. f (rpc r t) = Some p \<longrightarrow> f (rpc r u) = Some p \<longrightarrow> t = u)"

definition history_ok :: "'a ring \<Rightarrow> bool" where
  "history_ok r \<longleftrightarrow> length (hpush r) = rtail r \<and> distinct (map fst (hpop r))
     \<and> (\<forall>(p, v)\<in>set (hpop r). p < rhead r \<and> v = hpush r ! p \<and> (\<forall>t. popping (rpc r t) \<noteq> Some p))"

definition ring_inv :: "'a ring \<Rightarrow> bool" where
  "ring_inv r \<longleftrightarrow> sized r \<and> rhead r \<le> rtail r \<and> rtail r \<le> rhead r + ring_cells r
     \<and> (\<forall>p. rhead r \<le> p \<and> p < rhead r + ring_cells r \<longrightarrow> cell_ok r p)
     \<and> (\<forall>t. thread_ok r (rpc r t)) \<and> one_each pushing r \<and> one_each popping r \<and> history_ok r"

lemma ring_inv_new: "ring_inv (newRing c)"
  using sized_new [of c]
  by (auto simp: ring_inv_def newRing_def cell_ok_def cell_rule_def one_each_def history_ok_def sized_def ring_cells_def)

text \<open>Steps that only move the thread, between places that claim nothing.\<close>

lemma goto_simps [simp]:
  "rmask (goto t pc r) = rmask r" "rhead (goto t pc r) = rhead r" "rtail (goto t pc r) = rtail r"
  "rseq (goto t pc r) = rseq r" "rval (goto t pc r) = rval r" "hpush (goto t pc r) = hpush r"
  "hpop (goto t pc r) = hpop r" "rpc (goto t pc r) = (rpc r)(t := pc)"
  by simp_all

lemma cell_ok_same:
  assumes "rmask r' = rmask r" "rtail r' = rtail r" "rseq r' = rseq r" "rval r' = rval r" "hpush r' = hpush r"
    and "\<And>u. pushing (rpc r' u) = pushing (rpc r u)" "\<And>u. popping (rpc r' u) = popping (rpc r u)"
  shows "cell_ok r' p = cell_ok r p"
  using assms by (simp add: cell_ok_def ring_cells_def)

lemma thread_ok_same:
  assumes "rmask r' = rmask r" "rhead r' = rhead r" "rtail r' = rtail r" "rseq r' = rseq r"
    and "rval r' = rval r" "hpush r' = hpush r"
  shows "thread_ok r' pc = thread_ok r pc"
  using assms by (cases pc) (simp_all add: ring_cells_def)

lemma inv_goto:
  assumes inv: "ring_inv r" and ok: "thread_ok r pc"
    and "pushing pc = pushing (rpc r t)" "popping pc = popping (rpc r t)"
  shows "ring_inv (goto t pc r)"
proof -
  let ?r = "goto t pc r"
  have push: "pushing (rpc ?r u) = pushing (rpc r u)" and pop: "popping (rpc ?r u) = popping (rpc r u)" for u
    using assms(3,4) by simp_all
  have cells: "cell_ok ?r p = cell_ok r p" for p by (rule cell_ok_same) (simp_all add: assms(3,4))
  have threads: "thread_ok ?r q = thread_ok r q" for q by (rule thread_ok_same) simp_all
  have "\<forall>u. thread_ok r (rpc ?r u)" using inv ok by (simp add: ring_inv_def)
  then show ?thesis
    using inv unfolding ring_inv_def cells threads one_each_def history_ok_def push pop
    by (simp add: sized_def ring_cells_def)
qed

subsection \<open>Every access keeps it\<close>

text \<open>Positions one window apart share no cell.\<close>

lemma cell_apart:
  assumes "p mod n = q mod n" "p < q + n" "q < p + n"
  shows "p = (q :: nat)"
  using assms mod_window [of p n q] mod_window [of q n p] by (cases "p \<le> q") auto

lemma inv_window: "ring_inv r \<Longrightarrow> rhead r \<le> p \<Longrightarrow> p < rhead r + ring_cells r \<Longrightarrow> cell_ok r p"
  by (simp add: ring_inv_def)

lemma inv_thread: "ring_inv r \<Longrightarrow> rpc r t = pc \<Longrightarrow> thread_ok r pc"
  by (auto simp: ring_inv_def)

lemma inv_cells: "ring_inv r \<Longrightarrow> cell_at r p = p mod ring_cells r"
  by (simp add: ring_inv_def cell_at_mod)

lemma inv_bounds:
  "ring_inv r \<Longrightarrow> rhead r \<le> rtail r \<and> rtail r \<le> rhead r + ring_cells r \<and> 2 \<le> ring_cells r \<and> length (hpush r) = rtail r"
  by (simp add: ring_inv_def sized_def history_ok_def)

text \<open>What the sequence number of a cell says when a push looks at position \<open>p\<close>.\<close>

lemma push_seq_free:
  assumes inv: "ring_inv r" and p: "p \<le> rtail r" "rseq r (p mod ring_cells r) = p" "p = rtail r"
  shows "p < rhead r + ring_cells r"
proof (rule ccontr)
  let ?n = "ring_cells r"
  note b = inv_bounds [OF inv]
  assume "\<not> p < rhead r + ?n"
  then have full: "p = rhead r + ?n" using b p(3) by linarith
  then have same: "p mod ?n = rhead r mod ?n" by simp
  have "rhead r < rtail r" using full p(3) b by linarith
  then have "rseq r (rhead r mod ?n) = rhead r \<or> rseq r (rhead r mod ?n) = rhead r + 1"
    using inv_window [OF inv, of "rhead r"] b by (auto simp: cell_ok_def cell_rule_def split: if_splits)
  then show False using p(2) same full b by auto
qed

lemma push_free_cell:
  assumes inv: "ring_inv r" and p: "p = rtail r" "p < rhead r + ring_cells r" "rseq r (p mod ring_cells r) = p"
  shows "\<not> (\<exists>t q. popping (rpc r t) = Some q \<and> q + ring_cells r = p)"
  using inv_window [OF inv, of p] p inv_bounds [OF inv] by (auto simp: cell_ok_def cell_rule_def split: if_splits)

lemma pop_seq_filled:
  assumes inv: "ring_inv r" and p: "p = rhead r" "rseq r (p mod ring_cells r) = p + 1"
  shows "p < rtail r"
proof (rule ccontr)
  assume "\<not> p < rtail r"
  then have "rseq r (p mod ring_cells r) + ring_cells r = p + 1 \<or> rseq r (p mod ring_cells r) = p"
    using inv_window [OF inv, of p] p(1) inv_bounds [OF inv] by (auto simp: cell_ok_def cell_rule_def split: if_splits)
  then show False using p(2) inv_bounds [OF inv] by auto
qed

lemma pop_filled_cell:
  assumes inv: "ring_inv r" and p: "p = rhead r" "p < rtail r" "rseq r (p mod ring_cells r) = p + 1"
  shows "\<not> (\<exists>t. pushing (rpc r t) = Some p)" "rval r (p mod ring_cells r) = Some (hpush r ! p)"
proof -
  have "cell_ok r p"
    by (rule inv_window [OF inv]) (use p(1) inv_bounds [OF inv] in linarith)+
  then have cell: "if \<exists>t. pushing (rpc r t) = Some p then rseq r (p mod ring_cells r) = p
      else rval r (p mod ring_cells r) = Some (hpush r ! p)"
    using p(2) by (simp add: cell_ok_def cell_rule_def split: if_split_asm)
  have ne: "\<not> (\<exists>t. pushing (rpc r t) = Some p)"
  proof
    assume "\<exists>t. pushing (rpc r t) = Some p"
    then show False using cell p(3) by (simp only: if_True)
  qed
  then show "\<not> (\<exists>t. pushing (rpc r t) = Some p)" .
  show "rval r (p mod ring_cells r) = Some (hpush r ! p)" using cell ne by (simp only: if_False)
qed

text \<open>Claimed positions are inside their windows.\<close>

lemma pushing_bounds: "ring_inv r \<Longrightarrow> pushing (rpc r t) = Some p \<Longrightarrow> rhead r \<le> p \<and> p < rtail r"
  by (cases "rpc r t") (auto dest: inv_thread)

lemma popping_bounds: "ring_inv r \<Longrightarrow> popping (rpc r t) = Some p \<Longrightarrow> p < rhead r \<and> rtail r \<le> p + ring_cells r"
  by (cases "rpc r t") (auto dest: inv_thread)

lemma popping_once: "ring_inv r \<Longrightarrow> popping (rpc r t) = Some p \<Longrightarrow> popping (rpc r u) = Some p \<Longrightarrow> t = u"
  by (simp add: ring_inv_def one_each_def)

lemma pushing_once: "ring_inv r \<Longrightarrow> pushing (rpc r t) = Some p \<Longrightarrow> pushing (rpc r u) = Some p \<Longrightarrow> t = u"
  by (simp add: ring_inv_def one_each_def)

text \<open>
  The obligations of a step of thread \<open>t\<close> to \<open>pc\<close>, with the shared words of \<open>r1\<close>: bounds, cells,
  the threads, and the history.
\<close>

lemma one_each_goto:
  assumes "one_each f r" "rpc r1 = rpc r" "\<And>u p. u \<noteq> t \<Longrightarrow> f pc = Some p \<Longrightarrow> f (rpc r u) \<noteq> Some p"
  shows "one_each f (goto t pc r1)"
  unfolding one_each_def
proof (intro allI impI)
  fix a b p assume "f (rpc (goto t pc r1) a) = Some p" "f (rpc (goto t pc r1) b) = Some p"
  then show "a = b"
    using assms by (cases "a = t"; cases "b = t") (auto simp: one_each_def)
qed

lemma ex_goto2:
  assumes "\<And>q. f (g t) = Some q \<Longrightarrow> \<not> P q"
  shows "(\<exists>u q. f ((g(t := pc)) u) = Some q \<and> P q) \<longleftrightarrow>
    (\<exists>q. f pc = Some q \<and> P q) \<or> (\<exists>u q. f (g u) = Some q \<and> P q)"
    (is "?new \<longleftrightarrow> ?mine \<or> ?old")
proof
  assume ?new
  then obtain u q where "f ((g(t := pc)) u) = Some q" "P q" by blast
  then show "?mine \<or> ?old" by (cases "u = t") auto
next
  assume "?mine \<or> ?old"
  then show ?new
  proof
    assume ?mine
    then show ?new by (intro exI [of _ t]) simp
  next
    assume ?old
    then obtain u q where u: "f (g u) = Some q" "P q" by blast
    then have "u \<noteq> t" using assms by auto
    then show ?new using u by (intro exI [of _ u]) simp
  qed
qed

lemma ex_goto:
  assumes "f (g t) \<noteq> Some x"
  shows "(\<exists>u. f ((g(t := pc)) u) = Some x) \<longleftrightarrow> f pc = Some x \<or> (\<exists>u. f (g u) = Some x)"
  using ex_goto2 [of f g t "\<lambda>q. q = x" pc] assms by (auto simp del: fun_upd_apply)

lemma ring_inv_step:
  assumes inv: "ring_inv r" and same: "rmask r1 = rmask r" "rpc r1 = rpc r"
    and "rhead r1 \<le> rtail r1" "rtail r1 \<le> rhead r1 + ring_cells r"
    and "\<And>p. rhead r1 \<le> p \<Longrightarrow> p < rhead r1 + ring_cells r \<Longrightarrow> cell_ok (goto t pc r1) p"
    and "\<And>u. u \<noteq> t \<Longrightarrow> thread_ok r1 (rpc r u)" "thread_ok r1 pc"
    and "\<And>u p. u \<noteq> t \<Longrightarrow> pushing pc = Some p \<Longrightarrow> pushing (rpc r u) \<noteq> Some p"
    and "\<And>u p. u \<noteq> t \<Longrightarrow> popping pc = Some p \<Longrightarrow> popping (rpc r u) \<noteq> Some p"
    and "history_ok (goto t pc r1)"
  shows "ring_inv (goto t pc r1)"
proof -
  let ?r = "goto t pc r1"
  have n: "ring_cells r1 = ring_cells r" using same by (simp add: ring_cells_def)
  have "thread_ok ?r q = thread_ok r1 q" for q by (rule thread_ok_same) simp_all
  moreover have "thread_ok r1 (rpc ?r u)" for u
    by (cases "u = t") (use assms(7,8) same(2) in simp_all)
  ultimately have "\<forall>u. thread_ok ?r (rpc ?r u)" by simp
  moreover have each: "one_each pushing r" "one_each popping r" "sized r"
    using inv unfolding ring_inv_def by blast+
  have "one_each pushing ?r" by (rule one_each_goto [OF each(1) same(2)]) (rule assms(9))
  moreover have "one_each popping ?r" by (rule one_each_goto [OF each(2) same(2)]) (rule assms(10))
  moreover have "sized ?r" using each(3) by (simp add: sized_def n)
  moreover have "\<forall>p. rhead ?r \<le> p \<and> p < rhead ?r + ring_cells ?r \<longrightarrow> cell_ok ?r p"
    using assms(6) by (simp add: n)
  moreover have "rhead ?r \<le> rtail ?r" "rtail ?r \<le> rhead ?r + ring_cells ?r" using assms(4,5) by (simp_all add: n)
  ultimately show ?thesis using assms(11) unfolding ring_inv_def by blast
qed

lemma inv_push_cas:
  assumes inv: "ring_inv r" and pc: "rpc r t = PushCAS v p" and tail: "rtail r = p"
  shows "ring_inv (goto t (PushVal v p) (r\<lparr>rtail := p + 1, hpush := hpush r @ [v]\<rparr>))"
proof -
  let ?r1 = "r\<lparr>rtail := p + 1, hpush := hpush r @ [v]\<rparr>" and ?n = "ring_cells r"
  let ?r = "goto t (PushVal v p) ?r1"
  note b = inv_bounds [OF inv]
  have room: "p < rhead r + ?n" "rseq r (p mod ?n) = p" using inv_thread [OF inv pc] tail by simp_all
  have free: "popping (rpc r u) = Some q \<Longrightarrow> q + ?n \<noteq> p" for u q
    using push_free_cell [OF inv tail [symmetric] room] by blast
  have n: "ring_cells ?r1 = ?n" "ring_cells ?r = ?n" by (simp_all add: ring_cells_def)
  have nth: "(hpush r @ [v]) ! x = hpush r ! x" if "x < p" for x using that b tail by (simp add: nth_append)
  have cells: "cell_ok ?r x" if x: "rhead r \<le> x" "x < rhead r + ?n" for x
  proof -
    have old: "cell_ok r x" using inv_window [OF inv x] .
    have rpc: "rpc ?r = (rpc r)(t := PushVal v p)" by simp
    have push: "(\<exists>u. pushing (rpc ?r u) = Some x) \<longleftrightarrow> x = p \<or> (\<exists>u. pushing (rpc r u) = Some x)"
      unfolding rpc by (subst ex_goto) (auto simp: pc)
    have pop: "(\<exists>u q. popping (rpc ?r u) = Some q \<and> q + ?n = x) \<longleftrightarrow> (\<exists>u q. popping (rpc r u) = Some q \<and> q + ?n = x)"
      unfolding rpc by (subst ex_goto2) (auto simp: pc)
    have eq: "cell_ok ?r x \<longleftrightarrow> cell_rule ?n x (p + 1) (rseq r (x mod ?n)) (rval r (x mod ?n)) ((hpush r @ [v]) ! x)
        (x = p \<or> (\<exists>u. pushing (rpc r u) = Some x)) (\<exists>u q. popping (rpc r u) = Some q \<and> q + ?n = x)"
      unfolding cell_ok_def n push pop by simp
    consider "x < p" | "x = p" | "p < x" by linarith
    then show ?thesis unfolding eq
      by cases (use old room tail in \<open>simp_all add: cell_ok_def cell_rule_def nth\<close>)
  qed
  show ?thesis
  proof (rule ring_inv_step [OF inv])
    fix u assume u: "u \<noteq> t"
    have ok: "thread_ok r (rpc r u)" by (rule inv_thread [OF inv refl])
    show "thread_ok ?r1 (rpc r u)"
    proof (cases "popping (rpc r u)")
      case None
      then show ?thesis using ok b tail by (cases "rpc r u") (auto simp: n nth)
    next
      case (Some q)
      then have "q < rhead r" "p \<le> q + ?n" "q + ?n \<noteq> p" using popping_bounds [OF inv Some] free [OF Some] tail by auto
      then show ?thesis using ok b tail Some by (cases "rpc r u") (auto simp: n nth)
    qed
    show "pushing (PushVal v p) = Some x \<Longrightarrow> pushing (rpc r u) \<noteq> Some x" for x
      using pushing_bounds [OF inv, of u] tail by fastforce
  next
    show "history_ok ?r"
      using inv b tail by (auto simp: ring_inv_def history_ok_def nth_append)
  qed (use b room tail cells in \<open>auto simp: ring_cells_def nth_append\<close>)
qed

lemma cell_ne: "p \<noteq> q \<Longrightarrow> p < q + n \<Longrightarrow> q < p + n \<Longrightarrow> p mod n \<noteq> (q mod n :: nat)"
  using cell_apart by blast

lemma inv_push_val:
  assumes inv: "ring_inv r" and pc: "rpc r t = PushVal v p"
  shows "ring_inv (goto t (PushStore v p) (r\<lparr>rval := (rval r)(p mod ring_cells r := Some v)\<rparr>))"
proof -
  let ?n = "ring_cells r"
  let ?r1 = "r\<lparr>rval := (rval r)(p mod ?n := Some v)\<rparr>" let ?r = "goto t (PushStore v p) ?r1"
  note b = inv_bounds [OF inv]
  have p: "rhead r \<le> p" "p < rtail r" "v = hpush r ! p" using inv_thread [OF inv pc] by simp_all
  have mine: "pushing (rpc r t) = Some p" using pc by simp
  have cells: "cell_ok ?r x" if x: "rhead r \<le> x" "x < rhead r + ?n" for x
  proof -
    have old: "cell_ok r x" using inv_window [OF inv x] .
    have rpc: "rpc ?r = (rpc r)(t := PushStore v p)" by simp
    have push: "(\<exists>u. pushing (rpc ?r u) = Some x) \<longleftrightarrow> (\<exists>u. pushing (rpc r u) = Some x)"
      unfolding rpc using mine by (cases "x = p") (auto, metis option.inject)
    have pop: "(\<exists>u q. popping (rpc ?r u) = Some q \<and> q + ?n = x) \<longleftrightarrow> (\<exists>u q. popping (rpc r u) = Some q \<and> q + ?n = x)"
      unfolding rpc by (subst ex_goto2) (auto simp: pc)
    have eq: "cell_ok ?r x \<longleftrightarrow> cell_rule ?n x (rtail r) (rseq r (x mod ?n))
        (if x mod ?n = p mod ?n then Some v else rval r (x mod ?n)) (hpush r ! x)
        (\<exists>u. pushing (rpc r u) = Some x) (\<exists>u q. popping (rpc r u) = Some q \<and> q + ?n = x)"
      using push pop by (simp add: cell_ok_def del: fun_upd_apply) (simp add: fun_upd_apply)
    show ?thesis
    proof (cases "x = p")
      case True
      then show ?thesis unfolding eq using old p by (simp add: cell_ok_def cell_rule_def)
    next
      case False
      then have "x mod ?n \<noteq> p mod ?n" by (rule cell_ne) (use x p b in linarith)+
      then show ?thesis unfolding eq using old by (simp add: cell_ok_def)
    qed
  qed
  show ?thesis
  proof (rule ring_inv_step [OF inv])
    fix u assume u: "u \<noteq> t"
    have ok: "thread_ok r (rpc r u)" by (rule inv_thread [OF inv refl])
    have once: "pushing (rpc r u) \<noteq> Some p" using pushing_once [OF inv mine] u by blast
    show "pushing (PushStore v p) = Some x \<Longrightarrow> pushing (rpc r u) \<noteq> Some x" for x using once by auto
    show "thread_ok ?r1 (rpc r u)"
    proof (cases "rpc r u")
      case (PushStore w q)
      then have "q \<noteq> p" using once by auto
      then have "q mod ?n \<noteq> p mod ?n" by (rule cell_ne) (use ok PushStore p b in auto)
      then show ?thesis using ok PushStore by simp
    next
      case (PopVal q)
      have "q mod ?n \<noteq> p mod ?n" by (rule cell_ne) (use ok PopVal p b in auto)
      then show ?thesis using ok PopVal by simp
    qed (use ok in simp_all)
  next
    show "history_ok ?r" using inv pc by (auto simp: ring_inv_def history_ok_def)
  qed (use b p cells in auto)
qed

lemma inv_push_store:
  assumes inv: "ring_inv r" and pc: "rpc r t = PushStore v p"
  shows "ring_inv (goto t (Pushed True) (r\<lparr>rseq := (rseq r)(p mod ring_cells r := p + 1)\<rparr>))"
proof -
  let ?n = "ring_cells r"
  let ?r1 = "r\<lparr>rseq := (rseq r)(p mod ?n := p + 1)\<rparr>" let ?r = "goto t (Pushed True) ?r1"
  note b = inv_bounds [OF inv]
  have p: "rhead r \<le> p" "p < rtail r" "rval r (p mod ?n) = Some (hpush r ! p)"
    using inv_thread [OF inv pc] by simp_all
  have mine: "pushing (rpc r t) = Some p" using pc by simp
  have once: "pushing (rpc r u) \<noteq> Some p" if "u \<noteq> t" for u using pushing_once [OF inv mine] that by blast
  have cells: "cell_ok ?r x" if x: "rhead r \<le> x" "x < rhead r + ?n" for x
  proof -
    have old: "cell_ok r x" using inv_window [OF inv x] .
    have rpc: "rpc ?r = (rpc r)(t := Pushed True)" by simp
    have push: "(\<exists>u. pushing (rpc ?r u) = Some x) \<longleftrightarrow> x \<noteq> p \<and> (\<exists>u. pushing (rpc r u) = Some x)"
    proof (cases "x = p")
      case True
      then show ?thesis using once unfolding rpc by auto
    next
      case False
      then show ?thesis unfolding rpc by (subst ex_goto) (auto simp: mine)
    qed
    have pop: "(\<exists>u q. popping (rpc ?r u) = Some q \<and> q + ?n = x) \<longleftrightarrow> (\<exists>u q. popping (rpc r u) = Some q \<and> q + ?n = x)"
      unfolding rpc by (subst ex_goto2) (auto simp: pc)
    have eq: "cell_ok ?r x \<longleftrightarrow> cell_rule ?n x (rtail r) (if x mod ?n = p mod ?n then p + 1 else rseq r (x mod ?n))
        (rval r (x mod ?n)) (hpush r ! x)
        (x \<noteq> p \<and> (\<exists>u. pushing (rpc r u) = Some x)) (\<exists>u q. popping (rpc r u) = Some q \<and> q + ?n = x)"
      using push pop by (simp add: cell_ok_def del: fun_upd_apply) (simp add: fun_upd_apply)
    show ?thesis
    proof (cases "x = p")
      case True
      then show ?thesis unfolding eq using p by (simp add: cell_rule_def)
    next
      case False
      then have "x mod ?n \<noteq> p mod ?n" by (rule cell_ne) (use x p b in linarith)+
      then show ?thesis unfolding eq using old False by (simp add: cell_ok_def)
    qed
  qed
  show ?thesis
  proof (rule ring_inv_step [OF inv])
    fix u assume u: "u \<noteq> t"
    have ok: "thread_ok r (rpc r u)" by (rule inv_thread [OF inv refl])
    show "thread_ok ?r1 (rpc r u)"
    proof (cases "rpc r u")
      case (PushCAS w q)
      have "q mod ?n \<noteq> p mod ?n" if "q = rtail r" by (rule cell_ne) (use ok PushCAS that p b in auto)
      then show ?thesis using ok PushCAS by simp
    next
      case (PopCAS q)
      show ?thesis
      proof (cases "q = p")
        case False
        have "q mod ?n \<noteq> p mod ?n" if "q = rhead r" by (rule cell_ne [OF False]) (use that p b in auto)
        then show ?thesis using ok PopCAS by simp
      qed (use ok PopCAS in simp)
    qed (use ok in simp_all)
  next
    show "history_ok ?r" using inv pc by (auto simp: ring_inv_def history_ok_def)
  qed (use b p cells in auto)
qed

lemma inv_pop_cas:
  assumes inv: "ring_inv r" and pc: "rpc r t = PopCAS p" and head: "rhead r = p"
  shows "ring_inv (goto t (PopVal p) (r\<lparr>rhead := p + 1\<rparr>))"
proof -
  let ?n = "ring_cells r"
  let ?r1 = "r\<lparr>rhead := p + 1\<rparr>" let ?r = "goto t (PopVal p) ?r1"
  note b = inv_bounds [OF inv]
  have p: "p < rtail r" "rseq r (p mod ?n) = p + 1" using inv_thread [OF inv pc] head by simp_all
  note filled = pop_filled_cell [OF inv head [symmetric] p]
  have cells: "cell_ok ?r x" if x: "p + 1 \<le> x" "x < p + 1 + ?n" for x
  proof -
    have rpc: "rpc ?r = (rpc r)(t := PopVal p)" by simp
    have push: "(\<exists>u. pushing (rpc ?r u) = Some x) \<longleftrightarrow> (\<exists>u. pushing (rpc r u) = Some x)"
      unfolding rpc by (subst ex_goto) (auto simp: pc)
    have pop: "(\<exists>u q. popping (rpc ?r u) = Some q \<and> q + ?n = x) \<longleftrightarrow>
        x = p + ?n \<or> (\<exists>u q. popping (rpc r u) = Some q \<and> q + ?n = x)"
      unfolding rpc by (subst ex_goto2) (auto simp: pc)
    have eq: "cell_ok ?r x \<longleftrightarrow> cell_rule ?n x (rtail r) (rseq r (x mod ?n))
        (rval r (x mod ?n)) (hpush r ! x) (\<exists>u. pushing (rpc r u) = Some x)
        (x = p + ?n \<or> (\<exists>u q. popping (rpc r u) = Some q \<and> q + ?n = x))"
      using push pop by (simp add: cell_ok_def del: fun_upd_apply)
    show ?thesis
    proof (cases "x = p + ?n")
      case True
      then show ?thesis unfolding eq using p b head by (simp add: cell_rule_def)
    next
      case False
      have "cell_ok r x" by (rule inv_window [OF inv]) (use x False head in simp_all)
      then show ?thesis unfolding eq using False by (simp add: cell_ok_def)
    qed
  qed
  show ?thesis
  proof (rule ring_inv_step [OF inv])
    fix u assume u: "u \<noteq> t"
    have ok: "thread_ok r (rpc r u)" by (rule inv_thread [OF inv refl])
    have notp: "pushing (rpc r u) \<noteq> Some p" using filled(1) by blast
    show "thread_ok ?r1 (rpc r u)"
      using ok notp head by (cases "rpc r u") auto
    show "popping (PopVal p) = Some x \<Longrightarrow> popping (rpc r u) \<noteq> Some x" for x
      using popping_bounds [OF inv, of u] head by auto
  next
    have hist: "length (hpush r) = rtail r" "distinct (map fst (hpop r))"
      "\<And>q w. (q, w) \<in> set (hpop r) \<Longrightarrow> q < rhead r \<and> w = hpush r ! q \<and> (\<forall>u. popping (rpc r u) \<noteq> Some q)"
      using inv unfolding ring_inv_def history_ok_def by auto
    then show "history_ok ?r" using head by (fastforce simp: history_ok_def)
  qed (use b p head cells filled in auto)
qed

lemma inv_pop_zero:
  assumes inv: "ring_inv r" and pc: "rpc r t = PopZero p v"
  shows "ring_inv (goto t (PopStore p v) (r\<lparr>rval := (rval r)(p mod ring_cells r := None)\<rparr>))"
proof -
  let ?n = "ring_cells r"
  let ?r1 = "r\<lparr>rval := (rval r)(p mod ?n := None)\<rparr>" let ?r = "goto t (PopStore p v) ?r1"
  note b = inv_bounds [OF inv]
  have p: "p < rhead r" "rtail r \<le> p + ?n" "v = hpush r ! p" using inv_thread [OF inv pc] by simp_all
  have mine: "popping (rpc r t) = Some p" using pc by simp
  have once: "popping (rpc r u) \<noteq> Some p" if "u \<noteq> t" for u using popping_once [OF inv mine] that by blast
  have cells: "cell_ok ?r x" if x: "rhead r \<le> x" "x < rhead r + ?n" for x
  proof -
    have old: "cell_ok r x" using inv_window [OF inv x] .
    have rpc: "rpc ?r = (rpc r)(t := PopStore p v)" by simp
    have push: "(\<exists>u. pushing (rpc ?r u) = Some x) \<longleftrightarrow> (\<exists>u. pushing (rpc r u) = Some x)"
      unfolding rpc by (subst ex_goto) (auto simp: pc)
    have pop: "(\<exists>u q. popping (rpc ?r u) = Some q \<and> q + ?n = x) \<longleftrightarrow> (\<exists>u q. popping (rpc r u) = Some q \<and> q + ?n = x)"
    proof (cases "x = p + ?n")
      case True
      have "\<exists>u q. popping (((rpc r)(t := PopStore p v)) u) = Some q \<and> q + ?n = x"
        by (rule exI [of _ t], rule exI [of _ p]) (simp add: True)
      moreover have "\<exists>u q. popping (rpc r u) = Some q \<and> q + ?n = x"
        by (rule exI [of _ t], rule exI [of _ p]) (simp add: True mine)
      ultimately show ?thesis unfolding rpc by blast
    next
      case False
      then show ?thesis unfolding rpc by (subst ex_goto2) (auto simp: pc)
    qed
    have eq: "cell_ok ?r x \<longleftrightarrow> cell_rule ?n x (rtail r) (rseq r (x mod ?n))
        (if x mod ?n = p mod ?n then None else rval r (x mod ?n)) (hpush r ! x)
        (\<exists>u. pushing (rpc r u) = Some x) (\<exists>u q. popping (rpc r u) = Some q \<and> q + ?n = x)"
      using push pop by (simp add: cell_ok_def del: fun_upd_apply) (simp add: fun_upd_apply)
    show ?thesis
    proof (cases "x < rtail r")
      case True
      have "x mod ?n \<noteq> p mod ?n" by (rule cell_ne) (use x p b True in linarith)+
      then show ?thesis unfolding eq using old by (simp add: cell_ok_def)
    next
      case False
      then show ?thesis unfolding eq using old by (simp add: cell_ok_def cell_rule_def)
    qed
  qed
  show ?thesis
  proof (rule ring_inv_step [OF inv])
    fix u assume u: "u \<noteq> t"
    have ok: "thread_ok r (rpc r u)" by (rule inv_thread [OF inv refl])
    show "popping (PopStore p v) = Some x \<Longrightarrow> popping (rpc r u) \<noteq> Some x" for x using once [OF u] by auto
    show "thread_ok ?r1 (rpc r u)"
    proof (cases "rpc r u")
      case (PushStore w q)
      have "q mod ?n \<noteq> p mod ?n" by (rule cell_ne) (use ok PushStore p b in auto)
      then show ?thesis using ok PushStore by simp
    next
      case (PopVal q)
      have "q \<noteq> p" using once [OF u] PopVal by auto
      then have "q mod ?n \<noteq> p mod ?n" by (rule cell_ne) (use ok PopVal p b in auto)
      then show ?thesis using ok PopVal by simp
    qed (use ok in simp_all)
  next
    have "popping (rpc ?r u) = popping (rpc r u)" for u using pc by simp
    then show "history_ok ?r" using inv by (simp add: ring_inv_def history_ok_def)
  qed (use b p cells in auto)
qed

lemma inv_pop_store:
  assumes inv: "ring_inv r" and pc: "rpc r t = PopStore p v"
  shows "ring_inv (goto t (Popped (Some v))
    (r\<lparr>rseq := (rseq r)(p mod ring_cells r := p + ring_cells r), hpop := hpop r @ [(p, v)]\<rparr>))"
proof -
  let ?n = "ring_cells r"
  let ?r1 = "r\<lparr>rseq := (rseq r)(p mod ?n := p + ?n), hpop := hpop r @ [(p, v)]\<rparr>"
  let ?r = "goto t (Popped (Some v)) ?r1"
  note b = inv_bounds [OF inv]
  have p: "p < rhead r" "rtail r \<le> p + ?n" "v = hpush r ! p" using inv_thread [OF inv pc] by simp_all
  have mine: "popping (rpc r t) = Some p" using pc by simp
  have once: "popping (rpc r u) \<noteq> Some p" if "u \<noteq> t" for u using popping_once [OF inv mine] that by blast
  have cells: "cell_ok ?r x" if x: "rhead r \<le> x" "x < rhead r + ?n" for x
  proof -
    have old: "cell_ok r x" using inv_window [OF inv x] .
    have rpc: "rpc ?r = (rpc r)(t := Popped (Some v))" by simp
    have push: "(\<exists>u. pushing (rpc ?r u) = Some x) \<longleftrightarrow> (\<exists>u. pushing (rpc r u) = Some x)"
      unfolding rpc by (subst ex_goto) (auto simp: pc)
    have pop: "(\<exists>u q. popping (rpc ?r u) = Some q \<and> q + ?n = x) \<longleftrightarrow>
        x \<noteq> p + ?n \<and> (\<exists>u q. popping (rpc r u) = Some q \<and> q + ?n = x)"
    proof (cases "x = p + ?n")
      case True
      then show ?thesis using once unfolding rpc by (auto split: if_splits)
    next
      case False
      then show ?thesis unfolding rpc by (subst ex_goto2) (auto simp: mine)
    qed
    have eq: "cell_ok ?r x \<longleftrightarrow> cell_rule ?n x (rtail r) (if x mod ?n = p mod ?n then p + ?n else rseq r (x mod ?n))
        (rval r (x mod ?n)) (hpush r ! x) (\<exists>u. pushing (rpc r u) = Some x)
        (x \<noteq> p + ?n \<and> (\<exists>u q. popping (rpc r u) = Some q \<and> q + ?n = x))"
      using push pop by (simp add: cell_ok_def del: fun_upd_apply) (simp add: fun_upd_apply)
    show ?thesis
    proof (cases "x = p + ?n")
      case True
      then show ?thesis unfolding eq using p by (simp add: cell_rule_def)
    next
      case False
      have "x mod ?n \<noteq> (p + ?n) mod ?n" by (rule cell_ne [OF False]) (use x p b in linarith)+
      then show ?thesis unfolding eq using old False by (simp add: cell_ok_def)
    qed
  qed
  show ?thesis
  proof (rule ring_inv_step [OF inv])
    fix u assume u: "u \<noteq> t"
    have ok: "thread_ok r (rpc r u)" by (rule inv_thread [OF inv refl])
    show "thread_ok ?r1 (rpc r u)"
    proof (cases "rpc r u")
      case (PushCAS w q)
      show ?thesis
      proof (cases "q = p + ?n")
        case False
        have "q mod ?n \<noteq> (p + ?n) mod ?n" if "q = rtail r" by (rule cell_ne [OF False]) (use ok PushCAS that p b in auto)
        then show ?thesis using ok PushCAS by simp
      qed (use ok PushCAS in simp)
    next
      case (PopCAS q)
      have "q mod ?n \<noteq> p mod ?n" if "q = rhead r" by (rule cell_ne) (use ok PopCAS that p b in auto)
      then show ?thesis using ok PopCAS by simp
    qed (use ok in simp_all)
  next
    have hist: "length (hpush r) = rtail r" "distinct (map fst (hpop r))"
      "\<And>q w. (q, w) \<in> set (hpop r) \<Longrightarrow> q < rhead r \<and> w = hpush r ! q \<and> (\<forall>u. popping (rpc r u) \<noteq> Some q)"
      using inv unfolding ring_inv_def history_ok_def by auto
    have "p \<notin> fst ` set (hpop r)" using hist(3) mine by fastforce
    then show "history_ok ?r" using hist p once by (auto simp: history_ok_def)
  qed (use b p cells in auto)
qed

text \<open>All accesses, and so all reachable states.\<close>

lemma ring_cells_mask: "rmask r + 1 = ring_cells r"
  by (simp add: ring_cells_def)

lemma ring_step_inv [inv_rules]:
  assumes inv: "ring_inv r"
  shows "ring_inv (ring_step t r)"
proof -
  note b = inv_bounds [OF inv]
  have cell: "cell_at r p = p mod ring_cells r" for p by (rule inv_cells [OF inv])
  show ?thesis
  proof (cases "rpc r t")
    case (PushTail v)
    then show ?thesis by (simp add: ring_step_def inv_goto [OF inv] del: goto_simps)
  next
    case (PushSeq v p)
    have "thread_ok r (PushCAS v p)" if "rseq r (p mod ring_cells r) = p"
      using inv_thread [OF inv PushSeq] push_seq_free [OF inv _ that] that by auto
    then have "ring_inv (goto t (PushCAS v p) r)" if "rseq r (p mod ring_cells r) = p"
      by (intro inv_goto [OF inv]) (use that PushSeq in blast, simp_all add: PushSeq)
    then show ?thesis using PushSeq by (simp add: ring_step_def cell Let_def inv_goto [OF inv])
  next
    case (PushCAS v p)
    then show ?thesis using inv_push_cas [OF inv PushCAS] by (simp add: ring_step_def inv_goto [OF inv])
  next
    case (PushVal v p)
    then show ?thesis using inv_push_val [OF inv PushVal] by (simp add: ring_step_def cell)
  next
    case (PushStore v p)
    then show ?thesis using inv_push_store [OF inv PushStore] by (simp add: ring_step_def cell)
  next
    case PopHead
    then show ?thesis by (simp add: ring_step_def inv_goto [OF inv])
  next
    case (PopSeq p)
    have "thread_ok r (PopCAS p)" if "rseq r (p mod ring_cells r) = Suc p"
      using inv_thread [OF inv PopSeq] pop_seq_filled [OF inv] that by auto
    then have "ring_inv (goto t (PopCAS p) r)" if "rseq r (p mod ring_cells r) = Suc p"
      by (intro inv_goto [OF inv]) (use that PopSeq in blast, simp_all add: PopSeq)
    then show ?thesis using PopSeq by (simp add: ring_step_def cell Let_def inv_goto [OF inv])
  next
    case (PopCAS p)
    then show ?thesis using inv_pop_cas [OF inv PopCAS] by (simp add: ring_step_def inv_goto [OF inv])
  next
    case (PopVal p)
    then show ?thesis using inv_thread [OF inv PopVal] by (simp add: ring_step_def cell inv_goto [OF inv])
  next
    case (PopZero p v)
    then show ?thesis using inv_pop_zero [OF inv PopZero] by (simp add: ring_step_def cell)
  next
    case (PopStore p v)
    moreover have "p + rmask r + 1 = p + ring_cells r" by (simp add: ring_cells_def)
    ultimately show ?thesis using inv_pop_store [OF inv PopStore]
      by (simp only: ring_step_def cell pc.case)
  qed (simp_all add: ring_step_def inv)
qed

lemma ring_next_inv [inv_rules]: "ring_next r r' \<Longrightarrow> ring_inv r \<Longrightarrow> ring_inv r'"
proof (induction rule: ring_next.induct)
  case (call_push r t v)
  then show ?case by (intro inv_goto) (auto simp: idle_def split: pc.splits)
next
  case (call_pop r t)
  then show ?case by (intro inv_goto) (auto simp: idle_def split: pc.splits)
next
  case (access r t)
  then show ?case by (rule ring_step_inv)
qed

lemma ring_reach_inv: "ring_reach c r \<Longrightarrow> ring_inv r"
  by (induction rule: ring_reach.induct) (auto intro: ring_inv_new ring_next_inv)

subsection \<open>One caller at a time\<close>

text \<open>
  A call that runs while no other is in progress: five accesses for a push, six for a pop (a
  call that fails stops earlier, and further accesses leave it as it is).
\<close>

definition TryPush :: "'a \<Rightarrow> 'a ring \<Rightarrow> bool \<times> 'a ring" where
  "TryPush v r =
     (let r' = (ring_step 0 ^^ 5) (goto 0 (PushTail v) r) in (rpc r' 0 = Pushed True, r'))"

definition TryPop :: "'a ring \<Rightarrow> 'a option \<times> 'a ring" where
  "TryPop r =
     (let r' = (ring_step 0 ^^ 6) (goto 0 PopHead r) in
      (case rpc r' 0 of Popped v \<Rightarrow> v | _ \<Rightarrow> None, r'))"

definition quiet :: "'a ring \<Rightarrow> bool" where
  "quiet r \<longleftrightarrow> ring_inv r \<and> (\<forall>t. idle (rpc r t))"

text \<open>What is queued, oldest first.\<close>

definition queued :: "'a ring \<Rightarrow> 'a list" where
  "queued r = drop (rhead r) (hpush r)"

lemma idle_none [simp]: "idle pc \<Longrightarrow> pushing pc = None \<and> popping pc = None"
  by (cases pc) (auto simp: idle_def)

lemma quiet_cell:
  assumes "quiet r" "rhead r \<le> p" "p < rhead r + ring_cells r"
  shows "rseq r (p mod ring_cells r) = (if p < rtail r then p + 1 else p)"
    "p < rtail r \<Longrightarrow> rval r (p mod ring_cells r) = Some (hpush r ! p)"
  using inv_window [of r p] assms by (auto simp: quiet_def cell_ok_def cell_rule_def split: if_splits)

lemma TryPush_cases:
  assumes q: "quiet r"
  shows "TryPush v r =
    (if rtail r < rhead r + ring_cells r
     then (True, goto 0 (Pushed True) (r\<lparr>rtail := rtail r + 1, hpush := hpush r @ [v],
        rval := (rval r)(rtail r mod ring_cells r := Some v),
        rseq := (rseq r)(rtail r mod ring_cells r := rtail r + 1)\<rparr>))
     else (False, goto 0 (Pushed False) r))"
proof -
  have inv: "ring_inv r" using q by (simp add: quiet_def)
  note b = inv_bounds [OF inv]
  have cell: "cell_at r p = p AND rmask r" for p by (simp add: cell_at_def)
  have md: "p AND rmask r = p mod ring_cells r" for p using inv_cells [OF inv] by (simp add: cell_at_def)
  show ?thesis
  proof (cases "rtail r < rhead r + ring_cells r")
    case True
    then have "rseq r (rtail r mod ring_cells r) = rtail r" using quiet_cell(1) [OF q] b by simp
    then show ?thesis using True
      by (simp add: TryPush_def ring_step_def numeral_eq_Suc cell_at_def md Let_def)
  next
    case False
    then have t: "rtail r = rhead r + ring_cells r" using b by linarith
    have "rseq r (rhead r mod ring_cells r) = rhead r + 1" using quiet_cell(1) [OF q, of "rhead r"] b t by simp
    then have "rseq r (rtail r mod ring_cells r) < rtail r" using t b by simp
    then show ?thesis using False
      by (simp add: TryPush_def ring_step_def numeral_eq_Suc cell_at_def md Let_def)
  qed
qed

lemma TryPop_cases:
  assumes q: "quiet r"
  shows "TryPop r =
    (if rhead r < rtail r
     then (Some (hpush r ! rhead r), goto 0 (Popped (Some (hpush r ! rhead r))) (r\<lparr>rhead := rhead r + 1,
        rval := (rval r)(rhead r mod ring_cells r := None),
        rseq := (rseq r)(rhead r mod ring_cells r := rhead r + ring_cells r),
        hpop := hpop r @ [(rhead r, hpush r ! rhead r)]\<rparr>))
     else (None, goto 0 (Popped None) r))"
proof -
  have inv: "ring_inv r" using q by (simp add: quiet_def)
  note b = inv_bounds [OF inv]
  have md: "p AND rmask r = p mod ring_cells r" for p using inv_cells [OF inv] by (simp add: cell_at_def)
  have cells: "Suc (rhead r + rmask r) = rhead r + ring_cells r" by (simp add: ring_cells_def)
  show ?thesis
  proof (cases "rhead r < rtail r")
    case True
    then have "rseq r (rhead r mod ring_cells r) = rhead r + 1"
      "rval r (rhead r mod ring_cells r) = Some (hpush r ! rhead r)"
      using quiet_cell [OF q, of "rhead r"] b by simp_all
    then show ?thesis using True
      by (simp add: TryPop_def ring_step_def numeral_eq_Suc cell_at_def md Let_def cells)
  next
    case False
    then have "rseq r (rhead r mod ring_cells r) = rhead r" using quiet_cell(1) [OF q, of "rhead r"] b by simp
    then show ?thesis using False
      by (simp add: TryPop_def ring_step_def numeral_eq_Suc cell_at_def md Let_def)
  qed
qed

lemma ring_steps_inv: "ring_inv r \<Longrightarrow> ring_inv ((ring_step t ^^ k) r)"
  by (induction k) (auto intro: ring_step_inv)

lemma idle_start: "quiet r \<Longrightarrow> ring_inv (goto 0 (PushTail v) r)" "quiet r \<Longrightarrow> ring_inv (goto 0 PopHead r)"
  by (rule inv_goto; auto simp: quiet_def)+

lemma TryPush_quiet: "quiet r \<Longrightarrow> quiet (snd (TryPush v r))"
proof -
  assume q: "quiet r"
  have "ring_inv (snd (TryPush v r))"
    unfolding TryPush_def Let_def snd_conv by (rule ring_steps_inv) (rule idle_start(1) [OF q])
  moreover have "\<forall>t. idle (rpc (snd (TryPush v r)) t)"
    using q unfolding TryPush_cases [OF q] by (auto simp: quiet_def) (auto simp: idle_def)
  ultimately show ?thesis by (simp add: quiet_def)
qed

lemma TryPop_quiet: "quiet r \<Longrightarrow> quiet (snd (TryPop r))"
proof -
  assume q: "quiet r"
  have "ring_inv (snd (TryPop r))"
    unfolding TryPop_def Let_def snd_conv by (rule ring_steps_inv) (rule idle_start(2) [OF q])
  moreover have "\<forall>t. idle (rpc (snd (TryPop r)) t)"
    using q unfolding TryPop_cases [OF q] by (auto simp: quiet_def) (auto simp: idle_def)
  ultimately show ?thesis by (simp add: quiet_def)
qed

lemma quiet_length: "quiet r \<Longrightarrow> length (queued r) = rtail r - rhead r \<and> Ring_Len r = length (queued r)"
  using inv_bounds [of r] by (auto simp: quiet_def queued_def Ring_Len_def)

lemma quiet_new: "quiet (newRing c)" "queued (newRing c) = []"
  by (simp add: quiet_def ring_inv_new) (simp_all add: newRing_def idle_def queued_def)

subsection \<open>The contract of a bounded queue\<close>

text \<open>
  What a client of the ring relies on: a push appends while there is room and says so, a pop
  takes the oldest item, and neither does anything else to the items.
\<close>

locale bounded_queue =
  fixes ok :: "'s \<Rightarrow> bool"
    and items :: "'s \<Rightarrow> 'a list"
    and room :: "'s \<Rightarrow> nat"
    and push :: "'a \<Rightarrow> 's \<Rightarrow> bool \<times> 's"
    and pop :: "'s \<Rightarrow> 'a option \<times> 's"
  assumes push_ok: "ok s \<Longrightarrow> ok (snd (push v s))"
    and push_items: "ok s \<Longrightarrow> items (snd (push v s)) = (if length (items s) < room s then items s @ [v] else items s)"
    and push_says: "ok s \<Longrightarrow> fst (push v s) = (length (items s) < room s)"
    and push_room: "ok s \<Longrightarrow> room (snd (push v s)) = room s"
    and pop_ok: "ok s \<Longrightarrow> ok (snd (pop s))"
    and pop_items: "ok s \<Longrightarrow> items (snd (pop s)) = tl (items s)"
    and pop_says: "ok s \<Longrightarrow> fst (pop s) = (case items s of [] \<Rightarrow> None | x # _ \<Rightarrow> Some x)"
    and pop_room: "ok s \<Longrightarrow> room (snd (pop s)) = room s"
begin

lemma pop_set: "ok s \<Longrightarrow> set (items (snd (pop s))) \<subseteq> set (items s)"
  by (cases "items s") (auto simp: pop_items)

lemma pop_member: "ok s \<Longrightarrow> fst (pop s) = Some x \<Longrightarrow> x \<in> set (items s)"
  by (cases "items s") (auto simp: pop_says)

lemma push_set: "ok s \<Longrightarrow> set (items (snd (push v s))) \<subseteq> insert v (set (items s))"
  by (auto simp: push_items)

lemma push_length: "ok s \<Longrightarrow> length (items (snd (push v s))) \<le> Suc (length (items s))"
  by (simp add: push_items)

lemma pop_length: "ok s \<Longrightarrow> length (items (snd (pop s))) = length (items s) - 1"
  by (simp add: pop_items)

lemma push_then_pop:
  "ok s \<Longrightarrow> items s = [] \<Longrightarrow> 0 < room s \<Longrightarrow> fst (pop (snd (push v s))) = Some v"
  by (simp add: pop_says push_ok push_items)

end

lemma TryPush_items:
  "quiet r \<Longrightarrow> queued (snd (TryPush v r)) = (if length (queued r) < ring_cells r then queued r @ [v] else queued r)"
  using quiet_length [of r] inv_bounds [of r]
  by (auto simp: TryPush_cases queued_def quiet_def)

lemma TryPop_items: "quiet r \<Longrightarrow> queued (snd (TryPop r)) = tl (queued r)"
  using inv_bounds [of r] by (auto simp: TryPop_cases queued_def quiet_def drop_Suc tl_drop)

lemma TryPop_says: "quiet r \<Longrightarrow> fst (TryPop r) = (case queued r of [] \<Rightarrow> None | x # _ \<Rightarrow> Some x)"
  using inv_bounds [of r]
  by (auto simp: TryPop_cases queued_def quiet_def Cons_nth_drop_Suc [symmetric] split: list.split)

interpretation ring_queue: bounded_queue quiet queued ring_cells TryPush TryPop
proof
  fix r :: "'a ring" and v
  assume q: "quiet r"
  show "quiet (snd (TryPush v r))" using q by (rule TryPush_quiet)
  show "queued (snd (TryPush v r)) = (if length (queued r) < ring_cells r then queued r @ [v] else queued r)"
    using q by (rule TryPush_items)
  show "fst (TryPush v r) = (length (queued r) < ring_cells r)"
    using q quiet_length [OF q] inv_bounds [of r] by (auto simp: TryPush_cases quiet_def)
  show "ring_cells (snd (TryPush v r)) = ring_cells r" using q by (simp add: TryPush_cases)
  show "quiet (snd (TryPop r))" using q by (rule TryPop_quiet)
  show "queued (snd (TryPop r)) = tl (queued r)" using q by (rule TryPop_items)
  show "fst (TryPop r) = (case queued r of [] \<Rightarrow> None | x # _ \<Rightarrow> Some x)" using q by (rule TryPop_says)
  show "ring_cells (snd (TryPop r)) = ring_cells r" using q by (simp add: TryPop_cases)
qed

subsection \<open>Properties\<close>

lemma reach_steps: "ring_reach c r \<Longrightarrow> ring_reach c ((ring_step t ^^ k) r)"
  by (induction k) (auto intro: ring_reach.more ring_next.access)

lemma reach_TryPush: "ring_reach c r \<Longrightarrow> idle (rpc r 0) \<Longrightarrow> ring_reach c (snd (TryPush v r))"
  unfolding TryPush_def Let_def snd_conv by (intro reach_steps ring_reach.more [OF _ ring_next.call_push])

lemma reach_TryPop: "ring_reach c r \<Longrightarrow> idle (rpc r 0) \<Longrightarrow> ring_reach c (snd (TryPop r))"
  unfolding TryPop_def Let_def snd_conv by (intro reach_steps ring_reach.more [OF _ ring_next.call_pop])



text \<open>
  C12. A call that runs alone meets the contract of a bounded queue: a push succeeds exactly when
  there is room and then appends its value; a pop returns and removes the oldest item, or says
  there is none; the reported length is the number of items.
\<close>

theorem ring_sequential:
  assumes "quiet r"
  shows "queued (snd (TryPush v r)) = (if length (queued r) < ring_cells r then queued r @ [v] else queued r)
    \<and> fst (TryPush v r) = (length (queued r) < ring_cells r)
    \<and> queued (snd (TryPop r)) = tl (queued r)
    \<and> fst (TryPop r) = (case queued r of [] \<Rightarrow> None | x # _ \<Rightarrow> Some x)
    \<and> Ring_Len r = length (queued r) \<and> quiet (snd (TryPush v r)) \<and> quiet (snd (TryPop r))"
  by (simp add: ring_queue.push_items [OF assms] ring_queue.push_says [OF assms] ring_queue.pop_items [OF assms]
      ring_queue.pop_says [OF assms] ring_queue.push_ok [OF assms] ring_queue.pop_ok [OF assms]
      quiet_length [OF assms])

theorem ring_sequential_witness:
  "fst (TryPush (7 :: nat) (newRing 2)) \<and> queued (snd (TryPush (7 :: nat) (newRing 2))) = [7]
   \<and> fst (TryPop (newRing 2 :: nat ring)) = None"
  using ring_sequential [OF quiet_new(1), of 7 2] inv_bounds [OF ring_inv_new [of 2, where 'a = nat]]
  by (auto simp: quiet_new(2))

text \<open>
  The ring has a power of two of cells, at least two, room for the capacity asked for, and
  less than twice that (or the two it always has).
\<close>

lemma ring_capacity:
  "(\<exists>k. Ring_Cap (newRing capacity) = 2 ^ k) \<and> 2 \<le> Ring_Cap (newRing capacity)
   \<and> capacity \<le> Ring_Cap (newRing capacity)
   \<and> Ring_Cap (newRing capacity) < max 3 (2 * capacity)"
  using ring_size_power [of 2 1 capacity] by (auto simp: Ring_Cap_def newRing_def)

end
