(* ===== verification/Buffer_Pool.thy ===== *)
theory Buffer_Pool
  imports Ring
begin

text \<open>
  pool.go: the pool of relay buffers, a client of the ring. A buffer is the identity of its
  backing array with its capacity; \<open>Get\<close> on an empty pool allocates, so the next identity is
  part of the state. The clock is the argument of the operations that read it; \<open>fullSince\<close> is 0
  when the pool is not at its peak. The janitor's loop body is \<open>trim_tick\<close>.
\<close>

record buffer =
  bufId :: nat
  bufCap :: nat

record BufferPool =
  size :: nat
  maxIdle :: nat
  free :: "buffer ring"
  fullSince :: nat
  nextId :: nat

definition NewBufferPool :: "nat \<Rightarrow> nat \<Rightarrow> BufferPool" where
  "NewBufferPool sz mi =
     \<lparr>size = sz, maxIdle = mi, free = newRing (max mi 1), fullSince = 0, nextId = 0\<rparr>"

definition Idle :: "BufferPool \<Rightarrow> nat" where
  "Idle p = Ring_Len (free p)"

definition Pool_Get :: "BufferPool \<Rightarrow> buffer \<times> BufferPool" where
  "Pool_Get p =
     (case TryPop (free p) of
        (Some b, r) \<Rightarrow>
          (b, p\<lparr>free := r, fullSince := (if Ring_Len r < maxIdle p then 0 else fullSince p)\<rparr>)
      | (None, r) \<Rightarrow> (\<lparr>bufId = nextId p, bufCap = size p\<rparr>, p\<lparr>free := r, nextId := nextId p + 1\<rparr>))"

definition Pool_Put :: "nat \<Rightarrow> buffer \<Rightarrow> BufferPool \<Rightarrow> BufferPool" where
  "Pool_Put now b p =
     (if bufCap b \<noteq> size p \<or> maxIdle p = 0 then p
      else if Ring_Len (free p) \<ge> maxIdle p then p
      else let (pushed, r) = TryPush b (free p) in
        if \<not> pushed then p\<lparr>free := r\<rparr>
        else p\<lparr>free := r, fullSince :=
                (if Ring_Len r \<ge> maxIdle p \<and> fullSince p = 0 then now else fullSince p)\<rparr>)"

definition minute :: nat where "minute = 60 * 1000000000"

function trim_loop :: "nat \<Rightarrow> buffer ring \<Rightarrow> buffer ring" where
  "trim_loop k r =
     (if Ring_Len r > k
      then (case TryPop r of
              (Some _, r') \<Rightarrow> if Ring_Len r' < Ring_Len r then trim_loop k r' else r'
            | (None, r') \<Rightarrow> r')
      else r)"
  by pat_completeness auto
termination by (relation "measure (\<lambda>(k, r). Ring_Len r)") auto

declare trim_loop.simps [simp del]

definition trim_tick :: "nat \<Rightarrow> BufferPool \<Rightarrow> BufferPool" where
  "trim_tick now p =
     (if fullSince p = 0 \<or> now - fullSince p < minute \<or> Ring_Len (free p) \<le> maxIdle p div 2 then p
      else p\<lparr>free := trim_loop (maxIdle p div 2) (free p), fullSince := 0\<rparr>)"

subsection \<open>The pool's invariant\<close>

text \<open>
  Only the pool's own buffers are parked, at most \<open>maxIdle\<close> of them, none twice, and none that
  was never handed out.
\<close>

definition pool_ok :: "BufferPool \<Rightarrow> bool" where
  "pool_ok p \<longleftrightarrow> quiet (free p) \<and> length (queued (free p)) \<le> maxIdle p \<and> maxIdle p \<le> ring_cells (free p)
     \<and> list_all (\<lambda>b. bufCap b = size p \<and> bufId b < nextId p) (queued (free p))"

lemma pool_ok_new: "pool_ok (NewBufferPool sz mi)"
  using ring_size_power [of 2 1 "max mi 1"]
  by (simp add: pool_ok_def NewBufferPool_def quiet_new) (simp add: ring_cells_def newRing_def)

lemma Ring_Len_queued: "quiet r \<Longrightarrow> Ring_Len r = length (queued r)"
  using quiet_length by blast

lemma pool_get:
  assumes ok: "pool_ok p"
  shows "pool_ok (snd (Pool_Get p)) \<and> bufCap (fst (Pool_Get p)) = size p
    \<and> queued (free (snd (Pool_Get p))) = tl (queued (free p))
    \<and> (queued (free p) \<noteq> [] \<longrightarrow> fst (Pool_Get p) = hd (queued (free p)) \<and> nextId (snd (Pool_Get p)) = nextId p)
    \<and> (queued (free p) = [] \<longrightarrow> bufId (fst (Pool_Get p)) = nextId p)
    \<and> size (snd (Pool_Get p)) = size p \<and> maxIdle (snd (Pool_Get p)) = maxIdle p"
proof -
  have q: "quiet (free p)" using ok by (simp add: pool_ok_def)
  obtain x r where pop: "TryPop (free p) = (x, r)" by fastforce
  have r: "quiet r" "queued r = tl (queued (free p))" "ring_cells r = ring_cells (free p)"
    "x = (case queued (free p) of [] \<Rightarrow> None | y # _ \<Rightarrow> Some y)"
    using ring_queue.pop_ok [OF q] ring_queue.pop_items [OF q] ring_queue.pop_room [OF q] ring_queue.pop_says [OF q]
    unfolding pop by simp_all
  show ?thesis
  proof (cases "queued (free p)")
    case Nil
    then show ?thesis using ok r pop by (simp add: Pool_Get_def pool_ok_def)
  next
    case (Cons y ys)
    then show ?thesis using ok r pop by (simp add: Pool_Get_def pool_ok_def)
  qed
qed

lemma pool_put:
  assumes ok: "pool_ok p" and known: "bufId b < nextId p"
  shows "pool_ok (Pool_Put now b p)
    \<and> queued (free (Pool_Put now b p)) =
        (if bufCap b = size p \<and> length (queued (free p)) < maxIdle p then queued (free p) @ [b] else queued (free p))
    \<and> size (Pool_Put now b p) = size p \<and> maxIdle (Pool_Put now b p) = maxIdle p \<and> nextId (Pool_Put now b p) = nextId p"
proof -
  have q: "quiet (free p)" and len: "Ring_Len (free p) = length (queued (free p))"
    and cells: "maxIdle p \<le> ring_cells (free p)"
    using ok by (auto simp: pool_ok_def intro: Ring_Len_queued)
  obtain x r where push: "TryPush b (free p) = (x, r)" by fastforce
  have r: "quiet r" "ring_cells r = ring_cells (free p)" "x = (length (queued (free p)) < ring_cells (free p))"
    "queued r = (if length (queued (free p)) < ring_cells (free p) then queued (free p) @ [b] else queued (free p))"
    using ring_queue.push_ok [OF q, of b] ring_queue.push_room [OF q, of b] ring_queue.push_says [OF q, of b]
      ring_queue.push_items [OF q, of b] unfolding push by simp_all
  show ?thesis
  proof (cases "bufCap b = size p \<and> length (queued (free p)) < maxIdle p")
    case True
    then show ?thesis using ok known cells push r len by (simp add: Pool_Put_def pool_ok_def)
  next
    case False
    then have "Pool_Put now b p = p" using len by (auto simp: Pool_Put_def)
    then show ?thesis using ok False by simp
  qed
qed

lemma trim_loop_spec:
  "quiet r \<Longrightarrow> quiet (trim_loop k r) \<and> ring_cells (trim_loop k r) = ring_cells r
     \<and> queued (trim_loop k r) = drop (length (queued r) - k) (queued r)"
proof (induction k r rule: trim_loop.induct)
  case (1 k r)
  note len = Ring_Len_queued [OF "1.prems"]
  obtain x r' where pop: "TryPop r = (x, r')" by fastforce
  have r': "quiet r'" "queued r' = tl (queued r)" "ring_cells r' = ring_cells r"
    "x = (case queued r of [] \<Rightarrow> None | y # _ \<Rightarrow> Some y)"
    using ring_queue.pop_ok [OF "1.prems"] ring_queue.pop_items [OF "1.prems"]
      ring_queue.pop_room [OF "1.prems"] ring_queue.pop_says [OF "1.prems"] unfolding pop by simp_all
  show ?case
  proof (cases "k < length (queued r)")
    case True
    then obtain y ys where q: "queued r = y # ys" by (cases "queued r") auto
    have x: "x = Some y" using r'(4) q by simp
    have less: "Ring_Len r' < Ring_Len r" using Ring_Len_queued [OF r'(1)] len r'(2) q by simp
    have "trim_loop k r = trim_loop k r'"
      using True len pop x less by (subst trim_loop.simps) simp
    moreover have "drop (length ys - k) ys = drop (length (queued r) - k) (queued r)"
      using True q by (simp add: Suc_diff_le)
    ultimately show ?thesis
      using "1.IH" [OF _ pop [symmetric] x less r'(1)] True len r' q by simp
  next
    case False
    then have "trim_loop k r = r" using len by (subst trim_loop.simps) simp
    then show ?thesis using "1.prems" False by simp
  qed
qed

lemma trim_keeps:
  assumes ok: "pool_ok p"
  shows "pool_ok (trim_tick now p)
    \<and> length (queued (free (trim_tick now p))) \<le> length (queued (free p))
    \<and> min (length (queued (free p))) (maxIdle p div 2) \<le> length (queued (free (trim_tick now p)))
    \<and> set (queued (free (trim_tick now p))) \<subseteq> set (queued (free p))"
proof -
  have q: "quiet (free p)" using ok by (simp add: pool_ok_def)
  note spec = trim_loop_spec [OF q, of "maxIdle p div 2"]
  show ?thesis
  proof (cases "fullSince p = 0 \<or> now - fullSince p < minute \<or> Ring_Len (free p) \<le> maxIdle p div 2")
    case True
    then have "trim_tick now p = p" by (simp add: trim_tick_def)
    then show ?thesis using ok by simp
  next
    case False
    then have t: "trim_tick now p = p\<lparr>free := trim_loop (maxIdle p div 2) (free p), fullSince := 0\<rparr>"
      by (simp add: trim_tick_def)
    show ?thesis using ok spec unfolding t
      by (auto simp: pool_ok_def list_all_iff dest: in_set_dropD)
  qed
qed

subsection \<open>Runs\<close>

text \<open>
  A run of the pool: borrowers get buffers, and return each once, or not at all (a buffer that
  was replaced by a larger one is simply dropped); the janitor ticks. \<open>out\<close> is the buffers that
  are borrowed.
\<close>

inductive pool_run :: "BufferPool \<Rightarrow> buffer list \<Rightarrow> bool" where
  run_new: "pool_run (NewBufferPool sz mi) []"
| run_get: "pool_run p out \<Longrightarrow> pool_run (snd (Pool_Get p)) (fst (Pool_Get p) # out)"
| run_put: "pool_run p out \<Longrightarrow> b \<in> set out \<Longrightarrow> pool_run (Pool_Put now b p) (remove1 b out)"
| run_drop: "pool_run p out \<Longrightarrow> b \<in> set out \<Longrightarrow> pool_run p (remove1 b out)"
| run_trim: "pool_run p out \<Longrightarrow> pool_run (trim_tick now p) out"

inductive_cases pool_run_newE: "pool_run (NewBufferPool sz mi) out"

lemma remove1_image:
  "distinct (map f xs) \<Longrightarrow> x \<in> set xs \<Longrightarrow>
     distinct (map f (remove1 x xs)) \<and> f ` set (remove1 x xs) = f ` set xs - {f x}"
  by (induction xs) auto

lemma remove1_list_all: "list_all P xs \<Longrightarrow> list_all P (remove1 x xs)"
  by (induction xs) auto

lemma pool_run_inv:
  "pool_run p out \<Longrightarrow> pool_ok p \<and> list_all (\<lambda>b. bufId b < nextId p \<and> bufCap b = size p) out
     \<and> distinct (map bufId (out @ queued (free p)))"
proof (induction rule: pool_run.induct)
  case (run_new sz mi)
  then show ?case using pool_ok_new [of sz mi] by (simp add: NewBufferPool_def quiet_new)
next
  case (run_get p out)
  have ok: "pool_ok p" and all: "list_all (\<lambda>b. bufId b < nextId p \<and> bufCap b = size p) out"
    and d: "distinct (map bufId (out @ queued (free p)))" using run_get by blast+
  have q: "quiet (free p)" using ok by (simp add: pool_ok_def)
  note g = pool_get [OF ok]
  let ?b = "fst (Pool_Get p)" and ?p = "snd (Pool_Get p)"
  show ?case
  proof (cases "queued (free p)")
    case Nil
    obtain r where "TryPop (free p) = (None, r)"
      using ring_queue.pop_says [OF q] Nil by (metis list.case(1) prod.collapse)
    then have next': "nextId ?p = Suc (nextId p)" by (simp add: Pool_Get_def)
    have "list_all (\<lambda>b. bufId b < nextId ?p \<and> bufCap b = size ?p) (?b # out)"
      using all g Nil next' by (simp add: list_all_iff less_Suc_eq)
    moreover have "nextId p \<notin> bufId ` set out" using all by (auto simp: list_all_iff)
    ultimately show ?thesis using g d Nil by simp
  next
    case (Cons y ys)
    have y: "bufId y < nextId p" "bufCap y = size p" using ok Cons by (simp_all add: pool_ok_def)
    have "?b = y" "nextId ?p = nextId p" "queued (free ?p) = ys" "size ?p = size p" using g Cons by simp_all
    then show ?thesis using g all y d Cons by auto
  qed
next
  case (run_put p out b now)
  have known: "bufId b < nextId p" "bufCap b = size p" using run_put by (auto simp: list_all_iff)
  have ok: "pool_ok p" and all: "list_all (\<lambda>b. bufId b < nextId p \<and> bufCap b = size p) out"
    and d: "distinct (map bufId out)" "distinct (map bufId (queued (free p)))"
      "bufId ` set out \<inter> bufId ` set (queued (free p)) = {}" using run_put by auto
  note g = pool_put [OF ok known(1), of now]
  note rest = remove1_image [OF d(1) run_put(2)]
  have "bufId b \<in> bufId ` set out" using run_put(2) by simp
  then have "distinct (map bufId (remove1 b out @ queued (free (Pool_Put now b p))))"
    using rest d g by auto
  then show ?case using g remove1_list_all [OF all] by simp
next
  case (run_drop p out b)
  have d: "distinct (map bufId out)" "distinct (map bufId (queued (free p)))"
      "bufId ` set out \<inter> bufId ` set (queued (free p)) = {}" using run_drop by auto
  have "distinct (map bufId (remove1 b out @ queued (free p)))"
    using remove1_image [OF d(1) run_drop(2)] d by auto
  moreover have "list_all (\<lambda>b. bufId b < nextId p \<and> bufCap b = size p) (remove1 b out)"
    by (rule remove1_list_all) (use run_drop in simp)
  ultimately show ?case using run_drop by simp
next
  case (run_trim p out now)
  have q: "quiet (free p)" using run_trim by (simp add: pool_ok_def)
  have "\<exists>k. queued (free (trim_tick now p)) = drop k (queued (free p)) \<and> nextId (trim_tick now p) = nextId p \<and> size (trim_tick now p) = size p"
    using trim_loop_spec [OF q] by (auto simp: trim_tick_def intro: exI [of _ 0])
  then obtain k where k: "queued (free (trim_tick now p)) = drop k (queued (free p))"
    "nextId (trim_tick now p) = nextId p" "size (trim_tick now p) = size p" by blast
  have d: "distinct (map bufId out)" "distinct (map bufId (queued (free p)))"
      "bufId ` set out \<inter> bufId ` set (queued (free p)) = {}" using run_trim by auto
  have "distinct (map bufId (drop k (queued (free p))))" using d(2) by (simp flip: drop_map)
  moreover have "bufId ` set (drop k (queued (free p))) \<subseteq> bufId ` set (queued (free p))"
    by (rule image_mono) (rule set_drop_subset)
  ultimately have "distinct (map bufId (out @ drop k (queued (free p))))" using d by auto
  then show ?case using run_trim trim_keeps [of p now] k by simp
qed

subsection \<open>Properties\<close>



text \<open>
  Trimming a pool that stayed at its peak keeps a warm half: it never drops below the smaller
  of what was parked and half of \<open>maxIdle\<close>, adds nothing, and keeps the pool's invariant.
\<close>

lemma trim_keeps_half:
  assumes "pool_ok p"
  shows "pool_ok (trim_tick now p)
    \<and> length (queued (free (trim_tick now p))) \<le> length (queued (free p))
    \<and> min (length (queued (free p))) (maxIdle p div 2) \<le> length (queued (free (trim_tick now p)))
    \<and> set (queued (free (trim_tick now p))) \<subseteq> set (queued (free p))"
  using assms by (rule trim_keeps)

lemma trim_keeps_half_witness: "pool_ok (trim_tick 7 (NewBufferPool 64 4))"
  using trim_keeps_half [OF pool_ok_new] by blast

end
