(* ===== verification/Admission.thy ===== *)
theory Admission
  imports Netip
begin

text \<open>
  Admission of connections (proxy.go, lockfree.go): the counters that cap the connections being
  served and, per source address, those still sending their ClientHello. A counter is entered with
  one atomic addition, tested, and taken back when the connection is refused; connections of any
  number of goroutines interleave between these accesses. Counters are integers: 2^31 connections
  at once are out of reach.
\<close>

subsection \<open>Sources\<close>

text \<open>An address is counted as itself when it is IPv4, by its /64 when it is IPv6.\<close>

definition sourceKey :: "net_addr \<Rightarrow> addr" where
  "sourceKey a =
     (case a of
        OtherAddr _ \<Rightarrow> NoAddr
      | TCPAddr ip _ _ \<Rightarrow>
          (case AddrFromSlice ip of
             None \<Rightarrow> NoAddr
           | Some ip \<Rightarrow>
               (case Unmap ip of
                  Addr6 b z \<Rightarrow> Addr6 (take 8 b @ replicate 8 0) []
                | a \<Rightarrow> a)))"

text \<open>The counters of all sources; the keyed hash is a parameter.\<close>

type_synonym sourceCounts = "nat \<Rightarrow> int"

definition newSourceCounts :: sourceCounts where
  "newSourceCounts = (\<lambda>_. 0)"

definition counter :: "(bytes \<Rightarrow> nat) \<Rightarrow> addr \<Rightarrow> nat" where
  "counter hash a = hash (As16 a) mod 2 ^ 16"

text \<open>A call that no other goroutine interrupts.\<close>

definition beginHandshake :: "(bytes \<Rightarrow> nat) \<Rightarrow> addr \<Rightarrow> int \<Rightarrow> sourceCounts \<Rightarrow> nat option \<times> sourceCounts" where
  "beginHandshake hash key limit s =
     (let n = counter hash key; v = s n + 1; s = s(n := v) in
      if limit > 0 \<and> v > limit then (None, s(n := s n - 1)) else (Some n, s))"

definition endHandshake :: "nat \<Rightarrow> sourceCounts \<Rightarrow> sourceCounts" where
  "endHandshake n s = s(n := s n - 1)"

lemma begin_refused: "beginHandshake hash key limit s = (None, s') \<Longrightarrow> s' = s"
  by (auto simp: beginHandshake_def Let_def split: if_splits)

lemma begin_end:
  "beginHandshake hash key limit s = (Some n, s') \<Longrightarrow> endHandshake n s' = s \<and> n = counter hash key"
  by (auto simp: beginHandshake_def endHandshake_def Let_def split: if_splits)

lemma begin_limit:
  "beginHandshake hash key limit s = (Some n, s') \<Longrightarrow> 0 < limit \<Longrightarrow> s' n \<le> limit"
  by (auto simp: beginHandshake_def Let_def split: if_splits)

text \<open>Every address of one IPv6 /64 is one source.\<close>

lemma sourceKey_64:
  assumes "length a = 16" "length b = 16" "take 8 a = take 8 b"
    "take 12 a \<noteq> mapped_prefix" "take 12 b \<noteq> mapped_prefix"
  shows "sourceKey (TCPAddr a p z) = sourceKey (TCPAddr b q w)"
  using assms by (simp add: sourceKey_def AddrFromSlice_def)

subsection \<open>Interleaved admission\<close>

text \<open>
  One counter and the connections that pass it: a connection is outside, has added itself and
  seen the value, or is inside. \<open>over v\<close> is the test of the code that refuses.
\<close>

datatype visitor = Outside | Counted int | Inside

record gate =
  gcount :: int
  gvisitors :: "visitor list"

definition gate_step :: "(int \<Rightarrow> bool) \<Rightarrow> nat \<Rightarrow> gate \<Rightarrow> gate" where
  "gate_step over t g =
     (case gvisitors g ! t of
        Outside \<Rightarrow> g\<lparr>gcount := gcount g + 1, gvisitors := (gvisitors g)[t := Counted (gcount g + 1)]\<rparr>
      | Counted v \<Rightarrow>
          if over v then g\<lparr>gcount := gcount g - 1, gvisitors := (gvisitors g)[t := Outside]\<rparr>
          else g\<lparr>gvisitors := (gvisitors g)[t := Inside]\<rparr>
      | Inside \<Rightarrow> g\<lparr>gcount := gcount g - 1, gvisitors := (gvisitors g)[t := Outside]\<rparr>)"

inductive gate_reach :: "(int \<Rightarrow> bool) \<Rightarrow> nat \<Rightarrow> gate \<Rightarrow> bool" for over n where
  shut: "gate_reach over n \<lparr>gcount = 0, gvisitors = replicate n Outside\<rparr>"
| moved: "gate_reach over n g \<Longrightarrow> t < n \<Longrightarrow> gate_reach over n (gate_step over t g)"

text \<open>The tests of the accept loop (all connections, one listener's) and of \<open>beginHandshake\<close>.\<close>

definition over_total :: "nat \<Rightarrow> int \<Rightarrow> bool" where
  "over_total maxConnections active \<longleftrightarrow> active > int maxConnections"

definition over_listener :: "nat \<Rightarrow> int \<Rightarrow> bool" where
  "over_listener lim mine \<longleftrightarrow> lim > 0 \<and> mine > int lim"

definition over_source :: "nat \<Rightarrow> int \<Rightarrow> bool" where
  "over_source limit v \<longleftrightarrow> limit > 0 \<and> v > int limit"

definition present :: "visitor \<Rightarrow> bool" where
  "present v \<longleftrightarrow> v \<noteq> Outside"

definition passing :: "(int \<Rightarrow> bool) \<Rightarrow> visitor \<Rightarrow> bool" where
  "passing over v = (case v of Outside \<Rightarrow> False | Counted n \<Rightarrow> \<not> over n | Inside \<Rightarrow> True)"

definition inside :: "gate \<Rightarrow> nat" where
  "inside g = length (filter (\<lambda>v. v = Inside) (gvisitors g))"

definition gate_inv :: "(int \<Rightarrow> bool) \<Rightarrow> nat \<Rightarrow> nat \<Rightarrow> gate \<Rightarrow> bool" where
  "gate_inv over cap n g \<longleftrightarrow> length (gvisitors g) = n
     \<and> gcount g = int (length (filter present (gvisitors g)))
     \<and> length (filter (passing over) (gvisitors g)) \<le> cap"

lemma filter_mono_length: "(\<And>x. P x \<Longrightarrow> Q x) \<Longrightarrow> length (filter P xs) \<le> length (filter Q xs)"
  by (induction xs) (auto intro: le_SucI)

text \<open>
  The contract of such a test: whatever it lets through is within the cap. The lemmas hold for
  every interleaving.
\<close>

locale admission =
  fixes over :: "int \<Rightarrow> bool" and limit :: nat
  assumes over_cap: "\<not> over v \<Longrightarrow> v \<le> int limit"
begin

lemma start_inv: "gate_inv over limit n \<lparr>gcount = 0, gvisitors = replicate n Outside\<rparr>"
  by (simp add: gate_inv_def present_def passing_def)

lemma step_inv:
  assumes inv: "gate_inv over limit n g" and t: "t < n"
  shows "gate_inv over limit n (gate_step over t g)"
proof -
  let ?vs = "gvisitors g"
  have len: "t < length ?vs" using inv t by (simp add: gate_inv_def)
  note cnt = count_update [OF len]
  have sub: "length (filter (passing over) ?vs) \<le> length (filter present ?vs)"
    by (rule filter_mono_length) (auto simp: passing_def present_def split: visitor.splits)
  show ?thesis
  proof (cases "?vs ! t")
    case Outside
    have "length (filter (passing over) (?vs[t := Counted (gcount g + 1)])) \<le> limit"
    proof (cases "over (gcount g + 1)")
      case True
      then show ?thesis
        using cnt [of "passing over" "Counted (gcount g + 1)"] inv Outside
        by (simp add: gate_inv_def passing_def)
    next
      case False
      have "length (filter (passing over) (?vs[t := Counted (gcount g + 1)]))
          = length (filter (passing over) ?vs) + 1"
        using cnt [of "passing over" "Counted (gcount g + 1)"] Outside False
        by (simp add: passing_def)
      moreover have "gcount g + 1 \<le> int limit" using over_cap [OF False] .
      ultimately show ?thesis using sub inv by (simp add: gate_inv_def)
    qed
    then show ?thesis
      using cnt [of present "Counted (gcount g + 1)"] inv Outside
      by (simp add: gate_inv_def gate_step_def present_def)
  next
    case (Counted v)
    then show ?thesis
      using cnt [of present Outside] cnt [of present Inside] cnt [of "passing over" Outside]
        cnt [of "passing over" Inside] inv
      by (cases "over v") (simp_all add: gate_inv_def gate_step_def present_def passing_def)
  next
    case Inside
    then show ?thesis
      using cnt [of present Outside] cnt [of "passing over" Outside] inv
      by (simp add: gate_inv_def gate_step_def present_def passing_def)
  qed
qed

lemma reach_inv: "gate_reach over n g \<Longrightarrow> gate_inv over limit n g"
  by (induction rule: gate_reach.induct) (use start_inv step_inv in auto)

lemma inside_cap: "gate_reach over n g \<Longrightarrow> inside g \<le> limit"
proof -
  assume "gate_reach over n g"
  then have "length (filter (passing over) (gvisitors g)) \<le> limit"
    using reach_inv by (simp add: gate_inv_def)
  moreover have "inside g \<le> length (filter (passing over) (gvisitors g))"
    unfolding inside_def by (rule filter_mono_length) (simp add: passing_def)
  ultimately show ?thesis by linarith
qed

lemma nobody_counted:
  assumes "gate_reach over n g" "\<forall>v\<in>set (gvisitors g). v = Outside"
  shows "gcount g = 0"
proof -
  have "filter present (gvisitors g) = []" using assms(2) by (auto simp: present_def filter_empty_conv)
  then show ?thesis using reach_inv [OF assms(1)] by (simp add: gate_inv_def)
qed

text \<open>A refusal is justified: the others at the counter alone exceed the cap's room.\<close>

lemma refused_full:
  assumes "gate_reach over n g" "t < n" "gvisitors g ! t = Outside" "over (gcount g + 1)"
    and tight: "\<And>v. v \<le> int limit \<Longrightarrow> \<not> over v"
  shows "limit \<le> length (filter present (gvisitors g))"
proof -
  have "\<not> gcount g + 1 \<le> int limit" using tight assms(4) by blast
  then show ?thesis using reach_inv [OF assms(1)] by (simp add: gate_inv_def)
qed

end

interpretation all_connections: admission "over_total limit" limit for limit
  by unfold_locales (simp add: over_total_def)

interpretation listener_connections: admission "over_listener (Suc lim)" "Suc lim" for lim
  by unfold_locales (auto simp: over_listener_def)

interpretation handshakes: admission "over_source (Suc limit)" "Suc limit" for limit
  by unfold_locales (auto simp: over_source_def)


subsection \<open>Log lines of a flood\<close>

text \<open>
  \<open>rateLimitedLog\<close>: at most one line a second; a line says how many were left out since the last
  one. Whether the compare-and-swap is won is an argument.
\<close>

record rateLimitedLog =
  llast :: int
  lsuppressed :: int

definition rateLimited_logf :: "int \<Rightarrow> bool \<Rightarrow> rateLimitedLog \<Rightarrow> int option \<times> rateLimitedLog" where
  "rateLimited_logf now won r =
     (if now - llast r < 1000000000 \<or> \<not> won then (None, r\<lparr>lsuppressed := lsuppressed r + 1\<rparr>)
      else (Some (lsuppressed r), r\<lparr>llast := now, lsuppressed := 0\<rparr>))"

fun log_run :: "(int \<times> bool) list \<Rightarrow> rateLimitedLog \<Rightarrow> int list \<times> rateLimitedLog" where
  "log_run [] r = ([], r)"
| "log_run ((now, won) # cs) r =
     (case rateLimited_logf now won r of
        (None, r') \<Rightarrow> log_run cs r'
      | (Some n, r') \<Rightarrow> (case log_run cs r' of (ns, r'') \<Rightarrow> (n # ns, r'')))"

text \<open>Every call is accounted for: written, reported as left out, or still to be reported.\<close>

lemma log_accounts:
  "int (length cs) + lsuppressed r =
     int (length (fst (log_run cs r))) + sum_list (fst (log_run cs r)) + lsuppressed (snd (log_run cs r))"
proof (induction cs arbitrary: r)
  case (Cons c cs)
  obtain now won where c: "c = (now, won)" by (cases c)
  show ?case
    using Cons.IH [of "r\<lparr>lsuppressed := lsuppressed r + 1\<rparr>"]
      Cons.IH [of "r\<lparr>llast := now, lsuppressed := 0\<rparr>"]
    by (cases "now - llast r < 1000000000 \<or> \<not> won")
      (auto simp: c rateLimited_logf_def split_beta)
qed simp

subsection \<open>Properties\<close>

text \<open>
  C19. However the goroutines of any number of connections interleave at a counter, the
  connections being served never exceed max_connections, those of one source still sending their
  ClientHello never exceed max_handshakes_per_ip, a connection is refused only when that many
  others are at the counter, and a counter nobody is at is zero again.
\<close>

theorem admission_capped:
  assumes "gate_reach (over_total m) n g" "gate_reach (over_source (Suc k)) n h"
  shows "inside g \<le> m \<and> inside h \<le> Suc k
    \<and> (over_total m (gcount g + 1) \<longrightarrow> m \<le> length (filter present (gvisitors g)))
    \<and> (over_source (Suc k) (gcount h + 1) \<longrightarrow> Suc k \<le> length (filter present (gvisitors h)))
    \<and> (list_all (\<lambda>v. v = Outside) (gvisitors g) \<longrightarrow> gcount g = 0)
    \<and> (list_all (\<lambda>v. v = Outside) (gvisitors h) \<longrightarrow> gcount h = 0)"
  using all_connections.inside_cap [OF assms(1)] handshakes.inside_cap [OF assms(2)]
    all_connections.reach_inv [OF assms(1)] handshakes.reach_inv [OF assms(2)]
    all_connections.nobody_counted [OF assms(1)] handshakes.nobody_counted [OF assms(2)]
  by (auto simp: gate_inv_def over_total_def over_source_def list_all_iff)

theorem admission_capped_witness:
  "inside (gate_step (over_total 1) 1 (gate_step (over_total 1) 1 (gate_step (over_total 1) 0
     (gate_step (over_total 1) 0 \<lparr>gcount = 0, gvisitors = replicate 2 Outside\<rparr>)))) \<le> 1"
proof -
  have "gate_reach (over_total 1) 2 (gate_step (over_total 1) 1 (gate_step (over_total 1) 1
      (gate_step (over_total 1) 0 (gate_step (over_total 1) 0 \<lparr>gcount = 0, gvisitors = replicate 2 Outside\<rparr>))))"
    by (intro gate_reach.intros) simp_all
  from admission_capped [OF this gate_reach.shut [of "over_source (Suc 3)" 2]] show ?thesis by blast
qed

end
