(* ===== verification/Conn_Table.thy ===== *)
theory Conn_Table
  imports Prelude
begin

text \<open>
  The registry of open connections (lockfree.go, \<open>connTable\<close>). A connection is its ID; slots are
  numbered across the segments, which are appended and never move, so the table is the list of
  its slots. A goroutine is at one point of \<open>add\<close> or \<open>remove\<close>, and one step is one access to the
  shared table (a load directly followed by its compare-and-swap is one step: the swap fails
  exactly when the loaded value has changed, and then the loop starts again).
\<close>

definition connSegmentSize :: nat where
  "connSegmentSize = 1024"

datatype adder =
    Gone                     \<comment> \<open>no connection\<close>
  | Adding nat               \<comment> \<open>about to load the directory\<close>
  | Directory nat nat        \<comment> \<open>directory of n slots loaded, about to load count\<close>
  | Growing nat nat          \<comment> \<open>about to append a segment to a directory of n slots\<close>
  | Probing nat nat nat      \<comment> \<open>n slots, the next probe is the i-th\<close>
  | Claimed nat nat          \<comment> \<open>slot claimed, not yet counted\<close>
  | Registered nat nat       \<comment> \<open>\<open>add\<close> returned this slot\<close>
  | Removing                 \<comment> \<open>slot cleared, not yet uncounted\<close>

record connTable =
  tslots :: "nat option list"
  tcount :: int
  tadders :: "adder list"

abbreviation at_point :: "nat \<Rightarrow> adder \<Rightarrow> connTable \<Rightarrow> connTable" where
  "at_point t pc s \<equiv> s\<lparr>tadders := (tadders s)[t := pc]\<rparr>"

definition empty_table :: "nat \<Rightarrow> connTable" where
  "empty_table n = \<lparr>tslots = [], tcount = 0, tadders = replicate n Gone\<rparr>"

definition table_step :: "nat \<Rightarrow> connTable \<Rightarrow> connTable" where
  "table_step t s =
     (case tadders s ! t of
        Gone \<Rightarrow> s
      | Adding c \<Rightarrow> at_point t (Directory c (length (tslots s))) s
      | Directory c n \<Rightarrow>
          if n = 0 \<or> tcount s + 1 > int n div 2 then at_point t (Growing c n) s
          else at_point t (Probing c n 0) s
      | Growing c n \<Rightarrow>
          at_point t (Adding c)
            (if n < length (tslots s) then s
             else s\<lparr>tslots := tslots s @ replicate connSegmentSize None\<rparr>)
      | Probing c n i \<Rightarrow>
          if n \<le> i then at_point t (Growing c n) s
          else let j = (c mod n + i) mod n in
            if tslots s ! j = None
            then at_point t (Claimed c j) (s\<lparr>tslots := (tslots s)[j := Some c]\<rparr>)
            else at_point t (Probing c n (i + 1)) s
      | Claimed c j \<Rightarrow> at_point t (Registered c j) (s\<lparr>tcount := tcount s + 1\<rparr>)
      | Registered c j \<Rightarrow> at_point t Removing (s\<lparr>tslots := (tslots s)[j := None]\<rparr>)
      | Removing \<Rightarrow> at_point t Gone (s\<lparr>tcount := tcount s - 1\<rparr>))"

fun conn_of :: "adder \<Rightarrow> nat option" where
  "conn_of Gone = None"
| "conn_of (Adding c) = Some c"
| "conn_of (Directory c _) = Some c"
| "conn_of (Growing c _) = Some c"
| "conn_of (Probing c _ _) = Some c"
| "conn_of (Claimed c _) = Some c"
| "conn_of (Registered c _) = Some c"
| "conn_of Removing = None"

fun slot_of :: "adder \<Rightarrow> (nat \<times> nat) option" where
  "slot_of (Claimed c j) = Some (c, j)"
| "slot_of (Registered c j) = Some (c, j)"
| "slot_of _ = None"

text \<open>A new connection has an ID no open one has (\<open>Server.nextID\<close> only grows).\<close>

inductive table_reach :: "nat \<Rightarrow> connTable \<Rightarrow> bool" for n where
  none_yet: "table_reach n (empty_table n)"
| arrive: "table_reach n s \<Longrightarrow> t < n \<Longrightarrow> tadders s ! t = Gone
    \<Longrightarrow> Some c \<notin> conn_of ` set (tadders s) \<Longrightarrow> table_reach n (at_point t (Adding c) s)"
| onward: "table_reach n s \<Longrightarrow> t < n \<Longrightarrow> table_reach n (table_step t s)"

definition conn_Len :: "connTable \<Rightarrow> int" where
  "conn_Len s = tcount s"

text \<open>\<open>Range\<close> in slot order: the connections it calls \<open>f\<close> with until \<open>f\<close> says stop.\<close>

fun conn_Range :: "(nat \<Rightarrow> 's \<Rightarrow> 's \<times> bool) \<Rightarrow> nat option list \<Rightarrow> 's \<Rightarrow> 's" where
  "conn_Range f [] st = st"
| "conn_Range f (None # ss) st = conn_Range f ss st"
| "conn_Range f (Some c # ss) st = (case f c st of (st', go) \<Rightarrow> if go then conn_Range f ss st' else st')"

definition conn_Load :: "nat \<Rightarrow> connTable \<Rightarrow> nat option" where
  "conn_Load i s = conn_Range (\<lambda>c found. if c = i then (Some c, False) else (found, True)) (tslots s) None"

definition connList :: "nat \<Rightarrow> connTable \<Rightarrow> nat list \<times> bool" where
  "connList limit s =
     conn_Range (\<lambda>c (out, truncated). if 0 < limit \<and> length out = limit then ((out, True), False)
       else ((out @ [c], truncated), True)) (tslots s) ([], False)"

subsection \<open>The invariant\<close>

fun point_ok :: "nat \<Rightarrow> adder \<Rightarrow> bool" where
  "point_ok len (Directory c n) = (n \<le> len)"
| "point_ok len (Growing c n) = (n \<le> len)"
| "point_ok len (Probing c n i) = (n \<le> len \<and> 0 < n)"
| "point_ok len _ = True"

definition slots_held :: "connTable \<Rightarrow> bool" where
  "slots_held s \<longleftrightarrow>
     (\<forall>t<length (tadders s). \<forall>c j. slot_of (tadders s ! t) = Some (c, j) \<longrightarrow>
        j < length (tslots s) \<and> tslots s ! j = Some c)
     \<and> (\<forall>j<length (tslots s). \<forall>c. tslots s ! j = Some c \<longrightarrow>
        (\<exists>t<length (tadders s). slot_of (tadders s ! t) = Some (c, j)))"

definition conns_apart :: "adder list \<Rightarrow> bool" where
  "conns_apart as \<longleftrightarrow>
     (\<forall>t<length as. \<forall>u<length as. conn_of (as ! t) \<noteq> None \<longrightarrow> conn_of (as ! t) = conn_of (as ! u) \<longrightarrow> t = u)"

definition counted :: "connTable \<Rightarrow> bool" where
  "counted s \<longleftrightarrow>
     tcount s + int (length (filter (\<lambda>a. \<exists>c j. a = Claimed c j) (tadders s)))
       = int (length (filter (\<lambda>x. x \<noteq> None) (tslots s))) + int (length (filter (\<lambda>a. a = Removing) (tadders s)))"

definition table_inv :: "nat \<Rightarrow> connTable \<Rightarrow> bool" where
  "table_inv n s \<longleftrightarrow> length (tadders s) = n
     \<and> (\<forall>a\<in>set (tadders s). point_ok (length (tslots s)) a)
     \<and> slots_held s \<and> conns_apart (tadders s) \<and> counted s"

lemma slot_conn: "slot_of a = Some (c, j) \<Longrightarrow> conn_of a = Some c"
  by (cases a) auto

lemma conns_apart_update:
  assumes "conns_apart as" "t < length as"
    "conn_of pc = None \<or> conn_of pc = conn_of (as ! t) \<or> (\<forall>u<length as. conn_of (as ! u) \<noteq> conn_of pc)"
  shows "conns_apart (as[t := pc])"
  using assms unfolding conns_apart_def by (auto simp: nth_list_update) metis+


lemma counted_update:
  assumes "t < length as"
  shows "int (length (filter P (as[t := pc]))) =
    int (length (filter P as)) + (if P pc then 1 else 0) - (if P (as ! t) then 1 else 0)"
  using count_update [OF assms, of P pc] by (simp split: if_splits)

lemma point_ok_mono: "point_ok m a \<Longrightarrow> m \<le> k \<Longrightarrow> point_ok k a"
  by (cases a) auto

lemma points_update:
  assumes "\<forall>a\<in>set as. point_ok m a" "m \<le> k" "point_ok k pc"
  shows "\<forall>a\<in>set (as[t := pc]). point_ok k a"
  using assms point_ok_mono set_update_subset_insert [of as t pc] by blast

lemma slots_heldD:
  assumes "slots_held s"
  shows "t < length (tadders s) \<Longrightarrow> slot_of (tadders s ! t) = Some (c, j) \<Longrightarrow> j < length (tslots s)"
    "t < length (tadders s) \<Longrightarrow> slot_of (tadders s ! t) = Some (c, j) \<Longrightarrow> tslots s ! j = Some c"
    "j < length (tslots s) \<Longrightarrow> tslots s ! j = Some c \<Longrightarrow> \<exists>t<length (tadders s). slot_of (tadders s ! t) = Some (c, j)"
  using assms unfolding slots_held_def by blast+

lemma slots_heldI:
  assumes "\<And>t c j. t < length (tadders s) \<Longrightarrow> slot_of (tadders s ! t) = Some (c, j) \<Longrightarrow>
      j < length (tslots s) \<and> tslots s ! j = Some c"
    "\<And>c j. j < length (tslots s) \<Longrightarrow> tslots s ! j = Some c \<Longrightarrow>
      \<exists>t<length (tadders s). slot_of (tadders s ! t) = Some (c, j)"
  shows "slots_held s"
  using assms unfolding slots_held_def by blast

text \<open>Only the goroutines' slots and the table matter.\<close>

lemma slots_held_same:
  assumes "slots_held s" "tslots s' = tslots s" "map slot_of (tadders s') = map slot_of (tadders s)"
  shows "slots_held s'"
proof -
  have len: "length (tadders s') = length (tadders s)" using assms(3) by (rule map_eq_imp_length_eq)
  have eq: "slot_of (tadders s' ! t) = slot_of (tadders s ! t)" if "t < length (tadders s)" for t
    using assms(3) that len by (metis nth_map)
  show ?thesis
  proof (rule slots_heldI)
    fix t c j
    assume t: "t < length (tadders s')" "slot_of (tadders s' ! t) = Some (c, j)"
    then have "t < length (tadders s)" "slot_of (tadders s ! t) = Some (c, j)" using eq len by auto
    then show "j < length (tslots s') \<and> tslots s' ! j = Some c"
      using slots_heldD(1,2) [OF assms(1)] assms(2) by simp
  next
    fix c j
    assume "j < length (tslots s')" "tslots s' ! j = Some c"
    then obtain t where "t < length (tadders s)" "slot_of (tadders s ! t) = Some (c, j)"
      using slots_heldD(3) [OF assms(1), of j c] assms(2) by auto
    then show "\<exists>t<length (tadders s'). slot_of (tadders s' ! t) = Some (c, j)"
      using eq len by metis
  qed
qed

lemma slots_held_move:
  "slots_held s \<Longrightarrow> slot_of pc = slot_of (tadders s ! t) \<Longrightarrow> tslots s' = tslots s \<Longrightarrow>
   tadders s' = (tadders s)[t := pc] \<Longrightarrow> slots_held s'"
  by (rule slots_held_same [of s]) (simp_all add: map_update list_update_same_conv,
      metis length_map list_update_beyond list_update_id map_update not_le nth_map)

lemma inv_move:
  assumes inv: "table_inv n s" and t: "t < n" and no: "slot_of (tadders s ! t) = None" "slot_of pc = None"
    and rem: "tadders s ! t \<noteq> Removing" "pc \<noteq> Removing" and pt: "point_ok (length (tslots s)) pc"
    and conn: "conn_of pc = conn_of (tadders s ! t) \<or> (\<forall>u<n. conn_of (tadders s ! u) \<noteq> conn_of pc)"
  shows "table_inv n (at_point t pc s)"
proof -
  have len: "t < length (tadders s)" using inv t by (simp add: table_inv_def)
  have cl: "\<nexists>c j. tadders s ! t = Claimed c j" "\<nexists>c j. pc = Claimed c j" using no by auto
  have "counted (at_point t pc s)"
    using inv cl rem by (simp add: table_inv_def counted_def counted_update [OF len])
  moreover have "conns_apart ((tadders s)[t := pc])"
    by (rule conns_apart_update [OF _ len]) (use inv conn in \<open>auto simp: table_inv_def\<close>)
  ultimately show ?thesis
    using inv slots_held_move [of s pc t "at_point t pc s"] no
      points_update [of "tadders s" "length (tslots s)" "length (tslots s)" pc t] pt
    by (simp add: table_inv_def)
qed

lemma inv_grow:
  assumes "table_inv n s"
  shows "table_inv n (s\<lparr>tslots := tslots s @ replicate k None\<rparr>)"
proof -
  have held: "slots_held s" using assms by (simp add: table_inv_def)
  have "slots_held (s\<lparr>tslots := tslots s @ replicate k None\<rparr>)"
  proof (rule slots_heldI, goal_cases)
    case (1 t c j)
    then show ?case using slots_heldD(1,2) [OF held, of t c j] by (simp add: nth_append)
  next
    case (2 c j)
    then have "j < length (tslots s)" "tslots s ! j = Some c"
      by (auto simp: nth_append split: if_splits)
    then show ?case using slots_heldD(3) [OF held, of j c] by simp
  qed
  then show ?thesis using assms point_ok_mono [OF _ le_add1]
    by (auto simp: table_inv_def counted_def)
qed

lemma inv_claim:
  assumes inv: "table_inv n s" and t: "t < n" and pc: "tadders s ! t = Probing c m i"
    and j: "j < length (tslots s)" "tslots s ! j = None"
  shows "table_inv n (at_point t (Claimed c j) (s\<lparr>tslots := (tslots s)[j := Some c]\<rparr>))"
proof -
  let ?s = "at_point t (Claimed c j) (s\<lparr>tslots := (tslots s)[j := Some c]\<rparr>)"
  have len: "t < length (tadders s)" using inv t by (simp add: table_inv_def)
  have held: "slots_held s" using inv by (simp add: table_inv_def)
  have "slots_held ?s"
  proof (rule slots_heldI)
    fix u c' j'
    assume u: "u < length (tadders ?s)" "slot_of (tadders ?s ! u) = Some (c', j')"
    show "j' < length (tslots ?s) \<and> tslots ?s ! j' = Some c'"
    proof (cases "u = t")
      case True
      then show ?thesis using u j len by auto
    next
      case False
      then have "j' < length (tslots s)" "tslots s ! j' = Some c'"
        using u slots_heldD(1,2) [OF held, of u c' j'] by simp_all
      moreover from this have "j' \<noteq> j" using j by auto
      ultimately show ?thesis by simp
    qed
  next
    fix j' c'
    assume j': "j' < length (tslots ?s)" "tslots ?s ! j' = Some c'"
    show "\<exists>u<length (tadders ?s). slot_of (tadders ?s ! u) = Some (c', j')"
    proof (cases "j' = j")
      case True
      then show ?thesis using j' j len by (intro exI [of _ t]) simp
    next
      case False
      then obtain u where u: "u < length (tadders s)" "slot_of (tadders s ! u) = Some (c', j')"
        using j' slots_heldD(3) [OF held, of j' c'] by auto
      then have "u \<noteq> t" using pc by auto
      then show ?thesis using u by (intro exI [of _ u]) simp
    qed
  qed
  moreover have "conns_apart ((tadders s)[t := Claimed c j])"
    by (rule conns_apart_update [OF _ len]) (use inv pc in \<open>auto simp: table_inv_def\<close>)
  moreover have "counted ?s"
    using inv pc counted_update [OF j(1), of "\<lambda>x. x \<noteq> None" "Some c"] j
    by (simp add: table_inv_def counted_def counted_update [OF len])
  ultimately show ?thesis using inv points_update [of "tadders s" "length (tslots s)" "length (tslots s)" "Claimed c j" t]
    by (simp add: table_inv_def)
qed

lemma inv_count:
  assumes inv: "table_inv n s" and t: "t < n" and pc: "tadders s ! t = Claimed c j"
  shows "table_inv n (at_point t (Registered c j) (s\<lparr>tcount := tcount s + 1\<rparr>))"
proof -
  have len: "t < length (tadders s)" using inv t by (simp add: table_inv_def)
  have "slots_held (at_point t (Registered c j) (s\<lparr>tcount := tcount s + 1\<rparr>))"
    using inv pc slots_held_move [of s "Registered c j" t] by (simp add: table_inv_def)
  moreover have "conns_apart ((tadders s)[t := Registered c j])"
    by (rule conns_apart_update [OF _ len]) (use inv pc in \<open>auto simp: table_inv_def\<close>)
  ultimately show ?thesis
    using inv pc points_update [of "tadders s" "length (tslots s)" "length (tslots s)" "Registered c j" t]
    by (simp add: table_inv_def counted_def counted_update [OF len])
qed

lemma inv_clear:
  assumes inv: "table_inv n s" and t: "t < n" and pc: "tadders s ! t = Registered c j"
  shows "table_inv n (at_point t Removing (s\<lparr>tslots := (tslots s)[j := None]\<rparr>))"
proof -
  let ?s = "at_point t Removing (s\<lparr>tslots := (tslots s)[j := None]\<rparr>)"
  have len: "t < length (tadders s)" using inv t by (simp add: table_inv_def)
  have held: "slots_held s" using inv by (simp add: table_inv_def)
  have j: "j < length (tslots s)" "tslots s ! j = Some c"
    using slots_heldD(1,2) [OF held len] pc by simp_all
  have only: "u = t" if "u < length (tadders s)" "slot_of (tadders s ! u) = Some (c', j)" for u c'
  proof -
    have "c' = c" using slots_heldD(2) [OF held that] j by simp
    then have "conn_of (tadders s ! u) = conn_of (tadders s ! t)" using slot_conn [OF that(2)] pc by simp
    then show ?thesis
      using inv that(1) len pc unfolding table_inv_def conns_apart_def by (metis conn_of.simps(7) option.discI)
  qed
  have "slots_held ?s"
  proof (rule slots_heldI)
    fix u c' j'
    assume u: "u < length (tadders ?s)" "slot_of (tadders ?s ! u) = Some (c', j')"
    then have ut: "u \<noteq> t" using len by auto
    then have u': "u < length (tadders s)" "slot_of (tadders s ! u) = Some (c', j')" using u by simp_all
    have "j' \<noteq> j" using only u' ut by blast
    then show "j' < length (tslots ?s) \<and> tslots ?s ! j' = Some c'"
      using slots_heldD(1,2) [OF held u'] by simp
  next
    fix j' c'
    assume j': "j' < length (tslots ?s)" "tslots ?s ! j' = Some c'"
    then have "j' \<noteq> j" using j by auto
    then obtain u where u: "u < length (tadders s)" "slot_of (tadders s ! u) = Some (c', j')"
      using j' slots_heldD(3) [OF held, of j' c'] by auto
    then have "u \<noteq> t" using pc \<open>j' \<noteq> j\<close> by auto
    then show "\<exists>u<length (tadders ?s). slot_of (tadders ?s ! u) = Some (c', j')"
      using u by (intro exI [of _ u]) simp
  qed
  moreover have "conns_apart ((tadders s)[t := Removing])"
    by (rule conns_apart_update [OF _ len]) (use inv in \<open>auto simp: table_inv_def\<close>)
  moreover have "counted ?s"
    using inv pc counted_update [OF j(1), of "\<lambda>x. x \<noteq> None" None] j
    by (simp add: table_inv_def counted_def counted_update [OF len])
  ultimately show ?thesis using inv points_update [of "tadders s" "length (tslots s)" "length (tslots s)" Removing t]
    by (simp add: table_inv_def)
qed

lemma inv_uncount:
  assumes inv: "table_inv n s" and t: "t < n" and pc: "tadders s ! t = Removing"
  shows "table_inv n (at_point t Gone (s\<lparr>tcount := tcount s - 1\<rparr>))"
proof -
  have len: "t < length (tadders s)" using inv t by (simp add: table_inv_def)
  have "slots_held (at_point t Gone (s\<lparr>tcount := tcount s - 1\<rparr>))"
    using inv pc slots_held_move [of s Gone t] by (simp add: table_inv_def)
  moreover have "conns_apart ((tadders s)[t := Gone])"
    by (rule conns_apart_update [OF _ len]) (use inv in \<open>auto simp: table_inv_def\<close>)
  ultimately show ?thesis
    using inv pc points_update [of "tadders s" "length (tslots s)" "length (tslots s)" Gone t]
    by (simp add: table_inv_def counted_def counted_update [OF len])
qed


lemma table_step_inv:
  assumes inv: "table_inv n s" and t: "t < n"
  shows "table_inv n (table_step t s)"
proof -
  have len: "t < length (tadders s)" using inv t by (simp add: table_inv_def)
  have pt: "point_ok (length (tslots s)) (tadders s ! t)"
    using inv len by (simp add: table_inv_def)
  show ?thesis
  proof (cases "tadders s ! t")
    case (Growing c m)
    have grown: "table_inv n (at_point t (Adding c) (s\<lparr>tslots := tslots s @ replicate connSegmentSize None\<rparr>))"
      by (rule inv_move [OF inv_grow [OF inv] t]) (use Growing in simp_all)
    have "table_inv n (at_point t (Adding c) s)"
      by (rule inv_move [OF inv t]) (use Growing in simp_all)
    then show ?thesis using grown Growing by (simp add: table_step_def)
  next
    case (Probing c m i)
    let ?j = "(c mod m + i) mod m"
    have "?j < m" using pt Probing by simp
    moreover have "m \<le> length (tslots s)" using pt Probing by simp
    ultimately have j: "?j < length (tslots s)" by linarith
    have "table_inv n (at_point t (Growing c m) s)" "table_inv n (at_point t (Probing c m (i + 1)) s)"
      by (rule inv_move [OF inv t]; use Probing pt in simp)+
    then show ?thesis using inv_claim [OF inv t Probing j] Probing by (simp add: table_step_def Let_def)
  next
    case (Directory c m)
    have "table_inv n (at_point t (Growing c m) s)"
      by (rule inv_move [OF inv t]) (use Directory pt in simp_all)
    moreover have "table_inv n (at_point t (Probing c m 0) s)" if "m \<noteq> 0"
      by (rule inv_move [OF inv t]) (use Directory pt that in simp_all)
    ultimately show ?thesis using Directory by (simp add: table_step_def)
  next
    case (Adding c)
    have "table_inv n (at_point t (Directory c (length (tslots s))) s)"
      by (rule inv_move [OF inv t]) (use Adding in simp_all)
    then show ?thesis using Adding by (simp add: table_step_def)
  next
    case (Claimed c j)
    then show ?thesis using inv_count [OF inv t Claimed] by (simp add: table_step_def)
  next
    case (Registered c j)
    then show ?thesis using inv_clear [OF inv t Registered] by (simp add: table_step_def)
  next
    case Removing
    then show ?thesis using inv_uncount [OF inv t Removing] by (simp add: table_step_def)
  qed (use inv in \<open>simp add: table_step_def\<close>)
qed

lemma table_reach_inv: "table_reach n s \<Longrightarrow> table_inv n s"
proof (induction rule: table_reach.induct)
  case none_yet
  show ?case
    by (simp add: table_inv_def empty_table_def slots_held_def conns_apart_def counted_def)
next
  case (arrive s t c)
  have "conn_of (tadders s ! u) \<noteq> Some c" if "u < n" for u
    using arrive.hyps(4) that arrive.IH unfolding table_inv_def by (metis image_eqI nth_mem)
  then show ?case
    by (intro inv_move [OF arrive.IH arrive.hyps(2)]) (use arrive.hyps(3) in simp_all)
next
  case (onward s t)
  then show ?case using table_step_inv by blast
qed

subsection \<open>What the table holds\<close>

lemma slots_are_claims:
  assumes "table_reach n s"
  shows "Some c \<in> set (tslots s) \<longleftrightarrow> (\<exists>a\<in>set (tadders s). \<exists>j. slot_of a = Some (c, j))"
proof -
  have held: "slots_held s" using table_reach_inv [OF assms] by (simp add: table_inv_def)
  show ?thesis
  proof
    assume "Some c \<in> set (tslots s)"
    then obtain j where "j < length (tslots s)" "tslots s ! j = Some c" by (auto simp: in_set_conv_nth)
    then show "\<exists>a\<in>set (tadders s). \<exists>j. slot_of a = Some (c, j)"
      using slots_heldD(3) [OF held, of j c] nth_mem by blast
  next
    assume "\<exists>a\<in>set (tadders s). \<exists>j. slot_of a = Some (c, j)"
    then obtain t j where "t < length (tadders s)" "slot_of (tadders s ! t) = Some (c, j)"
      by (auto simp: in_set_conv_nth)
    then show "Some c \<in> set (tslots s)" using slots_heldD(1,2) [OF held] by (metis nth_mem)
  qed
qed

lemma one_slot_each:
  assumes "table_reach n s" "i < length (tslots s)" "j < length (tslots s)"
    "tslots s ! i = Some c" "tslots s ! j = Some c"
  shows "i = j"
proof -
  have inv: "table_inv n s" by (rule table_reach_inv [OF assms(1)])
  then have held: "slots_held s" by (simp add: table_inv_def)
  obtain t where t: "t < length (tadders s)" "slot_of (tadders s ! t) = Some (c, i)"
    using slots_heldD(3) [OF held assms(2,4)] by blast
  obtain u where u: "u < length (tadders s)" "slot_of (tadders s ! u) = Some (c, j)"
    using slots_heldD(3) [OF held assms(3,5)] by blast
  have "t = u" using inv t(1) u(1) slot_conn [OF t(2)] slot_conn [OF u(2)]
    unfolding table_inv_def conns_apart_def by (metis option.discI)
  then show ?thesis using t u by simp
qed

lemma conn_Range_find:
  "conn_Range (\<lambda>c found. if c = i then (Some c, False) else (found, True)) ss None =
   (if Some i \<in> set ss then Some i else None)"
proof (induction ss)
  case (Cons x ss)
  then show ?case by (cases x) auto
qed simp

lemma conn_Load_open: "conn_Load i s = (if Some i \<in> set (tslots s) then Some i else None)"
  by (simp add: conn_Load_def conn_Range_find)

lemma quiet_count:
  assumes "table_reach n s" "\<forall>a\<in>set (tadders s). a \<noteq> Removing \<and> (\<nexists>c j. a = Claimed c j)"
  shows "conn_Len s = int (length (filter (\<lambda>x. x \<noteq> None) (tslots s)))"
proof -
  have "filter (\<lambda>a. \<exists>c j. a = Claimed c j) (tadders s) = []" "filter (\<lambda>a. a = Removing) (tadders s) = []"
    using assms(2) by (auto simp: filter_empty_conv)
  then show ?thesis using table_reach_inv [OF assms(1)] by (simp add: table_inv_def counted_def conn_Len_def)
qed

subsection \<open>An add completes\<close>

text \<open>Whatever the others have done so far, a goroutine in \<open>add\<close> that runs on gets its slot.\<close>

definition completes :: "nat \<Rightarrow> nat \<Rightarrow> connTable \<Rightarrow> bool" where
  "completes t c s \<longleftrightarrow> (\<exists>k j. tadders ((table_step t ^^ k) s) ! t = Registered c j)"

lemma completes_step: "completes t c (table_step t s) \<Longrightarrow> completes t c s"
  unfolding completes_def by (metis funpow_Suc_right o_apply)

lemma completes_claimed:
  "t < length (tadders s) \<Longrightarrow> tadders s ! t = Claimed c j \<Longrightarrow> completes t c s"
  unfolding completes_def by (intro exI [of _ 1] exI [of _ j]) (simp add: table_step_def)

lemma probe_completes:
  assumes "t < length (tadders s)" "tadders s ! t = Probing c n i" "i \<le> n"
    "completes t c (at_point t (Growing c n) s)"
  shows "completes t c s"
  using assms
proof (induction "n - i" arbitrary: s i)
  case 0
  then show ?case by (intro completes_step [of t c s]) (simp add: table_step_def)
next
  case (Suc d)
  let ?j = "(c mod n + i) mod n"
  show ?case
  proof (cases "tslots s ! ?j = None")
    case True
    then have "completes t c (table_step t s)"
      using Suc.prems(1-3) Suc.hyps(2)
      by (intro completes_claimed [where j = ?j]) (simp_all add: table_step_def Let_def)
    then show ?thesis by (rule completes_step)
  next
    case False
    have "completes t c (at_point t (Probing c n (i + 1)) s)"
      by (rule Suc.hyps(1) [of "i + 1"]) (use Suc in simp_all)
    moreover have "table_step t s = at_point t (Probing c n (i + 1)) s"
      using Suc.prems(2) Suc.hyps(2) False by (auto simp: table_step_def Let_def)
    ultimately show ?thesis by (intro completes_step [of t c s]) simp
  qed
qed

lemma probe_finds:
  assumes "t < length (tadders s)" "tadders s ! t = Probing c n i" "i \<le> d" "d < n"
    "tslots s ! ((c mod n + d) mod n) = None"
  shows "completes t c s"
  using assms
proof (induction "d - i" arbitrary: s i)
  case 0
  then have "completes t c (table_step t s)"
    by (intro completes_claimed [where j = "(c mod n + i) mod n"]) (simp_all add: table_step_def Let_def)
  then show ?case by (rule completes_step)
next
  case (Suc m)
  let ?j = "(c mod n + i) mod n"
  show ?case
  proof (cases "tslots s ! ?j = None")
    case True
    then have "completes t c (table_step t s)"
      using Suc.prems Suc.hyps(2)
      by (intro completes_claimed [where j = ?j]) (simp_all add: table_step_def Let_def)
    then show ?thesis by (rule completes_step)
  next
    case False
    have "completes t c (at_point t (Probing c n (i + 1)) s)"
      by (rule Suc.hyps(1) [of "i + 1"]) (use Suc in simp_all)
    moreover have "table_step t s = at_point t (Probing c n (i + 1)) s"
      using Suc.prems(2-4) False by (auto simp: table_step_def Let_def)
    ultimately show ?thesis by (intro completes_step [of t c s]) simp
  qed
qed


text \<open>A directory with room: a free slot, and at most half of it counted.\<close>

lemma free_slot:
  assumes "length (filter (\<lambda>x. x \<noteq> None) ss) < length ss"
  shows "\<exists>j<length ss. ss ! j = None"
proof (rule ccontr)
  assume "\<not> ?thesis"
  then have "\<forall>x\<in>set ss. x \<noteq> None" by (metis in_set_conv_nth)
  then show False using assms by (simp add: filter_id_conv [THEN iffD2])
qed

lemma offset_of:
  fixes c j n :: nat
  assumes "j < n"
  shows "\<exists>d<n. (c mod n + d) mod n = j"
proof (cases "c mod n \<le> j")
  case True
  then show ?thesis using assms by (intro exI [of _ "j - c mod n"]) auto
next
  case False
  have "c mod n < n" using assms by simp
  then have "c mod n + (n + j - c mod n) = n + j" by simp
  then have "(c mod n + (n + j - c mod n)) mod n = j" using assms by simp
  then show ?thesis using False assms by (intro exI [of _ "n + j - c mod n"]) simp
qed

lemma grow_step:
  assumes "t < length (tadders s)"
  shows "table_step t (at_point t (Growing c (length (tslots s))) s) =
    at_point t (Adding c) (s\<lparr>tslots := tslots s @ replicate connSegmentSize None\<rparr>)"
  using assms by (simp add: table_step_def)

lemma add_completes:
  assumes "t < length (tadders s)" "tadders s ! t = Adding c"
  shows "completes t c s"
  using assms
proof (induction "nat (2 * (tcount s + 1)) + 2 + length (filter (\<lambda>x. x \<noteq> None) (tslots s)) - length (tslots s)"
    arbitrary: s rule: less_induct)
  case less
  let ?L = "length (tslots s)" and ?o = "length (filter (\<lambda>x. x \<noteq> None) (tslots s))"
  let ?d = "at_point t (Directory c ?L) s"
  have step: "table_step t s = ?d" using less.prems by (simp add: table_step_def)
  have grow: "completes t c (at_point t (Growing c ?L) s)"
    if "?L < nat (2 * (tcount s + 1)) + 2 + ?o"
  proof (rule completes_step)
    show "completes t c (table_step t (at_point t (Growing c ?L) s))"
      unfolding grow_step [OF less.prems(1)]
      by (rule less.hyps) (use that less.prems in \<open>auto simp: connSegmentSize_def\<close>)
  qed
  have dir: "table_step t ?d = (if ?L = 0 \<or> tcount s + 1 > int ?L div 2 then at_point t (Growing c ?L) s
      else at_point t (Probing c ?L 0) s)"
    using less.prems by (simp add: table_step_def)
  have "completes t c (table_step t ?d)"
  proof (cases "?L = 0 \<or> tcount s + 1 > int ?L div 2")
    case True
    then have "?L = 0 \<or> int ?L < 2 * (tcount s + 1)" by presburger
    then have "?L < nat (2 * (tcount s + 1)) + 2 + ?o" by auto
    then show ?thesis using grow True dir by simp
  next
    case False
    show ?thesis
    proof (cases "?o < ?L")
      case True
      then obtain j where j: "j < ?L" "tslots s ! j = None" using free_slot by blast
      then obtain d where d: "d < ?L" "(c mod ?L + d) mod ?L = j" using offset_of by blast
      have "completes t c (at_point t (Probing c ?L 0) s)"
        by (rule probe_finds [where n = ?L and i = 0 and d = d]) (use less.prems j d in simp_all)
      then show ?thesis using False dir by simp
    next
      case full: False
      have "completes t c (at_point t (Probing c ?L 0) s)"
        by (rule probe_completes [where n = ?L and i = 0]) (use less.prems grow full in simp_all)
      then show ?thesis using False dir by simp
    qed
  qed
  then show ?case using completes_step step by metis
qed

subsection \<open>Properties\<close>

text \<open>
  C20. Under every interleaving of opening and closing connections the registry holds exactly the
  open ones, each in one slot: a lookup by ID finds a connection exactly when it is registered
  (or claimed and about to be), and when no goroutine is between its slot and the count, the
  length is the number of occupied slots.
\<close>

theorem registry_exact:
  assumes "table_reach n s"
  shows "(conn_Load c s = Some c \<longleftrightarrow> list_ex (\<lambda>a. \<exists>j. a = Claimed c j \<or> a = Registered c j) (tadders s))
    \<and> distinct (filter (\<lambda>x. x \<noteq> None) (tslots s))
    \<and> (list_all (\<lambda>a. a \<noteq> Removing \<and> (\<nexists>c j. a = Claimed c j)) (tadders s) \<longrightarrow>
        conn_Len s = int (length (filter (\<lambda>x. x \<noteq> None) (tslots s))))"
proof (intro conjI)
  have "slot_of a = Some (c, j) \<longleftrightarrow> a = Claimed c j \<or> a = Registered c j" for a j
    by (cases a) auto
  then show "conn_Load c s = Some c \<longleftrightarrow> list_ex (\<lambda>a. \<exists>j. a = Claimed c j \<or> a = Registered c j) (tadders s)"
    by (auto simp: conn_Load_open slots_are_claims [OF assms] list_ex_iff)
  show "distinct (filter (\<lambda>x. x \<noteq> None) (tslots s))"
    by (rule distinct_occupied) (use one_slot_each [OF assms] in blast)
  show "list_all (\<lambda>a. a \<noteq> Removing \<and> (\<nexists>c j. a = Claimed c j)) (tadders s) \<longrightarrow>
      conn_Len s = int (length (filter (\<lambda>x. x \<noteq> None) (tslots s)))"
    using quiet_count [OF assms] by (simp add: list_all_iff)
qed

text \<open>
  C21. Registering completes: from any reachable point, however the others were interrupted, a
  goroutine that is left to run in \<open>add\<close> reaches a slot that is its own.
\<close>

theorem registering_completes:
  assumes "table_reach n s" "t < n" "tadders s ! t = Adding c"
  shows "completes t c s"
  by (rule add_completes) (use assms table_reach_inv [OF assms(1)] in \<open>auto simp: table_inv_def\<close>)


text \<open>Two connections of an empty table: the first claims its slot, the second is still adding.\<close>

lemma two_adding:
  "table_reach 2 (at_point 1 (Adding 8) (at_point 0 (Adding 7) (empty_table 2)))"
proof -
  have "table_reach 2 (at_point 0 (Adding 7) (empty_table 2))"
    by (rule table_reach.arrive [OF table_reach.none_yet]) (auto simp: empty_table_def)
  then show ?thesis
    by (rule table_reach.arrive) (auto simp: empty_table_def numeral_2_eq_2)
qed

theorem registry_exact_witness:
  "conn_Load 7 (at_point 1 (Adding 8) (at_point 0 (Adding 7) (empty_table 2))) = None"
  using registry_exact [OF two_adding, of 7] by (auto simp: empty_table_def conn_Load_open numeral_2_eq_2)

theorem registering_completes_witness:
  "completes 1 8 (at_point 1 (Adding 8) (at_point 0 (Adding 7) (empty_table 2)))"
  by (rule registering_completes [OF two_adding]) (simp_all add: empty_table_def)

end
