(* ===== verification/Host_Table.thy ===== *)
theory Host_Table
  imports Prelude
begin

text \<open>
  The per-name counters (lockfree.go, \<open>hostTable\<close>; stats.go, \<open>maxHostStats\<close>): a fixed
  open-addressing table that never deletes. A pointer to a name's counters is the index of its
  slot. The keyed hash is a parameter; a call runs undisturbed.
\<close>

definition hostTableSize :: nat where "hostTableSize = 4096"

definition maxHostStats :: nat where "maxHostStats = 2000"

definition other_name :: string where "other_name = ''(other)''"

record hostTable =
  hslots :: "string option list"
  hn :: nat

definition newHostTable :: hostTable where
  "newHostTable = \<lparr>hslots = replicate hostTableSize None, hn = 0\<rparr>"

function find_loop :: "nat \<Rightarrow> string \<Rightarrow> bool \<Rightarrow> nat \<Rightarrow> hostTable \<Rightarrow> nat option \<times> hostTable" where
  "find_loop h name add i t =
     (if i < hostTableSize then
        let p = (h + i) mod hostTableSize in
        case hslots t ! p of
          None \<Rightarrow> if add then (Some p, t\<lparr>hslots := (hslots t)[p := Some name], hn := hn t + 1\<rparr>) else (None, t)
        | Some e \<Rightarrow> if e = name then (Some p, t) else find_loop h name add (i + 1) t
      else (None, t))"
  by pat_completeness auto
termination find_loop by (relation "measure (\<lambda>(h, name, add, i, t). hostTableSize - i)") auto

declare find_loop.simps [simp del]

definition host_find :: "(string \<Rightarrow> nat) \<Rightarrow> string \<Rightarrow> bool \<Rightarrow> hostTable \<Rightarrow> nat option \<times> hostTable" where
  "host_find hash name add t = find_loop (hash name) name add 0 t"

definition host_get :: "(string \<Rightarrow> nat) \<Rightarrow> string \<Rightarrow> hostTable \<Rightarrow> nat option \<times> hostTable" where
  "host_get hash name t =
     (let known = if name \<noteq> other_name \<and> maxHostStats \<le> hn t then fst (host_find hash name False t) else None in
      case known of
        Some i \<Rightarrow> (Some i, t)
      | None \<Rightarrow>
          let name = if name \<noteq> other_name \<and> maxHostStats \<le> hn t then other_name else name in
          case host_find hash name True t of
            (Some i, t) \<Rightarrow> (Some i, t)
          | (None, t) \<Rightarrow> host_find hash other_name True t)"

fun host_Range :: "(string \<Rightarrow> nat \<Rightarrow> 's \<Rightarrow> 's \<times> bool) \<Rightarrow> nat \<Rightarrow> string option list \<Rightarrow> 's \<Rightarrow> 's" where
  "host_Range f i [] st = st"
| "host_Range f i (None # ss) st = host_Range f (i + 1) ss st"
| "host_Range f i (Some e # ss) st =
     (case f e i st of (st', go) \<Rightarrow> if go then host_Range f (i + 1) ss st' else st')"

definition host_Len :: "hostTable \<Rightarrow> nat" where
  "host_Len t = hn t"

subsection \<open>The invariant\<close>

text \<open>Each name is at the end of an occupied run of its own probe sequence, and at one place.\<close>

definition placed :: "(string \<Rightarrow> nat) \<Rightarrow> hostTable \<Rightarrow> string \<Rightarrow> nat \<Rightarrow> bool" where
  "placed hash t name d \<longleftrightarrow> d < hostTableSize
     \<and> hslots t ! ((hash name + d) mod hostTableSize) = Some name
     \<and> (\<forall>k<d. hslots t ! ((hash name + k) mod hostTableSize) \<noteq> None)"

definition host_inv :: "(string \<Rightarrow> nat) \<Rightarrow> hostTable \<Rightarrow> bool" where
  "host_inv hash t \<longleftrightarrow> length (hslots t) = hostTableSize
     \<and> hn t = length (filter (\<lambda>x. x \<noteq> None) (hslots t))
     \<and> (\<forall>name. Some name \<in> set (hslots t) \<longrightarrow> (\<exists>d. placed hash t name d))
     \<and> (\<forall>i<hostTableSize. \<forall>j<hostTableSize. hslots t ! i \<noteq> None \<longrightarrow> hslots t ! i = hslots t ! j \<longrightarrow> i = j)"

lemma size_pos [simp]: "0 < hostTableSize" "(h + d) mod hostTableSize < hostTableSize"
  by (simp_all add: hostTableSize_def)

lemma host_inv_new: "host_inv hash newHostTable"
  by (simp add: host_inv_def newHostTable_def)

lemma host_invD:
  assumes "host_inv hash t"
  shows "length (hslots t) = hostTableSize" "hn t = length (filter (\<lambda>x. x \<noteq> None) (hslots t))"
    "Some name \<in> set (hslots t) \<Longrightarrow> \<exists>d. placed hash t name d"
    "i < hostTableSize \<Longrightarrow> j < hostTableSize \<Longrightarrow> hslots t ! i = Some name \<Longrightarrow> hslots t ! j = Some name \<Longrightarrow> i = j"
  using assms by (auto simp: host_inv_def)

lemma probe_inject:
  fixes h k d n :: nat
  assumes "(h + k) mod n = (h + d) mod n" "k < n" "d < n"
  shows "k = d"
proof -
  obtain r where r: "h mod n = r" "r < n" using assms(2) by simp
  have wrap: "(h + m) mod n = (if r + m < n then r + m else r + m - n)" if "m < n" for m
  proof -
    have "(h + m) mod n = (r + m) mod n" unfolding r(1) [symmetric] by (rule mod_add_left_eq [symmetric])
    also have "\<dots> = (if r + m < n then r + m else r + m - n)"
      using r(2) that by (auto simp: mod_if)
    finally show ?thesis .
  qed
  have "(if r + k < n then r + k else r + k - n) = (if r + d < n then r + d else r + d - n)"
    using assms(1) unfolding wrap [OF assms(2)] wrap [OF assms(3)] .
  then show ?thesis using r(2) assms(2,3) by (auto split: if_splits)
qed

text \<open>A search walks the occupied part of the probe sequence.\<close>

lemma find_skip:
  assumes "\<And>k. i \<le> k \<Longrightarrow> k < d \<Longrightarrow> \<exists>e. hslots t ! ((h + k) mod hostTableSize) = Some e \<and> e \<noteq> name"
    "i \<le> d" "d \<le> hostTableSize"
  shows "find_loop h name add i t = find_loop h name add d t"
  using assms
proof (induction "d - i" arbitrary: i)
  case (Suc m)
  have "i < d" using Suc.hyps(2) by simp
  then obtain e where "hslots t ! ((h + i) mod hostTableSize) = Some e" "e \<noteq> name"
    using Suc.prems(1) [of i] by blast
  then have "find_loop h name add i t = find_loop h name add (i + 1) t"
    using Suc.prems(3) \<open>i < d\<close> by (subst find_loop.simps) (simp add: Let_def)
  also have "\<dots> = find_loop h name add d t"
    by (rule Suc.hyps(1)) (use Suc in auto)
  finally show ?case .
qed simp

lemma find_known:
  assumes inv: "host_inv hash t" and d: "placed hash t name d"
  shows "host_find hash name add t = (Some ((hash name + d) mod hostTableSize), t)"
proof -
  have "\<exists>e. hslots t ! ((hash name + k) mod hostTableSize) = Some e \<and> e \<noteq> name" if "k < d" for k
  proof -
    have "hslots t ! ((hash name + k) mod hostTableSize) \<noteq> None" using d that by (simp add: placed_def)
    then obtain e where e: "hslots t ! ((hash name + k) mod hostTableSize) = Some e" by auto
    have "e \<noteq> name"
    proof
      assume "e = name"
      then have "(hash name + k) mod hostTableSize = (hash name + d) mod hostTableSize"
        using host_invD(4) [OF inv, of _ _ name] e d by (simp add: placed_def)
      moreover have "k < hostTableSize" "d < hostTableSize" using that d by (simp_all add: placed_def)
      ultimately have "k = d" by (rule probe_inject)
      then show False using that by simp
    qed
    then show ?thesis using e by blast
  qed
  then have "host_find hash name add t = find_loop (hash name) name add d t"
    unfolding host_find_def by (intro find_skip) (use d in \<open>auto simp: placed_def\<close>)
  then show ?thesis using d by (subst (asm) find_loop.simps) (simp add: placed_def Let_def)
qed


lemma placed_in: "host_inv hash t \<Longrightarrow> placed hash t name d \<Longrightarrow> Some name \<in> set (hslots t)"
  unfolding placed_def using host_invD(1) [of hash t] by (metis nth_mem size_pos(2))

lemma free_probe:
  assumes inv: "host_inv hash t" and room: "hn t < hostTableSize"
  shows "\<exists>d<hostTableSize. hslots t ! ((h + d) mod hostTableSize) = None
    \<and> (\<forall>k<d. hslots t ! ((h + k) mod hostTableSize) \<noteq> None)"
proof -
  have "\<exists>j<length (hslots t). hslots t ! j = None"
  proof (rule ccontr)
    assume "\<not> ?thesis"
    then have "\<forall>x\<in>set (hslots t). x \<noteq> None" by (metis in_set_conv_nth)
    then have "hn t = length (hslots t)" using host_invD(2) [OF inv] by (simp add: filter_id_conv [THEN iffD2])
    then show False using room host_invD(1) [OF inv] by simp
  qed
  then obtain j where j: "j < hostTableSize" "hslots t ! j = None" using host_invD(1) [OF inv] by auto
  define e where "e = (hostTableSize + j - h mod hostTableSize) mod hostTableSize"
  have "h mod hostTableSize < hostTableSize" by simp
  then have "h mod hostTableSize + (hostTableSize + j - h mod hostTableSize) = hostTableSize + j" by linarith
  then have "(h + e) mod hostTableSize = j" unfolding e_def
    using j(1) by (metis mod_add_eq mod_add_left_eq mod_add_self1 mod_add_right_eq mod_less)
  then have e: "hslots t ! ((h + e) mod hostTableSize) = None" "e < hostTableSize"
    using j by (simp_all add: e_def)
  define d where "d = (LEAST d. hslots t ! ((h + d) mod hostTableSize) = None)"
  have "hslots t ! ((h + d) mod hostTableSize) = None" "d \<le> e"
    unfolding d_def by (rule LeastI, rule e, rule Least_le, rule e)
  moreover have "\<forall>k<d. hslots t ! ((h + k) mod hostTableSize) \<noteq> None"
    unfolding d_def using not_less_Least by blast
  ultimately show ?thesis using e(2) by (intro exI [of _ d]) auto
qed

lemma find_unknown:
  assumes inv: "host_inv hash t" and room: "hn t < hostTableSize" and new: "Some name \<notin> set (hslots t)"
  obtains p where "p < hostTableSize" "hslots t ! p = None"
    "host_find hash name False t = (None, t)"
    "host_find hash name True t = (Some p, t\<lparr>hslots := (hslots t)[p := Some name], hn := hn t + 1\<rparr>)"
    "host_inv hash (t\<lparr>hslots := (hslots t)[p := Some name], hn := hn t + 1\<rparr>)"
proof -
  obtain d where d: "d < hostTableSize" "hslots t ! ((hash name + d) mod hostTableSize) = None"
      "\<forall>k<d. hslots t ! ((hash name + k) mod hostTableSize) \<noteq> None"
    using free_probe [OF inv room, of "hash name"] by blast
  let ?p = "(hash name + d) mod hostTableSize"
  let ?t = "t\<lparr>hslots := (hslots t)[?p := Some name], hn := hn t + 1\<rparr>"
  note len = host_invD(1) [OF inv]
  have pl: "?p < length (hslots t)" by (simp add: len)
  have "\<exists>e. hslots t ! ((hash name + k) mod hostTableSize) = Some e \<and> e \<noteq> name" if "k < d" for k
    using d(3) that new len by (metis not_None_eq nth_mem size_pos(2))
  then have walk: "host_find hash name add t = find_loop (hash name) name add d t" for add
    unfolding host_find_def by (intro find_skip) (use d in auto)
  have ends: "host_find hash name add t = (if add then (Some ?p, ?t) else (None, t))" for add
    unfolding walk using d by (subst find_loop.simps) (simp add: Let_def)
  have "host_inv hash ?t"
    unfolding host_inv_def
  proof (intro conjI allI impI)
    show "length (hslots ?t) = hostTableSize" by (simp add: len)
    show "hn ?t = length (filter (\<lambda>x. x \<noteq> None) (hslots ?t))"
      using count_update [OF pl, of "\<lambda>x. x \<noteq> None" "Some name"] d(2) host_invD(2) [OF inv] by simp
  next
    fix e assume "Some e \<in> set (hslots ?t)"
    then consider "e = name" | "Some e \<in> set (hslots t)"
      using set_update_subset_insert [of "hslots t" ?p "Some name"] by auto
    then show "\<exists>k. placed hash ?t e k"
    proof cases
      case 1
      have "placed hash ?t name d" using d pl by (auto simp: placed_def nth_list_update)
      then show ?thesis using 1 by blast
    next
      case 2
      then obtain k where k: "placed hash t e k" using host_invD(3) [OF inv] by blast
      then have "placed hash ?t e k"
        using d(2) pl by (auto simp: placed_def nth_list_update)
      then show ?thesis by blast
    qed
  next
    fix i j
    assume ij: "i < hostTableSize" "j < hostTableSize" "hslots ?t ! i \<noteq> None" "hslots ?t ! i = hslots ?t ! j"
    have no: "hslots t ! k \<noteq> Some name" if "k < hostTableSize" for k
      using new that len by (metis nth_mem)
    show "i = j"
    proof (cases "i = ?p \<or> j = ?p")
      case True
      then show ?thesis using ij no [of i] no [of j] len by (auto simp: nth_list_update split: if_splits)
    next
      case False
      then have "hslots t ! i \<noteq> None" "hslots t ! i = hslots t ! j" using ij(3,4) by auto
      then show ?thesis using host_invD(4) [OF inv ij(1,2)] by auto
    qed
  qed
  then show ?thesis using that [of ?p] d(2) ends by simp
qed

definition names_kept :: "hostTable \<Rightarrow> hostTable \<Rightarrow> bool" where
  "names_kept t t' \<longleftrightarrow> (\<forall>i e. hslots t ! i = Some e \<longrightarrow> i < hostTableSize \<longrightarrow> hslots t' ! i = Some e)"

definition host_ok :: "(string \<Rightarrow> nat) \<Rightarrow> hostTable \<Rightarrow> bool" where
  "host_ok hash t \<longleftrightarrow> host_inv hash t
     \<and> (hn t \<le> maxHostStats \<or> hn t = maxHostStats + 1 \<and> Some other_name \<in> set (hslots t))"

text \<open>Finding or adding a name in a table with room.\<close>

lemma find_add:
  assumes inv: "host_inv hash t" and room: "hn t < hostTableSize"
  obtains i t' where "host_find hash name True t = (Some i, t')" "i < hostTableSize" "hslots t' ! i = Some name"
    "host_inv hash t'" "names_kept t t'"
    "hn t' = (if Some name \<in> set (hslots t) then hn t else hn t + 1)"
    "set (hslots t') \<subseteq> insert (Some name) (set (hslots t))"
proof (cases "Some name \<in> set (hslots t)")
  case True
  then obtain d where d: "placed hash t name d" using host_invD(3) [OF inv] by blast
  show ?thesis
    by (rule that [OF find_known [OF inv d]])
      (use True inv d in \<open>auto simp: names_kept_def placed_def\<close>)
next
  case False
  obtain p where p: "p < hostTableSize" "hslots t ! p = None"
      "host_find hash name True t = (Some p, t\<lparr>hslots := (hslots t)[p := Some name], hn := hn t + 1\<rparr>)"
      "host_inv hash (t\<lparr>hslots := (hslots t)[p := Some name], hn := hn t + 1\<rparr>)"
    using find_unknown [OF inv room False] by metis
  show ?thesis
    by (rule that [OF p(3,1) _ p(4)])
      (use False p(1,2) host_invD(1) [OF inv] set_update_subset_insert [of "hslots t" p "Some name"]
        in \<open>auto simp: names_kept_def nth_list_update\<close>)
qed


lemma host_ok_room: "host_ok hash t \<Longrightarrow> hn t < hostTableSize"
  by (auto simp: host_ok_def maxHostStats_def hostTableSize_def)

lemma host_get_spec:
  assumes ok: "host_ok hash t"
  obtains i t' where "host_get hash name t = (Some i, t')" "i < hostTableSize" "host_ok hash t'" "names_kept t t'"
    "hslots t' ! i = Some (if name = other_name \<or> hn t < maxHostStats \<or> Some name \<in> set (hslots t)
       then name else other_name)"
    "set (hslots t') \<subseteq> insert (hslots t' ! i) (set (hslots t))"
proof -
  have inv: "host_inv hash t" using ok by (simp add: host_ok_def)
  note room = host_ok_room [OF ok]
  define full where "full \<longleftrightarrow> name \<noteq> other_name \<and> maxHostStats \<le> hn t"
  show ?thesis
  proof (cases "full \<and> Some name \<in> set (hslots t)")
    case True
    then obtain d where d: "placed hash t name d" using host_invD(3) [OF inv] by blast
    then have get: "host_get hash name t = (Some ((hash name + d) mod hostTableSize), t)"
      using find_known [OF inv d] True by (simp add: host_get_def full_def)
    show ?thesis by (rule that [OF get]) (use ok True d in \<open>auto simp: names_kept_def placed_def\<close>)
  next
    case False
    let ?name = "if full then other_name else name"
    obtain i t' where f: "host_find hash ?name True t = (Some i, t')" "i < hostTableSize" "hslots t' ! i = Some ?name"
        "host_inv hash t'" "names_kept t t'"
        "hn t' = (if Some ?name \<in> set (hslots t) then hn t else hn t + 1)"
        "set (hslots t') \<subseteq> insert (Some ?name) (set (hslots t))"
      using find_add [OF inv room, of ?name] by metis
    have unknown: "fst (host_find hash name False t) = None" if full
      using find_unknown [OF inv room, of name] that False by (metis fst_conv)
    have get: "host_get hash name t = (Some i, t')"
      using f(1) unknown by (auto simp: host_get_def full_def Let_def)
    have "Some ?name \<in> set (hslots t')" using f(2,3) host_invD(1) [OF f(4)] by (metis nth_mem)
    then have "host_ok hash t'"
      using ok f(4,6) by (auto simp: host_ok_def full_def split: if_splits)
    moreover have "?name = (if name = other_name \<or> hn t < maxHostStats \<or> Some name \<in> set (hslots t)
        then name else other_name)"
      using False by (auto simp: full_def)
    ultimately show ?thesis using that [OF get f(2) _ f(5)] f(3,7) by simp
  qed
qed

fun host_gets :: "(string \<Rightarrow> nat) \<Rightarrow> string list \<Rightarrow> hostTable \<Rightarrow> nat option list \<times> hostTable" where
  "host_gets hash [] t = ([], t)"
| "host_gets hash (name # names) t =
     (case host_get hash name t of
        (i, t') \<Rightarrow> (case host_gets hash names t' of (ps, t'') \<Rightarrow> (i # ps, t'')))"

definition names_in :: "hostTable \<Rightarrow> string set" where
  "names_in t = {e. Some e \<in> set (hslots t)}"

lemma hn_names:
  assumes "host_inv hash t"
  shows "hn t = card (names_in t)" "finite (names_in t)"
proof -
  let ?f = "filter (\<lambda>x. x \<noteq> None) (hslots t)"
  have "distinct ?f"
    by (rule distinct_occupied) (use host_invD(1,4) [OF assms] in auto)
  then have "hn t = card (set ?f)" using host_invD(2) [OF assms] distinct_card by metis
  moreover have "set ?f = Some ` names_in t" by (auto simp: names_in_def)
  ultimately show "hn t = card (names_in t)" by (simp add: card_image)
  have "finite (Some ` names_in t)" using \<open>set ?f = Some ` names_in t\<close> by (metis List.finite_set)
  then show "finite (names_in t)" by (rule finite_imageD) simp
qed

text \<open>A pointer to counters, and whose they are.\<close>

definition points_to :: "hostTable \<Rightarrow> nat option \<Rightarrow> string \<Rightarrow> bool" where
  "points_to t p name \<longleftrightarrow> (\<exists>i<hostTableSize. p = Some i \<and> hslots t ! i = Some name)"

lemma points_kept: "points_to t p name \<Longrightarrow> names_kept t t' \<Longrightarrow> points_to t' p name"
  by (auto simp: points_to_def names_kept_def)

lemma names_kept_trans: "names_kept t t' \<Longrightarrow> names_kept t' t'' \<Longrightarrow> names_kept t t''"
  by (simp add: names_kept_def)

lemma host_gets_spec:
  assumes "host_ok hash t" "host_gets hash names t = (ps, t')"
  shows "host_ok hash t' \<and> names_kept t t'
    \<and> list_all2 (\<lambda>p name. points_to t' p name \<or> points_to t' p other_name) ps names
    \<and> (card (names_in t \<union> set names) \<le> maxHostStats \<longrightarrow> list_all2 (points_to t') ps names)"
  using assms
proof (induction names arbitrary: t ps)
  case Nil
  then show ?case by (simp add: names_kept_def)
next
  case (Cons name names)
  obtain i u where g: "host_get hash name t = (Some i, u)" "i < hostTableSize" "host_ok hash u" "names_kept t u"
      "hslots u ! i = Some (if name = other_name \<or> hn t < maxHostStats \<or> Some name \<in> set (hslots t)
         then name else other_name)"
      "set (hslots u) \<subseteq> insert (hslots u ! i) (set (hslots t))"
    using host_get_spec [OF Cons.prems(1)] by metis
  obtain qs where qs: "host_gets hash names u = (qs, t')" "ps = Some i # qs"
    using Cons.prems(2) g(1) by (auto split: prod.splits)
  note IH = Cons.IH [OF g(3) qs(1)]
  have at_i: "points_to u (Some i) name \<or> points_to u (Some i) other_name"
    using g(2,5) by (auto simp: points_to_def)
  have own: "points_to u (Some i) name" "card (names_in u \<union> set names) \<le> maxHostStats"
    if few: "card (names_in t \<union> set (name # names)) \<le> maxHostStats"
  proof -
    have inv: "host_inv hash t" using Cons.prems(1) by (simp add: host_ok_def)
    have "hn t < maxHostStats \<or> Some name \<in> set (hslots t)"
    proof (rule disjCI)
      assume "Some name \<notin> set (hslots t)"
      then have "names_in t \<subset> names_in t \<union> set (name # names)" by (auto simp: names_in_def)
      then have "card (names_in t) < card (names_in t \<union> set (name # names))"
        using hn_names(2) [OF inv] by (intro psubset_card_mono) simp_all
      then show "hn t < maxHostStats" using few hn_names(1) [OF inv] by simp
    qed
    then have hi: "hslots u ! i = Some name" using g(5) by auto
    then show "points_to u (Some i) name" using g(2) by (simp add: points_to_def)
    have "names_in u \<union> set names \<subseteq> names_in t \<union> set (name # names)"
      using g(6) hi by (auto simp: names_in_def)
    then show "card (names_in u \<union> set names) \<le> maxHostStats"
      using few hn_names(2) [OF inv] by (meson List.finite_set card_mono finite_UnI le_trans)
  qed
  show ?case
    using IH own at_i g(4) points_kept [of u "Some i" _ t'] names_kept_trans
    by (auto simp: qs(2))
qed

lemma host_ok_new: "host_ok hash newHostTable"
  unfolding host_ok_def using host_inv_new by (simp add: newHostTable_def)

lemma points_own:
  assumes "host_inv hash t" "points_to t p name" "points_to t q name'"
  shows "p = q \<longleftrightarrow> name = name'"
  using assms host_invD(4) [OF assms(1)] by (auto simp: points_to_def)

text \<open>
  The per-name counters: over any sequence of requested names every connection gets counters,
  its name's or the shared "(other)", the table never holds more than 2001 names, and as long as
  at most 2000 different names have been asked for, two connections share counters exactly when
  their names are the same.
\<close>

lemma host_counters:
  assumes "host_gets hash names newHostTable = (ps, t)"
  shows "list_all2 (\<lambda>p name. points_to t p name \<or> points_to t p other_name) ps names
    \<and> host_Len t \<le> maxHostStats + 1
    \<and> (card (set names) \<le> maxHostStats \<longrightarrow>
        (\<forall>j<length names. \<forall>k<length names. ps ! j = ps ! k \<longleftrightarrow> names ! j = names ! k))"
proof -
  note spec = host_gets_spec [OF host_ok_new assms]
  then have inv: "host_inv hash t" by (simp add: host_ok_def)
  have "names_in newHostTable = {}" by (auto simp: names_in_def newHostTable_def)
  then have own: "list_all2 (points_to t) ps names" if "card (set names) \<le> maxHostStats"
    using spec that by simp
  have "ps ! j = ps ! k \<longleftrightarrow> names ! j = names ! k"
    if "card (set names) \<le> maxHostStats" "j < length names" "k < length names" for j k
    by (rule points_own [OF inv]) (use own that list_all2_nthD2 in blast)+
  then show ?thesis using spec by (auto simp: host_ok_def host_Len_def)
qed

lemma host_counters_witness:
  "fst (host_gets length [''a'', ''b'', ''a''] newHostTable) = [Some 1, Some 2, Some 1]
   \<and> host_Len (snd (host_gets length [''a'', ''b'', ''a''] newHostTable)) \<le> 2001"
proof -
  obtain ps t where g: "host_gets length [''a'', ''b'', ''a''] newHostTable = (ps, t)" by fastforce
  have "host_Len t \<le> 2001" using host_counters [OF g] by (simp add: maxHostStats_def)
  moreover have "fst (host_gets length [''a'', ''b'', ''a''] newHostTable) = [Some 1, Some 2, Some 1]"
    by (simp add: host_get_def host_find_def find_loop.simps newHostTable_def hostTableSize_def
        maxHostStats_def other_name_def Let_def nth_list_update)
  ultimately show ?thesis using g by simp
qed

end
