(* ===== verification/Limiter.thy ===== *)
theory Limiter
  imports Go_Strings Complex_Main
begin

text \<open>
  Speed limits (limit.go): the token bucket kept as GCRA, the sizing of limited copies, and the
  syntax of rates. Times are nanoseconds. A \<open>float64\<close> is its exact rational value; the rounding
  of its operations (a relative error below 2^-52) is not modelled, the truncation to integers is.
\<close>

record limiter =
  lrate :: rat
  lburst :: rat
  lperByte :: rat
  lburstDur :: int
  ltat :: int

text \<open>\<open>int64\<close> of a float that is not negative drops its fraction.\<close>

definition trunc :: "rat \<Rightarrow> int" where
  "trunc x = (if 0 \<le> x then \<lfloor>x\<rfloor> else \<lceil>x\<rceil>)"

definition limitedChunk :: "rat \<Rightarrow> int \<Rightarrow> int" where
  "limitedChunk bytesPerSec bufferSize = max 256 (min (trunc (bytesPerSec / 20)) bufferSize)"

definition newLimiter :: "rat \<Rightarrow> int \<Rightarrow> int \<Rightarrow> limiter option" where
  "newLimiter bytesPerSec bufferSize now =
     (if bytesPerSec \<le> 0 then None
      else let burst = of_int (limitedChunk bytesPerSec bufferSize); perByte = 1000000000 / bytesPerSec in
        Some \<lparr>lrate = bytesPerSec, lburst = burst, lperByte = perByte,
              lburstDur = trunc (burst * perByte), ltat = now\<rparr>)"

definition reserve :: "int \<Rightarrow> int \<Rightarrow> limiter \<Rightarrow> int \<times> limiter" where
  "reserve now n l =
     (let cost = trunc (of_int n * lperByte l);
          old = ltat l;
          nxt = max old now + cost;
          wait = nxt - now - lburstDur l in
      (if wait > 0 then wait else 0, l\<lparr>ltat := nxt\<rparr>))"

text \<open>
  Charging every limiter there is; the caller sleeps for the longest wait, and \<open>cancelled\<close> says
  whether the relay was closed during it.
\<close>

fun charge_all :: "int \<Rightarrow> int \<Rightarrow> limiter option list \<Rightarrow> int \<Rightarrow> int \<times> limiter option list" where
  "charge_all now n [] d = (d, [])"
| "charge_all now n (None # ls) d = (case charge_all now n ls d of (d', ls') \<Rightarrow> (d', None # ls'))"
| "charge_all now n (Some l # ls) d =
     (case reserve now n l of (w, l') \<Rightarrow>
        (case charge_all now n ls (max d w) of (d', ls') \<Rightarrow> (d', Some l' # ls')))"

definition waitAll :: "int \<Rightarrow> int \<Rightarrow> bool \<Rightarrow> limiter option list \<Rightarrow> bool \<times> int \<times> limiter option list" where
  "waitAll now n cancelled ls =
     (case charge_all now n ls 0 of (d, ls') \<Rightarrow> (d \<le> 0 \<or> \<not> cancelled, d, ls'))"

subsection \<open>Rates\<close>

text \<open>
  \<open>strconv.ParseFloat\<close> of a text of digits and dots: at least one digit, at most one dot. A value
  beyond the range of \<open>float64\<close> is infinite and refused.
\<close>

definition max_float :: rat where
  "max_float = 2 ^ 1024 - 2 ^ 970"

definition parse_decimal :: "string \<Rightarrow> rat option" where
  "parse_decimal s =
     (let whole = takeWhile is_digit s; rest = dropWhile is_digit s in
      case rest of
        [] \<Rightarrow> if whole = [] then None else Some (of_nat (dec_val 0 whole))
      | c # fr \<Rightarrow>
          if c = CHR ''.'' \<and> list_all is_digit fr \<and> (whole \<noteq> [] \<or> fr \<noteq> [])
          then Some (of_nat (dec_val 0 (whole @ fr)) / 10 ^ length fr)
          else None)"

datatype rate_error = WantNumberAndUnit string | NotPositive string | UnknownUnit string string | UnderOneByte string

definition multipliers :: "string \<Rightarrow> rat option" where
  "multipliers = map_of
     [(''bit'', 1 / 8), (''bps'', 1 / 8),
      (''kbit'', 1000 / 8), (''kbps'', 1000 / 8), (''mbit'', 1000000 / 8), (''mbps'', 1000000 / 8),
      (''gbit'', 1000000000 / 8), (''gbps'', 1000000000 / 8),
      (''b'', 1), (''kb'', 1000), (''mb'', 1000000), (''gb'', 1000000000),
      (''kib'', 1024), (''mib'', 1048576), (''gib'', 1073741824)]"

text \<open>"B" means bytes and "b" bits, but only in the short forms.\<close>

definition unit_key :: "string \<Rightarrow> string" where
  "unit_key u =
     (if u = ''b'' \<or> u = ''Kb'' \<or> u = ''Mb'' \<or> u = ''Gb'' then ToLower u @ ''it'' else ToLower u)"

definition parseRate :: "string \<Rightarrow> (rate_error, rat) result" where
  "parseRate orig =
     (let s = TrimSuffix (TrimSpace orig) ''/s'';
          num = takeWhile (\<lambda>c. is_digit c \<or> c = CHR ''.'') s in
      if num = [] \<or> num = s then Inl (WantNumberAndUnit orig)
      else case parse_decimal num of
        None \<Rightarrow> Inl (NotPositive orig)
      | Some n \<Rightarrow>
          if n \<le> 0 \<or> max_float \<le> n then Inl (NotPositive orig)
          else let u = TrimSpace (drop (length num) s) in
            case multipliers (unit_key u) of
              None \<Rightarrow> Inl (UnknownUnit orig u)
            | Some m \<Rightarrow> if n * m < 1 then Inl (UnderOneByte orig) else Inr (n * m))"

definition minLimit :: "rat \<Rightarrow> rat \<Rightarrow> rat" where
  "minLimit a b = (if a = 0 \<or> b \<noteq> 0 \<and> b < a then b else a)"

subsection \<open>How fast a limited flow can be\<close>

lemma trunc_nonneg: "0 \<le> x \<Longrightarrow> trunc x = \<lfloor>x\<rfloor>"
  by (simp add: trunc_def)

lemma trunc_bound: "0 \<le> x \<Longrightarrow> x - 1 < of_int (trunc x)"
  by (simp add: trunc_nonneg) linarith

lemma limitedChunk_bounds: "256 \<le> limitedChunk r b" "limitedChunk r b \<le> max 256 b"
  by (auto simp: limitedChunk_def)

text \<open>
  A schedule: each entry is the time and the bytes of one charge, in the order the charges took
  effect. \<open>releases\<close> lists when each caller may go on.
\<close>

fun releases :: "(int \<times> int) list \<Rightarrow> limiter \<Rightarrow> int list" where
  "releases [] l = []"
| "releases ((now, n) # cs) l =
     (case reserve now n l of (w, l') \<Rightarrow> (now + w) # releases cs l')"

lemma reserve_same [simp]:
  "lrate (snd (reserve now n l)) = lrate l" "lperByte (snd (reserve now n l)) = lperByte l"
  "lburstDur (snd (reserve now n l)) = lburstDur l"
  by (simp_all add: reserve_def Let_def)

lemma reserve_tat:
  assumes "0 \<le> n" "0 \<le> lperByte l"
  shows "of_int (ltat l) + of_int n * lperByte l - 1 \<le> of_int (ltat (snd (reserve now n l)))"
proof -
  have "of_int n * lperByte l - 1 < of_int (trunc (of_int n * lperByte l))"
    by (rule trunc_bound) (use assms in simp)
  moreover have "ltat l + trunc (of_int n * lperByte l) \<le> ltat (snd (reserve now n l))"
    by (simp add: reserve_def Let_def)
  then have "(of_int (ltat l + trunc (of_int n * lperByte l)) :: rat) \<le> of_int (ltat (snd (reserve now n l)))"
    by (simp only: of_int_le_iff)
  ultimately show ?thesis by simp
qed

lemma reserve_release:
  "ltat (snd (reserve now n l)) - lburstDur l \<le> now + fst (reserve now n l)"
  by (simp add: reserve_def Let_def)

text \<open>The bytes whose callers may go on by time \<open>T\<close>.\<close>

definition released_by :: "int \<Rightarrow> (int \<times> int) list \<Rightarrow> limiter \<Rightarrow> int" where
  "released_by T cs l = sum_list (map (\<lambda>((now, n), rel). if rel \<le> T then n else 0) (zip cs (releases cs l)))"

text \<open>Everything charged up to the last release has been paid for in time, less the burst.\<close>

lemma released_bound:
  assumes "list_all (\<lambda>(now, n). 0 \<le> n) cs" "0 \<le> lperByte l"
  shows "released_by T cs l = 0 \<and> (\<forall>rel\<in>set (releases cs l). T < rel)
    \<or> of_int (released_by T cs l) * lperByte l \<le> of_int (T - ltat l + lburstDur l) + of_nat (length cs)"
  using assms
proof (induction cs l rule: releases.induct)
  case (1 l)
  then show ?case by (simp add: released_by_def)
next
  case (2 now n cs l)
  obtain w l' where r: "reserve now n l = (w, l')" by fastforce
  then have l': "l' = snd (reserve now n l)" "w = fst (reserve now n l)" by simp_all
  have n: "0 \<le> n" "0 \<le> of_int n * lperByte l" using "2.prems" by simp_all
  have tat: "of_int (ltat l) + of_int n * lperByte l - 1 \<le> (of_int (ltat l') :: rat)"
    unfolding l' by (rule reserve_tat) (use n "2.prems" in auto)
  have same: "lperByte l' = lperByte l" "lburstDur l' = lburstDur l" by (simp_all add: l')
  have head: "released_by T ((now, n) # cs) l = (if now + w \<le> T then n else 0) + released_by T cs l'"
    by (simp add: released_by_def r)
  note IH = "2.IH" [OF r [symmetric], unfolded same]
  from IH "2.prems" consider
      (none) "released_by T cs l' = 0" "\<forall>rel\<in>set (releases cs l'). T < rel"
    | (some) "of_int (released_by T cs l') * lperByte l \<le> of_int (T - ltat l' + lburstDur l) + of_nat (length cs)"
    by (auto simp del: of_int_diff of_int_add)
  then show ?case
  proof cases
    case none
    show ?thesis
    proof (cases "now + w \<le> T")
      case True
      have "ltat l' - lburstDur l \<le> now + w" unfolding l' by (rule reserve_release)
      then have "(of_int (ltat l' - lburstDur l) :: rat) \<le> of_int T" using True by (simp only: of_int_le_iff)
      then show ?thesis using tat none True by (simp add: head)
    next
      case False
      then show ?thesis using none r by (simp add: head)
    qed
  next
    case some
    then show ?thesis using tat n by (simp add: head algebra_simps)
  qed
qed

text \<open>A bucket that has been idle lets its whole burst through at once.\<close>

lemma burst_passes:
  assumes "0 \<le> lperByte l" "ltat l \<le> now" "0 \<le> n" "of_int n \<le> lburst l"
    "lburstDur l = trunc (lburst l * lperByte l)"
  shows "fst (reserve now n l) = 0"
proof -
  have "of_int n * lperByte l \<le> lburst l * lperByte l" using assms by (simp add: mult_right_mono)
  moreover have "0 \<le> lburst l" using assms(3,4) by (meson of_int_0_le_iff order_trans)
  then have "0 \<le> lburst l * lperByte l" using assms(1) by simp
  ultimately have "trunc (of_int n * lperByte l) \<le> lburstDur l"
    using assms(1,3,5) by (simp add: trunc_def floor_mono mult_nonneg_nonneg)
  then show ?thesis using assms(2) by (simp add: reserve_def Let_def)
qed

lemma newLimiter_fields:
  assumes "newLimiter r b t0 = Some l"
  shows "0 < r" "lrate l = r" "lperByte l = 1000000000 / r" "ltat l = t0"
    "lburst l = of_int (limitedChunk r b)" "lburstDur l = trunc (lburst l * lperByte l)"
    "0 \<le> lburstDur l"
proof -
  show "0 < r" "lrate l = r" "lperByte l = 1000000000 / r" "ltat l = t0"
    "lburst l = of_int (limitedChunk r b)" "lburstDur l = trunc (lburst l * lperByte l)"
    using assms by (auto simp: newLimiter_def Let_def split: if_splits)
  moreover have "(0 :: rat) \<le> of_int (limitedChunk r b)" using limitedChunk_bounds(1) [of r b] by simp
  ultimately show "0 \<le> lburstDur l" by (simp add: trunc_def)
qed



text \<open>A rate that is read is at least one byte per second.\<close>

lemma parseRate_positive: "parseRate s = Inr r \<Longrightarrow> 1 \<le> r"
  by (auto simp: parseRate_def Let_def split: if_splits option.splits)

end
