(* ===== verification/Log_Rotation.thy ===== *)
theory Log_Rotation
  imports Go_Strings
begin

text \<open>
  Size-rotated log files (rotate.go). The directory maps a generation, its number and whether it is
  compressed, to its contents; generation 0 is the live file. A removal or renaming can fail: which
  generations refuse is the argument \<open>broken\<close>. Opening and writing the live file succeed. The
  compressor runs between calls, while the guard \<open>compressing\<close> keeps rotation away; gzip is a
  parameter.
\<close>

record LogConfig =
  lStdout :: string
  lStderr :: string
  lMaxSize :: int
  lMaxKeep :: nat
  lCompressAfter :: nat

definition defaultLogConfig :: LogConfig where
  "defaultLogConfig =
     \<lparr>lStdout = [], lStderr = [], lMaxSize = 15 * 2 ^ 20, lMaxKeep = 10, lCompressAfter = 3\<rparr>"

type_synonym generation = "nat \<times> bool"

type_synonym directory = "generation \<Rightarrow> string option"

record FileLogger =
  lcfg :: LogConfig
  ldir :: directory
  lsize :: int
  lcompressing :: bool
  lrotationFailed :: bool

definition live_gen :: generation where
  "live_gen = (0, False)"

definition live_text :: "FileLogger \<Rightarrow> string" where
  "live_text l = (case ldir l live_gen of Some s \<Rightarrow> s | None \<Rightarrow> [])"

text \<open>\<open>openAppend\<close>: creates the file if there is none, and gives its size.\<close>

definition openAppend :: "directory \<Rightarrow> directory \<times> int" where
  "openAppend d =
     (case d live_gen of
        None \<Rightarrow> (d(live_gen := Some []), 0)
      | Some s \<Rightarrow> (d, int (length s)))"

definition OpenFileLogger :: "LogConfig \<Rightarrow> directory \<Rightarrow> FileLogger" where
  "OpenFileLogger cfg d =
     (case openAppend d of (d', n) \<Rightarrow>
        \<lparr>lcfg = cfg, ldir = d', lsize = n, lcompressing = False, lrotationFailed = False\<rparr>)"

definition fs_remove :: "(generation \<Rightarrow> bool) \<Rightarrow> generation \<Rightarrow> directory \<Rightarrow> directory option" where
  "fs_remove broken g d = (if broken g then None else Some (d(g := None)))"

definition fs_rename :: "(generation \<Rightarrow> bool) \<Rightarrow> generation \<Rightarrow> generation \<Rightarrow> directory \<Rightarrow> directory option" where
  "fs_rename broken g h d = (if broken g then None else Some (d(h := d g, g := None)))"

text \<open>One generation moves up, or goes: an error leaves the directory as it got.\<close>

definition shift_one :: "(generation \<Rightarrow> bool) \<Rightarrow> nat \<Rightarrow> generation \<Rightarrow> directory \<Rightarrow> directory option" where
  "shift_one broken keep g d =
     (case d g of
        None \<Rightarrow> Some d
      | Some _ \<Rightarrow>
          if keep \<le> fst g then fs_remove broken g d
          else fs_rename broken g (fst g + 1, snd g) d)"

fun shift_loop :: "(generation \<Rightarrow> bool) \<Rightarrow> nat \<Rightarrow> nat \<Rightarrow> directory \<Rightarrow> bool \<times> directory" where
  "shift_loop broken keep 0 d = (True, d)"
| "shift_loop broken keep (Suc n) d =
     (case shift_one broken keep (Suc n, False) d of
        None \<Rightarrow> (False, d)
      | Some d1 \<Rightarrow>
          (case shift_one broken keep (Suc n, True) d1 of
             None \<Rightarrow> (False, d1)
           | Some d2 \<Rightarrow> shift_loop broken keep n d2))"

text \<open>\<open>rotate\<close>: \<open>False\<close> is an error.\<close>

definition rotate_log :: "(generation \<Rightarrow> bool) \<Rightarrow> FileLogger \<Rightarrow> bool \<times> FileLogger" where
  "rotate_log broken l =
     (let keep = lMaxKeep (lcfg l) in
      case shift_loop broken keep (max keep 1) (ldir l) of
        (False, d) \<Rightarrow> (False, l\<lparr>ldir := d\<rparr>)
      | (True, d) \<Rightarrow>
          (case (if keep = 0 then fs_remove broken live_gen d else fs_rename broken live_gen (1, False) d) of
             None \<Rightarrow> (case openAppend d of (d', n) \<Rightarrow> (False, l\<lparr>ldir := d', lsize := n\<rparr>))
           | Some d' \<Rightarrow>
               (case openAppend d' of (d'', n) \<Rightarrow>
                  (True, l\<lparr>ldir := d'', lsize := n,
                           lcompressing := (if keep \<le> lCompressAfter (lcfg l) then lcompressing l else True)\<rparr>))))"

definition append_live :: "string \<Rightarrow> FileLogger \<Rightarrow> FileLogger" where
  "append_live s l =
     l\<lparr>ldir := (ldir l)(live_gen := Some (live_text l @ s)), lsize := lsize l + int (length s)\<rparr>"

definition WriteLine :: "(generation \<Rightarrow> bool) \<Rightarrow> string \<Rightarrow> FileLogger \<Rightarrow> bool \<times> FileLogger" where
  "WriteLine broken s l =
     (if lMaxSize (lcfg l) \<le> lsize l \<and> \<not> lcompressing l \<and> \<not> lrotationFailed l
      then (case rotate_log broken l of
              (False, l') \<Rightarrow> (False, l'\<lparr>lrotationFailed := True\<rparr>)
            | (True, l') \<Rightarrow> (True, append_live s l'))
      else (True, append_live s l))"

text \<open>What \<open>WriteLines\<close> hands to \<open>WriteLine\<close> next.\<close>

definition next_chunk :: "int \<Rightarrow> string \<Rightarrow> string" where
  "next_chunk room s =
     (if 0 < room \<and> room < int (length s)
      then (case IndexByte (drop (nat room - 1) s) (CHR 0x0A) of
              Some e \<Rightarrow> take (nat room - 1 + e + 1) s
            | None \<Rightarrow> s)
      else if room \<le> 0
      then (case IndexByte s (CHR 0x0A) of Some e \<Rightarrow> take (e + 1) s | None \<Rightarrow> s)
      else s)"

lemma next_chunk_progress: "s \<noteq> [] \<Longrightarrow> length (drop (length (next_chunk room s)) s) < length s"
  by (auto simp: next_chunk_def split: option.split)

function WriteLines :: "(generation \<Rightarrow> bool) \<Rightarrow> string \<Rightarrow> FileLogger \<Rightarrow> bool \<times> FileLogger" where
  "WriteLines broken s l =
     (if s = [] then (True, l)
      else let chunk = next_chunk (lMaxSize (lcfg l) - lsize l) s in
        case WriteLine broken chunk l of
          (False, l') \<Rightarrow> (False, l')
        | (True, l') \<Rightarrow> WriteLines broken (drop (length chunk) s) l')"
  by pat_completeness auto
termination WriteLines
  by (relation "measure (\<lambda>(broken, s, l). length s)") (use next_chunk_progress in auto)

declare WriteLines.simps [simp del]

text \<open>The compressor's pass, after which it lets go of the guard. \<open>gz_ok\<close> says which succeed.\<close>

fun compress_loop :: "(string \<Rightarrow> string) \<Rightarrow> (nat \<Rightarrow> bool) \<Rightarrow> nat list \<Rightarrow> directory \<Rightarrow> directory" where
  "compress_loop gzip gz_ok [] d = d"
| "compress_loop gzip gz_ok (n # ns) d =
     (case d (n, False) of
        None \<Rightarrow> compress_loop gzip gz_ok ns d
      | Some s \<Rightarrow>
          compress_loop gzip gz_ok ns
            (if gz_ok n then d((n, True) := Some (gzip s), (n, False) := None) else d))"

definition compress_done :: "(string \<Rightarrow> string) \<Rightarrow> (nat \<Rightarrow> bool) \<Rightarrow> FileLogger \<Rightarrow> FileLogger" where
  "compress_done gzip gz_ok l =
     l\<lparr>ldir := compress_loop gzip gz_ok [lCompressAfter (lcfg l) + 1..<lMaxKeep (lcfg l) + 1] (ldir l),
       lcompressing := False\<rparr>"

definition generations :: "nat \<Rightarrow> directory \<Rightarrow> generation list" where
  "generations maxN d =
     filter (\<lambda>g. d g \<noteq> None) (concat (map (\<lambda>n. [(n, False), (n, True)]) [1..<maxN + 1]))"

subsection \<open>Batches\<close>

text \<open>Writing line by line, stopping at the first error.\<close>

fun write_each :: "(generation \<Rightarrow> bool) \<Rightarrow> string list \<Rightarrow> FileLogger \<Rightarrow> bool \<times> FileLogger" where
  "write_each broken [] l = (True, l)"
| "write_each broken (s # ss) l =
     (case WriteLine broken s l of
        (False, l') \<Rightarrow> (False, l')
      | (True, l') \<Rightarrow> write_each broken ss l')"

definition is_line :: "string \<Rightarrow> bool" where
  "is_line s \<longleftrightarrow> (\<exists>t. s = t @ [CHR 0x0A] \<and> CHR 0x0A \<notin> set t)"

lemma append_live_append: "append_live t (append_live s l) = append_live (s @ t) l"
  by (simp add: append_live_def live_text_def)

lemma append_live_Nil [simp]: "ldir l live_gen \<noteq> None \<Longrightarrow> append_live [] l = l"
  by (cases l) (auto simp: append_live_def live_text_def)

lemma append_live_cfg [simp]:
  "lcfg (append_live s l) = lcfg l" "lcompressing (append_live s l) = lcompressing l"
  "lrotationFailed (append_live s l) = lrotationFailed l"
  "lsize (append_live s l) = lsize l + int (length s)"
  by (simp_all add: append_live_def)

text \<open>Lines that fit before the size is reached are one write.\<close>

lemma write_each_fits:
  assumes "ss \<noteq> [] \<longrightarrow> lsize l + int (length (concat (butlast ss))) < lMaxSize (lcfg l)"
    "ldir l live_gen \<noteq> None"
  shows "write_each broken ss l = (True, append_live (concat ss) l)"
  using assms
proof (induction ss arbitrary: l)
  case Nil
  then show ?case by simp
next
  case (Cons s ss)
  have "lsize l < lMaxSize (lcfg l)" using Cons.prems(1) by simp
  then have w: "WriteLine broken s l = (True, append_live s l)" by (simp add: WriteLine_def)
  have "write_each broken ss (append_live s l) = (True, append_live (concat ss) (append_live s l))"
    by (rule Cons.IH) (use Cons.prems in \<open>auto simp: append_live_def\<close>)
  then show ?case by (simp add: w append_live_append)
qed


text \<open>The cut after the line that reaches a size.\<close>

definition cut_line :: "nat \<Rightarrow> string \<Rightarrow> string" where
  "cut_line r s =
     (case IndexByte (drop r s) (CHR 0x0A) of Some e \<Rightarrow> take (r + e + 1) s | None \<Rightarrow> s)"

lemma next_chunk_cut:
  "0 < room \<Longrightarrow> room < int (length s) \<Longrightarrow> next_chunk room s = cut_line (nat room - 1) s"
  "room \<le> 0 \<Longrightarrow> next_chunk room s = cut_line 0 s"
  by (auto simp: next_chunk_def cut_line_def split: option.split)

lemma IndexByte_first:
  assumes "c \<notin> set t"
  shows "IndexByte (t @ c # u) c = Some (length t)"
proof -
  have "takeWhile (\<lambda>d. d \<noteq> c) (t @ c # u) = t" using assms by (induction t) auto
  then show ?thesis by (simp add: IndexByte_def)
qed

lemma cut_first:
  assumes "is_line s" "r < length s"
  shows "cut_line r (s @ u) = s"
proof -
  obtain t where t: "s = t @ [CHR 0x0A]" "CHR 0x0A \<notin> set t" using assms(1) by (auto simp: is_line_def)
  have r: "r \<le> length t" using assms(2) t by simp
  have "IndexByte (drop r t @ CHR 0x0A # u) (CHR 0x0A) = Some (length (drop r t))"
    by (rule IndexByte_first) (use t in_set_dropD in fast)
  then show ?thesis using r t by (simp add: cut_line_def)
qed

lemma cut_later:
  assumes "length s \<le> r"
  shows "cut_line r (s @ u) = s @ cut_line (r - length s) u"
  using assms by (auto simp: cut_line_def Suc_diff_le split: option.split)

lemma cut_lines:
  assumes "list_all is_line ss" "r < length (concat ss)"
  shows "\<exists>k. 0 < k \<and> k \<le> length ss \<and> cut_line r (concat ss) = concat (take k ss)
    \<and> length (concat (take (k - 1) ss)) \<le> r"
  using assms
proof (induction ss arbitrary: r)
  case (Cons s ss)
  show ?case
  proof (cases "r < length s")
    case True
    then show ?thesis using Cons.prems cut_first [of s r "concat ss"] by (intro exI [of _ 1]) simp
  next
    case False
    have "r - length s < length (concat ss)" using Cons.prems(2) False by simp
    then obtain k where k: "0 < k" "k \<le> length ss" "cut_line (r - length s) (concat ss) = concat (take k ss)"
        "length (concat (take (k - 1) ss)) \<le> r - length s"
      using Cons.IH [of "r - length s"] Cons.prems(1) by auto
    show ?thesis
      using k False cut_later [of s r "concat ss"]
      by (intro exI [of _ "Suc k"]) (cases k; simp)
  qed
qed simp

lemma write_each_append:
  "write_each broken (ss @ ts) l =
     (case write_each broken ss l of (False, l') \<Rightarrow> (False, l') | (True, l') \<Rightarrow> write_each broken ts l')"
  by (induction ss arbitrary: l) (auto split: prod.split bool.split)

lemma openAppend_live: "fst (openAppend d) live_gen \<noteq> None"
  by (simp add: openAppend_def split: option.split)

lemma WriteLine_live: "WriteLine broken s l = (True, l') \<Longrightarrow> ldir l' live_gen \<noteq> None"
  by (auto simp: WriteLine_def append_live_def split: if_splits prod.splits bool.splits)

lemma butlast_take: "0 < k \<Longrightarrow> k \<le> length ss \<Longrightarrow> butlast (take k ss) = take (k - 1) ss"
  by (simp add: butlast_take)

lemma is_line_nonempty: "is_line s \<Longrightarrow> s \<noteq> []"
  by (auto simp: is_line_def)

lemma write_lines_each:
  assumes "list_all is_line ss" "ldir l live_gen \<noteq> None"
  shows "WriteLines broken (concat ss) l = write_each broken ss l"
  using assms
proof (induction ss arbitrary: l rule: length_induct)
  case (1 ss)
  let ?room = "lMaxSize (lcfg l) - lsize l"
  show ?case
  proof (cases ss)
    case Nil
    then show ?thesis by (simp add: WriteLines.simps)
  next
    case (Cons s ts)
    have s: "is_line s" "s \<noteq> []" using "1.prems" Cons is_line_nonempty by auto
    then have ne: "concat ss \<noteq> []" using Cons by simp
    show ?thesis
    proof (cases "?room \<le> 0")
      case True
      have chunk: "next_chunk ?room (concat ss) = s"
        using cut_first [OF s(1), of 0 "concat ts"] s(2) True Cons by (simp add: next_chunk_cut)
      have "WriteLines broken (concat ts) l' = write_each broken ts l'"
        if "WriteLine broken s l = (True, l')" for l'
        using "1.IH" "1.prems" WriteLine_live [OF that] Cons by simp
      then show ?thesis
        using ne chunk Cons by (subst WriteLines.simps) (auto simp: Let_def split: prod.split bool.split)
    next
      case False
      have "\<exists>k. 0 < k \<and> k \<le> length ss \<and> next_chunk ?room (concat ss) = concat (take k ss)
          \<and> int (length (concat (take (k - 1) ss))) < ?room"
      proof (cases "?room < int (length (concat ss))")
        case True
        then have "nat ?room - 1 < length (concat ss)" using False by linarith
        from cut_lines [OF "1.prems"(1) this] obtain k where
          "0 < k" "k \<le> length ss" "cut_line (nat ?room - 1) (concat ss) = concat (take k ss)"
          "length (concat (take (k - 1) ss)) \<le> nat ?room - 1" by blast
        then show ?thesis using False True
          by (intro exI [of _ k]) (simp add: next_chunk_cut; linarith)
      next
        case big: False
        have "ss \<noteq> []" using Cons by simp
        then have "concat ss = concat (butlast ss) @ last ss"
          by (metis append_butlast_last_id concat.simps(1) concat.simps(2) concat_append self_append_conv)
        moreover have "last ss \<noteq> []"
          using "1.prems"(1) Cons is_line_nonempty by (metis last_in_set list.distinct(1) list_all_iff)
        ultimately have "length (concat (butlast ss)) < length (concat ss)" by simp
        then show ?thesis using big False Cons
          by (intro exI [of _ "length ss"]) (simp add: next_chunk_def butlast_conv_take)
      qed
      then obtain k where k: "0 < k" "k \<le> length ss" "next_chunk ?room (concat ss) = concat (take k ss)"
          "int (length (concat (take (k - 1) ss))) < ?room" by blast
      let ?l = "append_live (concat (take k ss)) l"
      have "WriteLine broken (concat (take k ss)) l = (True, ?l)"
        using False by (simp add: WriteLine_def)
      moreover have "drop (length (concat (take k ss))) (concat ss) = concat (drop k ss)"
        by (metis append_eq_conv_conj append_take_drop_id concat_append)
      ultimately have "WriteLines broken (concat ss) l = WriteLines broken (concat (drop k ss)) ?l"
        using ne k(3) by (subst WriteLines.simps) (simp only: Let_def if_False prod.case bool.case)
      also have "\<dots> = write_each broken (drop k ss) ?l"
      proof (rule "1.IH" [rule_format])
        show "length (drop k ss) < length ss" using k(1,2) by simp
        show "list_all is_line (drop k ss)" using "1.prems"(1) by (auto simp: list_all_iff dest: in_set_dropD)
        show "ldir ?l live_gen \<noteq> None" by (simp add: append_live_def)
      qed
      also have "write_each broken (take k ss) l = (True, ?l)"
        by (rule write_each_fits) (use k "1.prems"(2) in \<open>auto simp: butlast_take\<close>)
      then have "write_each broken (drop k ss) ?l = write_each broken (take k ss @ drop k ss) l"
        by (simp only: write_each_append prod.case bool.case)
      finally show ?thesis by simp
    qed
  qed
qed


subsection \<open>Generations\<close>

lemma shift_one_up:
  assumes "shift_one broken keep (n, gz) d = Some d'" "n < keep" "d (n + 1, gz) = None"
  shows "d' = d((n + 1, gz) := d (n, gz), (n, gz) := None)"
  using assms by (auto simp: shift_one_def fs_rename_def split: option.splits if_splits)

lemma shift_one_out:
  assumes "shift_one broken keep (n, gz) d = Some d'" "keep \<le> n"
  shows "d' = d((n, gz) := None)"
  using assms by (auto simp: shift_one_def fs_remove_def split: option.splits if_splits)

lemma shift_below:
  assumes "shift_loop broken keep n d = (True, d')" "n < keep" "d (n + 1, False) = None" "d (n + 1, True) = None"
  shows "d' (m, gz) = (if m = 0 \<or> n + 1 < m then d (m, gz) else if m = 1 then None else d (m - 1, gz))"
  using assms
proof (induction broken keep n d rule: shift_loop.induct)
  case (1 broken keep d)
  then show ?case by (cases gz; cases "m = 1") auto
next
  case (2 broken keep n d)
  obtain d1 d2 where d: "shift_one broken keep (Suc n, False) d = Some d1"
      "shift_one broken keep (Suc n, True) d1 = Some d2" "shift_loop broken keep n d2 = (True, d')"
    using "2.prems"(1) by (auto split: option.splits)
  have d1: "d1 = d((Suc n + 1, False) := d (Suc n, False), (Suc n, False) := None)"
    by (rule shift_one_up [OF d(1)]) (use "2.prems" in simp_all)
  have d2: "d2 = d1((Suc n + 1, True) := d1 (Suc n, True), (Suc n, True) := None)"
    by (rule shift_one_up [OF d(2)]) (use "2.prems" d1 in simp_all)
  have "d' (m, gz) = (if m = 0 \<or> n + 1 < m then d2 (m, gz) else if m = 1 then None else d2 (m - 1, gz))"
    by (rule "2.IH" [OF d]) (use "2.prems" d1 d2 in simp_all)
  then show ?case by (cases gz) (auto simp: d1 d2)
qed

lemma shift_all:
  assumes "shift_loop broken keep keep d = (True, d')" "0 < keep"
  shows "d' (m, gz) = (if m = 0 \<or> keep < m then d (m, gz) else if m = 1 then None else d (m - 1, gz))"
proof -
  obtain n where n: "keep = Suc n" using assms(2) by (cases keep) auto
  obtain d1 d2 where d: "shift_one broken keep (Suc n, False) d = Some d1"
      "shift_one broken keep (Suc n, True) d1 = Some d2" "shift_loop broken keep n d2 = (True, d')"
    using assms(1) unfolding n by (auto split: option.splits)
  have d1: "d1 = d((Suc n, False) := None)" by (rule shift_one_out [OF d(1)]) (simp add: n)
  have d2: "d2 = d1((Suc n, True) := None)" by (rule shift_one_out [OF d(2)]) (simp add: n)
  have "d' (m, gz) = (if m = 0 \<or> n + 1 < m then d2 (m, gz) else if m = 1 then None else d2 (m - 1, gz))"
    by (rule shift_below [OF d(3)]) (use n d1 d2 in simp_all)
  then show ?thesis using n by (cases gz) (auto simp: d1 d2)
qed

lemma rotate_spec:
  assumes ok: "rotate_log broken l = (True, l')" and keep: "0 < lMaxKeep (lcfg l)"
  shows "ldir l' (m, gz) =
    (if lMaxKeep (lcfg l) < m then ldir l (m, gz)
     else if m = 0 then if gz then ldir l (0, True) else Some []
     else if m = 1 then if gz then None else ldir l live_gen
     else ldir l (m - 1, gz))" "lsize l' = 0"
proof -
  have max1: "max (lMaxKeep (lcfg l)) 1 = lMaxKeep (lcfg l)" using keep by simp
  obtain d where d: "shift_loop broken (lMaxKeep (lcfg l)) (lMaxKeep (lcfg l)) (ldir l) = (True, d)"
    using ok max1 by (auto simp: rotate_log_def Let_def split: prod.splits bool.splits)
  have ren: "fs_rename broken live_gen (1, False) d = Some (d((1, False) := d live_gen, live_gen := None))"
    using ok keep d max1 by (auto simp: rotate_log_def Let_def fs_rename_def split: prod.splits option.splits if_splits)
  have new: "openAppend (d((1, False) := d live_gen, live_gen := None))
      = (d((1, False) := d live_gen, live_gen := Some []), 0)"
    by (simp add: openAppend_def)
  have l': "ldir l' = d((1, False) := d live_gen, live_gen := Some [])" "lsize l' = 0"
    using ok keep d max1 ren new by (auto simp: rotate_log_def Let_def)
  note dm = shift_all [OF d keep, of m gz] shift_all [OF d keep, of 0 False]
  show "ldir l' (m, gz) =
    (if lMaxKeep (lcfg l) < m then ldir l (m, gz)
     else if m = 0 then if gz then ldir l (0, True) else Some []
     else if m = 1 then if gz then None else ldir l live_gen
     else ldir l (m - 1, gz))"
    using dm keep by (auto simp: l' live_gen_def)
  show "lsize l' = 0" by (rule l')
qed

text \<open>What one generation says, whichever form it is kept in.\<close>

definition contents :: "(string \<Rightarrow> string) \<Rightarrow> directory \<Rightarrow> nat \<Rightarrow> string option" where
  "contents gunzip d n =
     (case d (n, False) of Some s \<Rightarrow> Some s | None \<Rightarrow> map_option gunzip (d (n, True)))"

lemma compress_one:
  "gunzip (gzip s) = s \<Longrightarrow> d (n, False) = Some s \<Longrightarrow>
   contents gunzip (d((n, True) := Some (gzip s), (n, False) := None)) m = contents gunzip d m"
  by (cases "m = n") (auto simp: contents_def split: option.split)

lemma compress_keeps:
  assumes "\<And>s. gunzip (gzip s) = s"
  shows "contents gunzip (compress_loop gzip gz_ok ns d) m = contents gunzip d m"
  by (induction ns arbitrary: d) (simp_all add: assms compress_one split: option.split)

text \<open>
  C23. A batch of lines is written, and rotates the log, exactly as writing its lines one by one
  would, whatever fails on the way.
\<close>

theorem batch_is_line_by_line:
  assumes "list_all is_line ss" "ldir l live_gen \<noteq> None"
  shows "WriteLines broken (concat ss) l = write_each broken ss l"
  by (rule write_lines_each [OF assms])

text \<open>
  C24. A rotation that succeeds loses nothing but the oldest generation: the live file becomes
  generation 1, every generation below the limit moves up by one, the live file is empty, and the
  compressor changes no generation's contents.
\<close>

theorem rotation_keeps_generations:
  assumes "rotate_log broken l = (True, l')" "0 < lMaxKeep (lcfg l)" "ldir l live_gen = Some s"
    "\<And>t. gunzip (gzip t) = t"
  shows "contents gunzip (ldir l') 1 = Some s \<and> ldir l' live_gen = Some [] \<and> lsize l' = 0
    \<and> (\<forall>n. 0 < n \<and> n < lMaxKeep (lcfg l) \<longrightarrow> contents gunzip (ldir l') (n + 1) = contents gunzip (ldir l) n)
    \<and> contents gunzip (ldir (compress_done gzip gz_ok l')) m = contents gunzip (ldir l') m"
  using rotate_spec [OF assms(1,2)] assms(2,3) compress_keeps [of gunzip gzip, OF assms(4)]
  by (auto simp: contents_def live_gen_def compress_done_def split: option.split)

text \<open>A log of one generation besides the live file, eight bytes large.\<close>

definition sample_logger :: FileLogger where
  "sample_logger = OpenFileLogger (defaultLogConfig\<lparr>lMaxSize := 8, lMaxKeep := 1\<rparr>) Map.empty"

lemma sample_live: "ldir sample_logger live_gen = Some []"
  by (simp add: sample_logger_def OpenFileLogger_def openAppend_def)

theorem batch_is_line_by_line_witness:
  "WriteLines (\<lambda>_. False) (concat [''abcde'' @ [CHR 0x0A], ''fgh'' @ [CHR 0x0A], ''i'' @ [CHR 0x0A]]) sample_logger
   = write_each (\<lambda>_. False) [''abcde'' @ [CHR 0x0A], ''fgh'' @ [CHR 0x0A], ''i'' @ [CHR 0x0A]] sample_logger"
  by (rule batch_is_line_by_line) (simp_all add: is_line_def sample_live)

theorem rotation_keeps_generations_witness:
  "contents id (ldir (snd (rotate_log (\<lambda>_. False) (append_live ''old'' sample_logger)))) 1 = Some ''old''"
proof -
  let ?l = "append_live ''old'' sample_logger"
  have live: "ldir ?l live_gen = Some ''old''"
    by (simp add: append_live_def live_text_def sample_live)
  have "fst (rotate_log (\<lambda>_. False) ?l)"
    by (simp add: rotate_log_def sample_logger_def OpenFileLogger_def openAppend_def append_live_def
        live_text_def shift_one_def live_gen_def fs_rename_def Let_def)
  then have "rotate_log (\<lambda>_. False) ?l = (True, snd (rotate_log (\<lambda>_. False) ?l))"
    by (metis prod.collapse)
  from rotation_keeps_generations [OF this _ live, of id id "\<lambda>_. True" 0] show ?thesis
    by (simp add: sample_logger_def OpenFileLogger_def openAppend_def append_live_def)
qed

end
