(* ===== verification/Linger.thy ===== *)
theory Linger
  imports Prelude
begin

text \<open>
  Lingering (linger.go): when a read in the middle of a stream comes back short, the direction
  waits once, tops its chunk up, and moves it all. What the mover and the clock answer during one
  call is gathered in \<open>top_up\<close>. Times are nanoseconds; the zero time is long before any other.
\<close>

definition lingerTime :: int where "lingerTime = 5000000"
definition lingerGap :: int where "lingerGap = 5000000"
definition hintRecheck :: int where "hintRecheck = 100000000"

record batcher =
  b_off :: bool
  b_lingering :: bool
  b_measure :: bool
  b_full :: nat
  b_lastRead :: int
  b_checked :: int

definition zeroTime :: int where "zeroTime = - (10 ^ 19)"

definition new_batcher :: "bool \<Rightarrow> batcher" where
  "new_batcher low_latency =
     \<lparr>b_off = low_latency, b_lingering = False, b_measure = False, b_full = 0,
      b_lastRead = zeroTime, b_checked = zeroTime\<rparr>"

text \<open>
  The mover's chunk size, how many bytes its socket holds (if it can tell), what a top-up adds and
  the error it ends with, and the time when it is over.
\<close>

record 'e top_up =
  m_chunk :: nat
  m_waiting :: "nat option"
  m_more :: "8 word list"
  m_err :: "'e option"
  m_after :: int

datatype action = MoveNow | TopUp

definition recheck :: "int \<Rightarrow> 'e top_up \<Rightarrow> batcher \<Rightarrow> batcher" where
  "recheck now m b =
     (if hintRecheck \<le> now - b_checked b
      then b\<lparr>b_checked := now, b_lingering := True, b_full := m_chunk m, b_measure := True\<rparr> else b)"

definition batch :: "int \<Rightarrow> 'e top_up \<Rightarrow> nat \<Rightarrow> batcher \<Rightarrow> (action \<times> nat \<times> 'e option) \<times> batcher" where
  "batch now m n b =
     (if b_off b then ((MoveNow, n, None), b)
      else let b = recheck now m b in
        if \<not> b_lingering b \<or> b_full b \<le> n \<or> lingerGap \<le> now - b_lastRead b
        then ((MoveNow, n, None), b\<lparr>b_full := max (b_full b) n, b_lastRead := now\<rparr>)
        else
          let waiting = if b_measure b then m_waiting m else None;
              b = b\<lparr>b_measure := False\<rparr>;
              room = m_chunk m - n;
              more = length (m_more m);
              b = (if more = room then b\<lparr>b_full := n\<rparr>
                   else if (case waiting of Some w \<Rightarrow> more < min w room | None \<Rightarrow> False)
                   then b\<lparr>b_full := n + more\<rparr>
                   else let b = (if more = 0 \<and> m_err m = None then b\<lparr>b_lingering := False\<rparr> else b) in
                     b\<lparr>b_full := max (b_full b) (n + more)\<rparr>)
          in ((TopUp, n + more, m_err m), b\<lparr>b_lastRead := m_after m\<rparr>))"

text \<open>With low latency nothing ever waits; a chunk is never overfilled.\<close>

lemma batch_off: "b_off b \<Longrightarrow> batch now m n b = ((MoveNow, n, None), b)"
  by (simp add: batch_def)

lemma batch_held:
  assumes "batch now m n b = ((a, k, err), b')"
  shows "k = n + (if a = TopUp then length (m_more m) else 0)" "a = MoveNow \<Longrightarrow> err = None"
    "a = TopUp \<Longrightarrow> err = m_err m"
  using assms by (auto simp: batch_def Let_def split: if_splits)

lemma batch_full_reads:
  assumes "batch now m n b = ((a, k, err), b')" "n \<le> m_chunk m" "length (m_more m) \<le> m_chunk m - n"
  shows "k \<le> m_chunk m"
  using batch_held(1) [OF assms(1)] assms(2,3) by (auto split: if_splits)

text \<open>A full chunk is moved at once: lingering is for short reads.\<close>

lemma full_moves:
  assumes "b_full b \<le> m_chunk m" "m_chunk m \<le> n"
  shows "fst (fst (batch now m n b)) = MoveNow"
  using assms by (auto simp: batch_def recheck_def Let_def)

text \<open>
  A top-up that brought nothing ends lingering until the recheck: no later read before it waits.
\<close>

lemma linger_out:
  assumes "batch now m n b = ((TopUp, k, None), b')" "m_more m = []" "n < m_chunk m"
    "\<And>w. m_waiting m = Some w \<Longrightarrow> b_measure (recheck now m b) \<Longrightarrow> w = 0"
  shows "\<not> b_lingering b'"
  using assms by (auto simp: batch_def Let_def split: if_splits option.splits)

lemma not_lingering_moves:
  assumes "\<not> b_lingering b" "now - b_checked b < hintRecheck"
  shows "fst (fst (batch now m n b)) = MoveNow \<and> b_lingering (snd (batch now m n b)) = b_lingering b
    \<and> b_checked (snd (batch now m n b)) = b_checked b"
  using assms by (auto simp: batch_def recheck_def Let_def)

end
