(* ===== verification/Relay.thy ===== *)
theory Relay
  imports Linger "HOL-Library.Sublist"
begin

text \<open>
  The relay of one connection (proxy.go, \<open>relay\<close>): two pumps, one per direction, that move chunks,
  and the ways the connection ends. One step is one turn of a pump's loop, the locked section of
  \<open>endDirection\<close>, the deferred half-close, the half-close timer, or a stop from outside; the two
  pumps interleave. What the sockets, the clock and the speed limits answer during a turn is its
  input. \<open>y_taken\<close> is the history of what a pump has read.
\<close>

datatype direction = CToS | SToC

fun opposite :: "direction \<Rightarrow> direction" where
  "opposite CToS = SToC"
| "opposite SToC = CToS"

fun dirName :: "direction \<Rightarrow> string" where
  "dirName CToS = ''client->upstream''"
| "dirName SToC = ''upstream->client''"

fun closedLabel :: "direction \<Rightarrow> string" where
  "closedLabel CToS = ''client closed''"
| "closedLabel SToC = ''upstream closed''"

fun stoppedReading :: "direction \<Rightarrow> string" where
  "stoppedReading CToS = ''upstream stopped reading''"
| "stoppedReading SToC = ''client stopped reading''"

datatype read_error = RdEOF | RdNoSplice | RdTimeout | RdUnexpectedEOF | RdOther string

datatype write_error = WrTimeout | WrOther | ErrShortWrite

text \<open>Where a pump is: in its loop, ended with its state stored, past the lock, or returned.\<close>

datatype phase = Pumping | Stored string bool | Deferred bool | Returned

record relay =
  y_closed :: bool
  y_reason :: string
  y_first :: string
  y_timer :: bool
  y_done :: bool
  y_half :: "direction \<Rightarrow> bool"
  y_phase :: "direction \<Rightarrow> phase"
  y_batcher :: "direction \<Rightarrow> batcher"
  y_spliced :: "direction \<Rightarrow> bool"
  y_taken :: "direction \<Rightarrow> 8 word list"
  y_sent :: "direction \<Rightarrow> 8 word list"
  y_bytes :: "direction \<Rightarrow> nat"
  y_fin :: "direction \<Rightarrow> bool"

definition new_relay :: "bool \<Rightarrow> bool \<Rightarrow> relay" where
  "new_relay low_latency use_splice =
     \<lparr>y_closed = False, y_reason = [], y_first = [], y_timer = False, y_done = False,
      y_half = (\<lambda>_. False), y_phase = (\<lambda>_. Pumping), y_batcher = (\<lambda>_. new_batcher low_latency),
      y_spliced = (\<lambda>_. use_splice), y_taken = (\<lambda>_. []), y_sent = (\<lambda>_. []), y_bytes = (\<lambda>_. 0),
      y_fin = (\<lambda>_. False)\<rparr>"

definition goto_phase :: "direction \<Rightarrow> phase \<Rightarrow> relay \<Rightarrow> relay" where
  "goto_phase d p s = s\<lparr>y_phase := (y_phase s)(d := p)\<rparr>"

text \<open>\<open>closeAll\<close>: the first reason wins.\<close>

definition closeAll :: "string \<Rightarrow> relay \<Rightarrow> relay" where
  "closeAll reason s =
     (if y_closed s then s else s\<lparr>y_closed := True, y_reason := reason\<rparr>)\<lparr>y_done := True\<rparr>"

definition idleReason :: "string \<Rightarrow> relay \<Rightarrow> string" where
  "idleReason idle s =
     (if y_first s = [] then [] else y_first s @ '', then '') @ ''idle timeout ('' @ idle @ ''); closed by proxy''"

text \<open>The first part of \<open>endDirection\<close>: the direction's state, before the lock.\<close>

definition begin_end :: "direction \<Rightarrow> string \<Rightarrow> bool \<Rightarrow> relay \<Rightarrow> relay" where
  "begin_end d how forward s = goto_phase d (Stored how forward) (s\<lparr>y_half := (y_half s)(d := True)\<rparr>)"

text \<open>What one turn of a pump is told.\<close>

record turn =
  t_now :: int
  t_read :: "8 word list"
  t_err :: "read_error option"
  t_top :: "read_error top_up"
  t_cancelled :: bool     \<comment> \<open>a limit's wait was cut short by closeAll\<close>
  t_written :: nat
  t_werr :: "write_error option"
  t_active :: bool        \<comment> \<open>the other direction moved data within the idle time\<close>
  t_idle :: string

definition held :: "direction \<Rightarrow> turn \<Rightarrow> relay \<Rightarrow> (8 word list \<times> read_error option) \<times> batcher" where
  "held d t s =
     (if t_read t \<noteq> [] \<and> t_err t = None
      then (case batch (t_now t) (t_top t) (length (t_read t)) (y_batcher s d) of
              ((a, n, err), b) \<Rightarrow>
                ((t_read t @ (if a = TopUp then m_more (t_top t) else []), err), b))
      else ((t_read t, t_err t), y_batcher s d))"

text \<open>The end of a turn whose chunk, if any, was delivered.\<close>

definition after_write :: "direction \<Rightarrow> turn \<Rightarrow> read_error option \<Rightarrow> relay \<Rightarrow> relay" where
  "after_write d t err s =
     (case err of
        None \<Rightarrow> s
      | Some RdEOF \<Rightarrow> begin_end d (closedLabel d) True s
      | Some e \<Rightarrow>
          if y_closed s then goto_phase d Returned s
          else (case e of
                  RdTimeout \<Rightarrow>
                    if t_active t then s
                    else goto_phase d Returned (closeAll (idleReason (t_idle t) s) s)
                | RdUnexpectedEOF \<Rightarrow>
                    goto_phase d Returned
                      (closeAll (closedLabel d @ '' in the middle of a TLS record, without close_notify; closed by proxy'') s)
                | RdOther x \<Rightarrow> goto_phase d Returned (closeAll (dirName d @ '' error: '' @ x) s)
                | _ \<Rightarrow> goto_phase d Returned (closeAll (dirName d @ '' error'') s)))"

definition pump_turn :: "direction \<Rightarrow> turn \<Rightarrow> relay \<Rightarrow> relay" where
  "pump_turn d t s =
     (if t_err t = Some RdNoSplice then s\<lparr>y_spliced := (y_spliced s)(d := False)\<rparr>
      else case held d t s of
        ((data, err), b) \<Rightarrow>
          let s = s\<lparr>y_batcher := (y_batcher s)(d := b), y_taken := (y_taken s)(d := y_taken s d @ data)\<rparr> in
          if data = [] then after_write d t err s
          else if t_cancelled t then goto_phase d Returned s
          else
            let written = t_written t;
                s = s\<lparr>y_sent := (y_sent s)(d := y_sent s d @ take written data),
                      y_bytes := (y_bytes s)(d := y_bytes s d + written)\<rparr>;
                werr = (if t_werr t = None \<and> written \<noteq> length data then Some ErrShortWrite else t_werr t)
            in case werr of
                 Some WrTimeout \<Rightarrow> goto_phase d Returned (closeAll (dirName d @ '' error: write timed out'') s)
               | Some _ \<Rightarrow> begin_end d (stoppedReading d) False s
               | None \<Rightarrow> after_write d t err s)"

text \<open>The locked part of \<open>endDirection\<close>; \<open>later\<close> is the text of the time since the first end.\<close>

definition end_locked :: "direction \<Rightarrow> string \<Rightarrow> bool \<Rightarrow> string \<Rightarrow> bool \<Rightarrow> relay \<Rightarrow> relay" where
  "end_locked d how forward later half_close_timeout s =
     goto_phase d (Deferred forward)
       (if y_closed s then s
        else if y_half s (opposite d)
        then s\<lparr>y_closed := True,
               y_reason := (if y_first s \<noteq> [] then y_first s @ '', then '' @ how @ '' '' @ later @ '' later''
                            else how @ '', both directions ended'')\<rparr>
        else s\<lparr>y_first := how, y_timer := half_close_timeout\<rparr>)"

definition close_write :: "direction \<Rightarrow> bool \<Rightarrow> relay \<Rightarrow> relay" where
  "close_write d forward s =
     goto_phase d Returned (if forward then s\<lparr>y_fin := (y_fin s)(d := True)\<rparr> else s)"

text \<open>A turn the sockets can give: no more is written than is held, the limits' wait is cut short
  only once \<open>done\<close> is closed, and only a spliced direction can find that splicing is refused.\<close>

definition possible :: "direction \<Rightarrow> turn \<Rightarrow> relay \<Rightarrow> bool" where
  "possible d t s \<longleftrightarrow> t_written t \<le> length (fst (fst (held d t s)))
     \<and> (t_cancelled t \<longrightarrow> y_done s) \<and> (t_err t = Some RdNoSplice \<longrightarrow> y_spliced s d)
     \<and> m_err (t_top t) \<noteq> Some RdNoSplice"

inductive relay_step :: "relay \<Rightarrow> relay \<Rightarrow> bool" where
  turn: "y_phase s d = Pumping \<Longrightarrow> possible d t s \<Longrightarrow> relay_step s (pump_turn d t s)"
| locked: "y_phase s d = Stored how forward \<Longrightarrow>
    relay_step s (end_locked d how forward later half_close_timeout s)"
| deferred: "y_phase s d = Deferred forward \<Longrightarrow> relay_step s (close_write d forward s)"
| timer: "y_timer s \<Longrightarrow> reason \<noteq> [] \<Longrightarrow> relay_step s (closeAll reason s)"
| kill: "reason \<noteq> [] \<Longrightarrow> relay_step s (closeAll reason s)"

inductive relay_reach :: "relay \<Rightarrow> bool" where
  starts: "relay_reach (new_relay low_latency use_splice)"
| goes_on: "relay_reach s \<Longrightarrow> relay_step s s' \<Longrightarrow> relay_reach s'"

inductive_cases relay_stepE: "relay_step s s'"

definition ended :: "phase \<Rightarrow> bool" where
  "ended p = (case p of Pumping \<Rightarrow> False | Stored _ _ \<Rightarrow> False | _ \<Rightarrow> True)"

fun forwards :: "phase \<Rightarrow> bool" where
  "forwards (Stored _ f) = f"
| "forwards (Deferred f) = f"
| "forwards _ = False"

definition dir_ok :: "relay \<Rightarrow> direction \<Rightarrow> bool" where
  "dir_ok s d \<longleftrightarrow> prefix (y_sent s d) (y_taken s d) \<and> y_bytes s d = length (y_sent s d)
     \<and> (y_phase s d = Pumping \<or> forwards (y_phase s d) \<or> y_fin s d \<longrightarrow> y_sent s d = y_taken s d)
     \<and> (case y_phase s d of Pumping \<Rightarrow> \<not> y_fin s d
          | Stored how _ \<Rightarrow> y_half s d \<and> how \<noteq> [] \<and> \<not> y_fin s d
          | Deferred _ \<Rightarrow> y_half s d \<and> \<not> y_fin s d
          | Returned \<Rightarrow> y_closed s \<or> y_half s d)"

definition relay_ok :: "relay \<Rightarrow> bool" where
  "relay_ok s \<longleftrightarrow> (\<forall>d. dir_ok s d) \<and> (y_closed s \<longleftrightarrow> y_reason s \<noteq> []) \<and> (y_done s \<longrightarrow> y_closed s)
     \<and> (ended (y_phase s CToS) \<and> ended (y_phase s SToC) \<longrightarrow> y_closed s)"


lemma direction_cases: "(\<forall>d. P d) \<longleftrightarrow> P CToS \<and> P SToC"
  by (metis direction.exhaust)

lemma other_direction: "d' \<noteq> d \<longleftrightarrow> d' = opposite d"
  by (cases d; cases d') auto

lemma both_ended: "ended (y_phase s CToS) \<and> ended (y_phase s SToC) \<longleftrightarrow> ended (y_phase s d) \<and> ended (y_phase s (opposite d))"
  by (cases d) auto

lemma relay_okI:
  assumes "dir_ok s d" "dir_ok s (opposite d)" "y_closed s \<longleftrightarrow> y_reason s \<noteq> []" "y_done s \<longrightarrow> y_closed s"
    "ended (y_phase s d) \<and> ended (y_phase s (opposite d)) \<longrightarrow> y_closed s"
  shows "relay_ok s"
  unfolding relay_ok_def both_ended [of s d] using assms other_direction by metis

lemma relay_okD:
  assumes "relay_ok s"
  shows "dir_ok s d" "y_closed s \<longleftrightarrow> y_reason s \<noteq> []" "y_done s \<Longrightarrow> y_closed s"
    "ended (y_phase s d) \<Longrightarrow> ended (y_phase s (opposite d)) \<Longrightarrow> y_closed s"
  using assms both_ended [of s d] by (auto simp: relay_ok_def)

lemma opposite_ne [simp]: "opposite d \<noteq> d" "d \<noteq> opposite d"
  by (cases d; simp)+

lemma ended_simps [simp]: "\<not> ended Pumping" "\<not> ended (Stored how f)" "ended (Deferred f)" "ended Returned"
  by (simp_all add: ended_def)

lemma closeAll_simps [simp]:
  "y_closed (closeAll r s)" "y_done (closeAll r s)" "y_half (closeAll r s) = y_half s"
  "y_phase (closeAll r s) = y_phase s" "y_sent (closeAll r s) = y_sent s" "y_taken (closeAll r s) = y_taken s"
  "y_bytes (closeAll r s) = y_bytes s" "y_fin (closeAll r s) = y_fin s" "y_first (closeAll r s) = y_first s"
  "y_reason (closeAll r s) = (if y_closed s then y_reason s else r)"
  by (simp_all add: closeAll_def)

lemma pump_goto_simps [simp]:
  "y_closed (goto_phase d p s) = y_closed s" "y_done (goto_phase d p s) = y_done s"
  "y_half (goto_phase d p s) = y_half s" "y_phase (goto_phase d p s) = (y_phase s)(d := p)"
  "y_sent (goto_phase d p s) = y_sent s" "y_taken (goto_phase d p s) = y_taken s"
  "y_bytes (goto_phase d p s) = y_bytes s" "y_fin (goto_phase d p s) = y_fin s"
  "y_reason (goto_phase d p s) = y_reason s"
  by (simp_all add: goto_phase_def)

text \<open>Only these parts of a state matter to one direction.\<close>

lemma dir_ok_same:
  assumes "dir_ok s d" "y_sent s' d = y_sent s d" "y_taken s' d = y_taken s d" "y_bytes s' d = y_bytes s d"
    "y_fin s' d = y_fin s d" "y_phase s' d = y_phase s d" "y_half s' d = y_half s d" "y_closed s \<longrightarrow> y_closed s'"
  shows "dir_ok s' d"
  using assms by (auto simp: dir_ok_def split: phase.splits)

lemma ok_closeAll:
  assumes ok: "relay_ok s" and "r \<noteq> []"
  shows "relay_ok (closeAll r s)"
proof (rule relay_okI [where d = CToS])
  show "dir_ok (closeAll r s) CToS" "dir_ok (closeAll r s) (opposite CToS)"
    by (rule dir_ok_same [OF relay_okD(1) [OF ok]]; simp)+
qed (use relay_okD(2) [OF ok] assms(2) in auto)

text \<open>A pump returns, with the connection closed: by itself just now, or before.\<close>

lemma ok_returned:
  assumes "dir_ok s (opposite d)" "y_closed s \<longleftrightarrow> y_reason s \<noteq> []" "y_closed s"
    "prefix (y_sent s d) (y_taken s d)" "y_bytes s d = length (y_sent s d)" "\<not> y_fin s d"
  shows "relay_ok (goto_phase d Returned s)"
proof (rule relay_okI [where d = d])
  show "dir_ok (goto_phase d Returned s) (opposite d)"
    by (rule dir_ok_same [OF assms(1)]) simp_all
  show "dir_ok (goto_phase d Returned s) d" using assms by (simp add: dir_ok_def)
qed (use assms in auto)

lemma ok_begin_end:
  assumes "dir_ok s (opposite d)" "y_closed s \<longleftrightarrow> y_reason s \<noteq> []" "y_done s \<longrightarrow> y_closed s"
    "prefix (y_sent s d) (y_taken s d)" "y_bytes s d = length (y_sent s d)" "\<not> y_fin s d"
    "how \<noteq> []" "forward \<longrightarrow> y_sent s d = y_taken s d"
  shows "relay_ok (begin_end d how forward s)"
proof (rule relay_okI [where d = d])
  show "dir_ok (begin_end d how forward s) (opposite d)"
    by (rule dir_ok_same [OF assms(1)]) (simp_all add: begin_end_def)
  show "dir_ok (begin_end d how forward s) d" using assms by (simp add: dir_ok_def begin_end_def)
qed (use assms in \<open>auto simp: begin_end_def\<close>)

lemma label_nonempty [simp]: "closedLabel d \<noteq> []" "stoppedReading d \<noteq> []" "dirName d \<noteq> []"
  by (cases d; simp)+

lemma idleReason_nonempty [simp]: "idleReason i s \<noteq> []"
  by (simp add: idleReason_def)

text \<open>A turn that delivered all it held.\<close>

lemma ok_after_write:
  assumes ok: "relay_ok s" and ph: "y_phase s d = Pumping"
  shows "relay_ok (after_write d t err s)"
proof -
  note o = relay_okD(1) [OF ok, of "opposite d"] and c = relay_okD(2) [OF ok]
  have me: "y_sent s d = y_taken s d" "y_bytes s d = length (y_sent s d)" "\<not> y_fin s d"
    using relay_okD(1) [OF ok, of d] ph by (auto simp: dir_ok_def)
  have ret: "relay_ok (goto_phase d Returned (closeAll r s))" if "r \<noteq> []" for r
  proof (rule ok_returned)
    show "dir_ok (closeAll r s) (opposite d)" by (rule dir_ok_same [OF o]) simp_all
  qed (use c that me in auto)
  have "relay_ok (begin_end d (closedLabel d) True s)"
    by (rule ok_begin_end [OF o c]) (use relay_okD(3) [OF ok] me in auto)
  moreover have "relay_ok (goto_phase d Returned s)" if "y_closed s"
    by (rule ok_returned [OF o c that]) (use me in auto)
  ultimately show ?thesis
    using ok ret by (auto simp: after_write_def split: option.split read_error.split)
qed


text \<open>What was taken, and the part of it that was delivered, put on record.\<close>

definition moved :: "direction \<Rightarrow> batcher \<Rightarrow> 8 word list \<Rightarrow> nat \<Rightarrow> relay \<Rightarrow> relay" where
  "moved d b data k s =
     s\<lparr>y_batcher := (y_batcher s)(d := b), y_taken := (y_taken s)(d := y_taken s d @ data),
       y_sent := (y_sent s)(d := y_sent s d @ take k data), y_bytes := (y_bytes s)(d := y_bytes s d + k)\<rparr>"

lemma moved_simps [simp]:
  "y_closed (moved d b data k s) = y_closed s" "y_done (moved d b data k s) = y_done s"
  "y_half (moved d b data k s) = y_half s" "y_phase (moved d b data k s) = y_phase s"
  "y_fin (moved d b data k s) = y_fin s" "y_reason (moved d b data k s) = y_reason s"
  "y_first (moved d b data k s) = y_first s"
  by (simp_all add: moved_def)

lemma moved_none:
  "s\<lparr>y_batcher := (y_batcher s)(d := b), y_taken := (y_taken s)(d := y_taken s d @ data)\<rparr> = moved d b data 0 s"
  by (cases s) (simp add: moved_def)

lemma moved_some:
  "(moved d b data 0 s)\<lparr>y_sent := (y_sent (moved d b data 0 s))(d := y_sent (moved d b data 0 s) d @ take k data),
     y_bytes := (y_bytes (moved d b data 0 s))(d := y_bytes (moved d b data 0 s) d + k)\<rparr> = moved d b data k s"
  by (cases s) (simp add: moved_def)

lemma moved_other:
  "dir_ok s (opposite d) \<Longrightarrow> dir_ok (moved d b data k s) (opposite d)"
  by (erule dir_ok_same) (auto simp: moved_def)

lemma moved_me:
  assumes "dir_ok s d" "y_phase s d = Pumping" "k \<le> length data"
  shows "prefix (y_sent (moved d b data k s) d) (y_taken (moved d b data k s) d)"
    "y_bytes (moved d b data k s) d = length (y_sent (moved d b data k s) d)"
    "k = length data \<Longrightarrow> y_sent (moved d b data k s) d = y_taken (moved d b data k s) d"
  using assms by (auto simp: moved_def dir_ok_def take_is_prefix)

lemma pumping_fin: "dir_ok s d \<Longrightarrow> y_phase s d = Pumping \<Longrightarrow> \<not> y_fin s d"
  by (simp add: dir_ok_def)

lemma ok_moved_all:
  assumes ok: "relay_ok s" and ph: "y_phase s d = Pumping" and k: "k = length data"
  shows "relay_ok (moved d b data k s)"
proof (rule relay_okI [where d = d])
  show "dir_ok (moved d b data k s) (opposite d)" by (rule moved_other [OF relay_okD(1) [OF ok]])
  show "dir_ok (moved d b data k s) d"
    using moved_me [OF relay_okD(1) [OF ok] ph, of k data b] pumping_fin [OF relay_okD(1) [OF ok] ph] ph k
    by (simp add: dir_ok_def)
qed (use relay_okD(2,3) [OF ok] ph in auto)

lemma pump_turn_cases:
  "pump_turn d t s =
     (if t_err t = Some RdNoSplice then s\<lparr>y_spliced := (y_spliced s)(d := False)\<rparr>
      else let data = fst (fst (held d t s)); err = snd (fst (held d t s)); b = snd (held d t s) in
        if data = [] then after_write d t err (moved d b [] 0 s)
        else if t_cancelled t then goto_phase d Returned (moved d b data 0 s)
        else let s' = moved d b data (t_written t) s in
          case (if t_werr t = None \<and> t_written t \<noteq> length data then Some ErrShortWrite else t_werr t) of
            Some WrTimeout \<Rightarrow> goto_phase d Returned (closeAll (dirName d @ '' error: write timed out'') s')
          | Some _ \<Rightarrow> begin_end d (stoppedReading d) False s'
          | None \<Rightarrow> after_write d t err s')"
proof -
  obtain data err b where h: "held d t s = ((data, err), b)" by (metis surj_pair)
  show ?thesis
    unfolding pump_turn_def h prod.case Let_def fst_conv snd_conv moved_none moved_some by auto
qed

lemma ok_pump_turn:
  assumes ok: "relay_ok s" and ph: "y_phase s d = Pumping" and t: "possible d t s"
  shows "relay_ok (pump_turn d t s)"
proof -
  note me = relay_okD(1) [OF ok, of d] and oth = relay_okD(1) [OF ok, of "opposite d"]
  note c = relay_okD(2) [OF ok] and dn = relay_okD(3) [OF ok]
  define data where "data = fst (fst (held d t s))"
  define b where "b = snd (held d t s)"
  have k: "t_written t \<le> length data" using t by (simp add: possible_def data_def)
  show ?thesis
  proof (cases "t_err t = Some RdNoSplice")
    case True
    have "relay_ok (s\<lparr>y_spliced := (y_spliced s)(d := False)\<rparr>)"
    proof (rule relay_okI [where d = d])
      show "dir_ok (s\<lparr>y_spliced := (y_spliced s)(d := False)\<rparr>) d"
        by (rule dir_ok_same [OF me]) simp_all
      show "dir_ok (s\<lparr>y_spliced := (y_spliced s)(d := False)\<rparr>) (opposite d)"
        by (rule dir_ok_same [OF oth]) simp_all
    qed (use c dn ph in auto)
    then show ?thesis using True by (simp add: pump_turn_def)
  next
    case False
    let ?s = "moved d b data (t_written t) s"
    note mo = moved_other [OF oth, of b data]
    note fin = pumping_fin [OF me ph]
    have empty: "relay_ok (after_write d t err (moved d b [] 0 s))" for err
      by (rule ok_after_write [OF ok_moved_all [OF ok ph]]) (simp_all add: ph)
    have cancelled: "relay_ok (goto_phase d Returned (moved d b data 0 s))" if "t_cancelled t"
      by (rule ok_returned [OF mo]) (use moved_me [OF me ph, of 0 data b] fin c dn that t in \<open>auto simp: possible_def\<close>)
    have stuck: "relay_ok (goto_phase d Returned (closeAll r ?s))" if "r \<noteq> []" for r
    proof (rule ok_returned)
      show "dir_ok (closeAll r ?s) (opposite d)" by (rule dir_ok_same [OF mo]) simp_all
    qed (use moved_me [OF me ph k, of b] fin c that in auto)
    have refused: "relay_ok (begin_end d (stoppedReading d) False ?s)"
      by (rule ok_begin_end [OF mo]) (use moved_me [OF me ph k, of b] fin c dn in auto)
    have delivered: "relay_ok (after_write d t err ?s)" if "t_written t = length data" for err
      by (rule ok_after_write [OF ok_moved_all [OF ok ph that]]) (simp add: ph)
    show ?thesis
      unfolding pump_turn_cases
      using False empty cancelled stuck [of "dirName d @ '' error: write timed out''"] refused delivered
      by (auto simp: Let_def data_def [symmetric] b_def [symmetric] split: option.split write_error.split)
  qed
qed

lemma ok_end_locked:
  assumes ok: "relay_ok s" and ph: "y_phase s d = Stored how f"
  shows "relay_ok (end_locked d how f later limit s)"
proof -
  note me = relay_okD(1) [OF ok, of d] and oth = relay_okD(1) [OF ok, of "opposite d"]
  show ?thesis
  proof (rule relay_okI [where d = d])
    show "dir_ok (end_locked d how f later limit s) (opposite d)"
      by (rule dir_ok_same [OF oth]) (simp_all add: end_locked_def)
    show "dir_ok (end_locked d how f later limit s) d"
      using me ph by (auto simp: dir_ok_def end_locked_def)
    show "ended (y_phase (end_locked d how f later limit s) d) \<and> ended (y_phase (end_locked d how f later limit s) (opposite d))
        \<longrightarrow> y_closed (end_locked d how f later limit s)"
      using oth by (auto simp: end_locked_def dir_ok_def ended_def split: phase.splits)
  qed (use relay_okD(2,3) [OF ok] me ph in \<open>auto simp: end_locked_def dir_ok_def\<close>)
qed

lemma ok_close_write:
  assumes ok: "relay_ok s" and ph: "y_phase s d = Deferred f"
  shows "relay_ok (close_write d f s)"
proof -
  note me = relay_okD(1) [OF ok, of d] and oth = relay_okD(1) [OF ok, of "opposite d"]
  show ?thesis
  proof (rule relay_okI [where d = d])
    show "dir_ok (close_write d f s) (opposite d)"
      by (rule dir_ok_same [OF oth]) (simp_all add: close_write_def)
    show "dir_ok (close_write d f s) d"
      using me ph by (auto simp: dir_ok_def close_write_def)
  qed (use relay_okD(2,3) [OF ok] relay_okD(4) [OF ok, of d] ph in \<open>auto simp: close_write_def\<close>)
qed

lemma ok_step: "relay_step s s' \<Longrightarrow> relay_ok s \<Longrightarrow> relay_ok s'"
  by (erule relay_stepE) (auto intro: ok_pump_turn ok_end_locked ok_close_write ok_closeAll)

lemma ok_start: "relay_ok (new_relay low_latency use_splice)"
  by (simp add: relay_ok_def dir_ok_def new_relay_def)

lemma reach_ok: "relay_reach s \<Longrightarrow> relay_ok s"
  by (induction rule: relay_reach.induct) (auto intro: ok_start ok_step)


subsection \<open>The reason\<close>

lemma closeAll_keeps: "y_closed s \<Longrightarrow> y_closed (closeAll r s) \<and> y_reason (closeAll r s) = y_reason s"
  by simp

lemma begin_end_reason [simp]:
  "y_closed (begin_end d how f s) = y_closed s" "y_reason (begin_end d how f s) = y_reason s"
  by (simp_all add: begin_end_def)

lemma after_write_keeps:
  "y_closed s \<Longrightarrow> y_closed (after_write d t err s) \<and> y_reason (after_write d t err s) = y_reason s"
  by (auto simp: after_write_def split: option.split read_error.split)

lemma pump_turn_keeps:
  assumes "y_closed s"
  shows "y_closed (pump_turn d t s) \<and> y_reason (pump_turn d t s) = y_reason s"
  unfolding pump_turn_cases
  using assms after_write_keeps [of "moved d b data k s" d t err for b data k err]
  by (auto simp: Let_def split: option.split write_error.split)

lemma step_keeps_reason:
  "relay_step s s' \<Longrightarrow> y_closed s \<Longrightarrow> y_closed s' \<and> y_reason s' = y_reason s"
  by (erule relay_stepE) (auto simp: pump_turn_keeps end_locked_def close_write_def)

subsection \<open>Properties\<close>

text \<open>
  C25. Under every interleaving of the two pumps, the half-close timer and stops from outside, each
  direction delivers exactly the bytes it read, in order: what was delivered is a prefix of what
  was read, the counters are the delivered bytes, and the end of a stream is passed on only after
  all of it was delivered.
\<close>

theorem relay_delivers:
  assumes "relay_reach s"
  shows "prefix (y_sent s d) (y_taken s d) \<and> y_bytes s d = length (y_sent s d)
    \<and> (y_fin s d \<longrightarrow> y_sent s d = y_taken s d)"
  using relay_okD(1) [OF reach_ok [OF assms], of d] by (simp add: dir_ok_def)

text \<open>
  C26. A relay never ends without saying why, and the first reason wins: once both pumps have
  returned the connection is closed with a reason, a reason is on record exactly when it is
  closed, and no later step changes it.
\<close>

theorem relay_reason_first:
  assumes "relay_reach s"
  shows "((\<forall>d. y_phase s d = Returned) \<longrightarrow> y_closed s)
    \<and> (y_closed s \<longleftrightarrow> y_reason s \<noteq> [])
    \<and> (y_closed s \<longrightarrow> (\<forall>s'. relay_step s s' \<longrightarrow> y_closed s' \<and> y_reason s' = y_reason s))"
  using relay_okD(2) [OF reach_ok [OF assms]] relay_okD(4) [OF reach_ok [OF assms], of CToS]
    step_keeps_reason [of s] by simp_all

text \<open>A client that sends one byte and closes, and an upstream that just closes.\<close>

definition sample_turn :: "8 word list \<Rightarrow> turn" where
  "sample_turn data =
     \<lparr>t_now = 0, t_read = data, t_err = (if data = [] then Some RdEOF else None),
      t_top = \<lparr>m_chunk = 4096, m_waiting = None, m_more = [], m_err = None, m_after = 0\<rparr>,
      t_cancelled = False, t_written = length data, t_werr = None, t_active = False, t_idle = []\<rparr>"

definition sample_end :: "direction \<Rightarrow> relay \<Rightarrow> relay" where
  "sample_end d s =
     close_write d True (end_locked d (closedLabel d) True ''1 s'' False (pump_turn d (sample_turn []) s))"

definition sample_relay :: relay where
  "sample_relay = sample_end SToC (sample_end CToS (pump_turn CToS (sample_turn [7]) (new_relay True False)))"

lemma held_off: "b_off (y_batcher s d) \<Longrightarrow> fst (fst (held d (sample_turn data) s)) = data"
  by (auto simp: held_def sample_turn_def batch_off)

lemma sample_end_turn:
  "pump_turn d (sample_turn []) s =
     begin_end d (closedLabel d) True (s\<lparr>y_batcher := (y_batcher s)(d := y_batcher s d), y_taken := (y_taken s)(d := y_taken s d @ [])\<rparr>)"
  by (simp add: pump_turn_def held_def sample_turn_def after_write_def)

lemma sample_end_reach:
  assumes "relay_reach s" "y_phase s d = Pumping"
  shows "relay_reach (sample_end d s)"
proof -
  have "relay_reach (pump_turn d (sample_turn []) s)"
    by (rule relay_reach.goes_on [OF assms(1) relay_step.turn [OF assms(2)]])
      (simp add: possible_def sample_turn_def held_def)
  then have "relay_reach (end_locked d (closedLabel d) True ''1 s'' False (pump_turn d (sample_turn []) s))"
    by (rule relay_reach.goes_on) (rule relay_step.locked, simp add: sample_end_turn begin_end_def)
  then show ?thesis unfolding sample_end_def
    by (rule relay_reach.goes_on) (rule relay_step.deferred, simp add: end_locked_def)
qed

abbreviation first_byte :: relay where
  "first_byte \<equiv> pump_turn CToS (sample_turn [7]) (new_relay True False)"

lemma first_byte_simps:
  "y_phase first_byte = (\<lambda>_. Pumping)" "y_closed first_byte = False" "y_first first_byte = []"
  "y_half first_byte = (\<lambda>_. False)" "y_taken first_byte CToS = [7]" "y_sent first_byte CToS = [7]"
  "y_bytes first_byte CToS = 1"
  by (simp_all add: pump_turn_def held_def sample_turn_def new_relay_def batch_off new_batcher_def after_write_def)

lemmas sample_end_simps = sample_end_def sample_end_turn begin_end_def close_write_def end_locked_def goto_phase_def

lemma sample_reach: "relay_reach sample_relay"
proof -
  have "relay_reach (pump_turn CToS (sample_turn [7]) (new_relay True False))"
    by (rule relay_reach.goes_on [OF relay_reach.starts relay_step.turn])
      (simp_all add: new_relay_def possible_def sample_turn_def held_def batch_off new_batcher_def)
  then show ?thesis unfolding sample_relay_def
    by (intro sample_end_reach) (simp_all add: first_byte_simps sample_end_simps)
qed

theorem relay_delivers_witness:
  "prefix (y_sent sample_relay CToS) (y_taken sample_relay CToS) \<and> y_bytes sample_relay CToS = 1"
  using relay_delivers [OF sample_reach, of CToS]
  by (simp add: sample_relay_def sample_end_simps first_byte_simps)

theorem relay_reason_first_witness:
  "y_reason sample_relay = ''client closed, then upstream closed 1 s later'' \<and> y_closed sample_relay"
proof -
  have "y_reason sample_relay = ''client closed, then upstream closed 1 s later''"
    by (simp add: sample_relay_def sample_end_simps first_byte_simps)
  moreover from this have "y_closed sample_relay"
    by (intro relay_reason_first [OF sample_reach, THEN conjunct2, THEN conjunct1, THEN iffD2]) simp
  ultimately show ?thesis by simp
qed

end
