(* ===== verification/Config_Types.thy ===== *)
theory Config_Types
  imports Routing Log_Rotation
begin

text \<open>
  The configuration's data (config.go, console_config.go, serve_config.go, oidc_config.go) and the
  small operations on it: finding a listener, the copy of the configuration a connection runs
  with, the addresses, who may send a PROXY protocol header. Durations are nanoseconds, speeds
  rationals, a nil pointer is \<open>None\<close>; parsed keys and certificates are not represented.
\<close>

type_synonym duration = int

definition Second :: duration where "Second = 1000000000"

subsection \<open>Listeners\<close>

record Listener =
  lName :: string
  lLine :: nat
  lBind :: string
  lBinds :: "string list"
  lPort :: nat
  lProxyTrustSource :: "prefix list option"
  lMaxConnections :: nat
  lHandshakeTimeout :: "duration option"
  lIdleTimeout :: "duration option"
  lHalfCloseTimeout :: "duration option"
  lMaxAggregatedSpeed :: rat
  lMaxSingleConnectionSpeed :: rat
  lIsRedirect :: bool
  lConsole :: bool
  lBindSet :: bool
  lPortSet :: bool

text \<open>A Go \<open>Listener{}\<close>: every field its zero value.\<close>

definition zero_listener :: Listener where
  "zero_listener = \<lparr>lName = [], lLine = 0, lBind = [], lBinds = [], lPort = 0, lProxyTrustSource = None,
     lMaxConnections = 0, lHandshakeTimeout = None, lIdleTimeout = None, lHalfCloseTimeout = None,
     lMaxAggregatedSpeed = 0, lMaxSingleConnectionSpeed = 0, lIsRedirect = False, lConsole = False,
     lBindSet = False, lPortSet = False\<rparr>"

subsection \<open>The console's settings, users and identity providers\<close>

record ConsoleConfig =
  conBind :: string
  conBinds :: "string list"
  conPort :: nat
  conDomain :: string
  conCert :: string
  conPasswordHash :: string
  conCertificate :: "string option"

record credential =
  crPlain :: string
  crHash :: string
  crDisabled :: bool
  crExpires :: "int option"

record BasicAuth =
  baName :: string
  baLine :: nat
  baUsers :: "(string \<times> credential) list"

record OIDCProvider =
  opName :: string
  opLine :: nat
  opIssuer :: string
  opClientID :: string
  opClientSecret :: string
  opSecretFile :: string
  opCertFile :: string
  opKeyFile :: string
  opCertExpires :: int
  opClientKey :: "string option"
  opThumbprint :: string
  opScopes :: "string list"
  opSession :: duration
  opMFAAcr :: "string list"
  opCAFile :: string
  opUserClaim :: string
  opGroupsClaim :: string
  opRolesClaim :: string
  opReferenced :: "string set"

subsection \<open>The configuration\<close>

datatype warning =
    BufferSizeClamped nat nat nat
  | OrderDiffers "(nat \<times> nat) list"
  | OpenRelay nat
  | UnusedBasicAuth string nat
  | UnusedOIDC string nat
  | CertificateExpires string nat
  | AutoNotOn443 string
  | AutoIPv6Only string
  | AutoNoPreCheck

text \<open>The keys of the global and logging sections.\<close>

record Globals =
  HandshakeTimeout :: duration
  ConnectTimeout :: duration
  IdleTimeout :: duration
  HalfCloseTimeout :: duration
  MaxConnections :: nat
  MaxHandshakesPerIP :: nat
  ProxyTrustSource :: "prefix list"
  BufferSize :: nat
  BufferPoolMaxIdle :: nat
  AllowCacheSize :: nat
  DenyCacheSize :: nat
  ReloadInterval :: duration
  StatsInterval :: duration
  LowLatency :: bool
  UseSplice :: bool
  RememberNonce :: bool
  Log :: LogConfig
  CARoot :: string
  ExpiryThresholdDays :: nat
  PublicIPs :: "string list"
  DNSResolvers :: "string list"
  AcmeEmail :: string
  AcmeAgreeTOS :: bool
  AcmeDirectory :: string
  AcmeCAFile :: string
  Warnings :: "warning list"
  Ignored :: "string list"

record Config = Globals +
  Bind :: string
  Binds :: "string list"
  Port :: nat
  CertPath :: string
  ConsoleSettings :: "ConsoleConfig option"
  Rules :: "Rule list"
  Listeners :: "Listener list"
  Tables :: "RouteTable list"
  BasicAuths :: "(string \<times> BasicAuth) list"
  OIDCs :: "(string \<times> OIDCProvider) list"
  Redirect :: "Listener option"
  current :: "Listener option"

definition LetsEncryptDirectory :: string where
  "LetsEncryptDirectory = ''https://acme-v02.api.letsencrypt.org/directory''"

text \<open>What \<open>LoadConfig\<close> starts from; \<open>ca_folder\<close> is \<open>defaultCARoot\<close>.\<close>

definition initial_config :: "string \<Rightarrow> Config" where
  "initial_config ca_folder =
     \<lparr>HandshakeTimeout = 10 * Second, ConnectTimeout = 10 * Second, IdleTimeout = 600 * Second,
      HalfCloseTimeout = 30 * Second, MaxConnections = 1024, MaxHandshakesPerIP = 64,
      ProxyTrustSource = [], BufferSize = 64 * 1024, BufferPoolMaxIdle = 0, AllowCacheSize = 4096,
      DenyCacheSize = 4096, ReloadInterval = 5 * Second, StatsInterval = 60 * Second,
      LowLatency = False, UseSplice = True, RememberNonce = True, Log = defaultLogConfig,
      CARoot = ca_folder, ExpiryThresholdDays = 15, PublicIPs = [], DNSResolvers = [], AcmeEmail = [],
      AcmeAgreeTOS = False, AcmeDirectory = LetsEncryptDirectory, AcmeCAFile = [], Warnings = [],
      Ignored = [], Bind = [], Binds = [], Port = 0, CertPath = [], ConsoleSettings = None,
      Rules = [], Listeners = [], Tables = [], BasicAuths = [], OIDCs = [], Redirect = None,
      current = None\<rparr>"

subsection \<open>Looking listeners up\<close>

text \<open>\<open>net.JoinHostPort\<close>.\<close>

definition JoinHostPort :: "string \<Rightarrow> string \<Rightarrow> string" where
  "JoinHostPort host port =
     (if CHR '':'' \<in> set host then ''['' @ host @ '']:'' @ port else host @ '':'' @ port)"

definition Addrs :: "Listener \<Rightarrow> string list" where
  "Addrs l = map (\<lambda>b. JoinHostPort b (Itoa (lPort l))) (lBinds l)"

definition listener_named :: "Config \<Rightarrow> string \<Rightarrow> Listener option" where
  "listener_named c name = find (\<lambda>l. lName l = name) (Listeners c)"

definition PortListener :: "Config \<Rightarrow> string \<Rightarrow> Listener option" where
  "PortListener c name =
     (case Redirect c of
        Some r \<Rightarrow> if lName r = name then Some r else listener_named c name
      | None \<Rightarrow> listener_named c name)"

definition PortListeners :: "Config \<Rightarrow> Listener list" where
  "PortListeners c = Listeners c @ (case Redirect c of Some r \<Rightarrow> [r] | None \<Rightarrow> [])"

definition listenerNames :: "Config \<Rightarrow> string" where
  "listenerNames c = Join '', '' (map lName (Listeners c))"

text \<open>The copy of the configuration a connection on \<open>l\<close> runs with.\<close>

definition overridden :: "'a option \<Rightarrow> 'a \<Rightarrow> 'a" where
  "overridden v0 d = (case v0 of None \<Rightarrow> d | Some v \<Rightarrow> v)"

definition ForListener :: "Config \<Rightarrow> Listener \<Rightarrow> Config" where
  "ForListener c l = c\<lparr>current := Some l, Bind := lBind l, Binds := lBinds l, Port := lPort l,
     ProxyTrustSource := overridden (lProxyTrustSource l) (ProxyTrustSource c),
     HandshakeTimeout := overridden (lHandshakeTimeout l) (HandshakeTimeout c),
     IdleTimeout := overridden (lIdleTimeout l) (IdleTimeout c),
     HalfCloseTimeout := overridden (lHalfCloseTimeout l) (HalfCloseTimeout c)\<rparr>"

subsection \<open>Addresses\<close>

definition listenNetwork :: "string \<Rightarrow> string" where
  "listenNetwork a = (case ParseAddr a of Some ip \<Rightarrow> if Is4 ip then ''tcp4'' else ''tcp'' | None \<Rightarrow> ''tcp'')"

fun trustsProxySource :: "Config \<Rightarrow> net_addr \<Rightarrow> bool" where
  "trustsProxySource c (OtherAddr t) = False"
| "trustsProxySource c (TCPAddr ip port zone) =
     (ProxyTrustSource c \<noteq> [] \<and>
      (let a = (case AddrFromSlice ip of Some a \<Rightarrow> Unmap a | None \<Rightarrow> NoAddr)
       in list_ex (\<lambda>p. prefix_Contains p a) (ProxyTrustSource c)))"

definition listenAddrs :: "Config \<Rightarrow> string" where
  "listenAddrs c = Join '', ''
     (concat (map Addrs (filter (\<lambda>l. current c = None \<or> current c = Some l) (Listeners c))))"

definition ConsoleRule :: "Config \<Rightarrow> Rule option" where
  "ConsoleRule c = find rConsole (Rules c)"

text \<open>Every name that needs an automatic certificate, each once, in order.\<close>

fun keep_first :: "'a list \<Rightarrow> 'a list \<Rightarrow> 'a list" where
  "keep_first seen [] = []"
| "keep_first seen (x # xs) = (if x \<in> set seen then keep_first seen xs else x # keep_first (x # seen) xs)"

definition AutoDomains :: "Config \<Rightarrow> string list" where
  "AutoDomains c = keep_first [] (concat (map rCertDomains (filter (\<lambda>r. rCert r = ''auto'') (Rules c))))"

subsection \<open>Facts\<close>

lemma keep_first_set: "set (keep_first seen xs) = set xs - set seen"
  by (induction seen xs rule: keep_first.induct) auto

lemma keep_first_distinct: "distinct (keep_first seen xs)"
  by (induction seen xs rule: keep_first.induct) (auto simp: keep_first_set)

lemma find_named: "find P xs = Some x \<Longrightarrow> x \<in> set xs \<and> P x"
  by (auto simp: find_Some_iff)

lemma AutoDomains_exact:
  "distinct (AutoDomains c) \<and>
   (d \<in> set (AutoDomains c) \<longleftrightarrow> (\<exists>r\<in>set (Rules c). rCert r = ''auto'' \<and> d \<in> set (rCertDomains r)))"
  by (auto simp: AutoDomains_def keep_first_distinct keep_first_set)

text \<open>Nobody is trusted without a list, and a peer that is no TCP connection never is.\<close>

lemma trusts_nobody: "ProxyTrustSource c = [] \<Longrightarrow> \<not> trustsProxySource c p"
  by (cases p) simp_all

lemma PortListener_mem: "PortListener c name = Some l \<Longrightarrow> l \<in> set (PortListeners c) \<and> lName l = name"
  by (auto simp: PortListener_def PortListeners_def listener_named_def dest!: find_named
      split: option.splits if_splits)

end
