(* ===== verification/Config_Values.thy ===== *)
theory Config_Values
  imports Config_Types Limiter
begin

text \<open>
  The values of config.yaml's keys: lists of addresses, networks, sizes, names, and the effect of
  each key of the global, logging and listener sections (the switch of \<open>LoadConfig\<close> and
  \<open>listenerOption\<close>). Each key either fails or returns the updated settings.
\<close>

subsection \<open>Library functions on text and addresses\<close>

definition upper_char :: "char \<Rightarrow> char" where
  "upper_char c = (let n = of_char c :: nat in if 97 \<le> n \<and> n \<le> 122 then char_of (n - 32) else c)"

definition ToUpper :: "string \<Rightarrow> string" where
  "ToUpper s = map upper_char s"

definition Trim :: "string \<Rightarrow> string \<Rightarrow> string" where
  "Trim s cutset = rev (dropWhile (\<lambda>c. c \<in> set cutset) (rev (dropWhile (\<lambda>c. c \<in> set cutset) s)))"

text \<open>The bits of byte \<open>i\<close> after the first \<open>n\<close> of the address, cleared.\<close>

definition mask_byte :: "nat \<Rightarrow> nat \<Rightarrow> byte \<Rightarrow> byte" where
  "mask_byte n i b =
     (if 8 * (i + 1) \<le> n then b
      else if n \<le> 8 * i then 0
      else push_bit (8 * (i + 1) - n) (drop_bit (8 * (i + 1) - n) b))"

definition mask_bytes :: "nat \<Rightarrow> bytes \<Rightarrow> bytes" where
  "mask_bytes n bs = map (\<lambda>(i, b). mask_byte n i b) (zip [0..<length bs] bs)"

text \<open>\<open>netip.PrefixFrom\<close> drops the zone; \<open>Prefix.Masked\<close>.\<close>

definition PrefixFrom :: "addr \<Rightarrow> nat \<Rightarrow> prefix" where
  "PrefixFrom a n = \<lparr>paddr = WithZone a [], pbits = n\<rparr>"

definition Masked :: "prefix \<Rightarrow> prefix" where
  "Masked p = p\<lparr>paddr := (case paddr p of
       Addr4 b \<Rightarrow> Addr4 (mask_bytes (pbits p) b)
     | Addr6 b z \<Rightarrow> Addr6 (mask_bytes (pbits p) b) z
     | NoAddr \<Rightarrow> NoAddr)\<rparr>"

definition ParsePrefix :: "string \<Rightarrow> prefix option" where
  "ParsePrefix s =
     (case split_last (CHR ''/'') s of
        None \<Rightarrow> None
      | Some (ip, n) \<Rightarrow>
          (case ParseAddr ip of
             None \<Rightarrow> None
           | Some a \<Rightarrow>
               if Zone a \<noteq> [] then None
               else if length n > 1 \<and> (\<not> is_digit (hd n) \<or> hd n = CHR ''0'') then None
               else case Atoi n of
                 None \<Rightarrow> None
               | Some k \<Rightarrow> if k < 0 \<or> int (BitLen a) < k then None else Some (PrefixFrom a (nat k))))"

definition ParseAddrPort :: "string \<Rightarrow> (addr \<times> nat) option" where
  "ParseAddrPort s =
     (case split_last (CHR '':'') s of
        None \<Rightarrow> None
      | Some (ip, port) \<Rightarrow>
          if ip = [] \<or> port = [] then None
          else
            let v6 = (hd ip = CHR ''['') in
            if v6 \<and> (length ip < 2 \<or> last ip \<noteq> CHR '']'') then None
            else case (ParseUint 16 port, ParseAddr (if v6 then butlast (tl ip) else ip)) of
              (Some p, Some a) \<Rightarrow> if v6 \<and> Is4 a \<or> \<not> v6 \<and> Is6 a then None else Some (a, p)
            | _ \<Rightarrow> None)"

subsection \<open>Errors\<close>

datatype setting_error =
    GlobalHasNo string
  | WantNumber string string
  | WantSeconds string string
  | ReloadTooShort duration
  | RenamedProxyTrust string
  | BadSource string
  | BadBool string string
  | CertRootEmpty
  | CARootRenamed string
  | CertPathGone string
  | ThresholdTooSmall
  | NotAnAddress string
  | ResolversEmpty
  | NotAResolver string
  | BadSize string
  | BadListenerName string
  | BindTwice string
  | BindEmpty
  | BadPort string
  | BadRate string rate_error
  | UnknownKey string string
  | OutsideSections

subsection \<open>Values\<close>

text \<open>Addresses of a bind list, none twice; \<open>done\<close> are the ones before.\<close>

fun parse_bind_items :: "string list \<Rightarrow> string list \<Rightarrow> (setting_error, string list) result" where
  "parse_bind_items [] binds = Inr binds"
| "parse_bind_items (b0 # items) binds =
     (let b = Trim b0 ''[]'' in
      if b \<in> set binds then Inl (BindTwice b) else parse_bind_items items (binds @ [b]))"

definition parseBinds :: "string \<Rightarrow> (setting_error, string list) result" where
  "parseBinds value =
     bind_result (parse_bind_items (splitList value) [])
       (\<lambda>binds. if binds = [] then Inl BindEmpty else Inr binds)"

definition resolverAddress :: "string \<Rightarrow> bool" where
  "resolverAddress v \<longleftrightarrow> ParseAddr v \<noteq> None \<or> ParseAddrPort v \<noteq> None"

fun parse_prefix_items :: "string list \<Rightarrow> (setting_error, prefix list) result" where
  "parse_prefix_items [] = Inr []"
| "parse_prefix_items (item # items) =
     (case (case ParseAddr item of
              Some a \<Rightarrow> Some (PrefixFrom (Unmap a) (BitLen (Unmap a)))
            | None \<Rightarrow> ParsePrefix item) of
        None \<Rightarrow> Inl (BadSource item)
      | Some p \<Rightarrow> bind_result (parse_prefix_items items) (\<lambda>ps. Inr (Masked p # ps)))"

definition parsePrefixes :: "string \<Rightarrow> (setting_error, prefix list) result" where
  "parsePrefixes value = parse_prefix_items (splitList value)"

definition is_letter :: "char \<Rightarrow> bool" where
  "is_letter c \<longleftrightarrow> (let n = of_char c :: nat in 65 \<le> n \<and> n \<le> 90 \<or> 97 \<le> n \<and> n \<le> 122)"

definition name_char :: "char \<Rightarrow> bool" where
  "name_char c \<longleftrightarrow> is_letter c \<or> is_digit c \<or> c \<in> set ''_@#~()[]<>-'' \<or> c = CHR 0x22 \<or> c = CHR 0x27"

text \<open>What the expression \<open>listenerName\<close> matches.\<close>

definition listenerName :: "string \<Rightarrow> bool" where
  "listenerName s \<longleftrightarrow> 1 \<le> length s \<and> length s \<le> 64 \<and> name_char (hd s) \<and> name_char (last s)
     \<and> list_all (\<lambda>c. name_char c \<or> c = CHR '' '') s"

definition consoleAlias :: string where "consoleAlias = ''$console''"

text \<open>The unit a size's last letter stands for.\<close>

definition size_unit :: "string \<Rightarrow> int" where
  "size_unit t =
     (if t = [] then 1
      else if last t = CHR ''K'' then 2 ^ 10
      else if last t = CHR ''M'' then 2 ^ 20
      else if last t = CHR ''G'' then 2 ^ 30 else 1)"

text \<open>The number is compared against \<open>2 ^ 62 / unit\<close> before it is multiplied.\<close>

definition parseSize :: "string \<Rightarrow> (setting_error, int) result" where
  "parseSize v =
     (let t0 = TrimSuffix (TrimSuffix (ToUpper (TrimSpace v)) ''IB'') ''B'';
          unit = size_unit t0;
          t = (if unit = 1 then t0 else butlast t0) in
      case ParseInt64 (TrimSpace t) of
        None \<Rightarrow> Inl (BadSize v)
      | Some n \<Rightarrow> if n \<le> 0 \<or> 2 ^ 62 div unit < n then Inl (BadSize v) else Inr (n * unit))"

subsection \<open>Keys\<close>

text \<open>\<open>strconv.ParseUint(value, 10, 31)\<close>, as a number, and as seconds.\<close>

definition num :: "string \<Rightarrow> string \<Rightarrow> (setting_error, nat) result" where
  "num key value = (case ParseUint 31 value of None \<Rightarrow> Inl (WantNumber key value) | Some n \<Rightarrow> Inr n)"

definition secs :: "string \<Rightarrow> string \<Rightarrow> (setting_error, duration) result" where
  "secs key value = bind_result (num key value) (\<lambda>n. Inr (int n * Second))"

definition flag :: "string \<Rightarrow> string \<Rightarrow> (setting_error, bool) result" where
  "flag key value = (case parseBool value of None \<Rightarrow> Inl (BadBool key value) | Some b \<Rightarrow> Inr b)"

definition minBufferSize :: nat where "minBufferSize = 4 * 2 ^ 10"
definition maxBufferSize :: nat where "maxBufferSize = 128 * 2 ^ 10"
definition MinReloadInterval :: int where "MinReloadInterval = 5"

definition set_reload :: "duration \<Rightarrow> 'a Globals_scheme \<Rightarrow> (setting_error, 'a Globals_scheme) result" where
  "set_reload d g =
     (let s = d div Second in
      if s \<noteq> 0 \<and> s < MinReloadInterval then Inl (ReloadTooShort s) else Inr (g\<lparr>ReloadInterval := d\<rparr>))"

definition set_buffer_size :: "nat \<Rightarrow> nat \<Rightarrow> 'a Globals_scheme \<Rightarrow> 'a Globals_scheme" where
  "set_buffer_size lineno n g =
     (if n < minBufferSize \<or> maxBufferSize < n
      then let clamped = max minBufferSize (min n maxBufferSize) in
        g\<lparr>BufferSize := clamped, Warnings := Warnings g @ [BufferSizeClamped lineno n clamped]\<rparr>
      else g\<lparr>BufferSize := n\<rparr>)"

fun public_ips :: "string list \<Rightarrow> (setting_error, string list) result" where
  "public_ips [] = Inr []"
| "public_ips (ip # ips) =
     (case ParseAddr ip of
        None \<Rightarrow> Inl (NotAnAddress ip)
      | Some a \<Rightarrow> bind_result (public_ips ips) (\<lambda>rest. Inr (addr_String (Unmap a) # rest)))"

definition dns_resolvers :: "string \<Rightarrow> (setting_error, string list) result" where
  "dns_resolvers value =
     (let servers = splitList value in
      if servers = [] then Inl ResolversEmpty
      else case find (\<lambda>v. \<not> resolverAddress v) servers of
             Some v \<Rightarrow> Inl (NotAResolver v)
           | None \<Rightarrow> Inr servers)"

text \<open>
  The keys of the global section but the two that set variables of \<open>LoadConfig\<close> itself. One group
  for durations, one for counts, one for flags and one for the rest, as the switch has them.
\<close>

definition duration_key :: "string \<Rightarrow> (duration \<Rightarrow> 'a Globals_scheme \<Rightarrow> 'a Globals_scheme) option" where
  "duration_key = map_of
     [(''handshake_timeout'', \<lambda>d. HandshakeTimeout_update (\<lambda>_. d)),
      (''connect_timeout'', \<lambda>d. ConnectTimeout_update (\<lambda>_. d)),
      (''idle_timeout'', \<lambda>d. IdleTimeout_update (\<lambda>_. d)),
      (''half_close_timeout'', \<lambda>d. HalfCloseTimeout_update (\<lambda>_. d)),
      (''stats_interval'', \<lambda>d. StatsInterval_update (\<lambda>_. d))]"

definition count_key :: "string \<Rightarrow> (nat \<Rightarrow> 'a Globals_scheme \<Rightarrow> 'a Globals_scheme) option" where
  "count_key = map_of
     [(''max_connections'', \<lambda>n. MaxConnections_update (\<lambda>_. n)),
      (''max_handshakes_per_ip'', \<lambda>n. MaxHandshakesPerIP_update (\<lambda>_. n)),
      (''allow_cache_size'', \<lambda>n. AllowCacheSize_update (\<lambda>_. n)),
      (''deny_cache_size'', \<lambda>n. DenyCacheSize_update (\<lambda>_. n))]"

definition flag_key :: "string \<Rightarrow> (bool \<Rightarrow> 'a Globals_scheme \<Rightarrow> 'a Globals_scheme) option" where
  "flag_key = map_of
     [(''low_latency'', \<lambda>b. LowLatency_update (\<lambda>_. b)),
      (''splice'', \<lambda>b. UseSplice_update (\<lambda>_. b)),
      (''remember_nonce'', \<lambda>b. RememberNonce_update (\<lambda>_. b)),
      (''acme_agree_tos'', \<lambda>b. AcmeAgreeTOS_update (\<lambda>_. b))]"

type_synonym 'a handler = "string \<Rightarrow> string \<Rightarrow> nat \<Rightarrow> 'a \<Rightarrow> (setting_error, 'a) result"

definition other_keys :: "(string \<times> 'a Globals_scheme handler) list" where
  "other_keys =
     [(''bind'', \<lambda>key value lineno g. Inl (GlobalHasNo key)),
      (''port'', \<lambda>key value lineno g. Inl (GlobalHasNo key)),
      (''reload_interval'', \<lambda>key value lineno g. bind_result (secs key value) (\<lambda>d. set_reload d g)),
      (''proxy_protocol_from'', \<lambda>key value lineno g. Inl (RenamedProxyTrust value)),
      (''proxy_trust_source'', \<lambda>key value lineno g.
         bind_result (parsePrefixes value) (\<lambda>p. Inr (g\<lparr>ProxyTrustSource := p\<rparr>))),
      (''buffer_size'', \<lambda>key value lineno g.
         bind_result (num key value) (\<lambda>n. Inr (set_buffer_size lineno n g))),
      (''cert_root'', \<lambda>key value lineno g.
         if value = [] then Inl CertRootEmpty else Inr (g\<lparr>CARoot := value\<rparr>)),
      (''ca_root'', \<lambda>key value lineno g. Inl (CARootRenamed value)),
      (''cert_path'', \<lambda>key value lineno g. Inl (CertPathGone value)),
      (''expiry_threshold_days'', \<lambda>key value lineno g.
         bind_result (num key value)
           (\<lambda>n. if n < 1 then Inl ThresholdTooSmall else Inr (g\<lparr>ExpiryThresholdDays := n\<rparr>))),
      (''public_ip_address'', \<lambda>key value lineno g.
         bind_result (public_ips (splitList value)) (\<lambda>ips. Inr (g\<lparr>PublicIPs := ips\<rparr>))),
      (''dns_resolvers'', \<lambda>key value lineno g.
         bind_result (dns_resolvers value) (\<lambda>v. Inr (g\<lparr>DNSResolvers := v\<rparr>))),
      (''acme_email'', \<lambda>key value lineno g. Inr (g\<lparr>AcmeEmail := value\<rparr>)),
      (''acme_directory'', \<lambda>key value lineno g. Inr (g\<lparr>AcmeDirectory := value\<rparr>)),
      (''acme_ca_file'', \<lambda>key value lineno g. Inr (g\<lparr>AcmeCAFile := value\<rparr>)),
      (''io_model'', \<lambda>key value lineno g. Inr (g\<lparr>Ignored := Ignored g @ [key]\<rparr>)),
      (''worker_threads'', \<lambda>key value lineno g. Inr (g\<lparr>Ignored := Ignored g @ [key]\<rparr>)),
      (''short_read_delay_us'', \<lambda>key value lineno g. Inr (g\<lparr>Ignored := Ignored g @ [key]\<rparr>))]"

definition other_key :: "'a Globals_scheme handler" where
  "other_key key value lineno g =
     (case map_of other_keys key of
        None \<Rightarrow> Inl (UnknownKey key ''global'')
      | Some h \<Rightarrow> h key value lineno g)"

definition global_key :: "string \<Rightarrow> string \<Rightarrow> nat \<Rightarrow> 'a Globals_scheme \<Rightarrow> (setting_error, 'a Globals_scheme) result" where
  "global_key key value lineno g =
     (case (duration_key key, count_key key, flag_key key) of
        (Some upd, _) \<Rightarrow> bind_result (secs key value) (\<lambda>d. Inr (upd d g))
      | (None, Some upd, _) \<Rightarrow> bind_result (num key value) (\<lambda>n. Inr (upd n g))
      | (None, None, Some upd) \<Rightarrow> bind_result (flag key value) (\<lambda>b. Inr (upd b g))
      | (None, None, None) \<Rightarrow> other_key key value lineno g)"

definition logging_key :: "string \<Rightarrow> string \<Rightarrow> 'a Globals_scheme \<Rightarrow> (setting_error, 'a Globals_scheme) result" where
  "logging_key key value g =
     (let l = Log g in
      if key = ''stdout'' then Inr (g\<lparr>Log := l\<lparr>lStdout := value\<rparr>\<rparr>)
      else if key = ''stderr'' then Inr (g\<lparr>Log := l\<lparr>lStderr := value\<rparr>\<rparr>)
      else if key = ''max_size'' then bind_result (parseSize value) (\<lambda>n. Inr (g\<lparr>Log := l\<lparr>lMaxSize := n\<rparr>\<rparr>))
      else if key = ''max_keep'' then bind_result (num key value) (\<lambda>n. Inr (g\<lparr>Log := l\<lparr>lMaxKeep := n\<rparr>\<rparr>))
      else if key = ''compress_after''
      then bind_result (num key value) (\<lambda>n. Inr (g\<lparr>Log := l\<lparr>lCompressAfter := n\<rparr>\<rparr>))
      else Inl (UnknownKey key ''logging''))"

definition rate_key :: "string \<Rightarrow> string \<Rightarrow> (setting_error, rat) result" where
  "rate_key key value = (case parseRate value of Inl e \<Rightarrow> Inl (BadRate key e) | Inr r \<Rightarrow> Inr r)"

definition listener_secs :: "string \<Rightarrow> string \<Rightarrow> (setting_error, duration) result" where
  "listener_secs key value =
     (case ParseUint 31 value of None \<Rightarrow> Inl (WantSeconds key value) | Some n \<Rightarrow> Inr (int n * Second))"

definition listenerOption :: "string \<Rightarrow> string \<Rightarrow> Listener \<Rightarrow> (setting_error, Listener) result" where
  "listenerOption key value l =
     (if key = ''name''
      then (if value \<noteq> consoleAlias \<and> \<not> listenerName value then Inl (BadListenerName value)
            else Inr (l\<lparr>lName := value\<rparr>))
      else if key = ''bind''
      then bind_result (parseBinds value) (\<lambda>b. Inr (l\<lparr>lBinds := b, lBind := Join ''; '' b\<rparr>))
      else if key = ''port''
      then (case parsePort value of None \<Rightarrow> Inl (BadPort value) | Some p \<Rightarrow> Inr (l\<lparr>lPort := p\<rparr>))
      else if key = ''proxy_protocol_from'' then Inl (RenamedProxyTrust value)
      else if key = ''proxy_trust_source''
      then bind_result (parsePrefixes value) (\<lambda>p. Inr (l\<lparr>lProxyTrustSource := Some p\<rparr>))
      else if key = ''max_connections'' then bind_result (num key value) (\<lambda>n. Inr (l\<lparr>lMaxConnections := n\<rparr>))
      else if key = ''handshake_timeout''
      then bind_result (listener_secs key value) (\<lambda>d. Inr (l\<lparr>lHandshakeTimeout := Some d\<rparr>))
      else if key = ''idle_timeout''
      then bind_result (listener_secs key value) (\<lambda>d. Inr (l\<lparr>lIdleTimeout := Some d\<rparr>))
      else if key = ''half_close_timeout''
      then bind_result (listener_secs key value) (\<lambda>d. Inr (l\<lparr>lHalfCloseTimeout := Some d\<rparr>))
      else if key = ''max_aggregated_speed''
      then bind_result (rate_key key value) (\<lambda>r. Inr (l\<lparr>lMaxAggregatedSpeed := r\<rparr>))
      else if key = ''max_single_connection_speed''
      then bind_result (rate_key key value) (\<lambda>r. Inr (l\<lparr>lMaxSingleConnectionSpeed := r\<rparr>))
      else Inl (UnknownKey key ''a listener''))"

end
