(* ===== verification/Config_Values_Props.thy ===== *)
theory Config_Values_Props
  imports Config_Values
begin

text \<open>
  What the keys of config.yaml can set: the bounds every accepted setting keeps, and that storing
  a trusted network in its masked form changes none of its members.
\<close>

subsection \<open>Settings within their bounds\<close>

definition duration_ok :: "duration \<Rightarrow> bool" where
  "duration_ok d \<longleftrightarrow> 0 \<le> d \<and> d < 2 ^ 31 * Second \<and> d mod Second = 0"

definition masked :: "prefix \<Rightarrow> bool" where
  "masked p \<longleftrightarrow> Masked p = p"

definition globals_ok :: "'a Globals_scheme \<Rightarrow> bool" where
  "globals_ok g \<longleftrightarrow>
     list_all duration_ok [HandshakeTimeout g, ConnectTimeout g, IdleTimeout g, HalfCloseTimeout g,
       StatsInterval g, ReloadInterval g]
   \<and> (ReloadInterval g = 0 \<or> MinReloadInterval * Second \<le> ReloadInterval g)
   \<and> minBufferSize \<le> BufferSize g \<and> BufferSize g \<le> maxBufferSize
   \<and> list_all (\<lambda>n. n < 2 ^ 31) [MaxConnections g, MaxHandshakesPerIP g, AllowCacheSize g, DenyCacheSize g,
       lMaxKeep (Log g), lCompressAfter (Log g)]
   \<and> 0 < lMaxSize (Log g) \<and> lMaxSize (Log g) \<le> 2 ^ 62
   \<and> 1 \<le> ExpiryThresholdDays g \<and> CARoot g \<noteq> []
   \<and> list_all resolverAddress (DNSResolvers g) \<and> list_all masked (ProxyTrustSource g)"

lemma secs_ok: "secs k v = Inr d \<Longrightarrow> duration_ok d"
  by (auto simp: secs_def num_def duration_ok_def Second_def split: option.splits dest: ParseUint_bound)

lemma num_ok: "num k v = Inr n \<Longrightarrow> n < 2 ^ 31"
  by (auto simp: num_def split: option.splits dest: ParseUint_bound)

lemma bit_mask_byte:
  "bit (mask_byte n i b) j \<longleftrightarrow> bit b j \<and> 8 * i + (7 - j) < n" if "j < 8"
  using that by (auto simp: mask_byte_def bit_simps)

lemma mask_byte_idem [simp]: "mask_byte n i (mask_byte n i b) = mask_byte n i b"
  by (rule bit_word_eqI) (simp add: bit_mask_byte)

lemma length_mask_bytes [simp]: "length (mask_bytes n b) = length b"
  by (simp add: mask_bytes_def)

lemma mask_bytes_idem [simp]: "mask_bytes n (mask_bytes n b) = mask_bytes n b"
  by (rule nth_equalityI) (simp_all add: mask_bytes_def)

lemma masked_Masked [simp]: "masked (Masked p)"
  by (cases "paddr p") (simp_all add: masked_def Masked_def)

lemma parse_prefix_items_masked: "parse_prefix_items items = Inr ps \<Longrightarrow> list_all masked ps"
  by (induction items arbitrary: ps) (auto split: option.splits)

lemma size_unit_pos: "0 < size_unit t"
  by (simp add: size_unit_def)

lemma scaled_bound: "0 < u \<Longrightarrow> 0 < a \<Longrightarrow> a \<le> B div u \<Longrightarrow> 0 < a * u \<and> a * u \<le> B" for a u B :: int
proof -
  assume u: "0 < u" and a: "0 < a" "a \<le> B div u"
  have "a * u \<le> B div u * u" using a u by (intro mult_right_mono) auto
  also have "\<dots> \<le> B" using u minus_mod_eq_div_mult [of B u] pos_mod_sign [of u B] by linarith
  finally show ?thesis using a u by simp
qed

lemma parseSize_bounds: "parseSize v = Inr n \<Longrightarrow> 0 < n \<and> n \<le> 2 ^ 62"
  unfolding parseSize_def Let_def
  by (auto split: option.splits if_splits simp del: power_numeral
      dest!: scaled_bound [OF size_unit_pos, rotated] simp: not_le not_less)

lemma set_buffer_size_ok: "globals_ok g \<Longrightarrow> globals_ok (set_buffer_size l n g)"
  by (auto simp: globals_ok_def set_buffer_size_def minBufferSize_def maxBufferSize_def Let_def)

lemma duration_key_cases:
  assumes "duration_key k = Some upd"
  shows "upd = (\<lambda>d. HandshakeTimeout_update (\<lambda>_. d)) \<or> upd = (\<lambda>d. ConnectTimeout_update (\<lambda>_. d))
    \<or> upd = (\<lambda>d. IdleTimeout_update (\<lambda>_. d)) \<or> upd = (\<lambda>d. HalfCloseTimeout_update (\<lambda>_. d))
    \<or> upd = (\<lambda>d. StatsInterval_update (\<lambda>_. d))"
  using map_of_SomeD [OF assms [unfolded duration_key_def]] by simp blast

lemma duration_key_ok: "duration_key k = Some upd \<Longrightarrow> duration_ok d \<Longrightarrow> globals_ok g \<Longrightarrow> globals_ok (upd d g)"
  by (drule duration_key_cases) (elim disjE; simp add: globals_ok_def)

lemma count_key_cases:
  assumes "count_key k = Some upd"
  shows "upd = (\<lambda>n. MaxConnections_update (\<lambda>_. n)) \<or> upd = (\<lambda>n. MaxHandshakesPerIP_update (\<lambda>_. n))
    \<or> upd = (\<lambda>n. AllowCacheSize_update (\<lambda>_. n)) \<or> upd = (\<lambda>n. DenyCacheSize_update (\<lambda>_. n))"
  using map_of_SomeD [OF assms [unfolded count_key_def]] by simp blast

lemma count_key_ok: "count_key k = Some upd \<Longrightarrow> n < 2 ^ 31 \<Longrightarrow> globals_ok g \<Longrightarrow> globals_ok (upd n g)"
  by (drule count_key_cases) (elim disjE; simp add: globals_ok_def)

lemma flag_key_cases:
  assumes "flag_key k = Some upd"
  shows "upd = (\<lambda>b. LowLatency_update (\<lambda>_. b)) \<or> upd = (\<lambda>b. UseSplice_update (\<lambda>_. b))
    \<or> upd = (\<lambda>b. RememberNonce_update (\<lambda>_. b)) \<or> upd = (\<lambda>b. AcmeAgreeTOS_update (\<lambda>_. b))"
  using map_of_SomeD [OF assms [unfolded flag_key_def]] by simp blast

lemma flag_key_ok: "flag_key k = Some upd \<Longrightarrow> globals_ok g \<Longrightarrow> globals_ok (upd b g)"
  by (drule flag_key_cases) (elim disjE; simp add: globals_ok_def)

lemma reload_at_least: "duration_ok d \<Longrightarrow> \<not> (d div Second \<noteq> 0 \<and> d div Second < k) \<Longrightarrow> d = 0 \<or> k * Second \<le> d"
proof -
  assume d: "duration_ok d" and k: "\<not> (d div Second \<noteq> 0 \<and> d div Second < k)"
  have "d = d div Second * Second" using d minus_mod_eq_div_mult [of d Second] by (simp add: duration_ok_def)
  moreover have "0 < Second" by (simp add: Second_def)
  ultimately show ?thesis using k by (metis mult_le_cancel_right_pos mult_zero_left not_less)
qed

lemma set_reload_ok: "set_reload d g = Inr g' \<Longrightarrow> duration_ok d \<Longrightarrow> globals_ok g \<Longrightarrow> globals_ok g'"
  using reload_at_least [of d MinReloadInterval]
  by (simp add: set_reload_def Let_def globals_ok_def split: if_splits) force

lemma dns_resolvers_ok: "dns_resolvers v = Inr rs \<Longrightarrow> list_all resolverAddress rs"
  by (auto simp: dns_resolvers_def Let_def list_all_iff find_None_iff split: option.splits if_splits)

lemma globals_ok_fields [simp]:
  "globals_ok (PublicIPs_update f g) = globals_ok g" "globals_ok (AcmeEmail_update h g) = globals_ok g"
  "globals_ok (AcmeDirectory_update h g) = globals_ok g" "globals_ok (AcmeCAFile_update h g) = globals_ok g"
  "globals_ok (Ignored_update f g) = globals_ok g" "globals_ok (Warnings_update w g) = globals_ok g"
  by (simp_all add: globals_ok_def)

lemma globals_ok_set:
  "globals_ok g \<Longrightarrow> list_all masked ps \<Longrightarrow> globals_ok (g\<lparr>ProxyTrustSource := ps\<rparr>)"
  "globals_ok g \<Longrightarrow> value \<noteq> [] \<Longrightarrow> globals_ok (g\<lparr>CARoot := value\<rparr>)"
  "globals_ok g \<Longrightarrow> 1 \<le> n \<Longrightarrow> globals_ok (g\<lparr>ExpiryThresholdDays := n\<rparr>)"
  "globals_ok g \<Longrightarrow> list_all resolverAddress rs \<Longrightarrow> globals_ok (g\<lparr>DNSResolvers := rs\<rparr>)"
  by (simp_all add: globals_ok_def)

lemma other_keys_ok:
  "(k', h) \<in> set other_keys \<Longrightarrow> h k v n g = Inr g' \<Longrightarrow> globals_ok g \<Longrightarrow> globals_ok g'"
  unfolding other_keys_def list.set insert_iff empty_iff prod.inject
  by (elim disjE conjE FalseE; hypsubst)
     (auto simp: globals_ok_set set_buffer_size_ok parsePrefixes_def split: if_splits
       dest: set_reload_ok [OF _ secs_ok] dns_resolvers_ok parse_prefix_items_masked)

lemma other_key_ok: "other_key k v n g = Inr g' \<Longrightarrow> globals_ok g \<Longrightarrow> globals_ok g'"
  by (simp add: other_key_def split: option.split_asm) (blast dest: map_of_SomeD intro: other_keys_ok)

lemma global_key_ok: "global_key k v n g = Inr g' \<Longrightarrow> globals_ok g \<Longrightarrow> globals_ok g'"
  by (simp add: global_key_def split: option.split_asm)
     (auto dest: secs_ok num_ok other_key_ok intro: duration_key_ok count_key_ok flag_key_ok)

lemma logging_key_ok: "logging_key k v g = Inr g' \<Longrightarrow> globals_ok g \<Longrightarrow> globals_ok g'"
  by (simp add: logging_key_def Let_def split: if_split_asm)
     (auto simp: globals_ok_def dest: num_ok parseSize_bounds)

text \<open>Masking a network changes none of its members.\<close>

lemma bits_of_bytes_simps [simp]:
  "bits_of_bytes [] = []" "bits_of_bytes (b # bs) = map (\<lambda>i. bit b (7 - i)) [0..<8] @ bits_of_bytes bs"
  by (simp_all add: bits_of_bytes_def)


text \<open>Masking a network changes none of its members.\<close>

lemma take_map_upt8: "take n (map f [0..<8]) = map f [0..<min n 8]"
  by (cases "n \<le> 8") (simp_all add: take_map min_def)

lemma mask_bits_at:
  "take (n - 8 * i) (bits_of_bytes (map (\<lambda>(i, b). mask_byte n i b) (zip [i..<i + length bs] bs)))
   = take (n - 8 * i) (bits_of_bytes bs)"
proof (induction bs arbitrary: i)
  case (Cons b bs)
  have head: "take (n - 8 * i) (map (\<lambda>j. bit (mask_byte n i b) (7 - j)) [0..<8]) =
      take (n - 8 * i) (map (\<lambda>j. bit b (7 - j)) [0..<8])"
    by (auto simp: take_map_upt8 bit_mask_byte)
  have split: "zip [i..<i + length (b # bs)] (b # bs) = (i, b) # zip [Suc i..<Suc i + length bs] bs"
    by (simp add: upt_rec)
  have "n - 8 * i - 8 = n - 8 * Suc i" by simp
  with head Cons [of "Suc i"] show ?case by (simp only: split) (simp add: take_append)
qed simp

lemma mask_bytes_bits: "take n (bits_of_bytes (mask_bytes n bs)) = take n (bits_of_bytes bs)"
  using mask_bits_at [of n 0 bs] by (simp add: mask_bytes_def)

lemma Masked_Contains: "prefix_Contains (Masked p) a = prefix_Contains p a"
  by (cases "paddr p") (auto simp: Masked_def prefix_Contains_def mask_bytes_bits split: addr.splits)

end
