(* ===== verification/Listener_Set.thy ===== *)
theory Listener_Set
  imports Config_Values
begin

text \<open>
  The listeners as a set (config.go, console_config.go): the console's own listener, the checks
  that no two share a name or an address, and the http_to_https_redirect listener made from them.
\<close>

datatype listener_error =
    NoListeners
  | NameRequired nat
  | NameReserved nat string
  | PortRequired nat
  | NameUsed nat string nat
  | ConsoleReserved string nat string nat string
  | Overlaps nat string nat string nat string
  | NoConsole nat
  | ConsoleTwice nat string
  | ConsoleBindFixed nat string
  | Port80Taken string nat string

definition RedirectListenerName :: string where
  "RedirectListenerName = ''http-to-https-redirect''"

definition isWildcard :: "string \<Rightarrow> bool" where
  "isWildcard b = (case ParseAddr b of Some a \<Rightarrow> IsUnspecified a | None \<Rightarrow> False)"

text \<open>The first pair of addresses, one of each list, that are the same or of which one is a wildcard.\<close>

fun overlap_with :: "string \<Rightarrow> string list \<Rightarrow> string option" where
  "overlap_with x [] = None"
| "overlap_with x (y # ys) =
     (if x = y \<or> isWildcard x \<or> isWildcard y then Some y else overlap_with x ys)"

fun bindsOverlap :: "string list \<Rightarrow> string list \<Rightarrow> (string \<times> string) option" where
  "bindsOverlap [] ys = None"
| "bindsOverlap (x # xs) ys =
     (case overlap_with x ys of Some y \<Rightarrow> Some (x, y) | None \<Rightarrow> bindsOverlap xs ys)"

definition sameBinds :: "string list \<Rightarrow> string list \<Rightarrow> bool" where
  "sameBinds a b \<longleftrightarrow> length a = length b \<and> list_all (\<lambda>x. list_ex (\<lambda>y. x = y) b) a"

subsection \<open>The console's listener\<close>

definition conAddrs :: "ConsoleConfig \<Rightarrow> string list" where
  "conAddrs con = map (\<lambda>b. JoinHostPort b (Itoa (conPort con))) (conBinds con)"

text \<open>
  \<open>resolveConsoleAlias\<close>: the listeners' and the rules' listener names, with their lines.
\<close>

definition resolveConsoleAlias ::
    "ConsoleConfig option \<Rightarrow> Listener list \<Rightarrow> (nat \<times> string option) list \<Rightarrow> (listener_error, unit) result" where
  "resolveConsoleAlias con ls raws =
     (if con \<noteq> None then Inr ()
      else case find (\<lambda>l. lName l = consoleAlias) ls of
        Some l \<Rightarrow> Inl (NoConsole (lLine l))
      | None \<Rightarrow>
          (case find (\<lambda>r. snd r = Some consoleAlias) raws of
             Some r \<Rightarrow> Inl (NoConsole (fst r))
           | None \<Rightarrow> Inr ()))"

definition console_listener :: "ConsoleConfig \<Rightarrow> Listener \<Rightarrow> Listener" where
  "console_listener con l = l\<lparr>lName := consoleAlias, lBind := conBind con, lBinds := conBinds con,
     lPort := conPort con, lConsole := True\<rparr>"

text \<open>One pass over the listeners; \<open>placed\<close> says the console's has been met.\<close>

fun place_loop :: "ConsoleConfig \<Rightarrow> bool \<Rightarrow> Listener list \<Rightarrow> (listener_error, bool \<times> Listener list) result" where
  "place_loop con placed [] = Inr (placed, [])"
| "place_loop con placed (l # ls) =
     (if \<not> EqualFold (lName l) consoleAlias
      then bind_result (place_loop con placed ls) (\<lambda>(p, ls'). Inr (p, l # ls'))
      else if placed then Inl (ConsoleTwice (lLine l) consoleAlias)
      else if lBindSet l \<or> lPortSet l then Inl (ConsoleBindFixed (lLine l) (Join '', '' (conAddrs con)))
      else bind_result (place_loop con True ls) (\<lambda>(p, ls'). Inr (p, console_listener con l # ls')))"

definition placeConsoleListener :: "ConsoleConfig option \<Rightarrow> Listener list \<Rightarrow> (listener_error, Listener list) result" where
  "placeConsoleListener con0 ls =
     (case con0 of
        None \<Rightarrow> Inr ls
      | Some con \<Rightarrow>
          bind_result (place_loop con False ls)
            (\<lambda>(placed, ls'). Inr (if placed then ls' else ls' @ [console_listener con zero_listener])))"

subsection \<open>Checks\<close>

text \<open>\<open>l\<close> against one listener before it.\<close>

definition check_against :: "Listener \<Rightarrow> Listener \<Rightarrow> (listener_error, unit) result" where
  "check_against l prev =
     (if EqualFold (lName prev) (lName l) then Inl (NameUsed (lLine l) (lName l) (lLine prev))
      else if lPort prev \<noteq> lPort l then Inr ()
      else if lConsole prev \<or> lConsole l
      then (if sameBinds (lBinds prev) (lBinds l)
            then let (console, other) = (if lConsole l then (l, prev) else (prev, l)) in
              Inl (ConsoleReserved (lName other) (lLine other) (lBind other) (lPort l) (lName console))
            else Inr ())
      else case bindsOverlap (lBinds l) (lBinds prev) of
             Some (a, b) \<Rightarrow> Inl (Overlaps (lLine l) a (lPort l) (lName prev) (lLine prev) b)
           | None \<Rightarrow> Inr ())"

fun check_all :: "Listener \<Rightarrow> Listener list \<Rightarrow> (listener_error, unit) result" where
  "check_all l [] = Inr ()"
| "check_all l (p # ps) = bind_result (check_against l p) (\<lambda>_. check_all l ps)"

definition check_listener :: "Listener list \<Rightarrow> Listener \<Rightarrow> (listener_error, unit) result" where
  "check_listener prevs l =
     (if lName l = [] then Inl (NameRequired (lLine l))
      else if EqualFold (lName l) RedirectListenerName then Inl (NameReserved (lLine l) RedirectListenerName)
      else if lPort l = 0 then Inl (PortRequired (lLine l))
      else check_all l prevs)"

fun check_listeners :: "Listener list \<Rightarrow> Listener list \<Rightarrow> (listener_error, unit) result" where
  "check_listeners prevs [] = Inr ()"
| "check_listeners prevs (l # ls) =
     bind_result (check_listener prevs l) (\<lambda>_. check_listeners (prevs @ [l]) ls)"

definition resolveListeners :: "Config \<Rightarrow> (listener_error, Config) result" where
  "resolveListeners c =
     (case Listeners c of
        [] \<Rightarrow> Inl NoListeners
      | l # ls \<Rightarrow>
          bind_result (check_listeners [] (Listeners c))
            (\<lambda>_. Inr (c\<lparr>Bind := lBind l, Binds := lBinds l, Port := lPort l\<rparr>)))"

subsection \<open>The redirect listener\<close>

text \<open>Every address once, and whether a wildcard of each family is among them.\<close>

definition all_binds :: "Listener list \<Rightarrow> string list" where
  "all_binds ls = keep_first [] (concat (map lBinds ls))"

definition any_family :: "(addr \<Rightarrow> bool) \<Rightarrow> Listener list \<Rightarrow> bool" where
  "any_family fam ls = list_ex (\<lambda>b. case ParseAddr b of Some a \<Rightarrow> IsUnspecified a \<and> fam a | None \<Rightarrow> False)
     (concat (map lBinds ls))"

definition covered :: "bool \<Rightarrow> bool \<Rightarrow> string \<Rightarrow> bool" where
  "covered any4 any6 b = (case ParseAddr b of
     Some a \<Rightarrow> \<not> IsUnspecified a \<and> (Is4 a \<and> any4 \<or> Is6 a \<and> any6)
   | None \<Rightarrow> False)"

definition redirect_binds :: "Listener list \<Rightarrow> string list" where
  "redirect_binds ls = filter (\<lambda>b. \<not> covered (any_family Is4 ls) (any_family Is6 ls) b) (all_binds ls)"

fun port80_conflict :: "string list \<Rightarrow> Listener list \<Rightarrow> listener_error option" where
  "port80_conflict binds [] = None"
| "port80_conflict binds (l # ls) =
     (if lPort l \<noteq> 80 then port80_conflict binds ls
      else case bindsOverlap (lBinds l) binds of
             Some (a, b) \<Rightarrow> Some (Port80Taken (lName l) (lLine l) a)
           | None \<Rightarrow> port80_conflict binds ls)"

definition makeRedirectListener :: "Config \<Rightarrow> (listener_error, Config) result" where
  "makeRedirectListener c =
     (let binds = redirect_binds (Listeners c) in
      case port80_conflict binds (Listeners c) of
        Some e \<Rightarrow> Inl e
      | None \<Rightarrow> Inr (c\<lparr>Redirect := Some (zero_listener\<lparr>lName := RedirectListenerName,
          lBind := Join ''; '' binds, lBinds := binds, lPort := 80, lIsRedirect := True\<rparr>)\<rparr>))"


subsection \<open>Sockets\<close>

text \<open>
  The network each address of a listener is opened on (\<open>bindListener\<close>): a lone IPv6 wildcard is
  dual-stack, one of several addresses takes its own family only.
\<close>

definition bind_network :: "nat \<Rightarrow> string \<Rightarrow> string" where
  "bind_network n b = (if 1 < n \<and> listenNetwork b = ''tcp'' then ''tcp6'' else listenNetwork b)"

definition networks :: "string list \<Rightarrow> (string \<times> string) list" where
  "networks bs = map (\<lambda>b. (bind_network (length bs) b, b)) bs"

text \<open>Whether a socket takes a connection made to the address \<open>d\<close>.\<close>

fun socket_takes :: "addr \<Rightarrow> string \<times> string \<Rightarrow> bool" where
  "socket_takes d (net, b) =
     (case ParseAddr b of
        None \<Rightarrow> b = []
      | Some a \<Rightarrow>
          if IsUnspecified a then net = ''tcp'' \<or> net = ''tcp4'' \<and> Is4 d \<or> net = ''tcp6'' \<and> Is6 d
          else a = d)"

definition takes :: "string list \<Rightarrow> addr \<Rightarrow> bool" where
  "takes bs d \<longleftrightarrow> list_ex (socket_takes d) (networks bs)"

end
