(* ===== verification/Listener_Set_Props.thy ===== *)
theory Listener_Set_Props
  imports Listener_Set
begin

text \<open>
  What the listener checks guarantee: which sets of listeners are accepted, that the console's
  listener is the only one of its name, and which connections the redirect listener answers.
\<close>

subsection \<open>Accepted listeners\<close>

lemma check_against_ok:
  "check_against l p = Inr () \<longleftrightarrow>
     \<not> EqualFold (lName p) (lName l) \<and>
     (lPort p = lPort l \<longrightarrow>
       (if lConsole p \<or> lConsole l then \<not> sameBinds (lBinds p) (lBinds l)
        else bindsOverlap (lBinds l) (lBinds p) = None))"
  by (auto simp: check_against_def Let_def split: option.splits prod.splits)

lemma check_all_ok: "check_all l ps = Inr () \<longleftrightarrow> (\<forall>p\<in>set ps. check_against l p = Inr ())"
  by (induction ps) auto

lemma overlap_with_None: "overlap_with x ys = None \<longleftrightarrow> (\<forall>y\<in>set ys. x \<noteq> y \<and> \<not> isWildcard x \<and> \<not> isWildcard y)"
  by (induction ys) auto

lemma overlap_with_Some: "overlap_with x ys = Some y \<Longrightarrow> y \<in> set ys \<and> (x = y \<or> isWildcard x \<or> isWildcard y)"
  by (induction ys) (auto split: if_splits)

lemma bindsOverlap_None:
  "bindsOverlap xs ys = None \<longleftrightarrow> (\<forall>x\<in>set xs. \<forall>y\<in>set ys. x \<noteq> y \<and> \<not> isWildcard x \<and> \<not> isWildcard y)"
  by (induction xs) (auto simp: overlap_with_None split: option.splits dest: overlap_with_Some)

text \<open>Two listeners that may exist together, \<open>p\<close> listed before \<open>l\<close>.\<close>

definition compatible :: "Listener \<Rightarrow> Listener \<Rightarrow> bool" where
  "compatible p l \<longleftrightarrow>
     ToLower (lName p) \<noteq> ToLower (lName l) \<and>
     (lPort p = lPort l \<longrightarrow>
       (if lConsole p \<or> lConsole l then \<not> sameBinds (lBinds p) (lBinds l)
        else \<forall>a\<in>set (lBinds p). \<forall>b\<in>set (lBinds l). a \<noteq> b \<and> \<not> isWildcard a \<and> \<not> isWildcard b))"

definition acceptable :: "Listener \<Rightarrow> bool" where
  "acceptable l \<longleftrightarrow> lName l \<noteq> [] \<and> ToLower (lName l) \<noteq> RedirectListenerName \<and> lPort l \<noteq> 0"

lemma check_against_compatible: "check_against l p = Inr () \<longleftrightarrow> compatible p l"
  by (simp add: check_against_ok compatible_def EqualFold_def bindsOverlap_None) blast

lemma check_listener_ok:
  "check_listener ps l = Inr () \<longleftrightarrow> acceptable l \<and> (\<forall>p\<in>set ps. compatible p l)"
proof -
  have "ToLower RedirectListenerName = RedirectListenerName"
    by (simp add: RedirectListenerName_def lower_char_def)
  then show ?thesis
    by (auto simp: check_listener_def acceptable_def EqualFold_def check_all_ok check_against_compatible)
qed

lemma check_listeners_ok:
  "check_listeners ps ls = Inr () \<longleftrightarrow>
     (\<forall>l\<in>set ls. acceptable l \<and> (\<forall>p\<in>set ps. compatible p l)) \<and> sorted_wrt compatible ls"
  by (induction ps ls rule: check_listeners.induct) (auto simp: check_listener_ok)

lemma resolveListeners_ok:
  "resolveListeners c = Inr c' \<longleftrightarrow>
     Listeners c \<noteq> [] \<and> (\<forall>l\<in>set (Listeners c). acceptable l) \<and> sorted_wrt compatible (Listeners c)
     \<and> c' = c\<lparr>Bind := lBind (hd (Listeners c)), Binds := lBinds (hd (Listeners c)), Port := lPort (hd (Listeners c))\<rparr>"
  using check_listeners_ok [of "[]" "Listeners c"]
  by (auto simp: resolveListeners_def split: list.split simp del: check_listeners.simps)

lemma compatible_names: "sorted_wrt compatible ls \<Longrightarrow> distinct (map (ToLower \<circ> lName) ls)"
  by (induction ls) (auto simp: compatible_def)

lemma compatible_pairs:
  "sorted_wrt compatible ls \<Longrightarrow> p \<in> set ls \<Longrightarrow> l \<in> set ls \<Longrightarrow> p \<noteq> l \<Longrightarrow> compatible p l \<or> compatible l p"
  by (induction ls) auto

lemma JoinHostPort_inject: "JoinHostPort h p = JoinHostPort h' p \<Longrightarrow> h = h'"
  by (auto simp: JoinHostPort_def split: if_splits)

lemma Addrs_disjoint:
  assumes "compatible p l" "\<not> lConsole p" "\<not> lConsole l" "lPort p = lPort l"
  shows "set (Addrs p) \<inter> set (Addrs l) = {}"
  using assms by (auto simp: Addrs_def compatible_def dest: JoinHostPort_inject)


subsection \<open>The console's listener\<close>

lemma place_loop_ok:
  "place_loop con placed ls = Inr (p, ls') \<Longrightarrow>
     length (filter (\<lambda>l. EqualFold (lName l) consoleAlias) ls) = (if p \<and> \<not> placed then 1 else 0)
     \<and> (placed \<longrightarrow> p)
     \<and> ls' = map (\<lambda>l. if EqualFold (lName l) consoleAlias then console_listener con l else l) ls"
  by (induction con placed ls arbitrary: p ls' rule: place_loop.induct) (auto split: if_splits)

definition console_placed :: "ConsoleConfig \<Rightarrow> Listener \<Rightarrow> bool" where
  "console_placed con l \<longleftrightarrow> lName l = consoleAlias \<and> lConsole l \<and> lBind l = conBind con
     \<and> lBinds l = conBinds con \<and> lPort l = conPort con"

lemma console_listener_placed [simp]: "console_placed con (console_listener con l)"
  by (simp add: console_placed_def console_listener_def)

text \<open>Placing the console changes no other listener and leaves exactly one that is the console's.\<close>

lemma placed_once:
  assumes "placeConsoleListener (Some con) ls = Inr ls'"
  shows "length (filter (\<lambda>l. EqualFold (lName l) consoleAlias) ls') = 1
     \<and> (\<forall>l\<in>set ls'. EqualFold (lName l) consoleAlias \<longrightarrow> console_placed con l)
     \<and> filter (\<lambda>l. \<not> EqualFold (lName l) consoleAlias) ls' = filter (\<lambda>l. \<not> EqualFold (lName l) consoleAlias) ls"
proof -
  obtain p ls1 where 1: "place_loop con False ls = Inr (p, ls1)"
      "ls' = (if p then ls1 else ls1 @ [console_listener con zero_listener])"
    using assms by (auto simp: placeConsoleListener_def)
  let ?at = "\<lambda>l. EqualFold (lName l) consoleAlias"
  let ?put = "\<lambda>l. if ?at l then console_listener con l else l"
  have name [simp]: "?at (console_listener con l)" for l by (simp add: console_listener_def EqualFold_def)
  have ls1: "ls1 = map ?put ls" "length (filter ?at ls) = (if p then 1 else 0)"
    using place_loop_ok [OF 1(1)] by auto
  have "filter ?at (map ?put xs) = map ?put (filter ?at xs)"
       "filter (\<lambda>l. \<not> ?at l) (map ?put xs) = filter (\<lambda>l. \<not> ?at l) xs" for xs
    by (induction xs) auto
  with 1(2) ls1 show ?thesis by auto
qed


subsection \<open>The redirect listener\<close>

lemma redirect_binds_set:
  "b \<in> set (redirect_binds ls) \<longleftrightarrow>
     (\<exists>l\<in>set ls. b \<in> set (lBinds l)) \<and> \<not> covered (any_family Is4 ls) (any_family Is6 ls) b"
  by (auto simp: redirect_binds_def all_binds_def keep_first_set)

lemma any_family_iff:
  "any_family fam ls \<longleftrightarrow> (\<exists>b a. b \<in> set (redirect_binds ls) \<and> ParseAddr b = Some a \<and> IsUnspecified a \<and> fam a)"
proof
  assume "any_family fam ls"
  then obtain l b where b: "l \<in> set ls" "b \<in> set (lBinds l)"
      "case ParseAddr b of Some a \<Rightarrow> IsUnspecified a \<and> fam a | None \<Rightarrow> False"
    unfolding any_family_def list_ex_iff by auto
  then obtain a where a: "ParseAddr b = Some a" "IsUnspecified a" "fam a" by (cases "ParseAddr b") auto
  then have "b \<in> set (redirect_binds ls)" using b(1,2) unfolding redirect_binds_set by (auto simp: covered_def)
  with a show "\<exists>b a. b \<in> set (redirect_binds ls) \<and> ParseAddr b = Some a \<and> IsUnspecified a \<and> fam a" by blast
next
  assume "\<exists>b a. b \<in> set (redirect_binds ls) \<and> ParseAddr b = Some a \<and> IsUnspecified a \<and> fam a"
  then obtain l b a where "l \<in> set ls" "b \<in> set (lBinds l)" "ParseAddr b = Some a" "IsUnspecified a" "fam a"
    unfolding redirect_binds_set by blast
  then show "any_family fam ls"
    unfolding any_family_def list_ex_iff by (intro bexI [of _ b]) auto
qed

lemma takes_iff: "takes bs d \<longleftrightarrow> (\<exists>b\<in>set bs. socket_takes d (bind_network (length bs) b, b))"
  by (auto simp: takes_def networks_def list_ex_iff)

lemma Is46: "IsValid d \<Longrightarrow> Is4 d \<noteq> Is6 d"
  by (cases d) auto

lemma bind_network_cases:
  "ParseAddr b = Some a \<Longrightarrow> bind_network n b = (if Is4 a then ''tcp4'' else if 1 < n then ''tcp6'' else ''tcp'')"
  by (simp add: bind_network_def listenNetwork_def)

lemma unspecified_family: "IsUnspecified a \<Longrightarrow> Is4 a \<noteq> Is6 a"
  by (cases a) auto

lemma family_wildcard_takes:
  assumes "ParseAddr b = Some a" "IsUnspecified a" "b \<in> set bs" "Is4 a \<and> Is4 d \<or> Is6 a \<and> Is6 d"
  shows "takes bs d"
  unfolding takes_iff using assms unspecified_family [OF assms(2)]
  by (intro bexI [of _ b]) (auto simp: bind_network_cases)

lemma family_takes:
  assumes "any_family Is4 ls \<and> Is4 d \<or> any_family Is6 ls \<and> Is6 d"
  shows "takes (redirect_binds ls) d"
  using assms any_family_iff [of Is4 ls] any_family_iff [of Is6 ls] family_wildcard_takes by blast

text \<open>A specific address is among the redirect's or covered by a wildcard of its family.\<close>

lemma specific_redirected:
  assumes "b \<in> set (lBinds l)" "l \<in> set ls" "ParseAddr b = Some d" "\<not> IsUnspecified d"
  shows "takes (redirect_binds ls) d"
proof (cases "covered (any_family Is4 ls) (any_family Is6 ls) b")
  case True
  then have "any_family Is4 ls \<and> Is4 d \<or> any_family Is6 ls \<and> Is6 d"
    using assms(3,4) by (simp add: covered_def) blast
  then show ?thesis by (rule family_takes)
next
  case False
  then have "b \<in> set (redirect_binds ls)" using assms(1,2) by (auto simp: redirect_binds_set)
  then show ?thesis unfolding takes_iff by (rule bexI [rotated]) (simp add: assms(3,4))
qed

lemma wildcard_redirected:
  assumes "b \<in> set (lBinds l)" "l \<in> set ls" "ParseAddr b = Some a" "IsUnspecified a"
    and "socket_takes d (bind_network n b, b)" and d: "IsValid d"
    and dual: "Is4 d \<longrightarrow> any_family Is4 ls \<or> length (redirect_binds ls) = 1 \<or> \<not> any_family Is6 ls"
  shows "takes (redirect_binds ls) d"
proof -
  have mem: "b \<in> set (redirect_binds ls)"
    using assms(1-4) by (auto simp: redirect_binds_set covered_def)
  show ?thesis
  proof (cases "Is4 a \<and> Is4 d \<or> Is6 a \<and> Is6 d")
    case True
    then show ?thesis using family_wildcard_takes [OF assms(3,4) mem] by blast
  next
    case False
    then have six: "Is6 a" "Is4 d"
      using assms(3-5) Is46 [OF d] unspecified_family [OF assms(4)] by (simp_all add: bind_network_cases split: if_splits)
    then have "any_family Is6 ls" using mem assms(3,4) any_family_iff by blast
    with dual six(2) consider "any_family Is4 ls" | "length (redirect_binds ls) = 1" by blast
    then show ?thesis
    proof cases
      case 1
      then show ?thesis using six(2) by (intro family_takes) simp
    next
      case 2
      have "socket_takes d (bind_network (length (redirect_binds ls)) b, b)"
        using assms(3,4) six unspecified_family [OF assms(4)] 2 by (simp add: bind_network_cases)
      then show ?thesis unfolding takes_iff using mem by blast
    qed
  qed
qed

text \<open>Every address a listener is reached at is redirected, except for a dual-stack one beside another.\<close>

lemma redirect_reaches:
  assumes l: "l \<in> set ls" and t: "takes (lBinds l) d" and d: "IsValid d"
    and dual: "Is4 d \<longrightarrow> any_family Is4 ls \<or> length (redirect_binds ls) = 1 \<or> \<not> any_family Is6 ls"
  shows "takes (redirect_binds ls) d"
proof -
  obtain b where b: "b \<in> set (lBinds l)" "socket_takes d (bind_network (length (lBinds l)) b, b)"
    using t unfolding takes_iff by blast
  show ?thesis
  proof (cases "ParseAddr b")
    case None
    have "\<not> covered (any_family Is4 ls) (any_family Is6 ls) b" by (simp add: covered_def None)
    then have mem: "b \<in> set (redirect_binds ls)" using l b(1) unfolding redirect_binds_set by blast
    have "socket_takes d (bind_network (length (redirect_binds ls)) b, b)" using b(2) None by simp
    with mem show ?thesis unfolding takes_iff by blast
  next
    case (Some a)
    show ?thesis
    proof (cases "IsUnspecified a")
      case True
      show ?thesis by (rule wildcard_redirected [OF b(1) l Some True b(2) d dual])
    next
      case False
      then have "a = d" using b(2) Some by simp
      with Some False show ?thesis using specific_redirected [OF b(1) l] by simp
    qed
  qed
qed


text \<open>
  C27. A list of listeners is accepted exactly when there is one, each has a name (not the redirect
  listener's) and a port, and any two can exist together: their names differ ignoring case, and on
  one port they share no address and neither has a wildcard, or, when one is the console's, they
  do not bind exactly the same addresses. The first one's address becomes the configuration's.
\<close>

theorem listeners_accepted:
  "resolveListeners c = Inr c' \<longleftrightarrow>
     Listeners c \<noteq> [] \<and> (\<forall>l\<in>set (Listeners c). acceptable l) \<and> sorted_wrt compatible (Listeners c)
     \<and> c' = c\<lparr>Bind := lBind (hd (Listeners c)), Binds := lBinds (hd (Listeners c)), Port := lPort (hd (Listeners c))\<rparr>"
  by (rule resolveListeners_ok)

definition demo_listener :: "string \<Rightarrow> string list \<Rightarrow> nat \<Rightarrow> Listener" where
  "demo_listener name bs port = zero_listener\<lparr>lName := name, lBind := Join ''; '' bs, lBinds := bs, lPort := port\<rparr>"

definition demo_config :: "Listener list \<Rightarrow> Config" where
  "demo_config ls = initial_config ''certs''\<lparr>Listeners := ls\<rparr>"

theorem listeners_accepted_witness:
  "resolveListeners (demo_config [demo_listener ''lan'' [''10.0.0.1''] 443, demo_listener ''wan'' [''192.0.2.1''] 443]) =
     Inr (demo_config [demo_listener ''lan'' [''10.0.0.1''] 443, demo_listener ''wan'' [''192.0.2.1''] 443]
       \<lparr>Bind := ''10.0.0.1'', Binds := [''10.0.0.1''], Port := 443\<rparr>)"
proof (subst listeners_accepted, intro conjI)
  let ?lan = "demo_listener ''lan'' [''10.0.0.1''] 443" and ?wan = "demo_listener ''wan'' [''192.0.2.1''] 443"
  have "list_all acceptable [?lan, ?wan]" by code_simp
  then show "\<forall>l\<in>set (Listeners (demo_config [?lan, ?wan])). acceptable l"
    by (simp add: demo_config_def)
  have "compatible ?lan ?wan" by code_simp
  then show "sorted_wrt compatible (Listeners (demo_config [?lan, ?wan]))" by (simp add: demo_config_def)
qed (simp_all add: demo_config_def demo_listener_def)



text \<open>
  The exception is real: with one listener on the IPv6 wildcard and another on an IPv4 address, a
  client of 192.0.2.7 port 443 reaches the first, and port 80 of 192.0.2.7 is not open.
\<close>

lemma gap_addresses:
  "ParseAddr ''::'' = Some (Addr6 (replicate 16 0) [])" "ParseAddr ''10.0.0.1'' = Some (Addr4 [10, 0, 0, 1])"
  by code_simp+

lemma redirect_gap:
  fixes ls :: "Listener list" and d :: addr
  defines "ls \<equiv> [demo_listener ''all'' [''::''] 443, demo_listener ''lan'' [''10.0.0.1''] 8443]"
    and "d \<equiv> Addr4 [192, 0, 2, 7]"
  shows "takes (lBinds (hd ls)) d \<and>
    (\<exists>c' r. makeRedirectListener (demo_config ls) = Inr c' \<and> Redirect c' = Some r \<and> \<not> takes (lBinds r) d)"
proof -
  have zero [simp]: "replicate 16 (0 :: byte) = [0,0,0,0,0,0,0,0,0,0,0,0,0,0,0,0]"
    "replicate 4 (0 :: byte) = [0, 0, 0, 0]"
    by code_simp+
  have binds: "redirect_binds ls = [''::'', ''10.0.0.1'']"
    by (simp add: ls_def redirect_binds_def all_binds_def demo_listener_def covered_def any_family_def gap_addresses)
  have "Listeners (demo_config ls) = ls" by (simp add: demo_config_def)
  moreover have "port80_conflict [''::'', ''10.0.0.1''] ls = None" by (simp add: ls_def demo_listener_def)
  moreover have "takes (lBinds (hd ls)) d" "\<not> takes [''::'', ''10.0.0.1''] d"
    by (simp_all add: ls_def d_def demo_listener_def takes_iff bind_network_def listenNetwork_def gap_addresses)
  ultimately show ?thesis by (simp add: makeRedirectListener_def binds)
qed

end
