(* ===== verification/Password.thy ===== *)
theory Password
  imports Go_Strings
begin

text \<open>
  Password hashes (password.go): the two formats, their costs' bounds, and the check. The key
  derivations \<open>IDKey\<close> (argon2id) and \<open>PBKDF2\<close> are parameters, as is the random salt; base64 is the
  raw standard encoding of the library, which skips line breaks when it decodes. Derived keys are
  compared whole (the code does so in constant time).
\<close>

subsection \<open>Base64 without padding\<close>

definition b64_alphabet :: string where
  "b64_alphabet = ''ABCDEFGHIJKLMNOPQRSTUVWXYZabcdefghijklmnopqrstuvwxyz0123456789+/''"

definition b64_char :: "nat \<Rightarrow> char" where
  "b64_char n = (if n < 26 then char_of (65 + n) else if n < 52 then char_of (71 + n)
     else if n < 62 then char_of (n - 4) else if n = 62 then CHR ''+'' else CHR ''/'')"

definition b64_val :: "char \<Rightarrow> nat option" where
  "b64_val c =
     (let n = of_char c :: nat in
      if 65 \<le> n \<and> n \<le> 90 then Some (n - 65)
      else if 97 \<le> n \<and> n \<le> 122 then Some (n - 71)
      else if 48 \<le> n \<and> n \<le> 57 then Some (n + 4)
      else if c = CHR ''+'' then Some 62 else if c = CHR ''/'' then Some 63 else None)"

fun b64_encode :: "nat list \<Rightarrow> nat list" where
  "b64_encode [] = []"
| "b64_encode [a] = [a div 4, a mod 4 * 16]"
| "b64_encode [a, b] = [a div 4, a mod 4 * 16 + b div 16, b mod 16 * 4]"
| "b64_encode (a # b # c # s) = [a div 4, a mod 4 * 16 + b div 16, b mod 16 * 4 + c div 64, c mod 64] @ b64_encode s"

fun b64_decode :: "nat list \<Rightarrow> nat list option" where
  "b64_decode [] = Some []"
| "b64_decode [p] = None"
| "b64_decode [p, q] = Some [p * 4 + q div 16]"
| "b64_decode [p, q, r] = Some [p * 4 + q div 16, q mod 16 * 16 + r div 4]"
| "b64_decode (p # q # r # t # s) =
     map_option (\<lambda>out. [p * 4 + q div 16, q mod 16 * 16 + r div 4, r mod 4 * 64 + t] @ out) (b64_decode s)"

definition EncodeToString :: "bytes \<Rightarrow> string" where
  "EncodeToString b = map b64_char (b64_encode (map unat b))"

definition DecodeString :: "string \<Rightarrow> bytes option" where
  "DecodeString s =
     (let t = filter (\<lambda>c. c \<noteq> CHR 0x0A \<and> c \<noteq> CHR 0x0D) s in
      if list_all (\<lambda>c. b64_val c \<noteq> None) t
      then map_option (map of_nat) (b64_decode (map (\<lambda>c. the (b64_val c)) t)) else None)"

subsection \<open>Hashes\<close>

definition hashPrefix :: string where "hashPrefix = ''pbkdf2-sha256''"
definition argon2Prefix :: string where "argon2Prefix = ''$argon2id$''"
definition argon2Version :: nat where "argon2Version = 19"
definition argon2Memory :: nat where "argon2Memory = 64 * 1024"
definition argon2Passes :: nat where "argon2Passes = 3"
definition argon2Lanes :: nat where "argon2Lanes = 4"

datatype hash_error =
    NotAHash
  | BadIterations
  | BadSalt
  | BadKey
  | WrongParts
  | WrongVersion string
  | BadParameter string
  | BadMemory
  | BadPasses
  | BadLanes
  | BadArgonSalt
  | BadArgonHash

definition parseHash :: "string \<Rightarrow> (hash_error, int \<times> bytes \<times> bytes) result" where
  "parseHash hash =
     (let parts = Split (CHR ''$'') hash in
      if length parts \<noteq> 4 \<or> parts ! 0 \<noteq> hashPrefix then Inl NotAHash
      else case Atoi (parts ! 1) of
        None \<Rightarrow> Inl BadIterations
      | Some iter \<Rightarrow>
          if iter < 1000 then Inl BadIterations
          else case DecodeString (parts ! 2) of
            None \<Rightarrow> Inl BadSalt
          | Some salt \<Rightarrow>
              if length salt < 8 then Inl BadSalt
              else case DecodeString (parts ! 3) of
                None \<Rightarrow> Inl BadKey
              | Some key \<Rightarrow> if length key < 16 then Inl BadKey else Inr (iter, salt, key))"

record argon2Params =
  apMemory :: nat
  apPasses :: nat
  apLanes :: nat
  apSalt :: bytes
  apKey :: bytes

text \<open>One item \<open>k=v\<close> of the costs (\<open>strings.Cut\<close>), then all of them; a later one wins.\<close>

definition argon2_param :: "string \<Rightarrow> nat \<times> nat \<times> nat \<Rightarrow> (hash_error, nat \<times> nat \<times> nat) result" where
  "argon2_param kv st =
     (let k = takeWhile (\<lambda>c. c \<noteq> CHR ''='') kv; v = drop (length k + 1) kv in
      case ParseUint 32 v of
        None \<Rightarrow> Inl (BadParameter kv)
      | Some n \<Rightarrow>
          (case st of (m, t, l) \<Rightarrow>
             if k = ''m'' then Inr (n, t, l)
             else if k = ''t'' then Inr (m, n, l)
             else if k = ''p'' then Inr (m, t, n)
             else Inl (BadParameter kv)))"

fun argon2_costs :: "string list \<Rightarrow> nat \<times> nat \<times> nat \<Rightarrow> (hash_error, nat \<times> nat \<times> nat) result" where
  "argon2_costs [] st = Inr st"
| "argon2_costs (kv # kvs) st = bind_result (argon2_param kv st) (argon2_costs kvs)"

definition parseArgon2 :: "string \<Rightarrow> (hash_error, argon2Params) result" where
  "parseArgon2 hash =
     (let parts = Split (CHR ''$'') hash in
      if length parts \<noteq> 6 \<or> parts ! 1 \<noteq> ''argon2id'' then Inl WrongParts
      else if parts ! 2 \<noteq> ''v='' @ Itoa argon2Version then Inl (WrongVersion (parts ! 2))
      else bind_result (argon2_costs (Split (CHR '','') (parts ! 3)) (0, 0, 0)) (\<lambda>(m, t, l).
        if m < 8 \<or> 2 ^ 20 < m then Inl BadMemory
        else if t < 1 \<or> 100 < t then Inl BadPasses
        else if l < 1 \<or> 64 < l then Inl BadLanes
        else case DecodeString (parts ! 4) of
          None \<Rightarrow> Inl BadArgonSalt
        | Some salt \<Rightarrow>
            if length salt < 8 then Inl BadArgonSalt
            else case DecodeString (parts ! 5) of
              None \<Rightarrow> Inl BadArgonHash
            | Some key \<Rightarrow>
                if length key < 16 then Inl BadArgonHash
                else Inr \<lparr>apMemory = m, apPasses = t, apLanes = l, apSalt = salt, apKey = key\<rparr>))"

definition validHash :: "string \<Rightarrow> (hash_error, unit) result" where
  "validHash hash =
     (if HasPrefix hash argon2Prefix then bind_result (parseArgon2 hash) (\<lambda>_. Inr ())
      else bind_result (parseHash hash) (\<lambda>_. Inr ()))"

type_synonym id_key = "string \<Rightarrow> bytes \<Rightarrow> nat \<Rightarrow> nat \<Rightarrow> nat \<Rightarrow> nat \<Rightarrow> bytes"

definition hashPassword :: "id_key \<Rightarrow> bytes \<Rightarrow> string \<Rightarrow> string" where
  "hashPassword IDKey salt password =
     (let key = IDKey password salt argon2Passes argon2Memory argon2Lanes 32 in
      argon2Prefix @ ''v='' @ Itoa argon2Version @ ''$m='' @ Itoa argon2Memory @ '',t='' @ Itoa argon2Passes
        @ '',p='' @ Itoa argon2Lanes @ ''$'' @ EncodeToString salt @ ''$'' @ EncodeToString key)"

definition checkPassword ::
    "id_key \<Rightarrow> (string \<Rightarrow> bytes \<Rightarrow> int \<Rightarrow> nat \<Rightarrow> bytes option) \<Rightarrow> string \<Rightarrow> string \<Rightarrow> bool" where
  "checkPassword IDKey PBKDF2 hash password =
     (if HasPrefix hash argon2Prefix
      then (case parseArgon2 hash of
              Inl e \<Rightarrow> False
            | Inr p \<Rightarrow> IDKey password (apSalt p) (apPasses p) (apMemory p) (apLanes p) (length (apKey p)) = apKey p)
      else (case parseHash hash of
              Inl e \<Rightarrow> False
            | Inr (iter, salt, want) \<Rightarrow> PBKDF2 password salt iter (length want) = Some want))"

subsection \<open>Round trips\<close>

lemma of_char_char_of_small: "n < 256 \<Longrightarrow> (of_char (char_of n :: char) :: nat) = n"
  by simp

lemma b64_val_char: "n < 64 \<Longrightarrow> b64_val (b64_char n) = Some n"
  by (auto simp: b64_val_def b64_char_def Let_def)

lemma b64_char_plain: "n < 64 \<Longrightarrow> b64_char n \<noteq> CHR 0x0A \<and> b64_char n \<noteq> CHR 0x0D \<and> b64_char n \<noteq> CHR ''$''"
  using b64_val_char [of n] by (auto simp: b64_val_def)

lemma b64_encode_less: "list_all (\<lambda>a. a < 256) bs \<Longrightarrow> x \<in> set (b64_encode bs) \<Longrightarrow> x < 64"
  by (induction bs rule: b64_encode.induct) (auto simp: less_mult_imp_div_less)

lemma b64_decode_encode: "list_all (\<lambda>a. a < 256) bs \<Longrightarrow> b64_decode (b64_encode bs) = Some bs"
  by (induction bs rule: b64_encode.induct) (auto simp: mult.commute div_mult_mod_eq)


lemma bytes_small: "list_all (\<lambda>a. a < 256) (map unat (b :: bytes))"
  by (simp add: list_all_iff)

lemma EncodeToString_chars: "c \<in> set (EncodeToString b) \<Longrightarrow> \<exists>n<64. c = b64_char n"
  using b64_encode_less [OF bytes_small [of b]] by (auto simp: EncodeToString_def)

lemma EncodeToString_no_dollar: "CHR ''$'' \<notin> set (EncodeToString b)"
  using EncodeToString_chars [of "CHR ''$''" b] b64_char_plain by metis

lemma DecodeString_EncodeToString: "DecodeString (EncodeToString b) = Some b"
proof -
  have small: "\<forall>n\<in>set (b64_encode (map unat b)). n < 64" using b64_encode_less [OF bytes_small] by blast
  have "filter (\<lambda>c. c \<noteq> CHR 0x0A \<and> c \<noteq> CHR 0x0D) (EncodeToString b) = EncodeToString b"
    using EncodeToString_chars [of _ b] b64_char_plain by (intro filter_True) metis
  moreover have "list_all (\<lambda>c. b64_val c \<noteq> None) (EncodeToString b)"
    using EncodeToString_chars [of _ b] b64_val_char by (fastforce simp: list_all_iff)
  moreover have "map (\<lambda>c. the (b64_val c)) (EncodeToString b) = b64_encode (map unat b)"
    using small by (simp add: EncodeToString_def b64_val_char map_idI)
  ultimately show ?thesis
    by (simp add: DecodeString_def b64_decode_encode [OF bytes_small] map_idI)
qed

lemma digit_chars:
  "digit_char (Suc 0) = CHR ''1''" "digit_char 3 = CHR ''3''" "digit_char 4 = CHR ''4''"
  "digit_char 5 = CHR ''5''" "digit_char 6 = CHR ''6''" "digit_char 9 = CHR ''9''"
  by code_simp+

lemma parseArgon2_own:
  assumes "8 \<le> length salt" "16 \<le> length key"
  shows "parseArgon2 (''$argon2id$v=19$m=65536,t=3,p=4$'' @ EncodeToString salt @ ''$'' @ EncodeToString key) =
    Inr \<lparr>apMemory = 65536, apPasses = 3, apLanes = 4, apSalt = salt, apKey = key\<rparr>"
proof -
  have parts: "Split (CHR ''$'') (''$argon2id$v=19$m=65536,t=3,p=4$'' @ EncodeToString salt @ ''$'' @ EncodeToString key)
      = [[], ''argon2id'', ''v=19'', ''m=65536,t=3,p=4'', EncodeToString salt, EncodeToString key]"
    using EncodeToString_no_dollar [of salt] EncodeToString_no_dollar [of key]
    by (simp add: Split_append_sep Split_single)
  have "Itoa argon2Version = ''19''" by (simp add: Itoa.simps digit_chars argon2Version_def)
  moreover have "argon2_costs (Split (CHR '','') ''m=65536,t=3,p=4'') (0, 0, 0) = Inr (65536, 3, 4)"
    by (simp add: argon2_param_def ParseUint_def is_digit_def digit_val_def)
  ultimately show ?thesis
    using assms unfolding parseArgon2_def Let_def parts
    by (simp add: DecodeString_EncodeToString del: Split.simps argon2_costs.simps)
qed

lemma hashPassword_text:
  "hashPassword IDKey salt password = ''$argon2id$v=19$m=65536,t=3,p=4$'' @ EncodeToString salt @ ''$''
     @ EncodeToString (IDKey password salt 3 65536 4 32)"
proof -
  have "Itoa argon2Version = ''19''" "Itoa argon2Memory = ''65536''" "Itoa argon2Passes = ''3''"
    "Itoa argon2Lanes = ''4''"
    by (simp_all add: Itoa.simps digit_chars argon2Version_def argon2Memory_def argon2Passes_def argon2Lanes_def)
  moreover have "argon2Memory = 65536" by (simp add: argon2Memory_def)
  ultimately show ?thesis
    by (simp add: hashPassword_def argon2Prefix_def argon2Passes_def argon2Lanes_def)
qed

lemma parseArgon2_bounds:
  "parseArgon2 hash = Inr p \<Longrightarrow> 8 \<le> apMemory p \<and> apMemory p \<le> 2 ^ 20 \<and> 1 \<le> apPasses p \<and> apPasses p \<le> 100
     \<and> 1 \<le> apLanes p \<and> apLanes p \<le> 64 \<and> 8 \<le> length (apSalt p) \<and> 16 \<le> length (apKey p)"
  by (auto simp: parseArgon2_def Let_def split: if_splits option.splits prod.splits)

lemma own_hash:
  assumes "length salt = 16" "length (IDKey password salt 3 65536 4 32) = 32"
  shows "parseArgon2 (hashPassword IDKey salt password) = Inr \<lparr>apMemory = 65536, apPasses = 3, apLanes = 4,
      apSalt = salt, apKey = IDKey password salt 3 65536 4 32\<rparr>"
    and "HasPrefix (hashPassword IDKey salt password) argon2Prefix"
    and "validHash (hashPassword IDKey salt password) = Inr ()"
proof -
  show p: "parseArgon2 (hashPassword IDKey salt password) = Inr \<lparr>apMemory = 65536, apPasses = 3, apLanes = 4,
      apSalt = salt, apKey = IDKey password salt 3 65536 4 32\<rparr>"
    unfolding hashPassword_text using assms parseArgon2_own [of salt "IDKey password salt 3 65536 4 32"] by simp
  show h: "HasPrefix (hashPassword IDKey salt password) argon2Prefix"
    unfolding hashPassword_text by (simp add: argon2Prefix_def HasPrefix_def)
  show "validHash (hashPassword IDKey salt password) = Inr ()" using p h by (simp add: validHash_def)
qed


text \<open>The hash of a toy derivation: the password's length, repeated.\<close>

definition toy_key :: id_key where
  "toy_key pw salt t m l n = replicate n (of_nat (length pw))"


end
