(* ===== verification/Serve_Config.thy ===== *)
theory Serve_Config
  imports Config_Values Password
begin

text \<open>
  Rules that serve HTTP themselves (serve_config.go): the serve entries and their checks, the route
  that takes a request path, the users of basic_auth, and the checks across sections
  (warnings about unused items come in file order, where the code ranges over a map). The
  environment \<open>world\<close> holds what the loader asks the system and the library: reading a file,
  \<open>url.Parse\<close>, \<open>time.Parse\<close> of dates and times, and the present time.
\<close>

record parsed_url = url +
  puUser :: bool
  puPath :: string
  puRawQuery :: string
  puFragment :: string

text \<open>
  Certificates and keys as the x509 library reads them: only the key's public part, which both
  halves share, is compared. \<open>pemBlocks\<close> are the blocks that repeated \<open>pem.Decode\<close> finds, with
  their types.
\<close>

record x509 =
  xNotAfter :: int
  xPublicKey :: string
  xThumbprint :: string

datatype any_key = RSAKey string | OtherKey

record world =
  readFile :: "string \<Rightarrow> string option"
  urlParse :: "string \<Rightarrow> parsed_url option"
  parseDate :: "string \<Rightarrow> int option"
  parseRFC3339 :: "string \<Rightarrow> int option"
  present :: int
  statFile :: "string \<Rightarrow> bool"
  parseDuration :: "string \<Rightarrow> int option"
  pemBlocks :: "string \<Rightarrow> (string \<times> string) list"
  parseCertificate :: "string \<Rightarrow> x509 option"
  parsePKCS1 :: "string \<Rightarrow> any_key option"
  parsePKCS8 :: "string \<Rightarrow> any_key option"

subsection \<open>URLs\<close>

text \<open>\<open>URL.Hostname\<close> and \<open>URL.Port\<close>: the host is cut at the last colon when only digits follow.\<close>

definition splitHostPort :: "string \<Rightarrow> string \<times> string" where
  "splitHostPort hostPort =
     (let (host, port) =
        (case split_last (CHR '':'') hostPort of
           Some (h, p) \<Rightarrow> if list_all is_digit p then (h, p) else (hostPort, [])
         | None \<Rightarrow> (hostPort, [])) in
      (if HasPrefix host ''['' \<and> HasSuffix host '']'' then butlast (tl host) else host, port))"

definition Hostname :: "'a url_scheme \<Rightarrow> string" where "Hostname u = fst (splitHostPort (uHost u))"

definition URLPort :: "'a url_scheme \<Rightarrow> string" where "URLPort u = snd (splitHostPort (uHost u))"

definition ContainsAny :: "string \<Rightarrow> string \<Rightarrow> bool" where
  "ContainsAny s chars \<longleftrightarrow> list_ex (\<lambda>c. c \<in> set chars) s"

datatype serve_error =
    GivenTwice string
  | BadType string
  | BadPrefix string
  | NotAURL string
  | NotHTTP string
  | NoHost string
  | UserInTarget string
  | TargetTooLong string
  | TargetPort string
  | ServeBadBool string string
  | BadForceHost string
  | Empty string
  | SecretUnreadable string
  | SecretTooShort string
  | NoSecret string
  | UnknownServeKey string
  | TypeRequired
  | PrefixRequired
  | NeedsTarget
  | NeedsBaseDir
  | PrefixNotFolder string
  | VerifyNeedsHTTPS
  | BothSignIns
  | BothSecrets
  | SecretNeedsProxy
  | SecretNeedsSignIn
  | NeedsOIDC string
  | OnlyApplies string string
  | DoesNotApply string
  | ServeNeedsAllow
  | ServeNeedsCert
  | EntryFailed string nat serve_error
  | PrefixServed string nat string string nat

definition parseTarget :: "world \<Rightarrow> string \<Rightarrow> (serve_error, url) result" where
  "parseTarget w v =
     (case urlParse w v of
        None \<Rightarrow> Inl (NotAURL v)
      | Some u \<Rightarrow>
          if uScheme u \<noteq> ''http'' \<and> uScheme u \<noteq> ''https'' then Inl (NotHTTP v)
          else if Hostname u = [] then Inl (NoHost v)
          else if puUser u then Inl (UserInTarget v)
          else if puPath u \<noteq> [] \<and> puPath u \<noteq> ''/'' \<or> puRawQuery u \<noteq> [] \<or> puFragment u \<noteq> []
          then Inl (TargetTooLong v)
          else if URLPort u \<noteq> [] \<and> parsePort (URLPort u) = None then Inl (TargetPort (URLPort u))
          else Inr \<lparr>uScheme = uScheme u, uHost = uHost u\<rparr>)"

definition TargetAddr :: "url \<Rightarrow> string" where
  "TargetAddr u =
     (if URLPort u \<noteq> [] then uHost u
      else JoinHostPort (Hostname u) (if uScheme u = ''https'' then ''443'' else ''80''))"

subsection \<open>Serve entries\<close>

definition routeProxy :: string where "routeProxy = ''reverse_proxy''"
definition routeStatic :: string where "routeStatic = ''static_content''"
definition identityMinSecret :: nat where "identityMinSecret = 32"

text \<open>The first line of a secret's file that is not empty or a comment.\<close>

fun secret_line :: "string \<Rightarrow> string list \<Rightarrow> (serve_error, string) result" where
  "secret_line path [] = Inl (NoSecret path)"
| "secret_line path (l0 # ls) =
     (let l = TrimSpace l0 in
      if l = [] \<or> HasPrefix l ''#'' then secret_line path ls
      else if length l < identityMinSecret then Inl (SecretTooShort path)
      else Inr l)"

definition readIdentitySecret :: "world \<Rightarrow> string \<Rightarrow> (serve_error, string) result" where
  "readIdentitySecret w path =
     (case readFile w path of
        None \<Rightarrow> Inl (SecretUnreadable path)
      | Some b \<Rightarrow> secret_line path (Split (CHR 0x0A) b))"

definition new_route :: "string \<Rightarrow> nat \<Rightarrow> ServiceRoute" where
  "new_route key line = \<lparr>sKey = key, sLine = line, sType = [], sPrefix = [], sTarget = None,
     sStripPrefix = False, sForceHost = [], sTLSVerify = True, sBaseDir = [], sListing = False,
     sBasicAuth = [], sOIDC = [], sRequireMFA = False, sRequireGroups = [], sRequireRoles = [],
     sIdentitySecretFile = [], sIdentitySecret = None\<rparr>"

definition serve_flag :: "string \<Rightarrow> string \<Rightarrow> (bool \<Rightarrow> ServiceRoute) \<Rightarrow> (serve_error, ServiceRoute) result" where
  "serve_flag k v f = (case parseBool v of None \<Rightarrow> Inl (ServeBadBool k v) | Some b \<Rightarrow> Inr (f b))"

definition nonempty :: "string \<Rightarrow> string \<Rightarrow> ServiceRoute \<Rightarrow> (serve_error, ServiceRoute) result" where
  "nonempty k v s = (if v = [] then Inl (Empty k) else Inr s)"

definition nonempty_list :: "string \<Rightarrow> string list \<Rightarrow> ServiceRoute \<Rightarrow> (serve_error, ServiceRoute) result" where
  "nonempty_list k vs s = (if vs = [] then Inl (Empty k) else Inr s)"

definition serve_keys :: "(string \<times> (world \<Rightarrow> string \<Rightarrow> string \<Rightarrow> ServiceRoute \<Rightarrow> (serve_error, ServiceRoute) result)) list" where
  "serve_keys =
     [(''type'', \<lambda>w k v s. let t = ToLower v in
         if t \<noteq> routeProxy \<and> t \<noteq> routeStatic then Inl (BadType v) else Inr (s\<lparr>sType := t\<rparr>)),
      (''prefix'', \<lambda>w k v s.
         if \<not> HasPrefix v ''/'' \<or> ContainsAny v [CHR ''?'', CHR ''#'', CHR '' '', CHR 0x09]
         then Inl (BadPrefix v) else Inr (s\<lparr>sPrefix := v\<rparr>)),
      (''target'', \<lambda>w k v s. bind_result (parseTarget w v) (\<lambda>u. Inr (s\<lparr>sTarget := Some u\<rparr>))),
      (''strip_prefix'', \<lambda>w k v s. serve_flag k v (\<lambda>b. s\<lparr>sStripPrefix := b\<rparr>)),
      (''force_host'', \<lambda>w k v s.
         if v = [] \<or> ContainsAny v [CHR '' '', CHR 0x09, CHR ''/'', CHR 0x5C, CHR ''@'']
         then Inl (BadForceHost v) else Inr (s\<lparr>sForceHost := v\<rparr>)),
      (''tls_verify'', \<lambda>w k v s. serve_flag k v (\<lambda>b. s\<lparr>sTLSVerify := b\<rparr>)),
      (''base_dir'', \<lambda>w k v s. nonempty k v (s\<lparr>sBaseDir := v\<rparr>)),
      (''directory_listing'', \<lambda>w k v s. serve_flag k v (\<lambda>b. s\<lparr>sListing := b\<rparr>)),
      (''basic_auth'', \<lambda>w k v s. nonempty k v (s\<lparr>sBasicAuth := v\<rparr>)),
      (''oidc'', \<lambda>w k v s. nonempty k v (s\<lparr>sOIDC := v\<rparr>)),
      (''require_mfa'', \<lambda>w k v s. serve_flag k v (\<lambda>b. s\<lparr>sRequireMFA := b\<rparr>)),
      (''require_groups'', \<lambda>w k v s. nonempty_list k (splitList v) (s\<lparr>sRequireGroups := splitList v\<rparr>)),
      (''require_roles'', \<lambda>w k v s. nonempty_list k (splitList v) (s\<lparr>sRequireRoles := splitList v\<rparr>)),
      (''identity_secret_file'', \<lambda>w k v s.
         if v = [] then Inl (Empty k)
         else bind_result (readIdentitySecret w v)
                (\<lambda>b. Inr (s\<lparr>sIdentitySecret := Some b, sIdentitySecretFile := v\<rparr>))),
      (''identity_secret'', \<lambda>w k v s.
         if length v < identityMinSecret then Inl (SecretTooShort k)
         else Inr (s\<lparr>sIdentitySecret := Some v\<rparr>))]"

text \<open>One pass over the entry's keys; \<open>seen\<close> are the ones before.\<close>

fun serve_opts :: "world \<Rightarrow> (string \<times> string) list \<Rightarrow> string list \<Rightarrow> ServiceRoute
    \<Rightarrow> (serve_error, string list \<times> ServiceRoute) result" where
  "serve_opts w [] seen s = Inr (seen, s)"
| "serve_opts w ((k0, v0) # opts) seen s =
     (let k = ToLower k0; v = TrimSpace v0 in
      if k \<in> set seen then Inl (GivenTwice k)
      else case map_of serve_keys k of
        None \<Rightarrow> Inl (UnknownServeKey k)
      | Some h \<Rightarrow> bind_result (h w k v s) (serve_opts w opts (k # seen)))"

definition only_for :: "string list \<Rightarrow> ServiceRoute \<Rightarrow> string \<Rightarrow> string list \<Rightarrow> serve_error option" where
  "only_for seen s typ opts =
     (case find (\<lambda>opt. opt \<in> set seen \<and> sType s \<noteq> typ) opts of
        Some opt \<Rightarrow> Some (OnlyApplies opt typ)
      | None \<Rightarrow> None)"

text \<open>The checks once every key is read, in the order of the code.\<close>

definition serve_complete :: "string list \<Rightarrow> ServiceRoute \<Rightarrow> serve_error option" where
  "serve_complete seen s =
     (if sType s = [] then Some TypeRequired
      else if sPrefix s = [] then Some PrefixRequired
      else if sType s = routeProxy \<and> sTarget s = None then Some NeedsTarget
      else if sType s = routeStatic \<and> sBaseDir s = [] then Some NeedsBaseDir
      else if sType s = routeStatic \<and> \<not> HasSuffix (sPrefix s) ''/'' then Some (PrefixNotFolder (sPrefix s))
      else if ''tls_verify'' \<in> set seen \<and> (case sTarget s of Some u \<Rightarrow> uScheme u \<noteq> ''https'' | None \<Rightarrow> False)
      then Some VerifyNeedsHTTPS
      else if sOIDC s \<noteq> [] \<and> sBasicAuth s \<noteq> [] then Some BothSignIns
      else if ''identity_secret'' \<in> set seen \<and> ''identity_secret_file'' \<in> set seen then Some BothSecrets
      else if sIdentitySecret s \<noteq> None \<and> sType s \<noteq> routeProxy then Some SecretNeedsProxy
      else if sIdentitySecret s \<noteq> None \<and> sOIDC s = [] \<and> sBasicAuth s = [] then Some SecretNeedsSignIn
      else case find (\<lambda>opt. opt \<in> set seen \<and> sOIDC s = []) [''require_mfa'', ''require_groups'', ''require_roles''] of
        Some opt \<Rightarrow> Some (NeedsOIDC opt)
      | None \<Rightarrow>
          (case only_for seen s routeProxy [''target'', ''strip_prefix'', ''force_host'', ''tls_verify''] of
             Some e \<Rightarrow> Some e
           | None \<Rightarrow> only_for seen s routeStatic [''base_dir'', ''directory_listing'']))"

definition parseServiceRule :: "world \<Rightarrow> string \<Rightarrow> (string \<times> string) list \<Rightarrow> nat \<Rightarrow> (serve_error, ServiceRoute) result" where
  "parseServiceRule w key opts line =
     bind_result (serve_opts w opts [] (new_route key line))
       (\<lambda>(seen, s). case serve_complete seen s of Some e \<Rightarrow> Inl e | None \<Rightarrow> Inr s)"


subsection \<open>A rule's serve list\<close>

record rawServiceRule =
  rsKey :: string
  rsOpts :: "(string \<times> string) list"
  rsLine :: nat

text \<open>A rule as written: every key an optional text, \<open>cert_validate_args\<close> the list it holds.\<close>

record rawRule =
  rwCert :: "string option"
  rwCertDomains :: "string option"
  rwCertScript :: "string option"
  rwCertArgs :: "string list option"
  rwUpstreamTLS :: "string option"
  rwUpstreamVerify :: "string option"
  rwUpstreamSNI :: "string option"
  rwProxy :: "string option"
  rwProxyVersion :: "string option"
  rwAggSpeed :: "string option"
  rwConnSpeed :: "string option"
  rwListener :: "string option"
  rwLine :: nat
  rwPattern :: "string option"
  rwAction :: "string option"
  rwTargetHost :: "string option"
  rwTargetPort :: "string option"
  rwServiceRules :: "rawServiceRule list"
  rwConsole :: bool
  rwTarget :: "string option"
  rwTargetLine :: nat

definition zero_raw :: rawRule where
  "zero_raw = \<lparr>rwCert = None, rwCertDomains = None, rwCertScript = None, rwCertArgs = None,
     rwUpstreamTLS = None, rwUpstreamVerify = None, rwUpstreamSNI = None, rwProxy = None,
     rwProxyVersion = None, rwAggSpeed = None, rwConnSpeed = None, rwListener = None, rwLine = 0,
     rwPattern = None, rwAction = None, rwTargetHost = None, rwTargetPort = None, rwServiceRules = [],
     rwConsole = False, rwTarget = None, rwTargetLine = 0\<rparr>"

text \<open>The name of the first key given among some.\<close>

fun first_given :: "(string \<times> string option) list \<Rightarrow> string option" where
  "first_given [] = None"
| "first_given ((name, v) # kvs) = (if v \<noteq> None then Some name else first_given kvs)"

fun serve_routes :: "world \<Rightarrow> rawServiceRule list \<Rightarrow> ServiceRoute list \<Rightarrow> (serve_error, ServiceRoute list) result" where
  "serve_routes w [] rs = Inr rs"
| "serve_routes w (raw # raws) rs =
     (case parseServiceRule w (rsKey raw) (rsOpts raw) (rsLine raw) of
        Inl e \<Rightarrow> Inl (EntryFailed (rsKey raw) (rsLine raw) e)
      | Inr s \<Rightarrow>
          (case find (\<lambda>prev. sPrefix prev = sPrefix s) rs of
             Some prev \<Rightarrow> Inl (PrefixServed (rsKey raw) (rsLine raw) (sPrefix s) (sKey prev) (sLine prev))
           | None \<Rightarrow> serve_routes w raws (rs @ [s])))"

definition serveSettings :: "world \<Rightarrow> rawRule \<Rightarrow> Rule \<Rightarrow> (serve_error, Rule) result" where
  "serveSettings w r rule =
     (if rwServiceRules r = [] then Inr rule
      else case first_given [(''target'', rwTarget r), (''upstream_tls'', rwUpstreamTLS r),
          (''upstream_tls_verify'', rwUpstreamVerify r), (''upstream_sni'', rwUpstreamSNI r), (''proxy'', rwProxy r)] of
        Some name \<Rightarrow> Inl (DoesNotApply name)
      | None \<Rightarrow>
          if (case rwAction r of Some a \<Rightarrow> \<not> EqualFold a ''allow'' | None \<Rightarrow> False) then Inl ServeNeedsAllow
          else if (case rwCert r of Some c \<Rightarrow> c = [] | None \<Rightarrow> True) then Inl ServeNeedsCert
          else bind_result (serve_routes w (rwServiceRules r) (rRoutes rule))
                 (\<lambda>rs. Inr (rule\<lparr>rRoutes := sort_key (\<lambda>s. - int (length (sPrefix s))) rs\<rparr>)))"

definition RouteFor :: "Rule \<Rightarrow> string \<Rightarrow> ServiceRoute option" where
  "RouteFor r path = find (\<lambda>s. HasPrefix path (sPrefix s)) (rRoutes r)"

subsection \<open>Users\<close>

datatype user_error =
    BadUsername
  | UserBadBool string
  | BadExpiry string
  | UnknownUserKey string
  | UsernameRequired
  | PasswordRequired string
  | BothPasswords string
  | BadHash string hash_error
  | UserTwice string

text \<open>A date counts through its end: a day is added.\<close>

definition parseExpiry :: "world \<Rightarrow> string \<Rightarrow> (user_error, int) result" where
  "parseExpiry w v =
     (case parseDate w v of
        Some d \<Rightarrow> Inr (d + 24 * 3600 * Second)
      | None \<Rightarrow> (case parseRFC3339 w v of Some t \<Rightarrow> Inr t | None \<Rightarrow> Inl (BadExpiry v)))"

definition zero_credential :: credential where
  "zero_credential = \<lparr>crPlain = [], crHash = [], crDisabled = False, crExpires = None\<rparr>"

definition user_opt :: "world \<Rightarrow> string \<Rightarrow> string \<Rightarrow> string \<times> credential \<Rightarrow> (user_error, string \<times> credential) result" where
  "user_opt w k v st =
     (case st of (user, cred) \<Rightarrow>
      if k = ''username'' then (if v = [] \<or> CHR '':'' \<in> set v then Inl BadUsername else Inr (v, cred))
      else if k = ''password_plain'' then Inr (user, cred\<lparr>crPlain := v\<rparr>)
      else if k = ''password_hash'' then Inr (user, cred\<lparr>crHash := v\<rparr>)
      else if k = ''disabled''
      then (case parseBool v of None \<Rightarrow> Inl (UserBadBool v) | Some b \<Rightarrow> Inr (user, cred\<lparr>crDisabled := b\<rparr>))
      else if k = ''expires''
      then (if v = [] \<or> EqualFold v ''never'' then Inr (user, cred)
            else bind_result (parseExpiry w v) (\<lambda>t. Inr (user, cred\<lparr>crExpires := Some t\<rparr>)))
      else Inl (UnknownUserKey k))"

fun user_opts :: "world \<Rightarrow> (string \<times> string) list \<Rightarrow> string \<times> credential \<Rightarrow> (user_error, string \<times> credential) result" where
  "user_opts w [] st = Inr st"
| "user_opts w ((k, v) # opts) st = bind_result (user_opt w k (TrimSpace v) st) (user_opts w opts)"

definition addUser :: "world \<Rightarrow> (string \<times> string) list \<Rightarrow> BasicAuth \<Rightarrow> (user_error, BasicAuth) result" where
  "addUser w opts a =
     bind_result (user_opts w opts ([], zero_credential)) (\<lambda>(user, cred).
       if user = [] then Inl UsernameRequired
       else if crPlain cred = [] \<and> crHash cred = [] then Inl (PasswordRequired user)
       else if crPlain cred \<noteq> [] \<and> crHash cred \<noteq> [] then Inl (BothPasswords user)
       else case (if crHash cred \<noteq> [] then validHash (crHash cred) else Inr ()) of
         Inl e \<Rightarrow> Inl (BadHash user e)
       | Inr _ \<Rightarrow>
           if user \<in> fst ` set (baUsers a) then Inl (UserTwice user)
           else Inr (a\<lparr>baUsers := (user, cred) # baUsers a\<rparr>))"

subsection \<open>Checks across sections\<close>

datatype section_error =
    AuthNameRequired nat
  | AuthNoUsers nat string
  | AuthNameUsed nat string nat
  | NoSuchAuth nat string string
  | OIDCNameUsed nat string nat
  | NoSuchOIDC nat string string

fun collect_auths :: "BasicAuth list \<Rightarrow> (string \<times> BasicAuth) list \<Rightarrow> (section_error, (string \<times> BasicAuth) list) result" where
  "collect_auths [] m = Inr m"
| "collect_auths (a # as) m =
     (if baName a = [] then Inl (AuthNameRequired (baLine a))
      else if baUsers a = [] then Inl (AuthNoUsers (baLine a) (baName a))
      else case map_of m (baName a) of
        Some prev \<Rightarrow> Inl (AuthNameUsed (baLine a) (baName a) (baLine prev))
      | None \<Rightarrow> collect_auths as (m @ [(baName a, a)]))"

text \<open>Every route with its rule, in file order.\<close>

definition all_routes :: "Rule list \<Rightarrow> (Rule \<times> ServiceRoute) list" where
  "all_routes rules = concat (map (\<lambda>r. map (Pair r) (rRoutes r)) rules)"

definition resolveServe :: "BasicAuth list \<Rightarrow> Config \<Rightarrow> (section_error, Config) result" where
  "resolveServe auths c =
     bind_result (collect_auths auths []) (\<lambda>m.
       let routes = filter (\<lambda>(r, s). sBasicAuth s \<noteq> []) (all_routes (Rules c)) in
       case find (\<lambda>(r, s). map_of m (sBasicAuth s) = None) routes of
         Some (r, s) \<Rightarrow> Inl (NoSuchAuth (rLine r) (sKey s) (sBasicAuth s))
       | None \<Rightarrow>
           let used = map (\<lambda>(r, s). sBasicAuth s) routes in
           Inr (c\<lparr>BasicAuths := m, Warnings := Warnings c @
             map (\<lambda>(name, a). UnusedBasicAuth name (baLine a)) (filter (\<lambda>(name, a). name \<notin> set used) m)\<rparr>))"

text \<open>Providers, each with the groups and roles that some entry naming it requires.\<close>

fun collect_providers :: "OIDCProvider list \<Rightarrow> (string \<times> OIDCProvider) list
    \<Rightarrow> (section_error, (string \<times> OIDCProvider) list) result" where
  "collect_providers [] m = Inr m"
| "collect_providers (p # ps) m =
     (case map_of m (opName p) of
        Some prev \<Rightarrow> Inl (OIDCNameUsed (opLine p) (opName p) (opLine prev))
      | None \<Rightarrow> collect_providers ps (m @ [(opName p, p)]))"

definition referenced_by :: "(Rule \<times> ServiceRoute) list \<Rightarrow> string \<Rightarrow> string list" where
  "referenced_by routes name = concat (map (\<lambda>(r, s). map ((@) ''g:'') (sRequireGroups s) @ map ((@) ''r:'') (sRequireRoles s))
     (filter (\<lambda>(r, s). sOIDC s = name) routes))"

definition provider_warnings :: "world \<Rightarrow> string list \<Rightarrow> string \<times> OIDCProvider \<Rightarrow> warning list" where
  "provider_warnings w used np =
     (case np of (name, p) \<Rightarrow>
      (if opCertFile p \<noteq> [] \<and> opCertExpires p - present w < 30 * 24 * 3600 * Second
       then [CertificateExpires name (opLine p)] else [])
      @ (if name \<notin> set used then [UnusedOIDC name (opLine p)] else []))"

definition resolveOIDC :: "world \<Rightarrow> OIDCProvider list \<Rightarrow> Config \<Rightarrow> (section_error, Config) result" where
  "resolveOIDC w providers c =
     bind_result (collect_providers providers []) (\<lambda>m.
       let routes = filter (\<lambda>(r, s). sOIDC s \<noteq> []) (all_routes (Rules c)) in
       case find (\<lambda>(r, s). map_of m (sOIDC s) = None) routes of
         Some (r, s) \<Rightarrow> Inl (NoSuchOIDC (rLine r) (sKey s) (sOIDC s))
       | None \<Rightarrow>
           Inr (c\<lparr>OIDCs := map (\<lambda>(n, p). (n, p\<lparr>opReferenced := set (referenced_by routes n)\<rparr>)) m,
             Warnings := Warnings c @ concat (map (provider_warnings w (map (\<lambda>(r, s). sOIDC s) routes)) m)\<rparr>))"

end
