(* ===== verification/San_Key.thy ===== *)
theory San_Key
  imports Netip_Print Host_Names "HOL-Library.Product_Lexorder" "HOL-Library.List_Lexorder" "HOL-Library.Char_ord"
begin

text \<open>
  The names that certificates of a local CA are kept under (localca.go): one text for a set of
  addresses and host names, the folder made from it, and both read back.
\<close>

text \<open>\<open>netip.Addr.Compare\<close> as a sorting key: the family, the bytes, the zone.\<close>

definition addr_key :: "addr \<Rightarrow> nat \<times> nat list \<times> string" where
  "addr_key a = (BitLen a, map unat (AsSlice a), Zone a)"

definition sanKey :: "addr list \<Rightarrow> string list \<Rightarrow> string" where
  "sanKey ips hosts =
     (if ips = [] \<and> length hosts = 1 then hd hosts
      else Join '','' (map addr_String (remdups_adj (sort_key addr_key (map Unmap ips))) @ remdups_adj (sort hosts)))"

definition sanSplit :: "string \<Rightarrow> bytes list \<times> string list" where
  "sanSplit key =
     (let parts = Split (CHR '','') key in
      (map (\<lambda>part. AsSlice (the (ParseAddr part))) (filter (\<lambda>part. ParseAddr part \<noteq> None) parts),
       filter (\<lambda>part. ParseAddr part = None) parts))"

definition folder_char :: "char \<Rightarrow> char" where
  "folder_char c = (if c = CHR '','' then CHR ''+'' else if c = CHR '':'' then CHR ''-'' else c)"

definition localCAFolder :: "string \<Rightarrow> string" where
  "localCAFolder key = (if isHostName key then key else ''ip_'' @ map folder_char key)"

text \<open>One part of a folder's name: an address, or a host name, or neither.\<close>

definition folder_part :: "string \<Rightarrow> string" where
  "folder_part part = (if CHR ''.'' \<in> set part then part else map (\<lambda>c. if c = CHR ''-'' then CHR '':'' else c) part)"

fun folder_parts :: "string list \<Rightarrow> addr list \<Rightarrow> string list \<Rightarrow> (addr list \<times> string list) option" where
  "folder_parts [] ips hosts = Some (ips, hosts)"
| "folder_parts (part0 # ps) ips hosts =
     (let part = folder_part part0 in
      case ParseAddr part of
        Some ip \<Rightarrow>
          if Zone ip = [] then folder_parts ps (ips @ [Unmap ip]) hosts
          else if isHostName part then folder_parts ps ips (hosts @ [part]) else None
      | None \<Rightarrow> if isHostName part then folder_parts ps ips (hosts @ [part]) else None)"

definition localCAName :: "string \<Rightarrow> string option" where
  "localCAName folder =
     (if isHostName folder then Some folder
      else if \<not> HasPrefix folder ''ip_'' \<or> drop 3 folder = [] then None
      else case folder_parts (Split (CHR ''+'') (drop 3 folder)) [] [] of
        None \<Rightarrow> None
      | Some (ips, hosts) \<Rightarrow>
          let key = sanKey ips hosts in
          if ips = [] \<or> localCAFolder key \<noteq> folder then None else Some key)"

subsection \<open>Folders read back\<close>

text \<open>An address as a certificate carries it: valid, without a zone, not IPv4 in IPv6.\<close>

definition san_addr :: "addr \<Rightarrow> bool" where
  "san_addr a \<longleftrightarrow> valid_addr a \<and> Zone a = [] \<and> Unmap a = a"

lemma addr_String_san: "san_addr a \<Longrightarrow> ParseAddr (addr_String a) = Some a"
  using addr_String_parse by (auto simp: san_addr_def)


lemma hex_not_sep: "is_hex c \<Longrightarrow> c \<notin> {CHR '','', CHR ''+'', CHR ''-'', CHR '':'', CHR ''.''}"
  by (auto simp: is_hex_def is_digit_def)

lemma addr4_shape:
  assumes "san_addr (Addr4 b)"
  shows "CHR ''.'' \<in> set (addr_String (Addr4 b)) \<and> CHR '':'' \<notin> set (addr_String (Addr4 b))"
proof -
  have "length b = 4" using assms by (simp add: san_addr_def)
  then obtain d r where "string4 b = d @ CHR ''.'' # r" "list_all is_digit d" "CHR '':'' \<notin> set r"
    by (rule string4_shape)
  then show ?thesis by (auto simp: list_all_iff is_digit_def)
qed

lemma addr6_shape:
  assumes "san_addr (Addr6 b z)"
  shows "CHR ''.'' \<notin> set (addr_String (Addr6 b z))"
proof -
  have "take 12 b \<noteq> mapped_prefix" "z = []" using assms by (auto simp: san_addr_def split: if_splits)
  moreover have "is_hex c \<or> c = CHR '':''" if "c \<in> set (string6 b)" for c
    using that print_groups_chars by (auto simp: string6_def Let_def split: if_splits prod.splits)
  ultimately show ?thesis using hex_not_sep by (auto simp: with_zone_def)
qed

lemma san_chars:
  "san_addr a \<Longrightarrow> c \<in> set (addr_String a) \<Longrightarrow> c \<notin> {CHR '','', CHR ''+'', CHR ''-''}"
  using addr_String_chars [of a c] hex_not_sep [of c] by (auto simp: san_addr_def)

lemma folder_part_addr:
  assumes "san_addr a"
  shows "folder_part (map folder_char (addr_String a)) = addr_String a"
proof (cases a)
  case (Addr4 b)
  have "map folder_char (addr_String a) = addr_String a"
    using assms Addr4 addr4_shape [of b] san_chars [OF assms] by (intro map_idI) (auto simp: folder_char_def)
  then show ?thesis using assms Addr4 addr4_shape [of b] by (simp add: folder_part_def)
next
  case (Addr6 b z)
  have "CHR ''.'' \<notin> set (map folder_char (addr_String a))"
    using assms Addr6 addr6_shape [of b z] by (auto simp: folder_char_def split: if_splits)
  moreover have "map (\<lambda>c. if c = CHR ''-'' then CHR '':'' else c) (map folder_char (addr_String a)) = addr_String a"
    using san_chars [OF assms] by (auto simp: folder_char_def intro!: map_idI)
  ultimately show ?thesis by (simp add: folder_part_def)
qed (use assms in \<open>simp add: san_addr_def\<close>)

lemma host_chars: "isHostName h \<Longrightarrow> c \<in> set h \<Longrightarrow> isHostChar c"
  by (auto simp: isHostName_def dest: validDomain_chars)

lemma not_host_sep [simp]: "\<not> isHostChar (CHR '','')" "\<not> isHostChar (CHR ''+'')"
  by (simp_all add: isHostChar_def)

lemma folder_part_host:
  assumes "isHostName h"
  shows "folder_part (map folder_char h) = h"
proof -
  have "map folder_char h = h"
    using host_chars [OF assms, of "CHR '',''"] host_chars [OF assms, of "CHR '':''"]
    by (intro map_idI) (auto simp: folder_char_def)
  moreover have "CHR ''.'' \<in> set h" using assms by (simp add: isHostName_def validDomain_def)
  ultimately show ?thesis by (simp add: folder_part_def)
qed

lemma Split_Join: "parts \<noteq> [] \<Longrightarrow> \<forall>p\<in>set parts. sep \<notin> set p \<Longrightarrow> Split sep (Join [sep] parts) = parts"
  by (induction parts rule: induct_list012) (simp_all add: Split_single Split_append_sep)

lemma map_Join: "map f (Join [sep] parts) = Join [f sep] (map (map f) parts)"
  by (induction parts rule: induct_list012) simp_all

lemma folder_parts_hosts:
  "\<forall>h\<in>set hs. isHostName h \<Longrightarrow> folder_parts (map (map folder_char) hs) ips hosts = Some (ips, hosts @ hs)"
  by (induction hs arbitrary: hosts) (simp_all add: folder_part_host isHostName_def Let_def)

lemma folder_parts_all:
  "\<forall>a\<in>set as. san_addr a \<Longrightarrow> \<forall>h\<in>set hs. isHostName h \<Longrightarrow>
     folder_parts (map (map folder_char) (map addr_String as @ hs)) ips hosts = Some (ips @ as, hosts @ hs)"
proof (induction as arbitrary: ips)
  case Nil
  then show ?case by (simp add: folder_parts_hosts)
next
  case (Cons a as)
  then have "san_addr a" by simp
  then have "ParseAddr (addr_String a) = Some a" "Zone a = []" "Unmap a = a"
    by (simp_all add: addr_String_san san_addr_def)
  with Cons \<open>san_addr a\<close> show ?case by (simp add: folder_part_addr Let_def)
qed

lemma remdups_adj_idem [simp]: "remdups_adj (remdups_adj xs) = remdups_adj xs"
  using distinct_adj_altdef distinct_adj_remdups_adj by blast

lemma sorted_map_remdups_adj: "sorted (map f xs) \<Longrightarrow> sorted (map f (remdups_adj xs))"
  by (induction xs rule: remdups_adj.induct) (auto simp: remdups_adj_set)

lemma Unmap_san: "valid_addr a \<Longrightarrow> Zone a = [] \<Longrightarrow> san_addr (Unmap a)"
  by (cases a) (auto simp: san_addr_def)

definition san_ips :: "addr list \<Rightarrow> addr list" where
  "san_ips ips = remdups_adj (sort_key addr_key (map Unmap ips))"

definition san_hosts :: "string list \<Rightarrow> string list" where
  "san_hosts hosts = remdups_adj (sort hosts)"

lemma san_ips_idem:
  assumes "\<forall>a\<in>set ips. valid_addr a \<and> Zone a = []"
  shows "san_ips (san_ips ips) = san_ips ips"
proof -
  have "\<forall>a\<in>set (san_ips ips). Unmap a = a"
    using assms Unmap_san by (auto simp: san_ips_def san_addr_def)
  then have "map Unmap (san_ips ips) = san_ips ips" by (simp add: map_idI)
  moreover have "sorted (map addr_key (san_ips ips))"
    unfolding san_ips_def by (rule sorted_map_remdups_adj) simp
  ultimately show ?thesis
    unfolding san_ips_def [of "san_ips ips"] by (simp add: sort_key_id_if_sorted) (simp add: san_ips_def)
qed

lemma san_hosts_idem: "san_hosts (san_hosts hosts) = san_hosts hosts"
proof -
  have "sorted (san_hosts hosts)"
    unfolding san_hosts_def using sorted_map_remdups_adj [of "\<lambda>x. x" "sort hosts"] by simp
  then show ?thesis
    unfolding san_hosts_def [of "san_hosts hosts"] by (simp add: sorted_sort_id) (simp add: san_hosts_def)
qed

lemma sanKey_ips: "ips \<noteq> [] \<Longrightarrow> sanKey ips hosts = Join '','' (map addr_String (san_ips ips) @ san_hosts hosts)"
  by (simp add: sanKey_def san_ips_def san_hosts_def)

lemma Join_two: "length parts \<ge> 2 \<Longrightarrow> c \<in> set sep \<Longrightarrow> c \<in> set (Join sep parts)"
  by (cases parts; cases "tl parts") auto

lemma folder_roundtrip:
  assumes "ips \<noteq> []" "\<forall>a\<in>set ips. valid_addr a \<and> Zone a = []" "\<forall>h\<in>set hosts. isHostName h"
  shows "localCAName (localCAFolder (sanKey ips hosts)) = Some (sanKey ips hosts)"
proof -
  let ?as = "san_ips ips" and ?hs = "san_hosts hosts"
  let ?parts = "map addr_String ?as @ ?hs"
  let ?key = "sanKey ips hosts"
  have set_as: "set ?as = Unmap ` set ips" by (simp add: san_ips_def)
  have as: "\<forall>a\<in>set ?as. san_addr a" using assms(2) Unmap_san by (auto simp: set_as)
  have ne: "?as \<noteq> []" using assms(1) set_as by auto
  have hs: "\<forall>h\<in>set ?hs. isHostName h" using assms(3) by (simp add: san_hosts_def)
  have key: "?key = Join '','' ?parts" using sanKey_ips [OF assms(1)] .
  have not_host: "\<not> isHostName ?key"
  proof (cases "length ?parts \<ge> 2")
    case True
    then have "CHR '','' \<in> set ?key" unfolding key by (rule Join_two) simp
    then show ?thesis using host_chars not_host_sep by blast
  next
    case False
    then obtain a where "?parts = [addr_String a]" "san_addr a" using as ne by (cases ?as; cases "tl ?as"; cases ?hs) auto
    then show ?thesis unfolding key by (simp add: isHostName_def addr_String_san)
  qed
  have folder: "localCAFolder ?key = ''ip_'' @ Join ''+'' (map (map folder_char) ?parts)"
    using not_host map_Join [of folder_char "CHR '',''" ?parts]
    by (simp add: localCAFolder_def key folder_char_def)
  have plus: "\<forall>p\<in>set (map (map folder_char) ?parts). CHR ''+'' \<notin> set p"
    using as hs san_chars host_chars not_host_sep
    by (fastforce simp: folder_char_def split: if_splits)
  have split: "Split (CHR ''+'') (Join ''+'' (map (map folder_char) ?parts)) = map (map folder_char) ?parts"
    using ne by (intro Split_Join plus) simp
  have "\<not> isHostName (localCAFolder ?key)"
    using host_chars [of "localCAFolder ?key" "CHR ''_''"] validDomain_chars [of "localCAFolder ?key" "CHR ''_''"]
    by (auto simp: folder isHostName_def)
  moreover have "Join ''+'' (map (map folder_char) ?parts) \<noteq> []"
  proof -
    have "addr_String (hd ?as) \<noteq> []" using as ne addr_String_san [of "hd ?as"] by (auto simp: ParseAddr_def)
    then show ?thesis using ne by (cases ?as; cases "tl ?as"; cases ?hs) auto
  qed
  moreover have "sanKey ?as ?hs = ?key"
    using sanKey_ips [OF ne, of ?hs] san_ips_idem [OF assms(2)] san_hosts_idem [of hosts] key by simp
  ultimately show ?thesis
    using split folder_parts_all [OF as hs, of "[]" "[]"] ne folder
    by (simp add: localCAName_def HasPrefix_def del: map_append)
qed


text \<open>
  The folder a certificate is kept in reads back to the certificate's name: for any addresses
  (valid, without a zone) and host names, in whatever order and however often they are listed, and
  for a host name alone.
\<close>

lemma certificate_folder_roundtrip:
  assumes "\<forall>a\<in>set ips. valid_addr a \<and> Zone a = []" "\<forall>h\<in>set hosts. isHostName h"
    and "ips \<noteq> [] \<or> length hosts = 1"
  shows "localCAName (localCAFolder (sanKey ips hosts)) = Some (sanKey ips hosts)"
proof (cases "ips = []")
  case True
  then obtain h where "hosts = [h]" using assms(3) by (auto simp: length_Suc_conv)
  then show ?thesis using assms(2) True by (simp add: sanKey_def localCAFolder_def localCAName_def)
next
  case False
  then show ?thesis using assms by (intro folder_roundtrip)
qed

lemma certificate_folder_roundtrip_witness:
  "localCAName (localCAFolder (sanKey [Addr4 [10, 0, 0, 5], Addr4 [10, 0, 0, 4]] [''box.lan''])) = Some ''10.0.0.4,10.0.0.5,box.lan''"
proof -
  have "sanKey [Addr4 [10, 0, 0, 5], Addr4 [10, 0, 0, 4]] [''box.lan''] = ''10.0.0.4,10.0.0.5,box.lan''"
    "isHostName ''box.lan''" by code_simp+
  then show ?thesis
    using certificate_folder_roundtrip [of "[Addr4 [10, 0, 0, 5], Addr4 [10, 0, 0, 4]]" "[''box.lan'']"] by simp
qed

end
