(* ===== verification/Rule_Config.thy ===== *)
theory Rule_Config
  imports Serve_Config San_Key
begin

text \<open>
  From a rule as written to the rule that runs (config.go): its pattern and target, certificate and
  upstream settings, PROXY protocol and speeds, and what a rule of a local CA issues for.
\<close>

definition zero_rule :: Rule where
  "zero_rule = \<lparr>rListener = [], rLine = 0, rSource = [], rKind = kindNone, rLiteralChars = 0,
     rNoSNI = False, rPattern = None, rAllow = False, rTargetHost = [], rTargetPort = 0, rCert = [],
     rCertDomains = [], rCertNames = [], rCertIPs = [], rCertHosts = [], rCertKey = [],
     rCertValidateScript = [], rCertValidateArgs = [], rUpstreamTLS = False, rUpstreamTLSVerify = False,
     rUpstreamSNI = [], rProxy = False, rProxyVersion = 0, rMaxAggregatedSpeed = 0,
     rMaxSingleConnectionSpeed = 0, rRoutes = [], rConsole = False, rFixedCert = None\<rparr>"

subsection \<open>PROXY protocol and speeds\<close>

datatype proxy_error =
    ProxyOnDeny
  | ProxyBadBool string
  | VersionNeedsProxy
  | BadVersion string
  | SpeedOnDeny string
  | BadSpeed string rate_error

definition proxy_flag :: "rawRule \<Rightarrow> Rule \<Rightarrow> (proxy_error, Rule) result" where
  "proxy_flag r rule =
     (case rwProxy r of
        None \<Rightarrow> Inr rule
      | Some v \<Rightarrow>
          if \<not> rAllow rule then Inl ProxyOnDeny
          else (case parseBool v of None \<Rightarrow> Inl (ProxyBadBool v) | Some b \<Rightarrow> Inr (rule\<lparr>rProxy := b\<rparr>)))"

definition proxy_version :: "rawRule \<Rightarrow> Rule \<Rightarrow> (proxy_error, Rule) result" where
  "proxy_version r rule =
     (case rwProxyVersion r of
        None \<Rightarrow> Inr rule
      | Some v \<Rightarrow>
          if \<not> rProxy rule then Inl VersionNeedsProxy
          else (case Atoi v of
                  None \<Rightarrow> Inl (BadVersion v)
                | Some n \<Rightarrow> if n \<noteq> 1 \<and> n \<noteq> 2 then Inl (BadVersion v) else Inr (rule\<lparr>rProxyVersion := n\<rparr>)))"

definition proxySettings :: "rawRule \<Rightarrow> Rule \<Rightarrow> (proxy_error, Rule) result" where
  "proxySettings r rule = bind_result (proxy_flag r (rule\<lparr>rProxyVersion := 2\<rparr>)) (proxy_version r)"

definition speed_setting :: "string \<Rightarrow> string option \<Rightarrow> Rule \<Rightarrow> (rat \<Rightarrow> Rule) \<Rightarrow> (proxy_error, Rule) result" where
  "speed_setting name v0 rule f =
     (case v0 of
        None \<Rightarrow> Inr rule
      | Some v \<Rightarrow>
          if \<not> rAllow rule then Inl (SpeedOnDeny name)
          else (case parseRate v of Inl e \<Rightarrow> Inl (BadSpeed name e) | Inr rate \<Rightarrow> Inr (f rate)))"

definition speedSettings :: "rawRule \<Rightarrow> Rule \<Rightarrow> (proxy_error, Rule) result" where
  "speedSettings r rule =
     bind_result (speed_setting ''max_aggregated_speed'' (rwAggSpeed r) rule (\<lambda>x. rule\<lparr>rMaxAggregatedSpeed := x\<rparr>))
       (\<lambda>rule. speed_setting ''max_single_connection_speed'' (rwConnSpeed r) rule
                 (\<lambda>x. rule\<lparr>rMaxSingleConnectionSpeed := x\<rparr>))"

subsection \<open>Certificates from a local CA\<close>

datatype tls_error =
    OnlyWithTLS string
  | CertOnDeny
  | CertDirectory string
  | TLSBadBool string string
  | BadUpstreamSNI string
  | UpstreamSNINeedsTLS
  | OnlyWithAuto string
  | NeedsTOS
  | AutoNeedsName
  | ScriptEmpty
  | ArgsNeedScript
  | ArgsEmpty
  | BadArg string expand_error
  | AutoNeedsDomains
  | BadCertDomain string
  | DomainMismatch string string
  | BadCAID string
  | DomainsEmpty
  | ZoneInCert string
  | IPNeedsNoHost string
  | IPTwice string
  | NotPlainName string
  | NotNameOrGlob string
  | TooManyNames nat

definition localCARef :: "string \<Rightarrow> string option" where
  "localCARef cert =
     (let c = ToLower cert in
      if \<not> HasPrefix c ''local-ca'' then None
      else let rest = drop 8 c in
        if rest = [] then Some ''ca001''
        else if HasPrefix rest '':'' then Some (tl rest)
        else None)"

definition caIDPattern :: "string \<Rightarrow> bool" where
  "caIDPattern s \<longleftrightarrow> length s = 5 \<and> HasPrefix s ''ca'' \<and> list_all is_digit (drop 2 s)"

text \<open>One item of cert_domains.\<close>

definition cert_domain :: "string \<Rightarrow> Rule \<Rightarrow> (tls_error, Rule) result" where
  "cert_domain d rule =
     (case ParseAddr (Trim d ''[]'') of
        Some ip \<Rightarrow>
          if Zone ip \<noteq> [] then Inl (ZoneInCert d)
          else if \<not> (rNoSNI rule \<or> rKind rule = kindCatchAll) then Inl (IPNeedsNoHost d)
          else if Unmap ip \<in> set (rCertIPs rule) then Inl (IPTwice d)
          else Inr (rule\<lparr>rCertIPs := rCertIPs rule @ [Unmap ip]\<rparr>)
      | None \<Rightarrow>
          if rNoSNI rule
          then (if \<not> isHostName d then Inl (NotPlainName d)
                else if d \<in> set (rCertHosts rule) then Inr rule
                else Inr (rule\<lparr>rCertHosts := rCertHosts rule @ [d]\<rparr>))
          else (case classify d of
                  Inl e \<Rightarrow> Inl (NotNameOrGlob d)
                | Inr (kind, pt, n) \<Rightarrow>
                    if kind \<noteq> kindLiteral \<and> kind \<noteq> kindWildcard then Inl (NotNameOrGlob d)
                    else if kind = kindLiteral \<and> \<not> MatchString (the (rPattern rule)) d
                    then Inl (DomainMismatch d (rSource rule))
                    else Inr (rule\<lparr>rCertNames := rCertNames rule @ [the pt]\<rparr>)))"

fun cert_domain_items :: "string list \<Rightarrow> Rule \<Rightarrow> (tls_error, Rule) result" where
  "cert_domain_items [] rule = Inr rule"
| "cert_domain_items (d # ds) rule = bind_result (cert_domain d rule) (cert_domain_items ds)"

definition localCASettings :: "string \<Rightarrow> rawRule \<Rightarrow> Rule \<Rightarrow> (tls_error, Rule) result" where
  "localCASettings id0 r rule0 =
     (if \<not> caIDPattern id0 then Inl (BadCAID id0)
      else let rule = rule0\<lparr>rCert := ''local-ca:'' @ id0\<rparr> in
        if rwCertScript r \<noteq> None \<or> rwCertArgs r \<noteq> None then Inl (OnlyWithAuto ''cert_validate_script'')
        else case rwCertDomains r of
          None \<Rightarrow> Inr rule
        | Some v \<Rightarrow>
            let ds = splitList (ToLower v) in
            if ds = [] then Inl DomainsEmpty
            else bind_result (cert_domain_items ds (rule\<lparr>rCertDomains := ds\<rparr>)) (\<lambda>rule.
              let key = sanKey (rCertIPs rule) (rCertHosts rule) in
              if 200 < length (localCAFolder key) then Inl (TooManyNames (length (localCAFolder key)))
              else Inr (rule\<lparr>rCertKey := (if rCertIPs rule \<noteq> [] then key else rCertKey rule)\<rparr>)))"

text \<open>The anchored expressions of cert_domains, which unlike the rule's own keep to the case.\<close>

primrec exact_match :: "ptok list \<Rightarrow> string \<Rightarrow> bool" where
  "exact_match [] = (\<lambda>s. s = [])"
| "exact_match (t # ts) = (\<lambda>s.
     (case t of
        Lit c \<Rightarrow> s \<noteq> [] \<and> hd s = c \<and> exact_match ts (tl s)
      | _ \<Rightarrow> list_ex (\<lambda>k. exact_match ts (drop k s)) [min_run t..<label_run s + 1]))"

fun cert_name_match :: "pattern \<Rightarrow> string \<Rightarrow> bool" where
  "cert_name_match CatchAll s = (CHR 0x0A \<notin> set s)"
| "cert_name_match (Toks ts) s = exact_match ts s"

definition LocalCAIssues :: "Rule \<Rightarrow> string \<Rightarrow> bool" where
  "LocalCAIssues r name \<longleftrightarrow> rCertDomains r = [] \<or> list_ex (\<lambda>p. cert_name_match p name) (rCertNames r)"

datatype issue_error = NotAHostToIssue string | DoesNotIssue string | AddressNotListed addr | AddressUnknown

definition LocalCAName :: "Rule \<Rightarrow> string \<Rightarrow> addr \<Rightarrow> addr \<Rightarrow> (issue_error, string) result" where
  "LocalCAName r sni sniIP dialed =
     (if sni \<noteq> []
      then (if \<not> isHostName sni then Inl (NotAHostToIssue sni)
            else if \<not> LocalCAIssues r sni then Inl (DoesNotIssue sni)
            else Inr sni)
      else if IsValid sniIP \<and> sniIP \<notin> set (rCertIPs r) then Inl (AddressNotListed sniIP)
      else if rCertKey r \<noteq> [] then Inr (rCertKey r)
      else if \<not> IsValid dialed then Inl AddressUnknown
      else Inr (sanKey [Unmap (WithZone dialed [])] (rCertHosts r)))"

definition LocalCA :: "Rule \<Rightarrow> string" where
  "LocalCA r = (if rFixedCert r \<noteq> None then [] else if HasPrefix (rCert r) ''local-ca:'' then drop 9 (rCert r) else [])"


subsection \<open>TLS\<close>

definition tls_flag :: "string \<Rightarrow> string option \<Rightarrow> Rule \<Rightarrow> (bool \<Rightarrow> Rule) \<Rightarrow> (tls_error, Rule) result" where
  "tls_flag name v0 rule f =
     (case v0 of
        None \<Rightarrow> Inr rule
      | Some v \<Rightarrow> (case parseBool v of None \<Rightarrow> Inl (TLSBadBool name v) | Some b \<Rightarrow> Inr (f b)))"

definition upstream_settings :: "rawRule \<Rightarrow> Rule \<Rightarrow> (tls_error, Rule) result" where
  "upstream_settings r rule0 =
     (let rule = rule0\<lparr>rUpstreamTLS := True, rUpstreamTLSVerify := True\<rparr> in
      bind_result (tls_flag ''upstream_tls'' (rwUpstreamTLS r) rule (\<lambda>b. rule\<lparr>rUpstreamTLS := b\<rparr>)) (\<lambda>rule.
      bind_result (tls_flag ''upstream_tls_verify'' (rwUpstreamVerify r) rule (\<lambda>b. rule\<lparr>rUpstreamTLSVerify := b\<rparr>)) (\<lambda>rule.
      case rwUpstreamSNI r of
        None \<Rightarrow> Inr rule
      | Some v \<Rightarrow>
          if \<not> validDomain (ToLower v) then Inl (BadUpstreamSNI v)
          else if \<not> rUpstreamTLS rule then Inl UpstreamSNINeedsTLS
          else Inr (rule\<lparr>rUpstreamSNI := ToLower v\<rparr>))))"

definition groups :: "Rule \<Rightarrow> nat" where
  "groups rule = (case rPattern rule of Some p \<Rightarrow> NumSubexp p | None \<Rightarrow> 0)"

definition probe :: "Rule \<Rightarrow> int list" where
  "probe rule = replicate (2 * (groups rule + 1)) 0"

fun check_args :: "int list \<Rightarrow> string list \<Rightarrow> (tls_error, unit) result" where
  "check_args m [] = Inr ()"
| "check_args m (a # as) =
     (case expand a [] m of Inl e \<Rightarrow> Inl (BadArg a e) | Inr _ \<Rightarrow> check_args m as)"

definition script_args :: "rawRule \<Rightarrow> Rule \<Rightarrow> (tls_error, Rule) result" where
  "script_args r rule =
     (case rwCertArgs r of
        None \<Rightarrow> Inr (rule\<lparr>rCertValidateArgs := [''${host}'']\<rparr>)
      | Some args \<Rightarrow>
          if rwCertScript r = None then Inl ArgsNeedScript
          else if args = [] then Inl ArgsEmpty
          else bind_result (check_args (probe rule) args) (\<lambda>_. Inr (rule\<lparr>rCertValidateArgs := args\<rparr>)))"

fun check_domains :: "Rule \<Rightarrow> string list \<Rightarrow> (tls_error, unit) result" where
  "check_domains rule [] = Inr ()"
| "check_domains rule (d # ds) =
     (if \<not> validDomain d then Inl (BadCertDomain d)
      else if \<not> MatchString (the (rPattern rule)) d then Inl (DomainMismatch d (rSource rule))
      else check_domains rule ds)"

text \<open>\<open>cert: auto\<close>, from ACME: the names to issue for and the script that decides about others.\<close>

definition auto_names :: "rawRule \<Rightarrow> Rule \<Rightarrow> Rule" where
  "auto_names r rule0 =
     (let rule = (case rwCertDomains r of
            Some v \<Rightarrow> rule0\<lparr>rCertDomains := splitList (ToLower v)\<rparr>
          | None \<Rightarrow> if snd (literalHost (rSource rule0)) then rule0\<lparr>rCertDomains := [fst (literalHost (rSource rule0))]\<rparr> else rule0) in
      case rwCertScript r of Some v \<Rightarrow> rule\<lparr>rCertValidateScript := v\<rparr> | None \<Rightarrow> rule)"

definition auto_checked :: "Rule \<Rightarrow> (tls_error, Rule) result" where
  "auto_checked rule =
     (if rCertDomains rule = [] \<and> rCertValidateScript rule = [] then Inl AutoNeedsDomains
      else bind_result (check_domains rule (rCertDomains rule)) (\<lambda>_. Inr rule))"

definition autoSettings :: "bool \<Rightarrow> rawRule \<Rightarrow> Rule \<Rightarrow> (tls_error, Rule) result" where
  "autoSettings agreed r rule0 =
     (let rule = rule0\<lparr>rCert := ''auto''\<rparr> in
      if \<not> agreed then Inl NeedsTOS
      else if rNoSNI rule then Inl AutoNeedsName
      else if rwCertScript r = Some [] then Inl ScriptEmpty
      else bind_result (script_args r (auto_names r rule)) auto_checked)"

definition tlsSettings :: "bool \<Rightarrow> rawRule \<Rightarrow> Rule \<Rightarrow> (tls_error, Rule) result" where
  "tlsSettings agreed r rule =
     (case (case rwCert r of Some c \<Rightarrow> c | None \<Rightarrow> []) of
        [] \<Rightarrow>
          (case first_given [(''cert_domains'', rwCertDomains r), (''cert_validate_script'', rwCertScript r),
              (''cert_validate_args'', map_option (\<lambda>_. []) (rwCertArgs r)), (''upstream_tls'', rwUpstreamTLS r),
              (''upstream_tls_verify'', rwUpstreamVerify r), (''upstream_sni'', rwUpstreamSNI r)] of
             Some name \<Rightarrow> Inl (OnlyWithTLS name)
           | None \<Rightarrow> Inr rule)
      | c0 # cs \<Rightarrow>
          let c = c0 # cs in
          if \<not> rAllow rule then Inl CertOnDeny
          else if localCARef c = None \<and> \<not> EqualFold c ''auto'' then Inl (CertDirectory c)
          else bind_result (upstream_settings r (rule\<lparr>rCert := c\<rparr>)) (\<lambda>rule.
            case localCARef c of
              Some id0 \<Rightarrow> localCASettings id0 r rule
            | None \<Rightarrow> autoSettings agreed r rule))"

subsection \<open>Building a rule\<close>

datatype rule_error =
    PatternRequired
  | NoSuchListener string string
  | NoListener string
  | PatternFailed pattern_error
  | BadAction string
  | TargetFailed nat string
  | TargetRequired
  | TargetNotHostPort string
  | TargetNeedsPort
  | RulePort string
  | BadTarget expand_error
  | ServeFailed serve_error
  | TLSFailed tls_error
  | ProxyFailed proxy_error

text \<open>The rule's pattern: the kind, its expression, and how many literal characters it has.\<close>

definition with_pattern :: "string \<Rightarrow> Rule \<Rightarrow> (rule_error, Rule) result" where
  "with_pattern p rule =
     (case classify p of
        Inl e \<Rightarrow> Inl (PatternFailed e)
      | Inr (kind, pt, n) \<Rightarrow>
          Inr (rule\<lparr>rKind := kind, rPattern := pt, rLiteralChars := n, rNoSNI := (kind = kindNone)\<rparr>))"

text \<open>Where an allow rule that does not serve itself connects to: \<open>target\<close> split, or its two parts.\<close>

definition target_parts :: "rawRule \<Rightarrow> (rule_error, string option \<times> string option) result" where
  "target_parts r =
     (case rwTarget r of
        None \<Rightarrow> Inr (rwTargetHost r, rwTargetPort r)
      | Some t \<Rightarrow>
          (case splitTarget t of
             None \<Rightarrow> Inl (TargetFailed (rwTargetLine r) t)
           | Some (host, port) \<Rightarrow> Inr (Some host, Some port)))"

definition checked_target :: "string option \<times> string option \<Rightarrow> Rule \<Rightarrow> (rule_error, Rule) result" where
  "checked_target parts rule =
     (case parts of
        (None, _) \<Rightarrow> Inl TargetRequired
      | (Some host, port0) \<Rightarrow>
          if CHR '':'' \<in> set host \<and> ParseAddr host = None then Inl (TargetNotHostPort host)
          else case port0 of
            None \<Rightarrow> Inl TargetNeedsPort
          | Some port \<Rightarrow>
              (case parsePort port of
                 None \<Rightarrow> Inl (RulePort port)
               | Some p \<Rightarrow>
                   (case expand host [] (probe rule) of
                      Inl e \<Rightarrow> Inl (BadTarget e)
                    | Inr _ \<Rightarrow> Inr (rule\<lparr>rTargetHost := host, rTargetPort := p\<rparr>))))"

definition with_target :: "rawRule \<Rightarrow> Rule \<Rightarrow> (rule_error, Rule) result" where
  "with_target r rule = bind_result (target_parts r) (\<lambda>parts. checked_target parts rule)"

definition with_action :: "rawRule \<Rightarrow> Rule \<Rightarrow> (rule_error, Rule) result" where
  "with_action r rule =
     (let action = (case rwAction r of Some a \<Rightarrow> ToLower a | None \<Rightarrow> ''allow'') in
      if action = ''deny'' then Inr rule
      else if action = ''allow''
      then let rule = rule\<lparr>rAllow := True\<rparr> in
           if rwServiceRules r \<noteq> [] \<or> rwConsole r then Inr rule else with_target r rule
      else Inl (BadAction action))"

text \<open>The settings after the target, in the order of the code.\<close>

definition with_settings :: "world \<Rightarrow> bool \<Rightarrow> rawRule \<Rightarrow> Rule \<Rightarrow> (rule_error, Rule) result" where
  "with_settings w agreed r rule =
     bind_result (wrap ServeFailed (serveSettings w r rule)) (\<lambda>rule.
     bind_result (wrap TLSFailed (tlsSettings agreed r (rule\<lparr>rConsole := rwConsole r\<rparr>))) (\<lambda>rule.
     bind_result (wrap ProxyFailed (proxySettings r
         (if Serves rule then rule\<lparr>rUpstreamTLS := False, rUpstreamTLSVerify := False\<rparr> else rule))) (\<lambda>rule.
     wrap ProxyFailed (speedSettings r rule))))"

definition buildRule :: "world \<Rightarrow> Config \<Rightarrow> rawRule \<Rightarrow> (rule_error, Rule) result" where
  "buildRule w cfg r =
     (case rwPattern r of
        None \<Rightarrow> Inl PatternRequired
      | Some p \<Rightarrow>
          (case rwListener r of
             None \<Rightarrow> Inl (NoListener (listenerNames cfg))
           | Some l \<Rightarrow>
               if listener_named cfg l = None then Inl (NoSuchListener l (listenerNames cfg))
               else bind_result (with_pattern p (zero_rule\<lparr>rLine := rwLine r, rSource := p, rListener := l\<rparr>)) (\<lambda>rule.
                    bind_result (with_action r rule) (with_settings w (AcmeAgreeTOS cfg) r))))"

end
