(* ===== verification/Rule_Config_Props.thy ===== *)
theory Rule_Config_Props
  imports Rule_Config Routing_Props
begin

text \<open>
  What every rule the loader accepts satisfies, whatever was written: the assumptions routing
  makes about rules, and the combinations of settings that can occur.
\<close>

subsection \<open>Which settings a step leaves alone\<close>

text \<open>The fields the settings after the target leave alone, but for the routes and the console flag.\<close>

definition core :: "Rule \<Rightarrow> string \<times> nat \<times> string \<times> ruleKind \<times> pattern option \<times> nat \<times> bool \<times> bool \<times> string \<times> nat" where
  "core r = (rListener r, rLine r, rSource r, rKind r, rPattern r, rLiteralChars r, rNoSNI r, rAllow r, rTargetHost r, rTargetPort r)"

definition tls_fields :: "Rule \<Rightarrow> string \<times> string list \<times> bool \<times> bool \<times> string" where
  "tls_fields r = (rCert r, rCertDomains r, rUpstreamTLS r, rUpstreamTLSVerify r, rUpstreamSNI r)"

definition proxy_fields :: "Rule \<Rightarrow> bool \<times> int \<times> rat \<times> rat" where
  "proxy_fields r = (rProxy r, rProxyVersion r, rMaxAggregatedSpeed r, rMaxSingleConnectionSpeed r)"

definition serve_fields :: "Rule \<Rightarrow> ServiceRoute list \<times> bool" where
  "serve_fields r = (rRoutes r, rConsole r)"

lemmas field_groups = core_def tls_fields_def proxy_fields_def serve_fields_def

lemma cert_domain_frame:
  "cert_domain d r = Inr r' \<Longrightarrow> core r' = core r \<and> tls_fields r' = tls_fields r
     \<and> proxy_fields r' = proxy_fields r \<and> serve_fields r' = serve_fields r"
  by (auto simp: cert_domain_def field_groups split: option.splits if_splits sum.splits prod.splits)

lemma cert_domain_items_frame:
  "cert_domain_items ds r = Inr r' \<Longrightarrow> core r' = core r \<and> tls_fields r' = tls_fields r
     \<and> proxy_fields r' = proxy_fields r \<and> serve_fields r' = serve_fields r"
proof (induction ds arbitrary: r)
  case (Cons d ds)
  then obtain r1 where "cert_domain d r = Inr r1" "cert_domain_items ds r1 = Inr r'" by auto
  then show ?case using Cons.IH [of r1] cert_domain_frame [of d r r1] by simp
qed simp

lemma localCASettings_frame:
  assumes "localCASettings i raw r = Inr r'"
  shows "core r' = core r \<and> proxy_fields r' = proxy_fields r \<and> serve_fields r' = serve_fields r
    \<and> caIDPattern i \<and> rCert r' = ''local-ca:'' @ i \<and> rUpstreamTLS r' = rUpstreamTLS r
    \<and> rUpstreamTLSVerify r' = rUpstreamTLSVerify r \<and> rUpstreamSNI r' = rUpstreamSNI r"
proof (cases "rwCertDomains raw")
  case None
  then show ?thesis using assms by (auto simp: localCASettings_def field_groups Let_def split: if_splits)
next
  case (Some v)
  let ?r = "r\<lparr>rCert := ''local-ca:'' @ i, rCertDomains := splitList (ToLower v)\<rparr>"
  obtain r1 where r1: "cert_domain_items (splitList (ToLower v)) ?r = Inr r1" "caIDPattern i"
      "core r' = core r1" "tls_fields r' = tls_fields r1" "proxy_fields r' = proxy_fields r1" "serve_fields r' = serve_fields r1"
    using assms Some by (auto simp: localCASettings_def Let_def field_groups split: if_splits)
  show ?thesis using cert_domain_items_frame [OF r1(1)] r1(2-) by (auto simp: field_groups)
qed

lemma upstream_frame:
  assumes "upstream_settings raw r = Inr r'"
  shows "core r' = core r \<and> proxy_fields r' = proxy_fields r \<and> serve_fields r' = serve_fields r
    \<and> rCert r' = rCert r \<and> rCertDomains r' = rCertDomains r \<and> rCertValidateScript r' = rCertValidateScript r
    \<and> (rUpstreamSNI r' = rUpstreamSNI r \<or> validDomain (rUpstreamSNI r') \<and> rUpstreamTLS r')"
  using assms
  by (auto simp: upstream_settings_def tls_flag_def field_groups Let_def split: option.splits if_splits)


lemma check_domains_ok:
  "check_domains rule ds = Inr () \<Longrightarrow> \<forall>d\<in>set ds. validDomain d \<and> MatchString (the (rPattern rule)) d"
  by (induction ds) (auto split: if_splits)

lemma script_args_frame:
  "script_args raw r = Inr r' \<Longrightarrow> \<exists>args. r' = r\<lparr>rCertValidateArgs := args\<rparr> \<and> args \<noteq> []"
  by (auto simp: script_args_def split: option.splits if_splits)

lemma auto_checked_ok:
  "auto_checked r = Inr r' \<Longrightarrow> r' = r \<and> (rCertDomains r \<noteq> [] \<or> rCertValidateScript r \<noteq> [])
     \<and> (\<forall>d\<in>set (rCertDomains r). validDomain d \<and> MatchString (the (rPattern r)) d)"
  using check_domains_ok [of r "rCertDomains r"] by (auto simp: auto_checked_def split: if_split_asm)

lemma auto_names_frame:
  "core (auto_names raw r) = core r" "proxy_fields (auto_names raw r) = proxy_fields r"
  "serve_fields (auto_names raw r) = serve_fields r" "rCert (auto_names raw r) = rCert r"
  "rUpstreamTLS (auto_names raw r) = rUpstreamTLS r"
  "rUpstreamTLSVerify (auto_names raw r) = rUpstreamTLSVerify r" "rUpstreamSNI (auto_names raw r) = rUpstreamSNI r"
  by (cases "rwCertDomains raw"; cases "rwCertScript raw"; simp add: auto_names_def field_groups)+

lemma autoSettings_frame:
  assumes "autoSettings agreed raw r = Inr r'"
  shows "agreed \<and> \<not> rNoSNI r \<and> core r' = core r \<and> proxy_fields r' = proxy_fields r
    \<and> serve_fields r' = serve_fields r \<and> rCert r' = ''auto'' \<and> rUpstreamTLS r' = rUpstreamTLS r
    \<and> rUpstreamTLSVerify r' = rUpstreamTLSVerify r \<and> rUpstreamSNI r' = rUpstreamSNI r
    \<and> (\<forall>d\<in>set (rCertDomains r'). validDomain d \<and> MatchString (the (rPattern r')) d)"
proof -
  let ?r = "auto_names raw (r\<lparr>rCert := ''auto''\<rparr>)"
  obtain r1 where r1: "agreed" "\<not> rNoSNI r" "script_args raw ?r = Inr r1" "auto_checked r1 = Inr r'"
    using assms by (auto simp: autoSettings_def Let_def split: if_split_asm)
  obtain args where args: "r1 = ?r\<lparr>rCertValidateArgs := args\<rparr>" using script_args_frame [OF r1(3)] by blast
  have same: "core r1 = core ?r" "proxy_fields r1 = proxy_fields ?r" "serve_fields r1 = serve_fields ?r"
    "rCert r1 = rCert ?r" "rUpstreamTLS r1 = rUpstreamTLS ?r" "rUpstreamTLSVerify r1 = rUpstreamTLSVerify ?r"
    "rUpstreamSNI r1 = rUpstreamSNI ?r"
    unfolding args by (simp_all add: field_groups)
  have "core (r\<lparr>rCert := ''auto''\<rparr>) = core r" "proxy_fields (r\<lparr>rCert := ''auto''\<rparr>) = proxy_fields r"
    "serve_fields (r\<lparr>rCert := ''auto''\<rparr>) = serve_fields r"
    by (simp_all add: field_groups)
  with same r1(1,2) auto_checked_ok [OF r1(4)] show ?thesis by (simp add: auto_names_frame)
qed

lemma first_given_None: "first_given kvs = None \<longleftrightarrow> (\<forall>kv\<in>set kvs. snd kv = None)"
  by (induction kvs rule: first_given.induct) auto

text \<open>Where certificates can come from.\<close>

definition cert_source :: "bool \<Rightarrow> Rule \<Rightarrow> bool" where
  "cert_source agreed r \<longleftrightarrow>
     rCert r = ''auto'' \<and> agreed \<and> \<not> rNoSNI r
       \<and> (\<forall>d\<in>set (rCertDomains r). validDomain d \<and> MatchString (the (rPattern r)) d)
     \<or> (\<exists>i. rCert r = ''local-ca:'' @ i \<and> caIDPattern i)"

lemma tlsSettings_frame:
  assumes "tlsSettings agreed raw r = Inr r'" "rCert r = []" "rUpstreamSNI r = []" "\<not> rUpstreamTLS r" "rCertDomains r = []"
  shows "core r' = core r \<and> proxy_fields r' = proxy_fields r \<and> serve_fields r' = serve_fields r
    \<and> (rCert r' \<noteq> [] \<longleftrightarrow> (\<exists>c. rwCert raw = Some c \<and> c \<noteq> []))
    \<and> (if rCert r' = [] then tls_fields r' = tls_fields r else rAllow r \<and> cert_source agreed r')
    \<and> (rUpstreamSNI r' \<noteq> [] \<longrightarrow> validDomain (rUpstreamSNI r') \<and> rUpstreamTLS r')"
proof (cases "case rwCert raw of Some c \<Rightarrow> c | None \<Rightarrow> []")
  case Nil
  then have "r' = r" using assms by (auto simp: tlsSettings_def split: option.splits)
  then show ?thesis using assms Nil by (auto split: option.splits)
next
  case (Cons c0 cs)
  let ?c = "c0 # cs"
  have c: "rwCert raw = Some ?c" using Cons by (cases "rwCert raw") auto
  obtain r1 where r1: "rAllow r" "upstream_settings raw (r\<lparr>rCert := ?c\<rparr>) = Inr r1"
      "(case localCARef ?c of Some i \<Rightarrow> localCASettings i raw r1 | None \<Rightarrow> autoSettings agreed raw r1) = Inr r'"
    using assms(1) Cons by (auto simp: tlsSettings_def Let_def split: if_split_asm)
  have u: "core r1 = core r \<and> proxy_fields r1 = proxy_fields r \<and> serve_fields r1 = serve_fields r
      \<and> (rUpstreamSNI r1 \<noteq> [] \<longrightarrow> validDomain (rUpstreamSNI r1) \<and> rUpstreamTLS r1)"
    using upstream_frame [OF r1(2)] assms(3) by (auto simp: field_groups)
  show ?thesis
  proof (cases "localCARef ?c")
    case None
    then have "autoSettings agreed raw r1 = Inr r'" using r1(3) by simp
    from autoSettings_frame [OF this] u r1(1) c show ?thesis by (auto simp: cert_source_def field_groups)
  next
    case (Some i)
    then have "localCASettings i raw r1 = Inr r'" using r1(3) by simp
    from localCASettings_frame [OF this] u r1(1) c show ?thesis by (auto simp: cert_source_def field_groups)
  qed
qed


lemma proxySettings_frame:
  assumes "proxySettings raw r = Inr r'" "\<not> rProxy r"
  shows "core r' = core r \<and> tls_fields r' = tls_fields r \<and> serve_fields r' = serve_fields r
    \<and> (rProxy r' \<longrightarrow> rAllow r \<and> rwProxy raw \<noteq> None) \<and> (rProxyVersion r' = 1 \<or> rProxyVersion r' = 2)
    \<and> rMaxAggregatedSpeed r' = rMaxAggregatedSpeed r \<and> rMaxSingleConnectionSpeed r' = rMaxSingleConnectionSpeed r"
proof -
  let ?r = "r\<lparr>rProxyVersion := 2\<rparr>"
  obtain r1 where r1: "proxy_flag raw ?r = Inr r1" "proxy_version raw r1 = Inr r'"
    using assms(1) by (auto simp: proxySettings_def)
  have 1: "r1 = ?r \<or> (\<exists>b. r1 = ?r\<lparr>rProxy := b\<rparr> \<and> rAllow r \<and> rwProxy raw \<noteq> None)"
    using r1(1) by (auto simp: proxy_flag_def split: option.splits if_split_asm)
  have 2: "r' = r1 \<or> (\<exists>n. r' = r1\<lparr>rProxyVersion := n\<rparr> \<and> (n = 1 \<or> n = 2))"
    using r1(2) by (auto simp: proxy_version_def split: option.splits if_split_asm)
  from 1 2 assms(2) show ?thesis by (elim disjE exE conjE) (simp_all add: field_groups)
qed

lemma parseRate_one: "parseRate v = Inr x \<Longrightarrow> 1 \<le> x"
  by (auto simp: parseRate_def Let_def not_less split: option.splits if_split_asm)

lemma speed_setting_ok:
  "speed_setting name v0 r f = Inr r' \<Longrightarrow> r' = r \<or> (\<exists>x\<ge>1. rAllow r \<and> r' = f x)"
  by (auto simp: speed_setting_def split: option.splits if_split_asm sum.splits dest: parseRate_one)

lemma speedSettings_frame:
  assumes "speedSettings raw r = Inr r'" "rMaxAggregatedSpeed r = 0" "rMaxSingleConnectionSpeed r = 0"
  shows "core r' = core r \<and> tls_fields r' = tls_fields r \<and> serve_fields r' = serve_fields r
    \<and> rProxy r' = rProxy r \<and> rProxyVersion r' = rProxyVersion r
    \<and> (rMaxAggregatedSpeed r' = 0 \<or> rAllow r \<and> 1 \<le> rMaxAggregatedSpeed r')
    \<and> (rMaxSingleConnectionSpeed r' = 0 \<or> rAllow r \<and> 1 \<le> rMaxSingleConnectionSpeed r')"
proof -
  obtain r1 where r1: "speed_setting ''max_aggregated_speed'' (rwAggSpeed raw) r (\<lambda>x. r\<lparr>rMaxAggregatedSpeed := x\<rparr>) = Inr r1"
      "speed_setting ''max_single_connection_speed'' (rwConnSpeed raw) r1 (\<lambda>x. r1\<lparr>rMaxSingleConnectionSpeed := x\<rparr>) = Inr r'"
    using assms(1) by (auto simp: speedSettings_def)
  from speed_setting_ok [OF r1(1)] speed_setting_ok [OF r1(2)] assms(2,3) show ?thesis
    by (elim disjE exE conjE) (simp_all add: field_groups)
qed

subsection \<open>Serve lists\<close>

definition longest_first :: "ServiceRoute list \<Rightarrow> bool" where
  "longest_first rs \<longleftrightarrow> distinct (map sPrefix rs) \<and> sorted_wrt (\<lambda>a b. length (sPrefix b) \<le> length (sPrefix a)) rs"

definition only_seen_ok :: "ServiceRoute \<Rightarrow> bool" where
  "only_seen_ok s \<longleftrightarrow> (sType s = routeProxy \<or> sType s = routeStatic) \<and> HasPrefix (sPrefix s) ''/''
     \<and> (sType s = routeProxy \<longrightarrow> sTarget s \<noteq> None)
     \<and> (sType s = routeStatic \<longrightarrow> sBaseDir s \<noteq> [] \<and> HasSuffix (sPrefix s) ''/'')
     \<and> (sOIDC s = [] \<or> sBasicAuth s = [])
     \<and> (sIdentitySecret s \<noteq> None \<longrightarrow> sType s = routeProxy \<and> (sOIDC s \<noteq> [] \<or> sBasicAuth s \<noteq> []))"

definition typed :: "ServiceRoute \<Rightarrow> bool" where
  "typed s \<longleftrightarrow> (sType s \<in> {[], routeProxy, routeStatic}) \<and> (sPrefix s = [] \<or> HasPrefix (sPrefix s) ''/'')"

lemma same_prefix_length: "HasPrefix p a \<Longrightarrow> HasPrefix p b \<Longrightarrow> length a = length b \<Longrightarrow> a = b"
  by (auto simp: HasPrefix_iff)

lemma longest_found:
  "longest_first rs \<Longrightarrow> find (\<lambda>s. HasPrefix path (sPrefix s)) rs = Some s \<longleftrightarrow>
     s \<in> set rs \<and> HasPrefix path (sPrefix s)
     \<and> (\<forall>s'\<in>set rs. HasPrefix path (sPrefix s') \<longrightarrow> length (sPrefix s') \<le> length (sPrefix s))"
proof (induction rs)
  case (Cons r rs)
  have rest: "longest_first rs" "\<forall>b\<in>set rs. length (sPrefix b) \<le> length (sPrefix r)" "sPrefix r \<notin> sPrefix ` set rs"
    using Cons.prems by (auto simp: longest_first_def)
  show ?case
  proof (cases "HasPrefix path (sPrefix r)")
    case True
    have "s = r" if s: "s \<in> set rs" "HasPrefix path (sPrefix s)" "length (sPrefix r) \<le> length (sPrefix s)"
    proof -
      have "length (sPrefix s) = length (sPrefix r)" using s rest(2) by (simp add: le_antisym)
      then have "sPrefix s = sPrefix r" using same_prefix_length [OF s(2) True] by simp
      then have "sPrefix r \<in> sPrefix ` set rs" using s(1) by (metis image_eqI)
      then show ?thesis using rest(3) by blast
    qed
    then show ?thesis using True rest(2) by auto
  next
    case False
    then show ?thesis using Cons.IH [OF rest(1)] by auto
  qed
qed simp

lemma serve_keys_typed:
  "(k', h) \<in> set serve_keys \<Longrightarrow> h w k v s = Inr s' \<Longrightarrow> typed s \<Longrightarrow> typed s'"
  unfolding serve_keys_def list.set insert_iff empty_iff prod.inject
  by (elim disjE conjE FalseE; hypsubst)
     (auto simp: typed_def serve_flag_def nonempty_def nonempty_list_def Let_def split: if_split_asm option.splits)

lemma serve_opts_typed:
  "serve_opts w opts seen s = Inr (seen', s') \<Longrightarrow> typed s \<Longrightarrow> typed s'"
proof (induction opts arbitrary: seen s)
  case (Cons kv opts)
  obtain k v where kv: "kv = (k, v)" by (cases kv)
  obtain h s1 where "map_of serve_keys (ToLower k) = Some h" "h w (ToLower k) (TrimSpace v) s = Inr s1"
      "serve_opts w opts (ToLower k # seen) s1 = Inr (seen', s')"
    using Cons.prems(1) by (auto simp: kv Let_def split: if_split_asm option.splits)
  with Cons.IH [of "ToLower k # seen" s1] serve_keys_typed [OF map_of_SomeD] Cons.prems(2) show ?case by metis
qed simp

lemma parseServiceRule_ok: "parseServiceRule w key opts line = Inr s \<Longrightarrow> only_seen_ok s"
proof -
  assume "parseServiceRule w key opts line = Inr s"
  then obtain seen where s: "serve_opts w opts [] (new_route key line) = Inr (seen, s)" "serve_complete seen s = None"
    by (auto simp: parseServiceRule_def split: option.splits)
  have "typed s" using serve_opts_typed [OF s(1)] by (simp add: new_route_def typed_def)
  then show ?thesis using s(2)
    unfolding serve_complete_def only_seen_ok_def typed_def by (simp split: if_split_asm) (cases "sIdentitySecret s"; simp)
qed


lemma serve_routes_ok:
  "serve_routes w raws rs = Inr rs' \<Longrightarrow> distinct (map sPrefix rs) \<Longrightarrow> list_all only_seen_ok rs \<Longrightarrow>
     distinct (map sPrefix rs') \<and> list_all only_seen_ok rs' \<and> (raws \<noteq> [] \<longrightarrow> rs' \<noteq> []) \<and> (rs \<noteq> [] \<longrightarrow> rs' \<noteq> [])"
proof (induction raws arbitrary: rs)
  case (Cons raw raws)
  obtain s where s: "parseServiceRule w (rsKey raw) (rsOpts raw) (rsLine raw) = Inr s"
      "find (\<lambda>prev. sPrefix prev = sPrefix s) rs = None" "serve_routes w raws (rs @ [s]) = Inr rs'"
    using Cons.prems(1) by (auto split: sum.splits option.splits)
  have "sPrefix s \<notin> set (map sPrefix rs)" using s(2) by (auto simp: find_None_iff)
  then show ?case using Cons.IH [OF s(3)] Cons.prems(2,3) parseServiceRule_ok [OF s(1)] by simp
qed simp

lemma sorted_longest:
  "sorted_wrt (\<lambda>a b. length (sPrefix b) \<le> length (sPrefix a)) (sort_key (\<lambda>s. - int (length (sPrefix s))) rs)"
proof -
  have "sorted (map (\<lambda>s. - int (length (sPrefix s))) (sort_key (\<lambda>s. - int (length (sPrefix s))) rs))"
    by (rule sorted_sort_key)
  then show ?thesis by (simp add: sorted_wrt_map)
qed

lemma serveSettings_frame:
  assumes "serveSettings w raw r = Inr r'" "rRoutes r = []"
  shows "core r' = core r \<and> tls_fields r' = tls_fields r \<and> proxy_fields r' = proxy_fields r
    \<and> rConsole r' = rConsole r \<and> longest_first (rRoutes r') \<and> list_all only_seen_ok (rRoutes r')
    \<and> (rRoutes r' \<noteq> [] \<longleftrightarrow> rwServiceRules raw \<noteq> [])
    \<and> (rwServiceRules raw \<noteq> [] \<longrightarrow> (\<exists>c. rwCert raw = Some c \<and> c \<noteq> []) \<and> rwProxy raw = None
         \<and> (\<forall>a. rwAction raw = Some a \<longrightarrow> ToLower a = ''allow''))"
proof (cases "rwServiceRules raw = []")
  case True
  then show ?thesis using assms by (simp add: serveSettings_def longest_first_def)
next
  case False
  let ?given = "[(''target'', rwTarget raw), (''upstream_tls'', rwUpstreamTLS raw),
    (''upstream_tls_verify'', rwUpstreamVerify raw), (''upstream_sni'', rwUpstreamSNI raw), (''proxy'', rwProxy raw)]"
  obtain rs where rs: "first_given ?given = None" "serve_routes w (rwServiceRules raw) [] = Inr rs"
      "r' = r\<lparr>rRoutes := sort_key (\<lambda>s. - int (length (sPrefix s))) rs\<rparr>"
      "\<not> (case rwAction raw of Some a \<Rightarrow> \<not> EqualFold a ''allow'' | None \<Rightarrow> False)"
      "\<not> (case rwCert raw of Some c \<Rightarrow> c = [] | None \<Rightarrow> True)"
    using assms False by (auto simp: serveSettings_def split: option.split_asm if_split_asm)
  have ok: "distinct (map sPrefix rs)" "list_all only_seen_ok rs" "rs \<noteq> []"
    using serve_routes_ok [OF rs(2)] False by simp_all
  have "distinct (map sPrefix (rRoutes r'))" "list_all only_seen_ok (rRoutes r')" "rRoutes r' \<noteq> []"
    using ok by (simp_all add: rs(3) list_all_iff distinct_map) (metis set_empty set_sort)
  moreover have "rwProxy raw = None" using rs(1) by (simp split: if_split_asm)
  moreover have "\<exists>c. rwCert raw = Some c \<and> c \<noteq> []" using rs(5) by (cases "rwCert raw") simp_all
  moreover have "\<forall>a. rwAction raw = Some a \<longrightarrow> ToLower a = ''allow''"
    using rs(4) by (auto simp: EqualFold_def lower_char_def)
  ultimately show ?thesis using False sorted_longest by (simp add: rs(3) field_groups longest_first_def)
qed


subsection \<open>Every rule that loads\<close>

definition plain_target :: "Rule \<Rightarrow> bool" where
  "plain_target r \<longleftrightarrow> 1 \<le> rTargetPort r \<and> rTargetPort r \<le> 65535 \<and> probe_ok r
     \<and> (CHR '':'' \<in> set (rTargetHost r) \<longrightarrow> ParseAddr (rTargetHost r) \<noteq> None)"

definition loaded_rule :: "bool \<Rightarrow> Rule \<Rightarrow> bool" where
  "loaded_rule agreed r \<longleftrightarrow>
     rule_ok r
   \<and> (rAllow r \<and> \<not> Serves r \<longrightarrow> plain_target r)
   \<and> (\<not> rAllow r \<longrightarrow> rRoutes r = [] \<and> rCert r = [] \<and> \<not> rProxy r \<and> rMaxAggregatedSpeed r = 0 \<and> rMaxSingleConnectionSpeed r = 0)
   \<and> (rRoutes r \<noteq> [] \<longrightarrow> rCert r \<noteq> [] \<and> \<not> rProxy r)
   \<and> (Serves r \<longrightarrow> \<not> rUpstreamTLS r \<and> \<not> rUpstreamTLSVerify r)
   \<and> (if rCert r = [] then \<not> rUpstreamTLS r \<and> rCertDomains r = [] else cert_source agreed r)
   \<and> longest_first (rRoutes r) \<and> list_all only_seen_ok (rRoutes r)
   \<and> (rProxyVersion r = 1 \<or> rProxyVersion r = 2)
   \<and> (rMaxAggregatedSpeed r = 0 \<or> 1 \<le> rMaxAggregatedSpeed r)
   \<and> (rMaxSingleConnectionSpeed r = 0 \<or> 1 \<le> rMaxSingleConnectionSpeed r)"

lemma with_pattern_ok:
  assumes "with_pattern p r = Inr r'" "rSource r = p"
  shows "rule_ok r' \<and> rListener r' = rListener r \<and> rLine r' = rLine r \<and> rSource r' = p \<and> rAllow r' = rAllow r
    \<and> tls_fields r' = tls_fields r \<and> proxy_fields r' = proxy_fields r \<and> serve_fields r' = serve_fields r"
  using assms by (auto simp: with_pattern_def rule_ok_def field_groups split: sum.splits)

lemma checked_target_ok:
  assumes "checked_target (h, p) r = Inr r'"
  shows "\<exists>host port n. h = Some host \<and> p = Some port \<and> parsePort port = Some n
    \<and> (CHR '':'' \<in> set host \<longrightarrow> ParseAddr host \<noteq> None) \<and> (\<exists>x. expand host [] (probe r) = Inr x)
    \<and> r' = r\<lparr>rTargetHost := host, rTargetPort := n\<rparr>"
proof (cases h; cases p)
  fix host port
  assume hp: "h = Some host" "p = Some port"
  then show ?thesis using assms
    by (cases "parsePort port"; cases "expand host [] (probe r)")
       (simp_all add: checked_target_def split: if_split_asm)
qed (use assms in \<open>simp_all add: checked_target_def split: if_split_asm\<close>)

lemma target_set:
  assumes "with_target raw r = Inr r'"
  shows "\<exists>h p. r' = r\<lparr>rTargetHost := h, rTargetPort := p\<rparr> \<and> plain_target r'"
proof -
  obtain a b where "checked_target (a, b) r = Inr r'" using assms by (auto simp: with_target_def)
  from checked_target_ok [OF this] obtain host port n where h: "parsePort port = Some n"
      "CHR '':'' \<in> set host \<longrightarrow> ParseAddr host \<noteq> None" "\<exists>x. expand host [] (probe r) = Inr x"
      "r' = r\<lparr>rTargetHost := host, rTargetPort := n\<rparr>" by blast
  have "plain_target r'"
    using h(2,3) parsePort_bounds [OF h(1)] unfolding h(4)
    by (simp add: plain_target_def probe_ok_def probe_def groups_def)
  with h(4) show ?thesis by blast
qed

lemma with_action_ok:
  assumes "with_action raw r = Inr r'" "\<not> rAllow r"
  shows "rListener r' = rListener r \<and> rLine r' = rLine r \<and> rSource r' = rSource r \<and> rule_ok r' = rule_ok r
    \<and> tls_fields r' = tls_fields r \<and> proxy_fields r' = proxy_fields r \<and> serve_fields r' = serve_fields r
    \<and> (rAllow r' \<longleftrightarrow> \<not> (\<exists>a. rwAction raw = Some a \<and> ToLower a = ''deny''))
    \<and> (rAllow r' \<and> rwServiceRules raw = [] \<and> \<not> rwConsole raw \<longrightarrow> plain_target r')"
proof (cases "case rwAction raw of Some a \<Rightarrow> ToLower a = ''deny'' | None \<Rightarrow> False")
  case True
  then have "r' = r" using assms(1) by (auto simp: with_action_def split: option.splits)
  then show ?thesis using True assms(2) by (auto split: option.splits)
next
  case False
  let ?r = "r\<lparr>rAllow := True\<rparr>"
  have r': "(if rwServiceRules raw \<noteq> [] \<or> rwConsole raw then Inr ?r else with_target raw ?r) = Inr r'"
    using assms(1) False by (auto simp: with_action_def Let_def split: option.splits if_split_asm)
  then have "r' = ?r \<and> (rwServiceRules raw \<noteq> [] \<or> rwConsole raw)
      \<or> (\<exists>h p. r' = ?r\<lparr>rTargetHost := h, rTargetPort := p\<rparr> \<and> plain_target r')"
    using target_set [of raw ?r r'] by (auto split: if_split_asm)
  then show ?thesis using False by (auto simp: rule_ok_def field_groups split: option.splits)
qed

lemma core_rule_ok: "core r = core r' \<Longrightarrow> rule_ok r = rule_ok r'"
  by (simp add: core_def rule_ok_def)

lemma core_target: "core r = core r' \<Longrightarrow> plain_target r = plain_target r'"
  by (simp add: core_def plain_target_def probe_ok_def)

lemma cert_source_cong:
  "rCert r = rCert r' \<Longrightarrow> rCertDomains r = rCertDomains r' \<Longrightarrow> core r = core r' \<Longrightarrow> cert_source b r = cert_source b r'"
  by (simp add: cert_source_def core_def)


text \<open>The settings after the target keep what is there and add only what the combinations allow.\<close>

lemma with_settings_ok:
  assumes set: "with_settings w agreed raw r = Inr r'"
    and r: "rule_ok r" "tls_fields r = tls_fields zero_rule" "proxy_fields r = proxy_fields zero_rule" "serve_fields r = ([], False)"
    and allow: "rAllow r \<longleftrightarrow> \<not> (\<exists>a. rwAction raw = Some a \<and> ToLower a = ''deny'')"
    and target: "rAllow r \<and> rwServiceRules raw = [] \<and> \<not> rwConsole raw \<longrightarrow> plain_target r"
  shows "loaded_rule agreed r' \<and> core r' = core r \<and> rConsole r' = rwConsole raw"
proof -
  obtain r1 r2 r3 where s1: "serveSettings w raw r = Inr r1"
      and s2: "tlsSettings agreed raw (r1\<lparr>rConsole := rwConsole raw\<rparr>) = Inr r2"
      and s3: "proxySettings raw (if Serves r2 then r2\<lparr>rUpstreamTLS := False, rUpstreamTLSVerify := False\<rparr> else r2) = Inr r3"
      and s4: "speedSettings raw r3 = Inr r'"
    using set by (auto simp: with_settings_def)
  have z: "tls_fields zero_rule = ([], [], False, False, [])" "proxy_fields zero_rule = (False, 0, 0, 0)"
    by (simp_all add: tls_fields_def proxy_fields_def zero_rule_def)
  have routes: "rRoutes r = []" using r(4) by (simp add: serve_fields_def)
  note f1 = serveSettings_frame [OF s1 routes]
  have t1: "tls_fields r1 = ([], [], False, False, [])" using f1 r(2) z(1) by simp
  have f2: "core r2 = core r1 \<and> proxy_fields r2 = proxy_fields r1 \<and> rRoutes r2 = rRoutes r1 \<and> rConsole r2 = rwConsole raw
      \<and> (rCert r2 \<noteq> [] \<longleftrightarrow> (\<exists>c. rwCert raw = Some c \<and> c \<noteq> []))
      \<and> (if rCert r2 = [] then tls_fields r2 = tls_fields r1 else rAllow r1 \<and> cert_source agreed r2)"
  proof -
    let ?r1 = "r1\<lparr>rConsole := rwConsole raw\<rparr>"
    have "rCert ?r1 = []" "rUpstreamSNI ?r1 = []" "\<not> rUpstreamTLS ?r1" "rCertDomains ?r1 = []"
      using t1 by (simp_all add: tls_fields_def)
    note frame = tlsSettings_frame [OF s2 this]
    have "core ?r1 = core r1" "proxy_fields ?r1 = proxy_fields r1" "tls_fields ?r1 = tls_fields r1"
      "serve_fields ?r1 = (rRoutes r1, rwConsole raw)" "rAllow ?r1 = rAllow r1"
      by (simp_all add: field_groups)
    with frame show ?thesis by (cases "rCert r2 = []") (simp_all add: serve_fields_def)
  qed
  let ?r2 = "if Serves r2 then r2\<lparr>rUpstreamTLS := False, rUpstreamTLSVerify := False\<rparr> else r2"
  have f3: "core ?r2 = core r2" "proxy_fields ?r2 = proxy_fields r2" "serve_fields ?r2 = serve_fields r2"
      "rCert ?r2 = rCert r2" "rCertDomains ?r2 = rCertDomains r2"
    by (simp_all add: field_groups)
  have p2: "proxy_fields r2 = (False, 0, 0, 0)" using f2 f1 r(3) z(2) by simp
  have "\<not> rProxy ?r2" using p2 f3(2) by (simp add: proxy_fields_def)
  note f4 = proxySettings_frame [OF s3 this]
  have "rMaxAggregatedSpeed r3 = 0" "rMaxSingleConnectionSpeed r3 = 0"
    using f4 f3(2) p2 by (auto simp: proxy_fields_def)
  note f5 = speedSettings_frame [OF s4 this]
  have core: "core r' = core r" using f5 f4 f3(1) f2 f1 by simp
  have routes': "rRoutes r' = rRoutes r1" "rConsole r' = rwConsole raw"
    using f5 f4 f3(3) f2 by (auto simp: serve_fields_def)
  have tls': "tls_fields r' = tls_fields ?r2" using f5 f4 by simp
  have f25: "core r1 = core r" "core ?r2 = core r" "core r3 = core r"
    using f4 f3(1) f2 f1 by simp_all
  have allow': "rAllow r' = rAllow r" "rAllow r3 = rAllow r" "rAllow ?r2 = rAllow r" "rAllow r1 = rAllow r"
    using core f25 unfolding core_def by simp_all
  have nonempty: "rRoutes r1 \<noteq> [] \<longleftrightarrow> rwServiceRules raw \<noteq> []" using f1 by simp
  have serves: "Serves r' = Serves r2" "Serves r' \<longleftrightarrow> rwServiceRules raw \<noteq> [] \<or> rwConsole raw"
    using routes' nonempty f2 unfolding Serves_def by simp_all
  have same_cert: "rCert r' = rCert r2" using tls' f3(4) by (simp add: tls_fields_def)
  have cert: "if rCert r' = [] then tls_fields r2 = tls_fields r1 else rAllow r \<and> cert_source agreed r'"
  proof (cases "rCert r' = []")
    case True
    moreover have "rCert r' = rCert r2" using tls' f3(4) by (simp add: tls_fields_def)
    ultimately show ?thesis using f2 by simp
  next
    case False
    have same: "rCert r' = rCert r2" "rCertDomains r' = rCertDomains r2"
      using tls' f3(4,5) by (simp_all add: tls_fields_def)
    then have "cert_source agreed r2" "rAllow r" using f2 False allow'(4) by simp_all
    moreover have "core r' = core r2" using core f2 f1 by simp
    ultimately show ?thesis using False cert_source_cong [OF same] by simp
  qed
  have "rule_ok r'" using core_rule_ok [OF core] r(1) by simp
  moreover have "rAllow r' \<and> \<not> Serves r' \<longrightarrow> plain_target r'"
    using target serves(2) allow'(1) core_target [OF core] by simp
  moreover have "rRoutes r' \<noteq> [] \<longrightarrow> rCert r' \<noteq> [] \<and> \<not> rProxy r'"
  proof
    assume "rRoutes r' \<noteq> []"
    then have sr: "rwServiceRules raw \<noteq> []" using routes'(1) nonempty by simp
    then have "rCert r2 \<noteq> []" "rwProxy raw = None" using f1 f2 by simp_all
    then show "rCert r' \<noteq> [] \<and> \<not> rProxy r'" using f4 f5 same_cert by simp
  qed
  moreover have "\<not> rAllow r' \<longrightarrow> rRoutes r' = [] \<and> rCert r' = [] \<and> \<not> rProxy r' \<and> rMaxAggregatedSpeed r' = 0 \<and> rMaxSingleConnectionSpeed r' = 0"
  proof
    assume deny: "\<not> rAllow r'"
    then obtain a where a: "rwAction raw = Some a" "ToLower a = ''deny''" using allow allow'(1) by auto
    have "rwServiceRules raw = []"
    proof (rule ccontr)
      assume "rwServiceRules raw \<noteq> []"
      then have "ToLower a = ''allow''" using f1 a(1) by simp
      then show False using a(2) by simp
    qed
    then have "rRoutes r' = []" using routes'(1) nonempty by simp
    moreover have "rCert r' = []" using cert deny allow'(1) by (simp split: if_split_asm)
    moreover have "\<not> rProxy r'" using f4 f5 deny allow'(1,3) by simp
    ultimately show "rRoutes r' = [] \<and> rCert r' = [] \<and> \<not> rProxy r' \<and> rMaxAggregatedSpeed r' = 0 \<and> rMaxSingleConnectionSpeed r' = 0"
      using f5 deny allow'(1,2) by simp
  qed
  moreover have "Serves r' \<longrightarrow> \<not> rUpstreamTLS r' \<and> \<not> rUpstreamTLSVerify r'"
    using serves(1) tls' by (simp add: tls_fields_def)
  moreover have "if rCert r' = [] then \<not> rUpstreamTLS r' \<and> rCertDomains r' = [] else cert_source agreed r'"
  proof (cases "rCert r' = []")
    case True
    then have "tls_fields r2 = ([], [], False, False, [])" using cert t1 by simp
    then show ?thesis using True tls' by (simp add: tls_fields_def)
  next
    case False
    then show ?thesis using cert by simp
  qed
  moreover have "longest_first (rRoutes r')" "list_all only_seen_ok (rRoutes r')" using routes'(1) f1 by simp_all
  moreover have "rProxyVersion r' = 1 \<or> rProxyVersion r' = 2" using f4 f5 by simp
  moreover have
    "rMaxAggregatedSpeed r' = 0 \<or> 1 \<le> rMaxAggregatedSpeed r'"
    "rMaxSingleConnectionSpeed r' = 0 \<or> 1 \<le> rMaxSingleConnectionSpeed r'"
    using f5 by blast+
  ultimately show ?thesis using core routes'(2) unfolding loaded_rule_def by blast
qed


lemma buildRule_ok:
  assumes "buildRule w cfg raw = Inr r"
  shows "loaded_rule (AcmeAgreeTOS cfg) r \<and> (\<exists>l. listener_named cfg (rListener r) = Some l \<and> rwListener raw = Some (rListener r))
    \<and> rwPattern raw = Some (rSource r) \<and> rLine r = rwLine raw \<and> rConsole r = rwConsole raw
    \<and> (rAllow r \<longleftrightarrow> \<not> (\<exists>a. rwAction raw = Some a \<and> ToLower a = ''deny''))"
proof -
  obtain p l r1 r2 where raw: "rwPattern raw = Some p" "rwListener raw = Some l" "listener_named cfg l \<noteq> None"
      and s1: "with_pattern p (zero_rule\<lparr>rLine := rwLine raw, rSource := p, rListener := l\<rparr>) = Inr r1"
      and s2: "with_action raw r1 = Inr r2" and s3: "with_settings w (AcmeAgreeTOS cfg) raw r2 = Inr r"
    using assms by (auto simp: buildRule_def split: option.split_asm if_split_asm)
  let ?z = "zero_rule\<lparr>rLine := rwLine raw, rSource := p, rListener := l\<rparr>"
  have z: "rSource ?z = p" "tls_fields ?z = tls_fields zero_rule" "proxy_fields ?z = proxy_fields zero_rule"
      "serve_fields ?z = ([], False)" "\<not> rAllow ?z" "rListener ?z = l" "rLine ?z = rwLine raw"
    by (simp_all add: field_groups zero_rule_def)
  note 1 = with_pattern_ok [OF s1 z(1)]
  have "\<not> rAllow r1" using 1 z(5) by simp
  note 2 = with_action_ok [OF s2 this]
  have "rule_ok r2" "tls_fields r2 = tls_fields zero_rule" "proxy_fields r2 = proxy_fields zero_rule" "serve_fields r2 = ([], False)"
      "rAllow r2 \<longleftrightarrow> \<not> (\<exists>a. rwAction raw = Some a \<and> ToLower a = ''deny'')"
      "rAllow r2 \<and> rwServiceRules raw = [] \<and> \<not> rwConsole raw \<longrightarrow> plain_target r2"
    using 1 2 z by simp_all
  note 3 = with_settings_ok [OF s3 this]
  have same: "rListener r = l" "rSource r = p" "rLine r = rwLine raw" using 1 2 3 z by (auto simp: core_def)
  have "core r = core r2" using 3 by simp
  then have allow: "rAllow r \<longleftrightarrow> \<not> (\<exists>a. rwAction raw = Some a \<and> ToLower a = ''deny'')" using 2 by (simp add: core_def)
  have "\<exists>l. listener_named cfg (rListener r) = Some l \<and> rwListener raw = Some (rListener r)" using same(1) raw by auto
  then show ?thesis using 3 raw same allow by simp
qed

text \<open>
  C29. Every rule the loader builds is well-formed, whatever was written: its fields are those of
  its pattern's classification; a rule that connects has a port and a target whose references all
  exist; a deny rule has no certificate, routes, PROXY header or speed limit; a rule that serves
  has a certificate and nothing upstream; a certificate comes from ACME, whose terms were agreed
  and whose names are valid and match the pattern, or from a local CA; its routes are complete,
  distinct and the longest prefix first; and it belongs to a listener of the configuration.
\<close>

theorem rules_load_well_formed:
  assumes "buildRule w cfg raw = Inr r"
  shows "loaded_rule (AcmeAgreeTOS cfg) r \<and> (\<exists>l. listener_named cfg (rListener r) = Some l)"
  using buildRule_ok [OF assms] by blast

definition no_world :: world where
  "no_world = \<lparr>readFile = (\<lambda>_. None), urlParse = (\<lambda>_. None), parseDate = (\<lambda>_. None),
     parseRFC3339 = (\<lambda>_. None), present = 0, statFile = (\<lambda>_. False), parseDuration = (\<lambda>_. None),
     pemBlocks = (\<lambda>_. []), parseCertificate = (\<lambda>_. None), parsePKCS1 = (\<lambda>_. None),
     parsePKCS8 = (\<lambda>_. None)\<rparr>"

definition demo_raw :: "string \<Rightarrow> string \<Rightarrow> rawRule" where
  "demo_raw pattern target = zero_raw\<lparr>rwListener := Some ''https'', rwPattern := Some pattern, rwLine := 7,
     rwTarget := Some target, rwTargetLine := 8\<rparr>"

definition demo_cfg :: Config where
  "demo_cfg = initial_config ''certs''\<lparr>Listeners := [zero_listener\<lparr>lName := ''https'', lPort := 443\<rparr>]\<rparr>"

lemma demo_listener_named: "listener_named demo_cfg ''https'' \<noteq> None" "AcmeAgreeTOS demo_cfg = False"
  by (simp_all add: listener_named_def demo_cfg_def initial_config_def)

lemma demo_parts:
  "splitTarget ''b.c:443'' = Some (''b.c'', ''443'')" "parsePort ''443'' = Some 443"
  "expand ''b.c'' [] [0, 0] = Inr ''b.c''" "ToLower ''allow'' = ''allow''"
proof -
  show "parsePort ''443'' = Some 443" by (simp add: parsePort_def ParseUint_def is_digit_def digit_val_def)
qed (code_simp+)

lemma demo_built: "\<exists>r. buildRule no_world demo_cfg (demo_raw ''w.a'' ''b.c:443'') = Inr r"
proof -
  let ?raw = "demo_raw ''w.a'' ''b.c:443''"
  obtain l where l: "listener_named demo_cfg ''https'' = Some l" using demo_listener_named by auto
  let ?r = "zero_rule\<lparr>rLine := 7, rSource := ''w.a'', rListener := ''https'', rKind := kindLiteral,
    rPattern := Some (Toks (map Lit ''w.a'')), rLiteralChars := 3, rNoSNI := False, rAllow := True\<rparr>"
  have probe: "probe ?r = [0, 0]" by (simp add: probe_def groups_def numeral_eq_Suc)
  have action: "with_action ?raw (?r\<lparr>rAllow := False\<rparr>) = Inr (?r\<lparr>rTargetHost := ''b.c'', rTargetPort := 443\<rparr>)"
    using probe by (simp add: with_action_def with_target_def target_parts_def checked_target_def demo_parts demo_raw_def zero_raw_def)
  have "\<exists>r. with_settings no_world False ?raw (?r\<lparr>rTargetHost := ''b.c'', rTargetPort := 443\<rparr>) = Inr r"
    by (simp add: with_settings_def serveSettings_def tlsSettings_def proxySettings_def proxy_flag_def proxy_version_def
        speedSettings_def speed_setting_def wrap_def demo_raw_def zero_raw_def zero_rule_def Serves_def)
  with action show ?thesis
    by (simp add: buildRule_def with_pattern_def sample_classes l demo_listener_named demo_raw_def zero_raw_def zero_rule_def)
qed

theorem rules_load_well_formed_witness:
  "\<exists>r. buildRule no_world demo_cfg (demo_raw ''w.a'' ''b.c:443'') = Inr r \<and> loaded_rule False r"
  using demo_built rules_load_well_formed demo_listener_named(2) by metis


lemma loaded_decision:
  assumes "loaded_rule agreed r" "rule_match r sni = Some m"
  shows "(\<forall>e. dErr (decide r sni m) \<noteq> Some (ExpandFailed e))
    \<and> (dAllow (decide r sni m) \<and> \<not> Serves r \<longrightarrow> valid_target (dHost (decide r sni m))
         \<and> 1 \<le> dPort (decide r sni m) \<and> dPort (decide r sni m) \<le> 65535)
    \<and> (dAllow (decide r sni m) \<longrightarrow> rAllow r)
    \<and> (dErr (decide r sni m) \<noteq> None \<longrightarrow> \<not> dAllow (decide r sni m))
    \<and> dRule (decide r sni m) = Some r"
proof (cases "rAllow r \<and> \<not> Serves r")
  case True
  have ok: "rule_ok r" "plain_target r" using assms(1) True by (simp_all add: loaded_rule_def)
  then have "probe_ok r" by (simp add: plain_target_def)
  note d = decide_after_probe [OF ok(1) this assms(2)]
  have "dAllow (decide r sni m) \<longrightarrow> dPort (decide r sni m) = rTargetPort r"
    using True by (simp add: decide_def no_decision_def split: sum.split)
  then show ?thesis using d True ok(2) by (simp add: plain_target_def)
next
  case False
  then show ?thesis by (auto simp: decide_def no_decision_def)
qed

text \<open>
  C30. What a decision hands on, for any rule that loaded and any name it matches: a missing capture
  can no longer fail a connection; an allowing decision of a rule that does not serve itself has a
  host that is a valid name or IP address and the rule's port, between 1 and 65535; an error never
  comes with permission.
\<close>

theorem decision_is_dialable:
  assumes "buildRule w cfg raw = Inr r" "rule_match r sni = Some m"
  shows "(\<forall>e. dErr (decide r sni m) \<noteq> Some (ExpandFailed e))
    \<and> (dAllow (decide r sni m) \<and> \<not> Serves r \<longrightarrow> valid_target (dHost (decide r sni m))
         \<and> 1 \<le> dPort (decide r sni m) \<and> dPort (decide r sni m) \<le> 65535)
    \<and> (dAllow (decide r sni m) \<longrightarrow> rAllow r)
    \<and> (dErr (decide r sni m) \<noteq> None \<longrightarrow> \<not> dAllow (decide r sni m))
    \<and> dRule (decide r sni m) = Some r"
  using loaded_decision [OF _ assms(2)] buildRule_ok [OF assms(1)] by blast

theorem decision_is_dialable_witness:
  "\<exists>r. buildRule no_world demo_cfg (demo_raw ''w.a'' ''b.c:443'') = Inr r
     \<and> (\<forall>m. rule_match r ''w.a'' = Some m \<longrightarrow> dRule (decide r ''w.a'' m) = Some r)
     \<and> rule_match r ''w.a'' \<noteq> None"
proof -
  obtain r where r: "buildRule no_world demo_cfg (demo_raw ''w.a'' ''b.c:443'') = Inr r" using demo_built by blast
  have "rSource r = ''w.a''" "rule_ok r" using buildRule_ok [OF r] by (simp_all add: demo_raw_def loaded_rule_def)
  then have "rKind r = kindLiteral \<and> rNoSNI r = False \<and> rPattern r = Some (Toks (map Lit ''w.a''))"
    by (simp add: rule_ok_def sample_classes)
  then have "rule_match r ''w.a'' \<noteq> None" by (simp add: rule_match_def)
  then show ?thesis using r decision_is_dialable [OF r] by blast
qed

lemma routes_longest_first: "buildRule w cfg raw = Inr r \<Longrightarrow> longest_first (rRoutes r)"
  using buildRule_ok [of w cfg raw r] by (simp add: loaded_rule_def)

text \<open>
  C31. A rule's serve list, once accepted, answers a path with the entry of the longest matching
  prefix, wherever it stands in the file, and with none exactly when no prefix matches.
\<close>

theorem longest_prefix_serves:
  assumes "serveSettings w raw rule = Inr r" "rRoutes rule = []"
  shows "RouteFor r path = Some s \<longleftrightarrow> s \<in> set (rRoutes r) \<and> HasPrefix path (sPrefix s)
    \<and> (\<forall>s'\<in>set (rRoutes r). HasPrefix path (sPrefix s') \<longrightarrow> length (sPrefix s') \<le> length (sPrefix s))"
  unfolding RouteFor_def using serveSettings_frame [OF assms] by (intro longest_found) blast

definition demo_entry :: "string \<Rightarrow> string \<Rightarrow> rawServiceRule" where
  "demo_entry key prefix = \<lparr>rsKey = key, rsOpts = [(''type'', ''static_content''), (''prefix'', prefix), (''base_dir'', ''www'')], rsLine = 9\<rparr>"

definition demo_serve :: rawRule where
  "demo_serve = zero_raw\<lparr>rwCert := Some ''local-ca'', rwServiceRules := [demo_entry ''serve 1'' ''/'', demo_entry ''serve 2'' ''/a/'']\<rparr>"

theorem longest_prefix_serves_witness:
  "\<exists>r s. serveSettings no_world demo_serve zero_rule = Inr r \<and> RouteFor r ''/a/b'' = Some s \<and> sKey s = ''serve 2''"
proof -
  have "(case serve_routes no_world (rwServiceRules demo_serve) [] of
      Inr [s1, s2] \<Rightarrow> sKey s1 = ''serve 1'' \<and> sPrefix s1 = ''/'' \<and> sKey s2 = ''serve 2'' \<and> sPrefix s2 = ''/a/'' | _ \<Rightarrow> False)"
    by code_simp
  then obtain s1 s2 where s: "serve_routes no_world (rwServiceRules demo_serve) [] = Inr [s1, s2]"
      "sPrefix s1 = ''/''" "sKey s2 = ''serve 2''" "sPrefix s2 = ''/a/''"
    by (auto split: sum.splits list.splits)
  obtain r where r: "serveSettings no_world demo_serve zero_rule = Inr r" "set (rRoutes r) = {s1, s2}"
    using s(1) by (simp add: serveSettings_def demo_serve_def zero_raw_def zero_rule_def insert_commute)
  have "rRoutes zero_rule = []" by (simp add: zero_rule_def)
  from longest_prefix_serves [OF r(1) this, of "''/a/b''" s2] have "RouteFor r ''/a/b'' = Some s2"
    using r(2) s(2,4) by (simp add: HasPrefix_def)
  with r(1) s(3) show ?thesis by blast
qed

end
