(* ===== verification/Yaml_Node.thy ===== *)
theory Yaml_Node
  imports Go_Strings
begin

text \<open>
  config.yaml as the YAML library hands it over, and how its mappings, values and lists are read
  (config_yaml.go). The library's nodes are the input; \<open>cert_validate_args\<close>, which the code keeps
  as JSON until the rule is built, stays the list it is.
\<close>

datatype ykind = ScalarNode | SequenceNode | MappingNode | AliasNode

datatype yaml = Node (yKind: ykind) (yTag: string) (yValue: string) (yLine: nat) (yContent: "yaml list")

datatype yaml_error =
    BadYaml string
  | RootNotMapping nat
  | NotMapping nat string
  | KeyNotWord nat string
  | AlreadyGiven nat string nat
  | ArgsNotList nat
  | NotListOfValues nat string
  | NotValueOrList nat string
  | NotList nat string

definition null_tag :: string where "null_tag = ''!!null''"

text \<open>\<open>parseYAML\<close>: the root mapping; \<open>contents\<close> is what the document node holds.\<close>

definition parseYAML :: "(string \<Rightarrow> (string, yaml list) result) \<Rightarrow> string \<Rightarrow> (yaml_error, yaml) result" where
  "parseYAML unmarshal text0 =
     (case unmarshal text0 of
        Inl e \<Rightarrow> Inl (BadYaml (TrimPrefix e ''yaml: ''))
      | Inr contents \<Rightarrow>
          (let root = (case contents of [] \<Rightarrow> Node MappingNode ''!!map'' [] 0 [] | r # _ \<Rightarrow> r) in
           if yKind root \<noteq> MappingNode then Inl (RootNotMapping (yLine root)) else Inr root))"

text \<open>A mapping's children come in pairs; \<open>seen\<close> are the keys before, with their lines.\<close>

fun pair_items :: "string \<Rightarrow> (string \<times> nat) list \<Rightarrow> yaml list \<Rightarrow> (yaml_error, (yaml \<times> yaml) list) result" where
  "pair_items whr seen (k # v # ns) =
     (if yKind k \<noteq> ScalarNode then Inl (KeyNotWord (yLine k) whr)
      else case map_of seen (yValue k) of
        Some prev \<Rightarrow> Inl (AlreadyGiven (yLine k) (yValue k) prev)
      | None \<Rightarrow> bind_result (pair_items whr ((yValue k, yLine k) # seen) ns) (\<lambda>kvs. Inr ((k, v) # kvs)))"
| "pair_items whr seen ns = Inr []"

definition pairs :: "yaml \<Rightarrow> string \<Rightarrow> (yaml_error, (yaml \<times> yaml) list) result" where
  "pairs m whr =
     (if yKind m \<noteq> MappingNode then Inl (NotMapping (yLine m) whr) else pair_items whr [] (yContent m))"

datatype yvalue = Text string | Args "string list"

text \<open>
  Only a rule has a key for arguments. Every other section refuses \<open>cert_validate_args\<close> as unknown
  whatever its value, so no text stands for the list there.
\<close>

fun text_of :: "yvalue \<Rightarrow> string" where
  "text_of (Text s) = s"
| "text_of (Args items) = []"

fun scalar_items :: "string \<Rightarrow> yaml list \<Rightarrow> (yaml_error, string list) result" where
  "scalar_items key [] = Inr []"
| "scalar_items key (it # ns) =
     (if yKind it \<noteq> ScalarNode then Inl (NotListOfValues (yLine it) key)
      else bind_result (scalar_items key ns) (\<lambda>items. Inr (yValue it # items)))"

definition yamlValue :: "string \<Rightarrow> yaml \<Rightarrow> (yaml_error, yvalue) result" where
  "yamlValue key v =
     (case yKind v of
        ScalarNode \<Rightarrow>
          if yTag v = null_tag then Inr (Text [])
          else if key = ''cert_validate_args'' then Inl (ArgsNotList (yLine v))
          else Inr (Text (yValue v))
      | SequenceNode \<Rightarrow>
          bind_result (scalar_items key (yContent v)) (\<lambda>items.
            Inr (if key = ''cert_validate_args'' then Args items else Text (Join ''; '' items)))
      | _ \<Rightarrow> Inl (NotValueOrList (yLine v) key))"

text \<open>One step after another, stopping at the first error.\<close>

fun walk_all :: "('a \<Rightarrow> 's \<Rightarrow> ('e, 's) result) \<Rightarrow> 'a list \<Rightarrow> 's \<Rightarrow> ('e, 's) result" where
  "walk_all f [] s = Inr s"
| "walk_all f (x # xs) s = bind_result (f x s) (walk_all f xs)"

definition eachItem ::
    "(yaml_error \<Rightarrow> 'e) \<Rightarrow> yaml \<Rightarrow> string \<Rightarrow> (yaml \<Rightarrow> 's \<Rightarrow> ('e, 's) result) \<Rightarrow> 's \<Rightarrow> ('e, 's) result" where
  "eachItem err v what f s =
     (if yTag v = null_tag then Inr s
      else if yKind v \<noteq> SequenceNode then Inl (err (NotList (yLine v) what))
      else walk_all f (yContent v) s)"

text \<open>An invariant every step keeps holds at the end.\<close>

lemma walk_all_inv:
  "walk_all f xs s = Inr s' \<Longrightarrow> P s \<Longrightarrow> (\<And>x s s'. x \<in> set xs \<Longrightarrow> f x s = Inr s' \<Longrightarrow> P s \<Longrightarrow> P s') \<Longrightarrow> P s'"
  by (induction xs arbitrary: s) auto

lemma eachItem_inv:
  "eachItem err v what f s = Inr s' \<Longrightarrow> P s \<Longrightarrow> (\<And>x s s'. f x s = Inr s' \<Longrightarrow> P s \<Longrightarrow> P s') \<Longrightarrow> P s'"
  by (auto simp: eachItem_def split: if_splits intro: walk_all_inv [where P = P])

text \<open>The keys of a mapping that is read are distinct.\<close>

lemma pair_items_distinct:
  "pair_items whr seen ns = Inr kvs \<Longrightarrow>
     distinct (map (yValue \<circ> fst) kvs) \<and> (\<forall>kv\<in>set kvs. yValue (fst kv) \<notin> fst ` set seen)"
proof (induction whr seen ns arbitrary: kvs rule: pair_items.induct)
  case (1 whr seen k v ns)
  then obtain rest where "map_of seen (yValue k) = None"
      "pair_items whr ((yValue k, yLine k) # seen) ns = Inr rest" "kvs = (k, v) # rest" "yKind k = ScalarNode"
    by (auto split: if_split_asm option.split_asm)
  then show ?case using 1(1) [of rest] by (auto simp: map_of_eq_None_iff)
qed auto

end
