(* ===== verification/Oidc_Config.thy ===== *)
theory Oidc_Config
  imports Yaml_Node Serve_Config
begin

text \<open>
  One item of the oidc section (oidc_config.go): its keys, the issuer's URL, the client
  certificate and its key, and the combinations that make a provider.
\<close>

datatype oidc_error =
    OidcYaml yaml_error
  | OidcBadName nat string
  | IssuerUnparsable nat
  | IssuerParts nat string
  | IssuerHTTP nat string
  | IssuerScheme nat string
  | OidcEmpty nat string
  | SecretFileUnreadable nat string
  | SecretFileEmpty nat string
  | BadSession nat string
  | NoCAFile nat string
  | UnknownOidcKey nat string
  | OidcNameRequired nat
  | IssuerRequired nat string
  | ClientIDRequired nat string
  | OidcSecretRequired nat string
  | SecretTwice nat string
  | SecretAndCertificate nat string
  | CertificateWithoutKey nat string
  | CertUnreadable nat string
  | CertUnparsable nat string
  | NoPEMCertificate nat string
  | KeyUnreadable nat string
  | KeyUnparsable nat string
  | NoPEMKey nat string
  | KeyNotRSA nat string
  | KeyMismatch nat string string

definition oidcDefaultSession :: duration where "oidcDefaultSession = 8 * 3600 * Second"
definition oidcDefaultScopes :: string where "oidcDefaultScopes = ''openid profile email''"

definition new_provider :: "nat \<Rightarrow> OIDCProvider" where
  "new_provider line = \<lparr>opName = [], opLine = line, opIssuer = [], opClientID = [], opClientSecret = [],
     opSecretFile = [], opCertFile = [], opKeyFile = [], opCertExpires = 0, opClientKey = None,
     opThumbprint = [], opScopes = FieldsFunc isSpace oidcDefaultScopes, opSession = oidcDefaultSession,
     opMFAAcr = [], opCAFile = [], opUserClaim = [], opGroupsClaim = ''groups'', opRolesClaim = ''roles'',
     opReferenced = {}\<rparr>"

text \<open>\<open>net.ParseIP\<close>, which knows no zones, and \<open>IP.IsLoopback\<close>.\<close>

definition loopback_host :: "string \<Rightarrow> bool" where
  "loopback_host host =
     (case ParseAddr host of
        Some a \<Rightarrow> Zone a = [] \<and> (case Unmap a of
            Addr4 b \<Rightarrow> b ! 0 = 127
          | Addr6 b z \<Rightarrow> b = replicate 15 0 @ [1]
          | NoAddr \<Rightarrow> False)
      | None \<Rightarrow> False)"

definition checkIssuer :: "world \<Rightarrow> nat \<Rightarrow> string \<Rightarrow> oidc_error option" where
  "checkIssuer w line v =
     (case urlParse w v of
        None \<Rightarrow> Some (IssuerUnparsable line)
      | Some u \<Rightarrow>
          if uHost u = [] \<or> puUser u \<or> puRawQuery u \<noteq> [] \<or> puFragment u \<noteq> [] then Some (IssuerParts line v)
          else if uScheme u = ''https'' then None
          else if uScheme u = ''http''
          then (if Hostname u = ''localhost'' \<or> loopback_host (Hostname u) then None else Some (IssuerHTTP line v))
          else Some (IssuerScheme line v))"

text \<open>The keys, on the provider and whether the secret was given in plain.\<close>

type_synonym oidc_key = "world \<Rightarrow> nat \<Rightarrow> string \<Rightarrow> OIDCProvider \<times> bool \<Rightarrow> (oidc_error, OIDCProvider \<times> bool) result"

definition set_text :: "string \<Rightarrow> (string \<Rightarrow> OIDCProvider \<Rightarrow> OIDCProvider) \<Rightarrow> oidc_key" where
  "set_text k upd w line v = (\<lambda>(p, plain). if v = [] then Inl (OidcEmpty line k) else Inr (upd v p, plain))"

definition scope_sep :: "char \<Rightarrow> bool" where
  "scope_sep c \<longleftrightarrow> c = CHR '';'' \<or> c = CHR '' '' \<or> c = CHR '',''"

definition scopes_of :: "string \<Rightarrow> string list" where
  "scopes_of v = ''openid'' # filter (\<lambda>s. s \<noteq> ''openid'') (FieldsFunc scope_sep v)"

definition oidc_keys :: "(string \<times> oidc_key) list" where
  "oidc_keys =
     [(''name'', \<lambda>w line v (p, plain).
         if \<not> listenerName v then Inl (OidcBadName line v) else Inr (p\<lparr>opName := v\<rparr>, plain)),
      (''issuer'', \<lambda>w line v (p, plain).
         (case checkIssuer w line v of
            Some e \<Rightarrow> Inl e
          | None \<Rightarrow> Inr (p\<lparr>opIssuer := TrimSuffix v ''/''\<rparr>, plain))),
      (''client_id'', set_text ''client_id'' (\<lambda>v. opClientID_update (\<lambda>_. v))),
      (''client_secret'', \<lambda>w line v (p, plain). Inr (p\<lparr>opClientSecret := v\<rparr>, True)),
      (''client_secret_file'', \<lambda>w line v (p, plain).
         if v = [] then Inl (OidcEmpty line ''client_secret_file'')
         else case readFile w v of
           None \<Rightarrow> Inl (SecretFileUnreadable line v)
         | Some b \<Rightarrow>
             if TrimSpace b = [] then Inl (SecretFileEmpty line v)
             else Inr (p\<lparr>opClientSecret := TrimSpace b, opSecretFile := v\<rparr>, plain)),
      (''scopes'', \<lambda>w line v (p, plain). Inr (p\<lparr>opScopes := scopes_of v\<rparr>, plain)),
      (''session'', \<lambda>w line v (p, plain).
         (case parseDuration w v of
            Some d \<Rightarrow>
              if d < 60 * Second \<or> 30 * 24 * 3600 * Second < d then Inl (BadSession line v)
              else Inr (p\<lparr>opSession := d\<rparr>, plain)
          | None \<Rightarrow> Inl (BadSession line v))),
      (''mfa_acr_values'', \<lambda>w line v (p, plain). Inr (p\<lparr>opMFAAcr := splitList v\<rparr>, plain)),
      (''ca_file'', \<lambda>w line v (p, plain).
         if v = [] then Inl (OidcEmpty line ''ca_file'')
         else if \<not> statFile w v then Inl (NoCAFile line v)
         else Inr (p\<lparr>opCAFile := v\<rparr>, plain)),
      (''username_claim'', \<lambda>w line v (p, plain). Inr (p\<lparr>opUserClaim := v\<rparr>, plain)),
      (''groups_claim'', set_text ''groups_claim'' (\<lambda>v. opGroupsClaim_update (\<lambda>_. v))),
      (''roles_claim'', set_text ''roles_claim'' (\<lambda>v. opRolesClaim_update (\<lambda>_. v))),
      (''client_certificate'', set_text ''client_certificate'' (\<lambda>v. opCertFile_update (\<lambda>_. v))),
      (''client_key'', set_text ''client_key'' (\<lambda>v. opKeyFile_update (\<lambda>_. v)))]"

definition oidc_item :: "world \<Rightarrow> yaml \<times> yaml \<Rightarrow> OIDCProvider \<times> bool \<Rightarrow> (oidc_error, OIDCProvider \<times> bool) result" where
  "oidc_item w kv st =
     (case kv of (k, v) \<Rightarrow>
      bind_result (wrap OidcYaml (yamlValue (yValue k) v)) (\<lambda>value.
        case map_of oidc_keys (yValue k) of
          None \<Rightarrow> Inl (UnknownOidcKey (yLine k) (yValue k))
        | Some h \<Rightarrow> h w (yLine k) (TrimSpace (text_of value)) st))"

text \<open>The client certificate: the first one of its file; its key: the first private key of its file.\<close>

fun first_certificate :: "world \<Rightarrow> (string \<times> string) list \<Rightarrow> x509 option option" where
  "first_certificate w [] = Some None"
| "first_certificate w ((typ, b) # blocks) =
     (if typ = ''CERTIFICATE''
      then (case parseCertificate w b of None \<Rightarrow> None | Some c \<Rightarrow> Some (Some c))
      else first_certificate w blocks)"

fun first_private_key :: "world \<Rightarrow> (string \<times> string) list \<Rightarrow> any_key option option" where
  "first_private_key w [] = Some None"
| "first_private_key w ((typ, b) # blocks) =
     (if typ = ''RSA PRIVATE KEY''
      then (case parsePKCS1 w b of None \<Rightarrow> None | Some k \<Rightarrow> Some (Some k))
      else if typ = ''PRIVATE KEY''
      then (case parsePKCS8 w b of None \<Rightarrow> None | Some k \<Rightarrow> Some (Some k))
      else first_private_key w blocks)"

definition loadClientCert :: "world \<Rightarrow> OIDCProvider \<Rightarrow> (oidc_error, OIDCProvider) result" where
  "loadClientCert w p =
     (case readFile w (opCertFile p) of
        None \<Rightarrow> Inl (CertUnreadable (opLine p) (opCertFile p))
      | Some certPEM \<Rightarrow>
      (case first_certificate w (pemBlocks w certPEM) of
        None \<Rightarrow> Inl (CertUnparsable (opLine p) (opCertFile p))
      | Some None \<Rightarrow> Inl (NoPEMCertificate (opLine p) (opCertFile p))
      | Some (Some cert) \<Rightarrow>
      (case readFile w (opKeyFile p) of
        None \<Rightarrow> Inl (KeyUnreadable (opLine p) (opKeyFile p))
      | Some keyPEM \<Rightarrow>
      (case first_private_key w (pemBlocks w keyPEM) of
        None \<Rightarrow> Inl (KeyUnparsable (opLine p) (opKeyFile p))
      | Some None \<Rightarrow> Inl (NoPEMKey (opLine p) (opKeyFile p))
      | Some (Some OtherKey) \<Rightarrow> Inl (KeyNotRSA (opLine p) (opKeyFile p))
      | Some (Some (RSAKey pub)) \<Rightarrow>
          if pub \<noteq> xPublicKey cert then Inl (KeyMismatch (opLine p) (opKeyFile p) (opCertFile p))
          else Inr (p\<lparr>opClientKey := Some pub, opThumbprint := xThumbprint cert,
                      opCertExpires := xNotAfter cert\<rparr>)))))"

definition oidc_missing :: "OIDCProvider \<Rightarrow> bool \<Rightarrow> oidc_error option" where
  "oidc_missing p plain =
     (if opName p = [] then Some (OidcNameRequired (opLine p))
      else if opIssuer p = [] then Some (IssuerRequired (opLine p) (opName p))
      else if opClientID p = [] then Some (ClientIDRequired (opLine p) (opName p))
      else if opClientSecret p = [] \<and> opCertFile p = [] \<and> opKeyFile p = []
      then Some (OidcSecretRequired (opLine p) (opName p))
      else if plain \<and> opSecretFile p \<noteq> [] then Some (SecretTwice (opLine p) (opName p))
      else if opClientSecret p \<noteq> [] \<and> (opCertFile p \<noteq> [] \<or> opKeyFile p \<noteq> [])
      then Some (SecretAndCertificate (opLine p) (opName p))
      else if (opCertFile p = []) \<noteq> (opKeyFile p = []) then Some (CertificateWithoutKey (opLine p) (opName p))
      else None)"

definition walkOIDC :: "world \<Rightarrow> yaml \<Rightarrow> (oidc_error, OIDCProvider) result" where
  "walkOIDC w item =
     bind_result (wrap OidcYaml (pairs item ''an oidc item'')) (\<lambda>items.
     bind_result (walk_all (oidc_item w) items (new_provider (yLine item), False)) (\<lambda>(p, plain).
       case oidc_missing p plain of
         Some e \<Rightarrow> Inl e
       | None \<Rightarrow> if opCertFile p \<noteq> [] then loadClientCert w p else Inr p))"

subsection \<open>What a provider has\<close>

definition provider_ok :: "OIDCProvider \<Rightarrow> bool" where
  "provider_ok p \<longleftrightarrow> listenerName (opName p) \<and> opIssuer p \<noteq> [] \<and> opClientID p \<noteq> []
     \<and> (opClientSecret p \<noteq> []) \<noteq> (opClientKey p \<noteq> None)
     \<and> (\<exists>ss. opScopes p = ''openid'' # ss \<and> ''openid'' \<notin> set ss)
     \<and> 60 * Second \<le> opSession p \<and> opSession p \<le> 30 * 24 * 3600 * Second
     \<and> opGroupsClaim p \<noteq> [] \<and> opRolesClaim p \<noteq> []"

text \<open>What every key keeps: the parts that are set are well-formed.\<close>

definition provider_inv :: "OIDCProvider \<Rightarrow> bool" where
  "provider_inv p \<longleftrightarrow> (opName p = [] \<or> listenerName (opName p)) \<and> opClientKey p = None
     \<and> (\<exists>ss. opScopes p = ''openid'' # ss \<and> ''openid'' \<notin> set ss)
     \<and> 60 * Second \<le> opSession p \<and> opSession p \<le> 30 * 24 * 3600 * Second
     \<and> opGroupsClaim p \<noteq> [] \<and> opRolesClaim p \<noteq> []"

lemma new_provider_inv: "provider_inv (new_provider line)"
proof -
  have "FieldsFunc isSpace oidcDefaultScopes = [''openid'', ''profile'', ''email'']" by code_simp
  then show ?thesis by (simp add: provider_inv_def new_provider_def oidcDefaultSession_def Second_def)
qed

text \<open>The fields \<open>provider_inv\<close> does not speak of can change freely; the others keep it when well-formed.\<close>

lemma provider_inv_free:
  "provider_inv (p\<lparr>opIssuer := v\<rparr>) = provider_inv p" "provider_inv (p\<lparr>opClientID := v\<rparr>) = provider_inv p"
  "provider_inv (p\<lparr>opClientSecret := v\<rparr>) = provider_inv p" "provider_inv (p\<lparr>opSecretFile := v\<rparr>) = provider_inv p"
  "provider_inv (p\<lparr>opMFAAcr := vs\<rparr>) = provider_inv p" "provider_inv (p\<lparr>opCAFile := v\<rparr>) = provider_inv p"
  "provider_inv (p\<lparr>opUserClaim := v\<rparr>) = provider_inv p" "provider_inv (p\<lparr>opCertFile := v\<rparr>) = provider_inv p"
  "provider_inv (p\<lparr>opKeyFile := v\<rparr>) = provider_inv p"
  by (simp_all add: provider_inv_def)

lemma provider_inv_set:
  assumes "provider_inv p"
  shows "listenerName v \<Longrightarrow> provider_inv (p\<lparr>opName := v\<rparr>)"
    and "provider_inv (p\<lparr>opScopes := scopes_of v\<rparr>)"
    and "60 * Second \<le> d \<Longrightarrow> d \<le> 30 * 24 * 3600 * Second \<Longrightarrow> provider_inv (p\<lparr>opSession := d\<rparr>)"
    and "v \<noteq> [] \<Longrightarrow> provider_inv (p\<lparr>opGroupsClaim := v\<rparr>)"
    and "v \<noteq> [] \<Longrightarrow> provider_inv (p\<lparr>opRolesClaim := v\<rparr>)"
  using assms by (simp_all add: provider_inv_def scopes_of_def)

lemma oidc_key_inv:
  "(k, h) \<in> set oidc_keys \<Longrightarrow> h w line v (p, plain) = Inr (p', plain') \<Longrightarrow> provider_inv p \<Longrightarrow> provider_inv p'"
  unfolding oidc_keys_def list.set insert_iff empty_iff prod.inject
  by (elim disjE conjE FalseE; hypsubst)
     (simp_all add: set_text_def provider_inv_free provider_inv_set not_less
        split: if_split_asm option.split_asm, auto simp: provider_inv_free provider_inv_set)

lemma oidc_item_inv: "oidc_item w kv st = Inr st' \<Longrightarrow> provider_inv (fst st) \<Longrightarrow> provider_inv (fst st')"
proof -
  assume step: "oidc_item w kv st = Inr st'" and inv: "provider_inv (fst st)"
  obtain k v p plain p' plain' where kv: "kv = (k, v)" "st = (p, plain)" "st' = (p', plain')"
    by (metis surj_pair)
  obtain val h where "map_of oidc_keys (yValue k) = Some h" "h w (yLine k) (TrimSpace (text_of val)) (p, plain) = Inr (p', plain')"
    using step kv by (auto simp: oidc_item_def split: option.split_asm)
  then show ?thesis using oidc_key_inv [OF map_of_SomeD] inv kv by (metis fst_conv)
qed

lemma loadClientCert_ok:
  "loadClientCert w p = Inr p' \<Longrightarrow>
     \<exists>pub t e. p' = p\<lparr>opClientKey := Some pub, opThumbprint := t, opCertExpires := e\<rparr>"
  by (auto simp: loadClientCert_def split: option.split_asm any_key.split_asm if_split_asm)

lemma walkOIDC_ok:
  assumes "walkOIDC w item = Inr p"
  shows "provider_ok p"
proof -
  obtain items q plain where q: "walk_all (oidc_item w) items (new_provider (yLine item), False) = Inr (q, plain)"
      "oidc_missing q plain = None" "if opCertFile q \<noteq> [] then loadClientCert w q = Inr p else p = q"
    using assms by (auto simp: walkOIDC_def split: option.split_asm if_split_asm)
  have "provider_inv (fst (q, plain))"
    by (rule walk_all_inv [OF q(1)]) (auto simp: new_provider_inv intro: oidc_item_inv)
  then have inv: "provider_inv q" by simp
  have miss: "opName q \<noteq> []" "opIssuer q \<noteq> []" "opClientID q \<noteq> []"
      "(opClientSecret q \<noteq> []) \<noteq> (opCertFile q \<noteq> [])"
    using q(2) by (auto simp: oidc_missing_def split: if_split_asm)
  show ?thesis
  proof (cases "opCertFile q = []")
    case True
    then show ?thesis using q(3) inv miss by (simp add: provider_ok_def provider_inv_def)
  next
    case False
    then show ?thesis using loadClientCert_ok [of w q p] q(3) inv miss by (auto simp: provider_ok_def provider_inv_def)
  qed
qed

end
