(* ===== verification/Yaml_Walk.thy ===== *)
theory Yaml_Walk
  imports Oidc_Config Rule_Config Listener_Set
begin

text \<open>
  Reading config.yaml into settings, raw rules, users and providers (config_yaml.go's walkYAML and
  the switch of \<open>LoadConfig\<close> it calls back). What \<open>LoadConfig\<close> keeps in local variables while it
  reads is the record \<open>walk\<close>.
\<close>

datatype config_error =
    YamlFailed yaml_error
  | SettingFailed nat setting_error
  | UnknownRuleKey nat string
  | BadProxyKey nat string
  | UnknownRoutesKey nat string
  | RoutesNeedListener nat
  | BadAuthName nat string
  | UnknownAuthKey nat string
  | UserFailed nat user_error
  | OidcFailed oidc_error
  | ConsoleSection nat
  | UnknownSection nat string
  | ListenersFailed listener_error
  | RuleFailed nat rule_error
  | ConsoleNoSNITaken nat
  | ConsoleNameTaken nat string
  | ConsoleFailed rule_error
  | OrderFailed prioritise_error
  | SectionsFailed section_error
  | ResolversNeeded

record walk =
  wkConfig :: Config
  wkPoolMaxIdle :: "nat option"
  wkRedirect :: bool
  wkRaws :: "rawRule list"
  wkAuths :: "BasicAuth list"
  wkProviders :: "OIDCProvider list"

subsection \<open>The keys of a section\<close>

text \<open>Two keys of the global section set variables of \<open>LoadConfig\<close>; the others set the configuration.\<close>

definition apply_global :: "string \<Rightarrow> string \<Rightarrow> nat \<Rightarrow> walk \<Rightarrow> (config_error, walk) result" where
  "apply_global key val line st =
     wrap (SettingFailed line)
       (if key = ''buffer_pool_max_idle''
        then bind_result (num key val) (\<lambda>n. Inr (st\<lparr>wkPoolMaxIdle := Some n\<rparr>))
        else if key = ''http_to_https_redirect''
        then bind_result (flag key val) (\<lambda>b. Inr (st\<lparr>wkRedirect := b\<rparr>))
        else bind_result (global_key key val line (wkConfig st)) (\<lambda>c. Inr (st\<lparr>wkConfig := c\<rparr>)))"

definition apply_logging :: "string \<Rightarrow> string \<Rightarrow> nat \<Rightarrow> walk \<Rightarrow> (config_error, walk) result" where
  "apply_logging key val line st =
     wrap (SettingFailed line) (bind_result (logging_key key val (wkConfig st)) (\<lambda>c. Inr (st\<lparr>wkConfig := c\<rparr>)))"

definition host_keys :: "(string \<times> (string \<Rightarrow> rawRule \<Rightarrow> rawRule)) list" where
  "host_keys =
     [(''listener'', \<lambda>v. rwListener_update (\<lambda>_. Some v)),
      (''pattern'', \<lambda>v. rwPattern_update (\<lambda>_. Some v)),
      (''action'', \<lambda>v. rwAction_update (\<lambda>_. Some v)),
      (''target_host'', \<lambda>v. rwTargetHost_update (\<lambda>_. Some v)),
      (''target_port'', \<lambda>v. rwTargetPort_update (\<lambda>_. Some v)),
      (''cert'', \<lambda>v. rwCert_update (\<lambda>_. Some v)),
      (''cert_domains'', \<lambda>v. rwCertDomains_update (\<lambda>_. Some v)),
      (''cert_validate_script'', \<lambda>v. rwCertScript_update (\<lambda>_. Some v)),
      (''upstream_tls'', \<lambda>v. rwUpstreamTLS_update (\<lambda>_. Some v)),
      (''upstream_tls_verify'', \<lambda>v. rwUpstreamVerify_update (\<lambda>_. Some v)),
      (''upstream_sni'', \<lambda>v. rwUpstreamSNI_update (\<lambda>_. Some v)),
      (''proxy'', \<lambda>v. rwProxy_update (\<lambda>_. Some v)),
      (''proxy_version'', \<lambda>v. rwProxyVersion_update (\<lambda>_. Some v)),
      (''max_aggregated_speed'', \<lambda>v. rwAggSpeed_update (\<lambda>_. Some v)),
      (''max_single_connection_speed'', \<lambda>v. rwConnSpeed_update (\<lambda>_. Some v))]"

text \<open>
  \<open>cert_validate_args\<close> without a value is the empty text, which is no JSON: reading it leaves the
  default arguments in place.
\<close>

fun args_of :: "yvalue \<Rightarrow> string list" where
  "args_of (Args items) = items"
| "args_of (Text s) = [''${host}'']"

definition apply_host :: "string \<Rightarrow> yvalue \<Rightarrow> nat \<Rightarrow> rawRule \<Rightarrow> (config_error, rawRule) result" where
  "apply_host key val line r =
     (if key = ''cert_validate_args'' then Inr (r\<lparr>rwCertArgs := Some (args_of val)\<rparr>)
      else case map_of host_keys key of
        None \<Rightarrow> Inl (SettingFailed line (UnknownKey key ''a rule''))
      | Some h \<Rightarrow> Inr (h (text_of val) r))"

subsection \<open>Sections\<close>

definition walk_setting ::
    "(string \<Rightarrow> string \<Rightarrow> nat \<Rightarrow> 's \<Rightarrow> (config_error, 's) result) \<Rightarrow> yaml \<times> yaml \<Rightarrow> 's \<Rightarrow> (config_error, 's) result" where
  "walk_setting app kv st =
     (case kv of (k, v) \<Rightarrow>
      bind_result (wrap YamlFailed (yamlValue (yValue k) v)) (\<lambda>val. app (yValue k) (text_of val) (yLine k) st))"

definition listener_setting :: "string \<Rightarrow> string \<Rightarrow> nat \<Rightarrow> Listener \<Rightarrow> (config_error, Listener) result" where
  "listener_setting key val line l =
     wrap (SettingFailed line) (listenerOption key val
       (if key = ''bind'' then l\<lparr>lBindSet := True\<rparr> else if key = ''port'' then l\<lparr>lPortSet := True\<rparr> else l))"

definition new_listener :: "nat \<Rightarrow> Listener" where
  "new_listener line = zero_listener\<lparr>lLine := line, lBind := ''0.0.0.0'', lBinds := [''0.0.0.0'']\<rparr>"

definition walk_listener :: "yaml \<Rightarrow> walk \<Rightarrow> (config_error, walk) result" where
  "walk_listener item st =
     bind_result (wrap YamlFailed (pairs item ''a listener'')) (\<lambda>items.
     bind_result (walk_all (walk_setting listener_setting) items (new_listener (yLine item))) (\<lambda>l.
       Inr (st\<lparr>wkConfig := (wkConfig st)\<lparr>Listeners := Listeners (wkConfig st) @ [l]\<rparr>\<rparr>)))"

text \<open>A list of the file's key and value pairs as texts.\<close>

fun text_pairs :: "(yaml \<times> yaml) list \<Rightarrow> (yaml_error, (string \<times> string) list) result" where
  "text_pairs [] = Inr []"
| "text_pairs ((k, v) # kvs) =
     bind_result (yamlValue (yValue k) v) (\<lambda>val.
     bind_result (text_pairs kvs) (\<lambda>rest. Inr ((yValue k, text_of val) # rest)))"

definition serve_item :: "yaml \<Rightarrow> rawRule \<times> nat \<Rightarrow> (config_error, rawRule \<times> nat) result" where
  "serve_item item st =
     (case st of (r, n) \<Rightarrow>
      bind_result (wrap YamlFailed (pairs item ''a serve entry'')) (\<lambda>items.
      bind_result (wrap YamlFailed (text_pairs items)) (\<lambda>opts.
        Inr (r\<lparr>rwServiceRules := rwServiceRules r @
               [\<lparr>rsKey = ''serve '' @ Itoa (n + 1), rsOpts = opts, rsLine = yLine item\<rparr>]\<rparr>, n + 1))))"

definition walkServe :: "yaml \<Rightarrow> rawRule \<Rightarrow> (config_error, rawRule) result" where
  "walkServe v r = bind_result (eachItem YamlFailed v ''serve'' serve_item (r, 0)) (\<lambda>(r', n). Inr r')"

definition proxy_key :: "string \<Rightarrow> nat \<Rightarrow> rawRule \<Rightarrow> (config_error, rawRule) result" where
  "proxy_key val line r =
     (if ToLower val = ''v1'' \<or> ToLower val = ''v2''
      then Inr (r\<lparr>rwProxy := Some ''true'', rwProxyVersion := Some (tl val)\<rparr>)
      else if ToLower val = ''none'' \<or> ToLower val = ''false'' \<or> val = []
      then Inr (r\<lparr>rwProxy := Some ''false''\<rparr>)
      else Inl (BadProxyKey line val))"

definition rule_key :: "string \<Rightarrow> yvalue \<Rightarrow> nat \<Rightarrow> rawRule \<Rightarrow> (config_error, rawRule) result" where
  "rule_key key val line r =
     (if key = ''domain'' then apply_host ''pattern'' val line r
      else if key \<in> set [''pattern'', ''target_host'', ''target_port'', ''proxy_version'', ''listener'']
      then Inl (UnknownRuleKey line key)
      else if key = ''target'' then Inr (r\<lparr>rwTarget := Some (text_of val), rwTargetLine := line\<rparr>)
      else if key = ''proxy'' then proxy_key (text_of val) line r
      else apply_host key val line r)"

definition rule_item :: "yaml \<times> yaml \<Rightarrow> rawRule \<Rightarrow> (config_error, rawRule) result" where
  "rule_item kv r =
     (case kv of (k, v) \<Rightarrow>
      if yValue k = ''serve'' then walkServe v r
      else bind_result (wrap YamlFailed (yamlValue (yValue k) v)) (\<lambda>val. rule_key (yValue k) val (yLine k) r))"

definition walk_rule :: "string \<Rightarrow> yaml \<Rightarrow> rawRule list \<Rightarrow> (config_error, rawRule list) result" where
  "walk_rule listener rule raws =
     bind_result (wrap YamlFailed (pairs rule ''a rule'')) (\<lambda>items.
     bind_result (walk_all rule_item items (zero_raw\<lparr>rwLine := yLine rule, rwListener := Some listener\<rparr>))
       (\<lambda>r. Inr (raws @ [r])))"

definition routes_item :: "yaml \<times> yaml \<Rightarrow> string option \<times> yaml option \<Rightarrow> (config_error, string option \<times> yaml option) result" where
  "routes_item kv st =
     (case (kv, st) of ((k, v), (listener, rules)) \<Rightarrow>
      if yValue k = ''listener''
      then bind_result (wrap YamlFailed (yamlValue ''listener'' v)) (\<lambda>val. Inr (Some (text_of val), rules))
      else if yValue k = ''rules'' then Inr (listener, Some v)
      else Inl (UnknownRoutesKey (yLine k) (yValue k)))"

definition walkRoutes :: "yaml \<Rightarrow> walk \<Rightarrow> (config_error, walk) result" where
  "walkRoutes grp st =
     bind_result (wrap YamlFailed (pairs grp ''a routes item'')) (\<lambda>items.
     bind_result (walk_all routes_item items (None, None)) (\<lambda>(listener, rules).
       case listener of
         None \<Rightarrow> Inl (RoutesNeedListener (yLine grp))
       | Some name \<Rightarrow>
           (case rules of
              None \<Rightarrow> Inr st
            | Some v \<Rightarrow>
                bind_result (eachItem YamlFailed v ''rules'' (walk_rule name) (wkRaws st))
                  (\<lambda>raws. Inr (st\<lparr>wkRaws := raws\<rparr>)))))"

definition walk_user :: "world \<Rightarrow> yaml \<Rightarrow> BasicAuth \<Rightarrow> (config_error, BasicAuth) result" where
  "walk_user w u a =
     bind_result (wrap YamlFailed (pairs u ''a user'')) (\<lambda>fields.
     bind_result (wrap YamlFailed (text_pairs fields)) (\<lambda>opts.
       wrap (UserFailed (yLine u)) (addUser w opts a)))"

definition auth_item :: "world \<Rightarrow> yaml \<times> yaml \<Rightarrow> BasicAuth \<Rightarrow> (config_error, BasicAuth) result" where
  "auth_item w kv a =
     (case kv of (k, v) \<Rightarrow>
      if yValue k = ''name''
      then (if listenerName (yValue v) then Inr (a\<lparr>baName := yValue v\<rparr>) else Inl (BadAuthName (yLine k) (yValue v)))
      else if yValue k = ''users'' then eachItem YamlFailed v ''users'' (walk_user w) a
      else Inl (UnknownAuthKey (yLine k) (yValue k)))"

definition walkBasicAuth :: "world \<Rightarrow> yaml \<Rightarrow> (config_error, BasicAuth) result" where
  "walkBasicAuth w item =
     bind_result (wrap YamlFailed (pairs item ''a basic_auth item''))
       (\<lambda>items. walk_all (auth_item w) items \<lparr>baName = [], baLine = yLine item, baUsers = []\<rparr>)"

definition walk_section :: "world \<Rightarrow> yaml \<times> yaml \<Rightarrow> walk \<Rightarrow> (config_error, walk) result" where
  "walk_section w kv st =
     (case kv of (k, v) \<Rightarrow>
      if yValue k = ''global'' \<or> yValue k = ''logging''
      then (if yTag v = null_tag then Inr st
            else bind_result (wrap YamlFailed (pairs v (yValue k)))
              (\<lambda>items. walk_all (walk_setting (if yValue k = ''global'' then apply_global else apply_logging)) items st))
      else if yValue k = ''listeners'' then eachItem YamlFailed v ''listeners'' walk_listener st
      else if yValue k = ''routes'' then eachItem YamlFailed v ''routes'' walkRoutes st
      else if yValue k = ''basic_auth''
      then eachItem YamlFailed v ''basic_auth''
             (\<lambda>item st. bind_result (walkBasicAuth w item) (\<lambda>a. Inr (st\<lparr>wkAuths := wkAuths st @ [a]\<rparr>))) st
      else if yValue k = ''oidc''
      then eachItem YamlFailed v ''oidc''
             (\<lambda>item st. bind_result (wrap OidcFailed (walkOIDC w item))
                          (\<lambda>p. Inr (st\<lparr>wkProviders := wkProviders st @ [p]\<rparr>))) st
      else if yValue k = ''console'' then Inl (ConsoleSection (yLine k))
      else Inl (UnknownSection (yLine k) (yValue k)))"

definition walkYAML :: "(string \<Rightarrow> (string, yaml list) result) \<Rightarrow> world \<Rightarrow> string \<Rightarrow> walk \<Rightarrow> (config_error, walk) result" where
  "walkYAML unmarshal w file_text st =
     bind_result (wrap YamlFailed (parseYAML unmarshal file_text)) (\<lambda>doc.
     bind_result (wrap YamlFailed (pairs doc ''the file'')) (\<lambda>top. walk_all (walk_section w) top st))"

end
