(* ===== verification/Paths.thy ===== *)
theory Paths
  imports Go_Strings
begin

text \<open>
  Go's \<open>path.Clean\<close> and \<open>path.Join\<close> (\<open>filepath\<close>'s are the same on the systems the proxy runs on),
  on the segments between slashes, and what a cleaned path cannot contain.
\<close>

text \<open>The segments kept so far are in reverse; \<open>..\<close> takes the last one away, or stays when there is none.\<close>

fun clean_parts :: "bool \<Rightarrow> string list \<Rightarrow> string list \<Rightarrow> string list" where
  "clean_parts rooted out [] = rev out"
| "clean_parts rooted out (p # ps) =
     (if p = [] \<or> p = ''.'' then clean_parts rooted out ps
      else if p = ''..''
      then (case out of
              [] \<Rightarrow> clean_parts rooted (if rooted then [] else [''..'']) ps
            | q # out' \<Rightarrow> clean_parts rooted (if q = ''..'' then ''..'' # out else out') ps)
      else clean_parts rooted (p # out) ps)"

definition path_Clean :: "string \<Rightarrow> string" where
  "path_Clean s =
     (let rooted = HasPrefix s ''/''; body = Join ''/'' (clean_parts rooted [] (Split (CHR ''/'') s)) in
      if rooted then CHR ''/'' # body else if body = [] then ''.'' else body)"

definition path_Join :: "string \<Rightarrow> string \<Rightarrow> string" where
  "path_Join a b =
     (if a = [] then (if b = [] then [] else path_Clean b)
      else if b = [] then path_Clean a else path_Clean (a @ ''/'' @ b))"

text \<open>A rooted path, once clean, has no segment that is empty, \<open>.\<close> or \<open>..\<close>.\<close>

definition plain_part :: "string \<Rightarrow> bool" where
  "plain_part p \<longleftrightarrow> p \<noteq> [] \<and> p \<noteq> ''.'' \<and> p \<noteq> ''..''"

lemma clean_parts_plain:
  "list_all plain_part out \<Longrightarrow> list_all plain_part (clean_parts True out ps)"
  by (induction "True" out ps rule: clean_parts.induct) (auto simp: plain_part_def list_all_rev split: list.splits)

lemma clean_parts_free:
  "\<forall>p\<in>set out \<union> set ps. CHR ''/'' \<notin> set p \<Longrightarrow> \<forall>p\<in>set (clean_parts r out ps). CHR ''/'' \<notin> set p"
  by (induction r out ps rule: clean_parts.induct) (auto split: list.splits if_splits)

end
