(* ===== verification/Load_Config.thy ===== *)
theory Load_Config
  imports Yaml_Walk Paths
begin

text \<open>
  Loading a configuration (config.go's \<open>LoadConfig\<close>, console_config.go): the console's settings,
  the rule it adds, and the whole from the file's text to the configuration that runs. The YAML
  library, the default folder and the environment are arguments.
\<close>

subsection \<open>The console's settings\<close>

text \<open>\<open>IP()\<close> is the zero address when the domain is none.\<close>

definition console_IP :: "ConsoleConfig \<Rightarrow> addr" where
  "console_IP con = (case ParseAddr (conDomain con) of Some a \<Rightarrow> a | None \<Rightarrow> NoAddr)"

definition console_NoSNI :: "ConsoleConfig \<Rightarrow> bool" where
  "console_NoSNI con \<longleftrightarrow> conDomain con = [] \<or> IsValid (console_IP con)"

definition console_Name :: "ConsoleConfig \<Rightarrow> string" where
  "console_Name con = (if conDomain con = [] then noSNI @ '' (clients without SNI)'' else conDomain con)"

datatype console_error =
    PasswordMissing
  | BadConsoleDomain string
  | BadConsoleBind setting_error
  | BadConsolePort string
  | BadConsoleCert string
  | AutoNeedsHostName string
  | BadConsoleHash hash_error

text \<open>A flag wins over its environment variable; an unset variable is the empty text.\<close>

definition setting_value :: "(string \<rightharpoonup> string) \<Rightarrow> (string \<Rightarrow> string) \<Rightarrow> string \<Rightarrow> string \<Rightarrow> string" where
  "setting_value flags env flg var = (case flags flg of Some v \<Rightarrow> v | None \<Rightarrow> env var)"

definition console_domain :: "string \<Rightarrow> (console_error, string) result" where
  "console_domain given =
     (let d0 = ToLower (TrimSpace given); d = (if d0 = ''none'' \<or> d0 = noSNI then [] else d0) in
      case ParseAddr (Trim d ''[]'') of
        Some a \<Rightarrow>
          if Zone a = [] then Inr (addr_String (Unmap a))
          else if d \<noteq> [] \<and> \<not> isHostName d then Inl (BadConsoleDomain d) else Inr d
      | None \<Rightarrow> if d \<noteq> [] \<and> \<not> isHostName d then Inl (BadConsoleDomain d) else Inr d)"

definition console_bind :: "string \<Rightarrow> ConsoleConfig \<Rightarrow> (console_error, ConsoleConfig) result" where
  "console_bind v c =
     (if v = [] then Inr c
      else bind_result (wrap BadConsoleBind (parseBinds v))
             (\<lambda>bs. Inr (c\<lparr>conBinds := bs, conBind := Join ''; '' bs\<rparr>)))"

definition console_port :: "string \<Rightarrow> ConsoleConfig \<Rightarrow> (console_error, ConsoleConfig) result" where
  "console_port v c =
     (if v = [] then Inr c
      else case parsePort v of None \<Rightarrow> Inl (BadConsolePort v) | Some p \<Rightarrow> Inr (c\<lparr>conPort := p\<rparr>))"

definition console_cert :: "string \<Rightarrow> ConsoleConfig \<Rightarrow> (console_error, ConsoleConfig) result" where
  "console_cert v c =
     (if v = [] then Inr c
      else if localCARef v = None \<and> \<not> EqualFold v ''auto'' then Inl (BadConsoleCert v)
      else let cert = (if EqualFold v ''auto'' then ''auto'' else v) in
        if console_NoSNI c \<and> cert = ''auto'' then Inl (AutoNeedsHostName (console_Name c))
        else Inr (c\<lparr>conCert := cert\<rparr>))"

definition console_password :: "id_key \<Rightarrow> bytes \<Rightarrow> string \<Rightarrow> ConsoleConfig \<Rightarrow> (console_error, ConsoleConfig) result" where
  "console_password IDKey salt password c =
     (if HasPrefix password ''$argon2id$'' \<or> HasPrefix password (hashPrefix @ ''$'')
      then bind_result (wrap BadConsoleHash (validHash password)) (\<lambda>_. Inr (c\<lparr>conPasswordHash := password\<rparr>))
      else Inr (c\<lparr>conPasswordHash := hashPassword IDKey salt password\<rparr>))"

definition ConsoleFromSettings ::
    "id_key \<Rightarrow> bytes \<Rightarrow> (string \<Rightarrow> string) \<Rightarrow> (string \<rightharpoonup> string) \<Rightarrow> (console_error, ConsoleConfig) result" where
  "ConsoleFromSettings IDKey salt env flags =
     (let set = setting_value flags env; password = env ''CONSOLE_PASSWORD'' in
      if password = [] then Inl PasswordMissing
      else bind_result (console_domain (set ''console_domain'' ''CONSOLE_DOMAIN'')) (\<lambda>d.
        let c0 = \<lparr>conBind = ''0.0.0.0'', conBinds = [''0.0.0.0''], conPort = 443, conDomain = d,
                  conCert = ''auto'', conPasswordHash = [], conCertificate = None\<rparr>;
            c1 = (if console_NoSNI c0 then c0\<lparr>conCert := ''local-ca''\<rparr> else c0) in
        bind_result (console_bind (set ''console_bind'' ''CONSOLE_BIND'') c1) (\<lambda>c2.
        bind_result (console_port (set ''console_port'' ''CONSOLE_PORT'') c2) (\<lambda>c3.
        bind_result (console_cert (set ''console_cert'' ''CONSOLE_CERT'') c3)
          (console_password IDKey salt password)))))"

subsection \<open>The console's rule\<close>

fun console_clash :: "ConsoleConfig \<Rightarrow> Rule list \<Rightarrow> config_error option" where
  "console_clash con [] = None"
| "console_clash con (r # rs) =
     (if rListener r \<noteq> consoleAlias then console_clash con rs
      else if console_NoSNI con \<and> rKind r = kindNone then Some (ConsoleNoSNITaken (rLine r))
      else if \<not> console_NoSNI con \<and> rKind r = kindLiteral \<and> literalName (rSource r) = conDomain con
      then Some (ConsoleNameTaken (rLine r) (conDomain con))
      else console_clash con rs)"

definition console_raw :: "ConsoleConfig \<Rightarrow> rawRule" where
  "console_raw con = zero_raw\<lparr>rwListener := Some consoleAlias, rwConsole := True,
     rwPattern := Some (if console_NoSNI con then noSNI else conDomain con),
     rwCertDomains := (if IsValid (console_IP con) then Some (addr_String (console_IP con)) else None),
     rwCert := Some (if conCertificate con \<noteq> None then ''local-ca'' else conCert con)\<rparr>"

definition addConsoleRule :: "world \<Rightarrow> ConsoleConfig option \<Rightarrow> Config \<Rightarrow> (config_error, Config) result" where
  "addConsoleRule w con0 cfg =
     (case con0 of
        None \<Rightarrow> Inr cfg
      | Some con \<Rightarrow>
          (case console_clash con (Rules cfg) of
             Some e \<Rightarrow> Inl e
           | None \<Rightarrow>
               bind_result (wrap ConsoleFailed (buildRule w cfg (console_raw con)))
                 (\<lambda>rule. Inr (cfg\<lparr>Rules := Rules cfg @ [rule\<lparr>rFixedCert := conCertificate con\<rparr>]\<rparr>))))"

subsection \<open>Loading\<close>

text \<open>\<open>strings.ReplaceAll(s, "$$", "")\<close>.\<close>

fun drop_dollars :: "string \<Rightarrow> string" where
  "drop_dollars (c # d # s) =
     (if c = CHR ''$'' \<and> d = CHR ''$'' then drop_dollars s else c # drop_dollars (d # s))"
| "drop_dollars s = s"

definition open_relay :: "Rule \<Rightarrow> bool" where
  "open_relay r \<longleftrightarrow> rAllow r \<and> rKind r = kindCatchAll \<and> CHR ''$'' \<in> set (drop_dollars (rTargetHost r))"

fun build_rules :: "world \<Rightarrow> Config \<Rightarrow> rawRule list \<Rightarrow> (config_error, Rule list) result" where
  "build_rules w cfg [] = Inr []"
| "build_rules w cfg (r # raws) =
     bind_result (wrap (RuleFailed (rwLine r)) (buildRule w cfg r)) (\<lambda>rule.
     bind_result (build_rules w cfg raws) (\<lambda>rules. Inr (rule # rules)))"

text \<open>The order of every listener's rules, with one warning for each whose order differs from the file's.\<close>

definition prioritise_config :: "Config \<Rightarrow> (config_error, Config) result" where
  "prioritise_config cfg =
     bind_result (wrap OrderFailed (prioritise (map lName (Listeners cfg)) (Rules cfg))) (\<lambda>ts.
       Inr (cfg\<lparr>Tables := ts, Warnings := Warnings cfg @
         concat (map (\<lambda>l. case order_warnings [] (listener_rules (lName l) (Rules cfg)) of
             [] \<Rightarrow> []
           | ws \<Rightarrow> [OrderDiffers (map (\<lambda>(r, prev). (rLine r, rLine prev)) ws)]) (Listeners cfg))\<rparr>))"

definition v4_only :: "Config \<Rightarrow> bool" where
  "v4_only cfg \<longleftrightarrow> list_all (\<lambda>b. case ParseAddr b of Some a \<Rightarrow> Is4 (Unmap a) | None \<Rightarrow> False)
     (concat (map lBinds (Listeners cfg)))"

definition auto_warnings :: "Config \<Rightarrow> warning list" where
  "auto_warnings cfg =
     (if AutoDomains cfg = [] then []
      else (if list_ex (\<lambda>l. lPort l = 443) (Listeners cfg) then [] else [AutoNotOn443 (listenAddrs cfg)])
        @ (if v4_only cfg
           then (case find (\<lambda>ip. case ParseAddr ip of Some a \<Rightarrow> Is6 a | None \<Rightarrow> False) (PublicIPs cfg) of
                   Some ip \<Rightarrow> [AutoIPv6Only ip] | None \<Rightarrow> [])
           else [])
        @ (if PublicIPs cfg = [] then [AutoNoPreCheck] else []))"

definition acmeFolder :: string where "acmeFolder = ''acme''"

text \<open>The listeners once the file is read: the console's own, the checks, the redirect.\<close>

definition load_listeners :: "ConsoleConfig option \<Rightarrow> walk \<Rightarrow> (config_error, Config) result" where
  "load_listeners con st =
     (let cfg = (wkConfig st)\<lparr>CertPath := path_Join (CARoot (wkConfig st)) acmeFolder\<rparr> in
      bind_result (wrap ListenersFailed
        (resolveConsoleAlias con (Listeners cfg) (map (\<lambda>r. (rwLine r, rwListener r)) (wkRaws st)))) (\<lambda>_.
      bind_result (wrap ListenersFailed (placeConsoleListener con (Listeners cfg))) (\<lambda>ls.
      bind_result (wrap ListenersFailed (resolveListeners (cfg\<lparr>Listeners := ls, ConsoleSettings := con,
          BufferPoolMaxIdle := (case wkPoolMaxIdle st of Some n \<Rightarrow> n | None \<Rightarrow> 2 * MaxConnections cfg)\<rparr>))) (\<lambda>cfg.
      if wkRedirect st then wrap ListenersFailed (makeRedirectListener cfg) else Inr cfg))))"

text \<open>The rules, their order and the sections they refer to.\<close>

definition load_rules :: "world \<Rightarrow> ConsoleConfig option \<Rightarrow> walk \<Rightarrow> Config \<Rightarrow> (config_error, Config) result" where
  "load_rules w con st cfg =
     bind_result (build_rules w cfg (wkRaws st)) (\<lambda>rules.
     bind_result (addConsoleRule w con (cfg\<lparr>Rules := rules\<rparr>)) (\<lambda>cfg.
     bind_result (prioritise_config cfg) (\<lambda>cfg.
     bind_result (wrap SectionsFailed (resolveServe (wkAuths st)
       (cfg\<lparr>Warnings := Warnings cfg @ map (OpenRelay \<circ> rLine) (filter open_relay (Rules cfg))\<rparr>))) (\<lambda>cfg.
       wrap SectionsFailed (resolveOIDC w (wkProviders st) cfg)))))"

definition resolvers_missing :: "Config \<Rightarrow> bool" where
  "resolvers_missing cfg \<longleftrightarrow>
     PublicIPs cfg \<noteq> [] \<and> DNSResolvers cfg = [] \<and> list_ex (\<lambda>r. rCert r = ''auto'') (Rules cfg)"

definition start_walk :: "string \<Rightarrow> walk" where
  "start_walk ca_folder = \<lparr>wkConfig = initial_config ca_folder, wkPoolMaxIdle = None, wkRedirect = False,
     wkRaws = [], wkAuths = [], wkProviders = []\<rparr>"

definition LoadConfig ::
    "(string \<Rightarrow> (string, yaml list) result) \<Rightarrow> world \<Rightarrow> string \<Rightarrow> ConsoleConfig option \<Rightarrow> string
     \<Rightarrow> (config_error, Config) result" where
  "LoadConfig unmarshal w ca_folder con file_text =
     bind_result (walkYAML unmarshal w file_text (start_walk ca_folder)) (\<lambda>st.
     bind_result (load_listeners con st) (\<lambda>cfg.
     bind_result (load_rules w con st cfg) (\<lambda>cfg.
       if resolvers_missing cfg then Inl ResolversNeeded
       else Inr (cfg\<lparr>Warnings := Warnings cfg @ auto_warnings cfg\<rparr>))))"

end
