(* ===== verification/Load_Config_Props.thy ===== *)
theory Load_Config_Props
  imports Load_Config Rule_Config_Props Listener_Set_Props Config_Values_Props
begin

text \<open>
  What every configuration that loads has: settings within their bounds, listeners that do not
  clash, well-formed rules on listeners that exist, one console, complete tables, and references
  that resolve; and what that gives the routing of names.
\<close>

subsection \<open>Listeners as written\<close>

definition speed_ok :: "rat \<Rightarrow> bool" where
  "speed_ok x \<longleftrightarrow> x = 0 \<or> 1 \<le> x"

definition listener_set_ok :: "Listener \<Rightarrow> bool" where
  "listener_set_ok l \<longleftrightarrow> lBinds l \<noteq> [] \<and> distinct (lBinds l) \<and> lPort l \<le> 65535
     \<and> lMaxConnections l < 2 ^ 31
     \<and> list_all (\<lambda>t. case t of None \<Rightarrow> True | Some d \<Rightarrow> duration_ok d)
         [lHandshakeTimeout l, lIdleTimeout l, lHalfCloseTimeout l]
     \<and> speed_ok (lMaxAggregatedSpeed l) \<and> speed_ok (lMaxSingleConnectionSpeed l)
     \<and> (case lProxyTrustSource l of None \<Rightarrow> True | Some ps \<Rightarrow> list_all masked ps)"

lemma parse_bind_items_distinct: "parse_bind_items items bs = Inr bs' \<Longrightarrow> distinct bs \<Longrightarrow> distinct bs'"
  by (induction items bs rule: parse_bind_items.induct) (auto simp: Let_def split: if_split_asm)

lemma parseBinds_ok: "parseBinds v = Inr bs \<Longrightarrow> bs \<noteq> [] \<and> distinct bs"
  by (auto simp: parseBinds_def split: if_split_asm dest: parse_bind_items_distinct)

lemma rate_key_ok: "rate_key k v = Inr x \<Longrightarrow> speed_ok x"
  by (auto simp: rate_key_def speed_ok_def split: sum.split_asm dest: parseRate_one)

lemma listener_secs_ok: "listener_secs k v = Inr d \<Longrightarrow> duration_ok d"
  by (auto simp: listener_secs_def duration_ok_def Second_def split: option.splits dest: ParseUint_bound)

lemma listenerOption_ok:
  "listenerOption key val l = Inr l' \<Longrightarrow> listener_set_ok l \<and> \<not> lConsole l \<Longrightarrow> listener_set_ok l' \<and> \<not> lConsole l'"
  unfolding listenerOption_def
  by (simp split: if_split_asm option.split_asm)
     (auto simp: listener_set_ok_def parsePrefixes_def
       dest: parseBinds_ok parsePort_bounds num_ok listener_secs_ok rate_key_ok parse_prefix_items_masked)

lemma listener_setting_ok:
  assumes "listener_setting key val line l = Inr l'" "listener_set_ok l \<and> \<not> lConsole l"
  shows "listener_set_ok l' \<and> \<not> lConsole l'"
proof -
  have "listener_set_ok (l\<lparr>lBindSet := True\<rparr>) \<longleftrightarrow> listener_set_ok l"
      "listener_set_ok (l\<lparr>lPortSet := True\<rparr>) \<longleftrightarrow> listener_set_ok l"
    by (simp_all add: listener_set_ok_def)
  then show ?thesis using assms unfolding listener_setting_def wrap_Inr
    by (auto dest!: listenerOption_ok split: if_split_asm)
qed

lemma new_listener_ok: "listener_set_ok (new_listener n) \<and> \<not> lConsole (new_listener n)"
  by (simp add: new_listener_def zero_listener_def listener_set_ok_def speed_ok_def)

subsection \<open>Users as written\<close>

definition user_ok :: "string \<times> credential \<Rightarrow> bool" where
  "user_ok uc \<longleftrightarrow> fst uc \<noteq> [] \<and> CHR '':'' \<notin> set (fst uc)
     \<and> (crPlain (snd uc) \<noteq> []) \<noteq> (crHash (snd uc) \<noteq> [])
     \<and> (crHash (snd uc) \<noteq> [] \<longrightarrow> validHash (crHash (snd uc)) = Inr ())"

definition auth_ok :: "BasicAuth \<Rightarrow> bool" where
  "auth_ok a \<longleftrightarrow> distinct (map fst (baUsers a)) \<and> list_all user_ok (baUsers a)"

lemma user_opt_name: "user_opt w k v (u, c) = Inr (u', c') \<Longrightarrow> CHR '':'' \<notin> set u \<Longrightarrow> CHR '':'' \<notin> set u'"
  by (auto simp: user_opt_def split: if_split_asm option.split_asm)

lemma user_opts_name: "user_opts w opts (u, c) = Inr (u', c') \<Longrightarrow> CHR '':'' \<notin> set u \<Longrightarrow> CHR '':'' \<notin> set u'"
proof (induction opts arbitrary: u c)
  case (Cons kv opts)
  obtain u1 c1 where "user_opt w (fst kv) (TrimSpace (snd kv)) (u, c) = Inr (u1, c1)" "user_opts w opts (u1, c1) = Inr (u', c')"
    using Cons.prems(1) by (cases kv) auto
  then show ?case using Cons.IH Cons.prems(2) user_opt_name by blast
qed simp

lemma addUser_ok: assumes "addUser w opts a = Inr a'" "auth_ok a" shows "auth_ok a'"
proof -
  obtain u c where uc: "user_opts w opts ([], zero_credential) = Inr (u, c)" "u \<noteq> []"
      "(crPlain c \<noteq> []) \<noteq> (crHash c \<noteq> [])" "crHash c \<noteq> [] \<longrightarrow> validHash (crHash c) = Inr ()"
      "u \<notin> fst ` set (baUsers a)" "a' = a\<lparr>baUsers := (u, c) # baUsers a\<rparr>"
    using assms(1) by (auto simp: addUser_def split: if_split_asm sum.split_asm)
  have "CHR '':'' \<notin> set u" using user_opts_name [OF uc(1)] by simp
  then show ?thesis using uc assms(2) by (auto simp: auth_ok_def user_ok_def)
qed

lemma walk_user_ok: "walk_user w u a = Inr a' \<Longrightarrow> auth_ok a \<Longrightarrow> auth_ok a'"
  by (auto simp: walk_user_def intro: addUser_ok)

lemma auth_item_ok: assumes "auth_item w kv a = Inr a'" "auth_ok a" shows "auth_ok a'"
proof (cases "a' = a\<lparr>baName := yValue (snd kv)\<rparr>")
  case True
  then show ?thesis using assms(2) by (simp add: auth_ok_def)
next
  case False
  then have "eachItem YamlFailed (snd kv) ''users'' (walk_user w) a = Inr a'"
    using assms(1) by (cases kv) (auto simp: auth_item_def split: if_split_asm)
  then show ?thesis by (rule eachItem_inv [where P = auth_ok]) (use assms(2) walk_user_ok in auto)
qed

lemma walkBasicAuth_ok: assumes "walkBasicAuth w item = Inr a" shows "auth_ok a"
proof -
  obtain items where "walk_all (auth_item w) items \<lparr>baName = [], baLine = yLine item, baUsers = []\<rparr> = Inr a"
    using assms by (auto simp: walkBasicAuth_def)
  then show ?thesis
    by (rule walk_all_inv) (auto simp: auth_ok_def [of "\<lparr>baName = x, baLine = y, baUsers = []\<rparr>" for x y] intro: auth_item_ok)
qed

subsection \<open>The file\<close>

definition walk_ok :: "walk \<Rightarrow> bool" where
  "walk_ok st \<longleftrightarrow> globals_ok (wkConfig st)
     \<and> list_all (\<lambda>l. listener_set_ok l \<and> \<not> lConsole l) (Listeners (wkConfig st))
     \<and> list_all auth_ok (wkAuths st) \<and> list_all provider_ok (wkProviders st)
     \<and> list_all (\<lambda>r. \<not> rwConsole r) (wkRaws st)"

text \<open>The keys of the global and logging sections leave everything else alone.\<close>

definition rest_fields :: "Config \<Rightarrow> Listener list \<times> Listener option \<times> Rule list \<times> string" where
  "rest_fields c = (Listeners c, Redirect c, Rules c, CertPath c)"

lemma rest_globals [simp]:
  "rest_fields (HandshakeTimeout_update f c) = rest_fields c" "rest_fields (ConnectTimeout_update f c) = rest_fields c"
  "rest_fields (IdleTimeout_update f c) = rest_fields c" "rest_fields (HalfCloseTimeout_update f c) = rest_fields c"
  "rest_fields (StatsInterval_update f c) = rest_fields c" "rest_fields (MaxConnections_update g c) = rest_fields c"
  "rest_fields (MaxHandshakesPerIP_update g c) = rest_fields c" "rest_fields (AllowCacheSize_update g c) = rest_fields c"
  "rest_fields (DenyCacheSize_update g c) = rest_fields c" "rest_fields (LowLatency_update h c) = rest_fields c"
  "rest_fields (UseSplice_update h c) = rest_fields c" "rest_fields (RememberNonce_update h c) = rest_fields c"
  "rest_fields (AcmeAgreeTOS_update h c) = rest_fields c" "rest_fields (ReloadInterval_update f c) = rest_fields c"
  "rest_fields (BufferSize_update g c) = rest_fields c" "rest_fields (Warnings_update ws c) = rest_fields c"
  "rest_fields (ProxyTrustSource_update ps c) = rest_fields c" "rest_fields (CARoot_update s c) = rest_fields c"
  "rest_fields (ExpiryThresholdDays_update g c) = rest_fields c" "rest_fields (PublicIPs_update ss c) = rest_fields c"
  "rest_fields (DNSResolvers_update ss c) = rest_fields c" "rest_fields (AcmeEmail_update s c) = rest_fields c"
  "rest_fields (AcmeDirectory_update s c) = rest_fields c" "rest_fields (AcmeCAFile_update s c) = rest_fields c"
  "rest_fields (Ignored_update ss c) = rest_fields c" "rest_fields (Log_update lc c) = rest_fields c"
  by (simp_all add: rest_fields_def)

lemma other_keys_rest: "(k', h) \<in> set other_keys \<Longrightarrow> h k v n c = Inr c' \<Longrightarrow> rest_fields c' = rest_fields c"
  unfolding other_keys_def list.set insert_iff empty_iff prod.inject
  by (elim disjE conjE FalseE; hypsubst)
     (auto simp: set_reload_def set_buffer_size_def Let_def split: if_split_asm)

lemma other_key_rest: "other_key k v n c = Inr c' \<Longrightarrow> rest_fields c' = rest_fields c"
  by (simp add: other_key_def split: option.split_asm) (blast dest: map_of_SomeD intro: other_keys_rest)

lemma keyed_rest:
  "duration_key k = Some upd1 \<Longrightarrow> rest_fields (upd1 d c) = rest_fields c"
  "count_key k = Some upd2 \<Longrightarrow> rest_fields (upd2 n c) = rest_fields c"
  "flag_key k = Some upd3 \<Longrightarrow> rest_fields (upd3 b c) = rest_fields c"
  by (auto simp: duration_key_def count_key_def flag_key_def split: if_split_asm)

lemma global_key_rest: "global_key k v n c = Inr c' \<Longrightarrow> rest_fields c' = rest_fields c"
  by (simp add: global_key_def split: option.split_asm) (auto intro: keyed_rest other_key_rest)

lemma logging_key_rest: "logging_key k v c = Inr c' \<Longrightarrow> rest_fields c' = rest_fields c"
  by (auto simp: logging_key_def Let_def split: if_split_asm)

lemma walk_ok_config:
  "walk_ok st \<Longrightarrow> globals_ok c \<Longrightarrow> rest_fields c = rest_fields (wkConfig st) \<Longrightarrow> walk_ok (st\<lparr>wkConfig := c\<rparr>)"
  by (simp add: walk_ok_def rest_fields_def)

lemma apply_global_ok: assumes "apply_global k v n st = Inr st'" "walk_ok st" shows "walk_ok st'"
proof -
  consider x where "st' = st\<lparr>wkPoolMaxIdle := x\<rparr>" | x where "st' = st\<lparr>wkRedirect := x\<rparr>"
    | c where "global_key k v n (wkConfig st) = Inr c" "st' = st\<lparr>wkConfig := c\<rparr>"
    using assms(1) unfolding apply_global_def wrap_Inr by (auto split: if_split_asm)
  then show ?thesis
  proof cases
    case 3
    moreover have "globals_ok (wkConfig st)" using assms(2) by (simp add: walk_ok_def)
    ultimately show ?thesis using walk_ok_config [OF assms(2)] global_key_ok global_key_rest by blast
  qed (use assms(2) in \<open>simp_all add: walk_ok_def\<close>)
qed

lemma apply_logging_ok: assumes "apply_logging k v n st = Inr st'" "walk_ok st" shows "walk_ok st'"
proof -
  obtain c where c: "logging_key k v (wkConfig st) = Inr c" "st' = st\<lparr>wkConfig := c\<rparr>"
    using assms(1) unfolding apply_logging_def wrap_Inr by auto
  moreover have "globals_ok (wkConfig st)" using assms(2) by (simp add: walk_ok_def)
  ultimately show ?thesis using walk_ok_config [OF assms(2)] logging_key_ok logging_key_rest by blast
qed

lemma walk_setting_inv:
  assumes "walk_all (walk_setting app) items s = Inr s'" "P s"
    and "\<And>k v n s s'. app k v n s = Inr s' \<Longrightarrow> P s \<Longrightarrow> P s'"
  shows "P s'"
  by (rule walk_all_inv [where P = P, OF assms(1,2)])
     (auto simp: walk_setting_def split: prod.splits intro: assms(3))

lemma walk_listener_ok: assumes "walk_listener item st = Inr st'" "walk_ok st" shows "walk_ok st'"
proof -
  obtain items l where l: "walk_all (walk_setting listener_setting) items (new_listener (yLine item)) = Inr l"
      "st' = st\<lparr>wkConfig := (wkConfig st)\<lparr>Listeners := Listeners (wkConfig st) @ [l]\<rparr>\<rparr>"
    using assms(1) by (auto simp: walk_listener_def)
  have "listener_set_ok l \<and> \<not> lConsole l"
    by (rule walk_setting_inv [where P = "\<lambda>l. listener_set_ok l \<and> \<not> lConsole l", OF l(1) new_listener_ok])
       (rule listener_setting_ok)
  moreover have "globals_ok ((wkConfig st)\<lparr>Listeners := Listeners (wkConfig st) @ [l]\<rparr>) = globals_ok (wkConfig st)"
    by (simp add: globals_ok_def)
  ultimately show ?thesis using assms(2) l(2) by (simp add: walk_ok_def)
qed

text \<open>No rule of the file is the console's.\<close>

lemma host_keys_console: "(k, h) \<in> set host_keys \<Longrightarrow> rwConsole (h v r) = rwConsole r"
  unfolding host_keys_def list.set insert_iff empty_iff prod.inject
  by (elim disjE conjE FalseE; hypsubst; simp)

lemma apply_host_console: "apply_host key val line r = Inr r' \<Longrightarrow> rwConsole r' = rwConsole r"
  by (auto simp: apply_host_def host_keys_console dest!: map_of_SomeD split: if_split_asm option.split_asm)

lemma serve_item_console: "serve_item item st = Inr st' \<Longrightarrow> rwConsole (fst st') = rwConsole (fst st)"
  by (cases st) (auto simp: serve_item_def)

lemma walkServe_console: assumes "walkServe v r = Inr r'" shows "rwConsole r' = rwConsole r"
proof -
  obtain n where "eachItem YamlFailed v ''serve'' serve_item (r, 0) = Inr (r', n)"
    using assms by (auto simp: walkServe_def)
  then have "rwConsole (fst (r', n)) = rwConsole r"
    by (rule eachItem_inv [where P = "\<lambda>st. rwConsole (fst st) = rwConsole r"]) (auto dest: serve_item_console)
  then show ?thesis by simp
qed

lemma proxy_key_console: "proxy_key val line r = Inr r' \<Longrightarrow> rwConsole r' = rwConsole r"
  by (auto simp: proxy_key_def split: if_split_asm)

lemma if_cases: "(if b then x else y) = z \<Longrightarrow> (b \<Longrightarrow> x = z \<Longrightarrow> P) \<Longrightarrow> (\<not> b \<Longrightarrow> y = z \<Longrightarrow> P) \<Longrightarrow> P"
  by (simp split: if_split_asm)

lemma rule_key_console: assumes "rule_key key val line r = Inr r'" shows "rwConsole r' = rwConsole r"
  using assms unfolding rule_key_def
proof (elim if_cases)
  assume "Inr (r\<lparr>rwTarget := Some (text_of val), rwTargetLine := line\<rparr>) = Inr r'"
  then have "r' = r\<lparr>rwTarget := Some (text_of val), rwTargetLine := line\<rparr>" by simp
  then show ?thesis by simp
qed (erule apply_host_console proxy_key_console | simp only: sum.distinct)+

lemma rule_item_console: assumes "rule_item (k, v) r = Inr r'" shows "rwConsole r' = rwConsole r"
proof (cases "yValue k = ''serve''")
  case True
  then show ?thesis using assms walkServe_console by (simp add: rule_item_def)
next
  case False
  then obtain val where "rule_key (yValue k) val (yLine k) r = Inr r'"
    using assms unfolding rule_item_def prod.case if_not_P [OF False] by auto
  then show ?thesis by (rule rule_key_console)
qed

lemma walk_rule_console:
  assumes "walk_rule name item raws = Inr raws'" "list_all (\<lambda>r. \<not> rwConsole r) raws"
  shows "list_all (\<lambda>r. \<not> rwConsole r) raws'"
proof -
  obtain items r where r: "walk_all rule_item items (zero_raw\<lparr>rwLine := yLine item, rwListener := Some name\<rparr>) = Inr r"
      "raws' = raws @ [r]"
    using assms(1) by (auto simp: walk_rule_def)
  have "\<not> rwConsole r"
    by (rule walk_all_inv [where P = "\<lambda>r. \<not> rwConsole r", OF r(1)])
       (auto simp: zero_raw_def dest: rule_item_console)
  then show ?thesis using assms(2) r(2) by simp
qed

lemma walkRoutes_ok: assumes "walkRoutes g st = Inr st'" "walk_ok st" shows "walk_ok st'"
proof -
  obtain p where p: "(case p of (listener, rules) \<Rightarrow> case listener of None \<Rightarrow> Inl (RoutesNeedListener (yLine g))
        | Some name \<Rightarrow> (case rules of None \<Rightarrow> Inr st
            | Some v \<Rightarrow> bind_result (eachItem YamlFailed v ''rules'' (walk_rule name) (wkRaws st))
                (\<lambda>raws. Inr (st\<lparr>wkRaws := raws\<rparr>)))) = Inr st'"
    using assms(1) unfolding walkRoutes_def bind_result_Inr_iff by blast
  obtain listener rules where lr: "p = (listener, rules)" by (cases p)
  note run = p [unfolded lr prod.case]
  obtain name where name: "listener = Some name" using run by (cases listener) simp_all
  show ?thesis
  proof (cases rules)
    case None
    then show ?thesis using run assms(2) name by simp
  next
    case (Some v)
    then obtain raws where 2: "eachItem YamlFailed v ''rules'' (walk_rule name) (wkRaws st) = Inr raws"
        "st' = st\<lparr>wkRaws := raws\<rparr>"
      using run unfolding name Some option.case bind_result_Inr_iff by blast
    have "list_all (\<lambda>r. \<not> rwConsole r) raws"
      by (rule eachItem_inv [where P = "list_all (\<lambda>r. \<not> rwConsole r)", OF 2(1)])
         (use assms(2) walk_rule_console in \<open>auto simp: walk_ok_def\<close>)
    then show ?thesis using assms(2) 2(2) by (simp add: walk_ok_def)
  qed
qed

lemma walk_auth_ok:
  "bind_result (walkBasicAuth w item) (\<lambda>a. Inr (st\<lparr>wkAuths := wkAuths st @ [a]\<rparr>)) = Inr st' \<Longrightarrow> walk_ok st \<Longrightarrow> walk_ok st'"
  using walkBasicAuth_ok by (auto simp: walk_ok_def)

lemma walk_provider_ok:
  "bind_result (wrap OidcFailed (walkOIDC w item)) (\<lambda>p. Inr (st\<lparr>wkProviders := wkProviders st @ [p]\<rparr>)) = Inr st' \<Longrightarrow>
     walk_ok st \<Longrightarrow> walk_ok st'"
  using walkOIDC_ok by (auto simp: walk_ok_def)

lemma settings_section_ok:
  assumes "bind_result (wrap YamlFailed (pairs v n)) (\<lambda>items. walk_all (walk_setting app) items st) = Inr st'" "walk_ok st"
    and "app = apply_global \<or> app = apply_logging"
  shows "walk_ok st'"
proof -
  obtain items where "walk_all (walk_setting app) items st = Inr st'" using assms(1) by auto
  then show ?thesis
    by (rule walk_setting_inv [where P = walk_ok]) (use assms apply_global_ok apply_logging_ok in blast)+
qed

lemma each_ok:
  assumes "eachItem err v what f st = Inr st'" "walk_ok st" "\<And>x s s'. f x s = Inr s' \<Longrightarrow> walk_ok s \<Longrightarrow> walk_ok s'"
  shows "walk_ok st'"
  by (rule eachItem_inv [where P = walk_ok, OF assms])

lemma walk_section_ok: assumes "walk_section w (k, v) st = Inr st'" and ok: "walk_ok st" shows "walk_ok st'"
proof -
  note run = assms(1) [unfolded walk_section_def prod.case]
  show ?thesis
  proof (cases "yValue k = ''global'' \<or> yValue k = ''logging''")
    case True
    show ?thesis
    proof (cases "yTag v = null_tag")
      case False
      show ?thesis
        by (rule settings_section_ok [OF run [unfolded if_P [OF True] if_not_P [OF False]] ok]) simp
    qed (use run True ok in simp)
  next
    case 1: False
    note run1 = run [unfolded if_not_P [OF 1]]
    show ?thesis
    proof (cases "yValue k = ''listeners''")
      case True
      show ?thesis by (rule each_ok [OF run1 [unfolded if_P [OF True]] ok]) (rule walk_listener_ok)
    next
      case 2: False
      note run2 = run1 [unfolded if_not_P [OF 2]]
      show ?thesis
      proof (cases "yValue k = ''routes''")
        case True
        show ?thesis by (rule each_ok [OF run2 [unfolded if_P [OF True]] ok]) (rule walkRoutes_ok)
      next
        case 3: False
        note run3 = run2 [unfolded if_not_P [OF 3]]
        show ?thesis
        proof (cases "yValue k = ''basic_auth''")
          case True
          show ?thesis by (rule each_ok [OF run3 [unfolded if_P [OF True]] ok]) (rule walk_auth_ok)
        next
          case 4: False
          note run4 = run3 [unfolded if_not_P [OF 4]]
          show ?thesis
          proof (cases "yValue k = ''oidc''")
            case True
            show ?thesis by (rule each_ok [OF run4 [unfolded if_P [OF True]] ok]) (rule walk_provider_ok)
          qed (use run4 in \<open>simp split: if_split_asm\<close>)
        qed
      qed
    qed
  qed
qed

lemma initial_ok: "ca_folder \<noteq> [] \<Longrightarrow> walk_ok (start_walk ca_folder)"
  by (simp add: walk_ok_def start_walk_def initial_config_def globals_ok_def duration_ok_def Second_def
      minBufferSize_def maxBufferSize_def MinReloadInterval_def defaultLogConfig_def)

lemma walkYAML_ok:
  assumes "walkYAML unmarshal w t (start_walk ca_folder) = Inr st" "ca_folder \<noteq> []"
  shows "walk_ok st"
proof -
  obtain top where "walk_all (walk_section w) top (start_walk ca_folder) = Inr st"
    using assms(1) by (auto simp: walkYAML_def)
  then show ?thesis by (rule walk_all_inv [where P = walk_ok]) (use assms(2) initial_ok walk_section_ok in auto)
qed

end
