(* ===== verification/Load_Config_Sound.thy ===== *)
theory Load_Config_Sound
  imports Load_Config_Props
begin

text \<open>
  The configuration \<open>LoadConfig\<close> returns: what it guarantees, how names are routed with it, and
  that the console is always reached.
\<close>

subsection \<open>The console's settings\<close>

definition console_ok :: "ConsoleConfig \<Rightarrow> bool" where
  "console_ok con \<longleftrightarrow> conBinds con \<noteq> [] \<and> distinct (conBinds con) \<and> 1 \<le> conPort con \<and> conPort con \<le> 65535
     \<and> (console_NoSNI con \<or> isHostName (conDomain con) \<and> ToLower (conDomain con) = conDomain con)
     \<and> (conCert con = ''auto'' \<and> \<not> console_NoSNI con \<or> localCARef (conCert con) \<noteq> None)
     \<and> validHash (conPasswordHash con) = Inr ()"

subsection \<open>Listeners\<close>

definition console_counts :: "ConsoleConfig option \<Rightarrow> Listener list \<Rightarrow> bool" where
  "console_counts con ls \<longleftrightarrow>
     (case con of
        None \<Rightarrow> \<forall>l\<in>set ls. \<not> lConsole l
      | Some c \<Rightarrow> (\<exists>!l. l \<in> set ls \<and> lConsole l) \<and> (\<forall>l\<in>set ls. lConsole l \<longrightarrow> console_placed c l))"

lemma console_listener_set_ok:
  "listener_set_ok l \<or> l = zero_listener \<Longrightarrow> console_ok con \<Longrightarrow> listener_set_ok (console_listener con l)"
  by (auto simp: listener_set_ok_def console_listener_def console_ok_def zero_listener_def speed_ok_def)

lemma placed_members:
  assumes "placeConsoleListener (Some con) ls = Inr ls'" "l' \<in> set ls'"
  shows "l' \<in> set ls \<or> (\<exists>l. (l \<in> set ls \<or> l = zero_listener) \<and> l' = console_listener con l)"
proof -
  obtain p ls1 where "place_loop con False ls = Inr (p, ls1)"
      "ls' = (if p then ls1 else ls1 @ [console_listener con zero_listener])"
    using assms(1) by (auto simp: placeConsoleListener_def)
  then show ?thesis using place_loop_ok [of con False ls p ls1] assms(2) by (auto split: if_split_asm)
qed

lemma placed_ok:
  assumes place: "placeConsoleListener con ls = Inr ls'" and ok: "list_all (\<lambda>l. listener_set_ok l \<and> \<not> lConsole l) ls"
    and con: "\<And>c. con = Some c \<Longrightarrow> console_ok c"
  shows "(\<forall>l\<in>set ls'. listener_set_ok l) \<and> console_counts con ls'"
proof (cases con)
  case None
  then show ?thesis using place ok by (auto simp: placeConsoleListener_def console_counts_def list_all_iff)
next
  case (Some c)
  let ?at = "\<lambda>l. EqualFold (lName l) consoleAlias"
  note once = placed_once [OF place [unfolded Some]]
  have in_ls: "listener_set_ok l" "\<not> lConsole l" if "l \<in> set ls" for l
    using ok that by (simp_all add: list_all_iff)
  have set: "\<forall>l\<in>set ls'. listener_set_ok l"
  proof
    fix l assume "l \<in> set ls'"
    from placed_members [OF place [unfolded Some] this] show "listener_set_ok l"
    proof
      assume "\<exists>l0. (l0 \<in> set ls \<or> l0 = zero_listener) \<and> l = console_listener c l0"
      then obtain l0 where "l0 \<in> set ls \<or> l0 = zero_listener" and l: "l = console_listener c l0" by blast
      then have "listener_set_ok l0 \<or> l0 = zero_listener" using in_ls(1) by blast
      then show ?thesis unfolding l by (rule console_listener_set_ok) (rule con [OF Some])
    qed (rule in_ls)
  qed
  have rest: "l \<in> set ls" if "l \<in> set ls'" "\<not> ?at l" for l
  proof -
    have "l \<in> set (filter (\<lambda>l. \<not> ?at l) ls')" using that by simp
    then have "l \<in> set (filter (\<lambda>l. \<not> ?at l) ls)" using once by simp
    then show ?thesis by simp
  qed
  have at: "lConsole l \<longleftrightarrow> ?at l" if "l \<in> set ls'" for l
  proof (cases "?at l")
    case True
    then have "console_placed c l" using once that by blast
    then show ?thesis using True by (simp add: console_placed_def)
  next
    case False
    then show ?thesis using in_ls(2) [OF rest [OF that]] by simp
  qed
  obtain x where x: "filter ?at ls' = [x]" using once by (auto simp: length_Suc_conv)
  have "{l \<in> set ls'. ?at l} = {x}" using arg_cong [OF x, of set] by simp
  then have "x \<in> set ls' \<and> ?at x" "\<And>l. l \<in> set ls' \<Longrightarrow> ?at l \<Longrightarrow> l = x" by blast+
  then have "\<exists>!l. l \<in> set ls' \<and> lConsole l" using at by metis
  moreover have "\<forall>l\<in>set ls'. lConsole l \<longrightarrow> console_placed c l" using at once by blast
  ultimately show ?thesis unfolding Some console_counts_def option.case using set by blast
qed

lemma load_listeners_ok:
  assumes load: "load_listeners con st = Inr cfg" and walk: "walk_ok st" and con: "\<And>c. con = Some c \<Longrightarrow> console_ok c"
  shows "globals_ok cfg \<and> Listeners cfg \<noteq> [] \<and> (\<forall>l\<in>set (Listeners cfg). acceptable l \<and> listener_set_ok l)
     \<and> sorted_wrt compatible (Listeners cfg) \<and> console_counts con (Listeners cfg) \<and> ConsoleSettings cfg = con"
proof -
  define c0 where "c0 = (wkConfig st)\<lparr>CertPath := path_Join (CARoot (wkConfig st)) acmeFolder\<rparr>"
  obtain ls c1 where ls: "placeConsoleListener con (Listeners c0) = Inr ls"
      and c1: "resolveListeners (c0\<lparr>Listeners := ls, ConsoleSettings := con,
          BufferPoolMaxIdle := (case wkPoolMaxIdle st of Some n \<Rightarrow> n | None \<Rightarrow> 2 * MaxConnections c0)\<rparr>) = Inr c1"
      and cfg: "(if wkRedirect st then wrap ListenersFailed (makeRedirectListener c1) else Inr c1) = Inr cfg"
    using load unfolding load_listeners_def Let_def c0_def [symmetric] by auto
  have "globals_ok c0" "list_all (\<lambda>l. listener_set_ok l \<and> \<not> lConsole l) (Listeners c0)"
    using walk by (simp_all add: walk_ok_def c0_def globals_ok_def)
  note placed = placed_ok [OF ls this(2) con]
  have r: "Listeners c1 = ls" "ls \<noteq> []" "\<forall>l\<in>set ls. acceptable l" "sorted_wrt compatible ls" "ConsoleSettings c1 = con"
      "globals_ok c1"
    using c1 \<open>globals_ok c0\<close> unfolding resolveListeners_ok by (simp_all add: globals_ok_def)
  have "Listeners cfg = Listeners c1 \<and> ConsoleSettings cfg = con \<and> globals_ok cfg"
    using cfg r(5,6) by (auto simp: makeRedirectListener_def Let_def globals_ok_def split: if_split_asm option.split_asm)
  then show ?thesis using r placed by simp
qed

subsection \<open>Rules, tables and references\<close>

lemma loaded_rule_fixed: "loaded_rule agreed (r\<lparr>rFixedCert := x\<rparr>) = loaded_rule agreed r"
  by (simp add: loaded_rule_def rule_ok_def plain_target_def probe_ok_def cert_source_def Serves_def)

definition rules_ok :: "Config \<Rightarrow> Rule list \<Rightarrow> bool" where
  "rules_ok cfg rs \<longleftrightarrow> (\<forall>r\<in>set rs. loaded_rule (AcmeAgreeTOS cfg) r \<and> rListener r \<in> lName ` set (Listeners cfg))"

lemma listener_named_mem: "listener_named cfg name = Some l \<Longrightarrow> name \<in> lName ` set (Listeners cfg)"
  by (auto simp: listener_named_def find_Some_iff)

lemma build_rules_ok:
  assumes "build_rules w cfg raws = Inr rs" "list_all (\<lambda>r. \<not> rwConsole r) raws"
  shows "rules_ok cfg rs \<and> (\<forall>r\<in>set rs. \<not> rConsole r)"
  using assms
proof (induction raws arbitrary: rs)
  case (Cons raw raws)
  obtain r rs' where r: "buildRule w cfg raw = Inr r" "build_rules w cfg raws = Inr rs'" "rs = r # rs'"
    using Cons.prems(1) by auto
  then show ?case using Cons.IH [OF r(2)] Cons.prems(2) buildRule_ok [OF r(1)] listener_named_mem
    by (simp add: rules_ok_def) metis
qed (simp add: rules_ok_def)

text \<open>The console's own rule, and that no other rule of its listener takes its clients.\<close>

definition console_rule :: "ConsoleConfig \<Rightarrow> Rule \<Rightarrow> bool" where
  "console_rule con r \<longleftrightarrow> rConsole r \<and> rAllow r \<and> rListener r = consoleAlias
     \<and> rSource r = (if console_NoSNI con then noSNI else conDomain con)"

lemma console_clash_None:
  "console_clash con rs = None \<Longrightarrow> r \<in> set rs \<Longrightarrow> rListener r = consoleAlias \<Longrightarrow>
     (console_NoSNI con \<longrightarrow> rKind r \<noteq> kindNone)
     \<and> (\<not> console_NoSNI con \<longrightarrow> rKind r = kindLiteral \<longrightarrow> literalName (rSource r) \<noteq> conDomain con)"
  by (induction con rs rule: console_clash.induct) (auto split: if_split_asm)

lemma addConsoleRule_ok:
  assumes add: "addConsoleRule w con cfg = Inr cfg'" and rs: "rules_ok cfg (Rules cfg)" "\<forall>r\<in>set (Rules cfg). \<not> rConsole r"
  shows "rules_ok cfg (Rules cfg') \<and> cfg' = cfg\<lparr>Rules := Rules cfg'\<rparr>
     \<and> (case con of
          None \<Rightarrow> Rules cfg' = Rules cfg
        | Some c \<Rightarrow> (\<exists>r. Rules cfg' = Rules cfg @ [r] \<and> console_rule c r) \<and> console_clash c (Rules cfg) = None)"
proof (cases con)
  case None
  then show ?thesis using add rs by (auto simp: addConsoleRule_def)
next
  case (Some c)
  obtain r where clash: "console_clash c (Rules cfg) = None" and r: "buildRule w cfg (console_raw c) = Inr r"
      and cfg': "cfg' = cfg\<lparr>Rules := Rules cfg @ [r\<lparr>rFixedCert := conCertificate c\<rparr>]\<rparr>"
    using add unfolding addConsoleRule_def Some by (auto split: option.split_asm)
  note b = buildRule_ok [OF r]
  have raw: "rwListener (console_raw c) = Some consoleAlias" "rwConsole (console_raw c)" "rwAction (console_raw c) = None"
      "rwPattern (console_raw c) = Some (if console_NoSNI c then noSNI else conDomain c)"
    by (simp_all add: console_raw_def zero_raw_def)
  have "console_rule c r" using b raw by (auto simp: console_rule_def)
  then have "console_rule c (r\<lparr>rFixedCert := conCertificate c\<rparr>)" by (simp add: console_rule_def)
  moreover have "loaded_rule (AcmeAgreeTOS cfg) r \<and> rListener r \<in> lName ` set (Listeners cfg)"
    using b listener_named_mem by blast
  ultimately show ?thesis using rs clash Some by (simp add: cfg' rules_ok_def loaded_rule_fixed)
qed

lemma prioritise_tables:
  "prioritise ls rules = Inr ts \<Longrightarrow> list_all2 (\<lambda>l t. prioritiseListener l rules = Inr t) ls ts"
  by (induction ls arbitrary: ts) auto

definition references_ok :: "Config \<Rightarrow> bool" where
  "references_ok cfg \<longleftrightarrow>
     (\<forall>r\<in>set (Rules cfg). \<forall>s\<in>set (rRoutes r).
        (sBasicAuth s \<noteq> [] \<longrightarrow> map_of (BasicAuths cfg) (sBasicAuth s) \<noteq> None)
        \<and> (sOIDC s \<noteq> [] \<longrightarrow> map_of (OIDCs cfg) (sOIDC s) \<noteq> None))"

lemma all_routes_iff: "(r, s) \<in> set (all_routes rs) \<longleftrightarrow> r \<in> set rs \<and> s \<in> set (rRoutes r)"
  by (auto simp: all_routes_def)

definition named_auth :: "string \<times> BasicAuth \<Rightarrow> bool" where
  "named_auth na \<longleftrightarrow> baName (snd na) = fst na \<and> baUsers (snd na) \<noteq> [] \<and> auth_ok (snd na)"

definition named_provider :: "string \<times> OIDCProvider \<Rightarrow> bool" where
  "named_provider np \<longleftrightarrow> opName (snd np) = fst np \<and> provider_ok (snd np)"

lemma collect_auths_ok:
  assumes "collect_auths as m = Inr m'" "list_all auth_ok as" "list_all named_auth m"
  shows "list_all named_auth m'"
  using assms
proof (induction as arbitrary: m)
  case (Cons a as)
  have "collect_auths as (m @ [(baName a, a)]) = Inr m'" "baUsers a \<noteq> []"
    using Cons.prems(1) by (simp_all split: if_split_asm option.split_asm)
  moreover have "list_all named_auth (m @ [(baName a, a)])"
    using Cons.prems(2,3) calculation(2) by (simp add: named_auth_def [of "(x, y)" for x y])
  ultimately show ?case using Cons.IH Cons.prems(2) by simp
qed simp

lemma collect_providers_ok:
  assumes "collect_providers ps m = Inr m'" "list_all provider_ok ps" "list_all named_provider m"
  shows "list_all named_provider m'"
  using assms
proof (induction ps arbitrary: m)
  case (Cons p ps)
  have "collect_providers ps (m @ [(opName p, p)]) = Inr m'"
    using Cons.prems(1) by (simp split: option.split_asm)
  moreover have "list_all named_provider (m @ [(opName p, p)])"
    using Cons.prems(2,3) by (simp add: named_provider_def [of "(x, y)" for x y])
  ultimately show ?case using Cons.IH Cons.prems(2) by simp
qed simp

definition sections_ok :: "Config \<Rightarrow> bool" where
  "sections_ok cfg \<longleftrightarrow>
     list_all named_auth (BasicAuths cfg) \<and> list_all named_provider (OIDCs cfg)"

lemma resolveServe_ok:
  assumes "resolveServe as cfg = Inr cfg'" "list_all auth_ok as"
  shows "\<exists>m ws. cfg' = cfg\<lparr>BasicAuths := m, Warnings := ws\<rparr>
     \<and> list_all named_auth m
     \<and> (\<forall>r\<in>set (Rules cfg). \<forall>s\<in>set (rRoutes r). sBasicAuth s \<noteq> [] \<longrightarrow> map_of m (sBasicAuth s) \<noteq> None)"
proof -
  let ?routes = "filter (\<lambda>(r, s). sBasicAuth s \<noteq> []) (all_routes (Rules cfg))"
  obtain m ws where m: "collect_auths as [] = Inr m"
      and none: "find (\<lambda>(r, s). map_of m (sBasicAuth s) = None) ?routes = None"
      and cfg': "cfg' = cfg\<lparr>BasicAuths := m, Warnings := ws\<rparr>"
  proof -
    from assms(1) obtain m where m: "collect_auths as [] = Inr m" "(case find (\<lambda>(r, s). map_of m (sBasicAuth s) = None) ?routes of
        Some (r, s) \<Rightarrow> Inl (NoSuchAuth (rLine r) (sKey s) (sBasicAuth s))
      | None \<Rightarrow> Inr (cfg\<lparr>BasicAuths := m, Warnings := Warnings cfg @
            map (\<lambda>(name, a). UnusedBasicAuth name (baLine a))
              (filter (\<lambda>(name, a). name \<notin> set (map (\<lambda>(r, s). sBasicAuth s) ?routes)) m)\<rparr>)) = Inr cfg'"
      unfolding resolveServe_def bind_result_Inr_iff Let_def by blast
    show thesis
      by (cases "find (\<lambda>(r, s). map_of m (sBasicAuth s) = None) ?routes") (use m in \<open>auto intro: that\<close>)
  qed
  have "\<forall>r\<in>set (Rules cfg). \<forall>s\<in>set (rRoutes r). sBasicAuth s \<noteq> [] \<longrightarrow> map_of m (sBasicAuth s) \<noteq> None"
    using none all_routes_iff [of _ _ "Rules cfg"] unfolding find_None_iff by fastforce
  moreover have "list_all named_auth m" using collect_auths_ok [OF m assms(2)] by simp
  ultimately show ?thesis using cfg' by blast
qed

lemma resolveOIDC_ok:
  assumes "resolveOIDC w ps cfg = Inr cfg'" "list_all provider_ok ps"
  shows "\<exists>m ws. cfg' = cfg\<lparr>OIDCs := m, Warnings := ws\<rparr>
     \<and> list_all named_provider m
     \<and> (\<forall>r\<in>set (Rules cfg). \<forall>s\<in>set (rRoutes r). sOIDC s \<noteq> [] \<longrightarrow> map_of m (sOIDC s) \<noteq> None)"
proof -
  let ?routes = "filter (\<lambda>(r, s). sOIDC s \<noteq> []) (all_routes (Rules cfg))"
  let ?f = "\<lambda>n p. p\<lparr>opReferenced := set (referenced_by ?routes n)\<rparr>"
  obtain m ws where m: "collect_providers ps [] = Inr m"
      and none: "find (\<lambda>(r, s). map_of m (sOIDC s) = None) ?routes = None"
      and cfg': "cfg' = cfg\<lparr>OIDCs := map (\<lambda>(n, p). (n, ?f n p)) m, Warnings := ws\<rparr>"
  proof -
    from assms(1) obtain m where m: "collect_providers ps [] = Inr m" "(case find (\<lambda>(r, s). map_of m (sOIDC s) = None) ?routes of
        Some (r, s) \<Rightarrow> Inl (NoSuchOIDC (rLine r) (sKey s) (sOIDC s))
      | None \<Rightarrow> Inr (cfg\<lparr>OIDCs := map (\<lambda>(n, p). (n, ?f n p)) m, Warnings := Warnings cfg @
            concat (map (provider_warnings w (map (\<lambda>(r, s). sOIDC s) ?routes)) m)\<rparr>)) = Inr cfg'"
      unfolding resolveOIDC_def bind_result_Inr_iff Let_def by blast
    show thesis
      by (cases "find (\<lambda>(r, s). map_of m (sOIDC s) = None) ?routes") (use m in \<open>auto intro: that\<close>)
  qed
  have dom: "map_of (map (\<lambda>(n, p). (n, ?f n p)) m) x = None \<longleftrightarrow> map_of m x = None" for x
    by (induction m) auto
  have "\<forall>r\<in>set (Rules cfg). \<forall>s\<in>set (rRoutes r). sOIDC s \<noteq> [] \<longrightarrow> map_of m (sOIDC s) \<noteq> None"
    using none all_routes_iff [of _ _ "Rules cfg"] unfolding find_None_iff by fastforce
  moreover have "list_all named_provider (map (\<lambda>(n, p). (n, ?f n p)) m)"
    using collect_providers_ok [OF m assms(2)]
    by (auto simp: list_all_iff named_provider_def provider_ok_def)
  ultimately show ?thesis using cfg' dom by blast
qed

subsection \<open>The whole\<close>

definition console_count :: "ConsoleConfig option \<Rightarrow> Rule list \<Rightarrow> bool" where
  "console_count con rs \<longleftrightarrow>
     (case con of
        None \<Rightarrow> \<forall>r\<in>set rs. \<not> rConsole r
      | Some c \<Rightarrow> (\<exists>rs' r. rs = rs' @ [r] \<and> console_rule c r \<and> (\<forall>x\<in>set rs'. \<not> rConsole x) \<and> console_clash c rs' = None))"

definition loaded_config :: "ConsoleConfig option \<Rightarrow> Config \<Rightarrow> bool" where
  "loaded_config con cfg \<longleftrightarrow>
     globals_ok cfg
   \<and> Listeners cfg \<noteq> [] \<and> (\<forall>l\<in>set (Listeners cfg). acceptable l \<and> listener_set_ok l)
   \<and> sorted_wrt compatible (Listeners cfg) \<and> console_counts con (Listeners cfg)
   \<and> rules_ok cfg (Rules cfg) \<and> console_count con (Rules cfg)
   \<and> list_all2 (\<lambda>l t. prioritiseListener (lName l) (Rules cfg) = Inr t) (Listeners cfg) (Tables cfg)
   \<and> sections_ok cfg \<and> references_ok cfg \<and> \<not> resolvers_missing cfg"

text \<open>What later steps leave alone.\<close>

definition config_core :: "Config \<Rightarrow> Listener list \<times> Rule list \<times> RouteTable list \<times> bool \<times> string list \<times> string list" where
  "config_core c = (Listeners c, Rules c, Tables c, AcmeAgreeTOS c, PublicIPs c, DNSResolvers c)"

lemma globals_ok_frame:
  "globals_ok (c\<lparr>Rules := rs\<rparr>) = globals_ok c" "globals_ok (c\<lparr>Tables := ts\<rparr>) = globals_ok c"
  "globals_ok (c\<lparr>BasicAuths := m\<rparr>) = globals_ok c" "globals_ok (c\<lparr>OIDCs := p\<rparr>) = globals_ok c"
  by (simp_all add: globals_ok_def)

lemma prioritise_config_ok:
  assumes "prioritise_config cfg = Inr cfg'"
  shows "\<exists>ts ws. cfg' = cfg\<lparr>Tables := ts, Warnings := ws\<rparr>
     \<and> list_all2 (\<lambda>l t. prioritiseListener (lName l) (Rules cfg) = Inr t) (Listeners cfg) ts"
proof -
  obtain ts ws where "prioritise (map lName (Listeners cfg)) (Rules cfg) = Inr ts" "cfg' = cfg\<lparr>Tables := ts, Warnings := ws\<rparr>"
    using assms by (auto simp: prioritise_config_def intro: that)
  then show ?thesis using prioritise_tables by (fastforce simp: list_all2_map1)
qed

lemma load_rules_ok:
  assumes load: "load_rules w con st c = Inr cfg" and walk: "walk_ok st" and g: "globals_ok c"
  shows "globals_ok cfg \<and> Listeners cfg = Listeners c \<and> rules_ok cfg (Rules cfg) \<and> console_count con (Rules cfg)
   \<and> list_all2 (\<lambda>l t. prioritiseListener (lName l) (Rules cfg) = Inr t) (Listeners cfg) (Tables cfg)
   \<and> sections_ok cfg \<and> references_ok cfg"
proof -
  have walk': "list_all (\<lambda>r. \<not> rwConsole r) (wkRaws st)" "list_all auth_ok (wkAuths st)" "list_all provider_ok (wkProviders st)"
    using walk by (simp_all add: walk_ok_def)
  from load obtain rules c1 c2 c3 where 1: "build_rules w c (wkRaws st) = Inr rules"
      and 2: "addConsoleRule w con (c\<lparr>Rules := rules\<rparr>) = Inr c1"
      and 3: "prioritise_config c1 = Inr c2"
      and 4: "resolveServe (wkAuths st) (c2\<lparr>Warnings := Warnings c2 @ map (OpenRelay \<circ> rLine) (filter open_relay (Rules c2))\<rparr>) = Inr c3"
      and 5: "resolveOIDC w (wkProviders st) c3 = Inr cfg"
    unfolding load_rules_def bind_result_Inr_iff wrap_Inr by blast
  have rs: "rules_ok (c\<lparr>Rules := rules\<rparr>) (Rules (c\<lparr>Rules := rules\<rparr>))" "\<forall>r\<in>set (Rules (c\<lparr>Rules := rules\<rparr>)). \<not> rConsole r"
    using build_rules_ok [OF 1 walk'(1)] by (simp_all add: rules_ok_def)
  note a = addConsoleRule_ok [OF 2 rs]
  have c1: "c1 = c\<lparr>Rules := Rules c1\<rparr>" using a by simp
  have count: "console_count con (Rules c1)"
    using a rs(2) by (cases con) (auto simp: console_count_def)
  obtain ts ws2 where c2: "c2 = c1\<lparr>Tables := ts, Warnings := ws2\<rparr>"
      and ts: "list_all2 (\<lambda>l t. prioritiseListener (lName l) (Rules c1) = Inr t) (Listeners c1) ts"
    using prioritise_config_ok [OF 3] by blast
  obtain m3 ws3 where c3: "c3 = c2\<lparr>BasicAuths := m3, Warnings := ws3\<rparr>" and m3: "list_all named_auth m3"
      "\<forall>r\<in>set (Rules c2). \<forall>s\<in>set (rRoutes r). sBasicAuth s \<noteq> [] \<longrightarrow> map_of m3 (sBasicAuth s) \<noteq> None"
    using resolveServe_ok [OF 4 walk'(2)] by auto
  obtain m5 ws5 where c5: "cfg = c3\<lparr>OIDCs := m5, Warnings := ws5\<rparr>" and m5: "list_all named_provider m5"
      "\<forall>r\<in>set (Rules c3). \<forall>s\<in>set (rRoutes r). sOIDC s \<noteq> [] \<longrightarrow> map_of m5 (sOIDC s) \<noteq> None"
    using resolveOIDC_ok [OF 5 walk'(3)] by auto
  have cfg: "cfg = c\<lparr>Rules := Rules c1, Tables := ts, BasicAuths := m3, OIDCs := m5, Warnings := ws5\<rparr>"
    using c5 c3 c2 arg_cong [OF c1, of "\<lambda>x. x\<lparr>Tables := ts, BasicAuths := m3, OIDCs := m5, Warnings := ws5\<rparr>"] by simp
  have same: "Rules cfg = Rules c1" "Listeners cfg = Listeners c" "Tables cfg = ts" "BasicAuths cfg = m3" "OIDCs cfg = m5"
      "AcmeAgreeTOS cfg = AcmeAgreeTOS c"
    by (simp_all add: cfg)
  have "Listeners c1 = Listeners c" using arg_cong [OF c1, of Listeners] by simp
  moreover have "Rules c2 = Rules c1" "Rules c3 = Rules c1" by (simp_all add: c2 c3)
  moreover have "globals_ok cfg" using g by (simp add: cfg globals_ok_frame)
  moreover have "rules_ok cfg (Rules c1)" using a same by (simp add: rules_ok_def)
  moreover have "sections_ok cfg" using m3(1) m5(1) same by (simp add: sections_ok_def)
  moreover have "references_ok cfg" using m3(2) m5(2) same calculation(2,3) unfolding references_ok_def by simp
  ultimately show ?thesis using count ts same by simp
qed

lemma LoadConfig_ok:
  assumes load: "LoadConfig unmarshal w ca_folder con t = Inr cfg" and ca: "ca_folder \<noteq> []"
    and con: "\<And>c. con = Some c \<Longrightarrow> console_ok c"
  shows "loaded_config con cfg"
proof -
  from load obtain st c1 c2 where 1: "walkYAML unmarshal w t (start_walk ca_folder) = Inr st"
      and 2: "load_listeners con st = Inr c1" and 3: "load_rules w con st c1 = Inr c2"
      and 4: "(if resolvers_missing c2 then Inl ResolversNeeded else Inr (c2\<lparr>Warnings := Warnings c2 @ auto_warnings c2\<rparr>)) = Inr cfg"
    unfolding LoadConfig_def bind_result_Inr_iff by blast
  note walk = walkYAML_ok [OF 1 ca]
  note ls = load_listeners_ok [OF 2 walk con]
  note rs = load_rules_ok [OF 3 walk conjunct1 [OF ls]]
  have miss: "\<not> resolvers_missing c2" and cfg: "cfg = c2\<lparr>Warnings := Warnings c2 @ auto_warnings c2\<rparr>"
    using 4 by (simp_all split: if_split_asm)
  have same: "Listeners cfg = Listeners c2" "Rules cfg = Rules c2" "Tables cfg = Tables c2" "globals_ok cfg = globals_ok c2"
      "rules_ok cfg = rules_ok c2" "sections_ok cfg = sections_ok c2" "references_ok cfg = references_ok c2"
      "resolvers_missing cfg = resolvers_missing c2"
    by (simp_all add: cfg fun_eq_iff rules_ok_def sections_ok_def references_ok_def resolvers_missing_def)
  have eq: "Listeners c2 = Listeners c1" using rs by blast
  have "list_all2 (\<lambda>l t. prioritiseListener (lName l) (Rules c2) = Inr t) (Listeners c1) (Tables c2)"
    using rs unfolding eq by blast
  then show ?thesis using ls rs miss same unfolding loaded_config_def eq by simp
qed

subsection \<open>Reading the console's settings\<close>

lemma console_domain_ok:
  assumes "console_domain v = Inr d"
  shows "d = [] \<or> ParseAddr d \<noteq> None \<or> isHostName d \<and> ToLower d = d"
proof -
  define d0 where "d0 = (if ToLower (TrimSpace v) = ''none'' \<or> ToLower (TrimSpace v) = noSNI then [] else ToLower (TrimSpace v))"
  have low: "ToLower d0 = d0" by (simp add: d0_def)
  show ?thesis
  proof (cases "\<exists>a. ParseAddr (Trim d0 ''[]'') = Some a \<and> Zone a = []")
    case True
    then obtain a where a: "ParseAddr (Trim d0 ''[]'') = Some a" "Zone a = []" by blast
    then have "d = addr_String (Unmap a)"
      using assms unfolding console_domain_def Let_def d0_def [symmetric] by simp
    moreover have "san_addr (Unmap a)" using Unmap_san [OF _ a(2)] ParseAddr_valid [OF a(1)] by blast
    ultimately show ?thesis using addr_String_san by simp
  next
    case False
    then have "d = d0 \<and> (d0 = [] \<or> isHostName d0)"
      using assms unfolding console_domain_def Let_def d0_def [symmetric]
      by (cases "ParseAddr (Trim d0 ''[]'')") (simp_all split: if_split_asm)
    then show ?thesis using low by blast
  qed
qed

definition console_inv :: "ConsoleConfig \<Rightarrow> bool" where
  "console_inv c \<longleftrightarrow> conBinds c \<noteq> [] \<and> distinct (conBinds c) \<and> 1 \<le> conPort c \<and> conPort c \<le> 65535
     \<and> (conCert c = ''auto'' \<and> \<not> console_NoSNI c \<or> localCARef (conCert c) \<noteq> None)"

lemma console_same:
  "console_NoSNI (c\<lparr>conBinds := bs, conBind := b\<rparr>) = console_NoSNI c" "console_NoSNI (c\<lparr>conPort := p\<rparr>) = console_NoSNI c"
  "console_NoSNI (c\<lparr>conCert := x\<rparr>) = console_NoSNI c" "console_NoSNI (c\<lparr>conPasswordHash := h\<rparr>) = console_NoSNI c"
  by (simp_all add: console_NoSNI_def console_IP_def)

lemma console_steps:
  "console_bind v c = Inr c' \<Longrightarrow> console_inv c \<Longrightarrow> console_inv c' \<and> conDomain c' = conDomain c"
  "console_port v c = Inr c' \<Longrightarrow> console_inv c \<Longrightarrow> console_inv c' \<and> conDomain c' = conDomain c"
  "console_cert v c = Inr c' \<Longrightarrow> console_inv c \<Longrightarrow> console_inv c' \<and> conDomain c' = conDomain c"
  by (auto simp: console_bind_def console_port_def console_cert_def console_inv_def console_same Let_def
      split: if_split_asm option.split_asm dest: parseBinds_ok parsePort_bounds)

lemma ConsoleFromSettings_ok:
  assumes "ConsoleFromSettings IDKey salt env flags = Inr con"
    and "length salt = 16" "\<And>pw. length (IDKey pw salt 3 65536 4 32) = 32"
  shows "console_ok con \<and> conCertificate con = None"
proof -
  let ?pw = "env ''CONSOLE_PASSWORD''"
  define start where "start d = \<lparr>conBind = ''0.0.0.0'', conBinds = [''0.0.0.0''], conPort = 443, conDomain = d,
                  conCert = ''auto'', conPasswordHash = [], conCertificate = None\<rparr>" for d
  define first where "first d = (if console_NoSNI (start d) then (start d)\<lparr>conCert := ''local-ca''\<rparr> else start d)" for d
  obtain d c2 c3 c4 where d: "console_domain (setting_value flags env ''console_domain'' ''CONSOLE_DOMAIN'') = Inr d"
      and c2: "console_bind (setting_value flags env ''console_bind'' ''CONSOLE_BIND'') (first d) = Inr c2"
      and c3: "console_port (setting_value flags env ''console_port'' ''CONSOLE_PORT'') c2 = Inr c3"
      and c4: "console_cert (setting_value flags env ''console_cert'' ''CONSOLE_CERT'') c3 = Inr c4"
      and pw: "console_password IDKey salt ?pw c4 = Inr con"
    using assms(1) unfolding ConsoleFromSettings_def Let_def start_def [symmetric] first_def [symmetric]
    by (auto split: if_split_asm)
  have local: "localCARef ''local-ca'' \<noteq> None" by code_simp
  have "console_inv (first d) \<and> conDomain (first d) = d \<and> conCertificate (first d) = None"
    using local by (simp add: first_def console_inv_def console_same) (simp add: start_def)
  then have inv: "console_inv c4" "conDomain c4 = d"
    using console_steps [of _ "first d" c2] console_steps [of _ c2 c3] console_steps [of _ c3 c4] c2 c3 c4 by auto
  have "conCertificate c4 = None"
    using c2 c3 c4 \<open>console_inv (first d) \<and> conDomain (first d) = d \<and> conCertificate (first d) = None\<close>
    by (auto simp: console_bind_def console_port_def console_cert_def Let_def split: if_split_asm option.split_asm)
  obtain h where con: "con = c4\<lparr>conPasswordHash := h\<rparr>" and h: "validHash h = Inr ()"
    using pw own_hash(3) [where IDKey = IDKey and salt = salt and password = ?pw, OF assms(2,3)] by (auto simp: console_password_def split: if_split_asm)
  have "console_NoSNI c4 \<or> isHostName d \<and> ToLower d = d"
    using console_domain_ok [OF d] inv(2) ParseAddr_valid [of d]
    by (auto simp: console_NoSNI_def console_IP_def intro: valid_addr_IsValid)
  then show ?thesis using inv h \<open>conCertificate c4 = None\<close> unfolding con
    by (simp add: console_ok_def console_inv_def console_same)
qed

subsection \<open>Routing with a loaded configuration\<close>

text \<open>What the listeners' tables decide: no rule takes the client, or the most specific one does.\<close>

definition decided_by :: "(string \<Rightarrow> bool) \<Rightarrow> string \<Rightarrow> string \<Rightarrow> Rule list \<Rightarrow> Decision \<Rightarrow> Rule \<Rightarrow> bool" where
  "decided_by stopped listener sni rules d r \<longleftrightarrow>
     r \<in> set rules \<and> rListener r = listener \<and> candidate stopped sni r
     \<and> (\<forall>x\<in>set rules. rListener x = listener \<and> candidate stopped sni x \<longrightarrow> \<not> more_specific x r)
     \<and> dRule d = Some r \<and> (dAllow d \<longrightarrow> rAllow r)
     \<and> (dAllow d \<and> \<not> Serves r \<longrightarrow> valid_target (dHost d) \<and> 1 \<le> dPort d \<and> dPort d \<le> 65535)"

lemma loaded_routes:
  assumes cfg: "loaded_config con cfg" and lt: "(l, t) \<in> set (zip (Listeners cfg) (Tables cfg))"
    and sni: "CHR 0x00 \<notin> set sni" "ToLower sni = sni"
  shows "if \<exists>r\<in>set (Rules cfg). rListener r = lName l \<and> candidate stopped sni r
    then \<exists>r. decided_by stopped (lName l) sni (Rules cfg) (RouteExcept t stopped sni) r
    else RouteExcept t stopped sni = no_decision"
proof -
  have t: "prioritiseListener (lName l) (Rules cfg) = Inr t"
  proof -
    have "list_all2 (\<lambda>l t. prioritiseListener (lName l) (Rules cfg) = Inr t) (Listeners cfg) (Tables cfg)"
      using cfg unfolding loaded_config_def by blast
    then show ?thesis using lt unfolding list_all2_iff by blast
  qed
  have rules: "\<forall>r\<in>set (Rules cfg). loaded_rule (AcmeAgreeTOS cfg) r"
    using cfg by (simp add: loaded_config_def rules_ok_def)
  then have ok: "\<forall>r\<in>set (Rules cfg). rule_ok r" by (simp add: loaded_rule_def)
  let ?rs = "filter (candidate stopped sni) (listener_rules (lName l) (Rules cfg))"
  have route: "RouteExcept t stopped sni = decision_of sni (chosen stopped sni (listener_rules (lName l) (Rules cfg)))"
    by (rule RouteExcept_chosen [OF t ok sni])
  have mem: "x \<in> set ?rs \<longleftrightarrow> x \<in> set (Rules cfg) \<and> rListener x = lName l \<and> candidate stopped sni x" for x
    by (auto simp: listener_rules_def)
  show ?thesis
  proof (cases "?rs = []")
    case True
    then have "chosen stopped sni (listener_rules (lName l) (Rules cfg)) = None" by (simp add: chosen_def Let_def)
    then have "RouteExcept t stopped sni = no_decision" using route by (simp add: decision_of_def)
    moreover have none: "\<not> (\<exists>r\<in>set (Rules cfg). rListener r = lName l \<and> candidate stopped sni r)"
      using mem True by (metis empty_iff empty_set)
    ultimately show ?thesis unfolding if_not_P [OF none] by simp
  next
    case False
    obtain r ys where sorted: "sort_key rule_rank ?rs = r # ys"
      using False by (metis length_0_conv length_sort neq_Nil_conv)
    then have choice: "chosen stopped sni (listener_rules (lName l) (Rules cfg)) = Some r"
      by (simp add: chosen_sorted)
    have best: "r \<in> set ?rs" "\<forall>x\<in>set ?rs. \<not> more_specific x r"
    proof -
      have "find (\<lambda>r. \<forall>x\<in>set ?rs. \<not> more_specific x r) ?rs = Some r"
        using choice unfolding chosen_def Let_def .
      then show "r \<in> set ?rs" "\<forall>x\<in>set ?rs. \<not> more_specific x r" by (auto dest: find_named)
    qed
    obtain m where m: "rule_match r sni = Some m" using best(1) by (auto simp: candidate_def)
    then have dec: "RouteExcept t stopped sni = decide r sni m" using route choice by (simp add: decision_of_def)
    have "loaded_rule (AcmeAgreeTOS cfg) r" using rules best(1) mem by blast
    note d = loaded_decision [OF this m]
    have "decided_by stopped (lName l) sni (Rules cfg) (RouteExcept t stopped sni) r"
      using d best mem unfolding dec decided_by_def by blast
    moreover have "\<exists>r\<in>set (Rules cfg). rListener r = lName l \<and> candidate stopped sni r" using best(1) mem by blast
    ultimately show ?thesis by auto
  qed
qed

subsection \<open>The console is reached\<close>

definition table_for :: "Config \<Rightarrow> string \<Rightarrow> RouteTable option" where
  "table_for cfg name = map_of (zip (map lName (Listeners cfg)) (Tables cfg)) name"

definition console_sni :: "ConsoleConfig \<Rightarrow> string" where
  "console_sni con = (if console_NoSNI con then [] else conDomain con)"

lemma unescape_plain: "BS \<notin> set s \<Longrightarrow> unescape_dots s = s"
  by (induction s rule: unescape_dots.induct) (auto simp: BS_def)

lemma host_literal:
  assumes "isHostName d" "ToLower d = d"
  shows "literalName d = d" "CHR ''*'' \<notin> set d" "CHR 0x00 \<notin> set d" "d \<noteq> []" "CHR ''$'' \<notin> set d"
proof -
  have chars: "\<forall>c\<in>set d. isHostChar c" and "d \<noteq> []" using assms(1) by (auto simp: isHostName_def validDomain_def)
  then have no: "c \<notin> set d" if "\<not> isHostChar c" for c using that by blast
  have meta: "\<not> isHostChar (CHR ''^'')" "\<not> isHostChar (CHR ''$'')" "\<not> isHostChar (CHR ''*'')"
      "\<not> isHostChar (CHR 0x00)" "\<not> isHostChar BS"
    by (simp_all add: isHostChar_def BS_def)
  have "TrimPrefix d ''^'' = d" using no [OF meta(1)] by (cases d) (auto simp: TrimPrefix_def HasPrefix_def)
  moreover have "TrimSuffix d ''$'' = d" using no [OF meta(2)] by (auto simp: TrimSuffix_def HasSuffix_iff)
  ultimately show "literalName d = d" using unescape_plain [OF no [OF meta(5)]] assms(2) by (simp add: literalName_def)
  show "CHR ''*'' \<notin> set d" "CHR 0x00 \<notin> set d" "CHR ''$'' \<notin> set d" by (rule no [OF meta(3)] no [OF meta(4)] no [OF meta(2)])+
  show "d \<noteq> []" by fact
qed

lemma console_kind:
  assumes r: "rule_ok r" "console_rule con r" and con: "console_ok con"
  shows "if console_NoSNI con then rKind r = kindNone else rKind r = kindLiteral \<and> literalName (rSource r) = conDomain con"
proof (cases "console_NoSNI con")
  case True
  then have "classify noSNI = Inr (rKind r, rPattern r, rLiteralChars r)"
    using r by (simp add: console_rule_def rule_ok_def)
  then show ?thesis using True by (simp add: classify_def)
next
  case False
  then have host: "isHostName (conDomain con)" "ToLower (conDomain con) = conDomain con" using con by (auto simp: console_ok_def)
  note lit = host_literal [OF host]
  have src: "rSource r = conDomain con" using r(2) False by (simp add: console_rule_def)
  then have cl: "classify (conDomain con) = Inr (rKind r, rPattern r, rLiteralChars r)" using r(1) by (simp add: rule_ok_def)
  have "rKind r \<noteq> kindNone" "rKind r \<noteq> kindCatchAll"
    using cl lit(5) by (auto simp: classify_def Let_def noSNI_def anythingElse_def split: if_split_asm)
  moreover have "rKind r \<noteq> kindWildcard"
  proof
    assume "rKind r = kindWildcard"
    then show False using cl classify_wildcard [of "conDomain con" "rPattern r" "rLiteralChars r"] lit(1,2) by simp
  qed
  ultimately have "rKind r = kindLiteral" by (cases "rKind r") simp_all
  then show ?thesis using False src lit(1) by simp
qed

lemma console_best:
  assumes cfg: "loaded_config (Some con) cfg" and con: "console_ok con"
  obtains r where "ConsoleRule cfg = Some r" "console_rule con r" "r \<in> set (Rules cfg)" "rule_match r (console_sni con) \<noteq> None"
    "\<And>x stopped. x \<in> set (Rules cfg) \<Longrightarrow> rListener x = consoleAlias \<Longrightarrow> candidate stopped (console_sni con) x \<Longrightarrow>
       x = r \<or> more_specific r x"
proof -
  obtain rs r where rules: "Rules cfg = rs @ [r]" and r: "console_rule con r" "\<forall>x\<in>set rs. \<not> rConsole x"
      and clash: "console_clash con rs = None"
    using cfg by (auto simp: loaded_config_def console_count_def)
  have ok: "rule_ok x" if "x \<in> set (Rules cfg)" for x
    using cfg that by (auto simp: loaded_config_def rules_ok_def loaded_rule_def)
  have rok: "rule_ok r" by (rule ok) (simp add: rules)
  note kind = console_kind [OF rok r(1) con]
  have first: "ConsoleRule cfg = Some r"
  proof -
    have "find rConsole (xs @ [r]) = Some r" if "\<forall>x\<in>set xs. \<not> rConsole x" for xs
      using that r(1) by (induction xs) (auto simp: console_rule_def)
    then show ?thesis using r(2) by (simp add: ConsoleRule_def rules)
  qed
  have low: "ToLower (console_sni con) = console_sni con"
    using con by (auto simp: console_sni_def console_ok_def)
  show thesis
  proof (rule that [OF first r(1)])
    show "r \<in> set (Rules cfg)" by (simp add: rules)
    show "rule_match r (console_sni con) \<noteq> None"
    proof (cases "console_NoSNI con")
      case True
      then show ?thesis using kind rok by (simp add: rule_match_def console_sni_def rule_ok_def)
    next
      case False
      then show ?thesis using kind literal_match [OF rok _ low] by (simp add: console_sni_def)
    qed
    fix x stopped
    assume x: "x \<in> set (Rules cfg)" "rListener x = consoleAlias" "candidate stopped (console_sni con) x"
    show "x = r \<or> more_specific r x"
    proof (cases "x = r")
      case False
      then have "x \<in> set rs" using x(1) rules by simp
      note other = console_clash_None [OF clash this x(2)]
      show ?thesis
      proof (cases "console_NoSNI con")
        case True
        then have "kind_rank (rKind r) < kind_rank (rKind x)" using kind other by (cases "rKind x") simp_all
        then show ?thesis by (simp add: more_specific_def)
      next
        case False
        have "console_sni con = conDomain con" "rKind r = kindLiteral" "literalName (rSource r) = conDomain con"
          using False kind by (simp_all add: console_sni_def)
        then have "x = r \<or> rule_rank r < rule_rank x"
          using literal_best [OF rok, of "conDomain con" x stopped] other False low ok [OF x(1)] x(3) by auto
        then show ?thesis by (simp add: more_specific_rank)
      qed
    qed simp
  qed
qed

subsection \<open>Properties\<close>

text \<open>
  C33. Every configuration that loads is sound: its settings are within their bounds; it has listeners,
  whose names and addresses do not clash; every rule is well-formed and on a listener that exists;
  exactly one listener and one rule are the console's when there is a console, and none otherwise,
  and no rule of the file takes the console's own clients; every listener has its table of rules
  in order; users and providers are complete, and every name that refers to them resolves.
\<close>

theorem config_loads_sound:
  assumes "LoadConfig unmarshal w ca_folder con file_text = Inr cfg" "ca_folder \<noteq> []"
    and "\<And>c. con = Some c \<Longrightarrow> console_ok c"
  shows "loaded_config con cfg"
  using assms by (rule LoadConfig_ok)

text \<open>A console without a host name, from its password alone, and an empty file.\<close>

definition demo_console :: ConsoleConfig where
  "demo_console = \<lparr>conBind = ''0.0.0.0'', conBinds = [''0.0.0.0''], conPort = 443, conDomain = [],
     conCert = ''local-ca'', conPasswordHash = hashPassword toy_key (replicate 16 7) ''secret'',
     conCertificate = None\<rparr>"

lemma demo_texts:
  "localCARef ''local-ca'' = Some ''ca001''" "caIDPattern ''ca001''" "classify noSNI = Inr (kindNone, None, 0)"
  "ToLower consoleAlias = consoleAlias" "ToLower ''allow'' = ''allow''"
  "ToLower RedirectListenerName = RedirectListenerName" "consoleAlias \<noteq> RedirectListenerName" "consoleAlias \<noteq> []"
  by code_simp+

lemma demo_hash: "validHash (conPasswordHash demo_console) = Inr ()"
  using own_hash(3) [where IDKey = toy_key and salt = "replicate 16 7" and password = "''secret''"]
  by (simp add: demo_console_def toy_key_def)

lemma demo_console_ok: "console_ok demo_console"
  using demo_hash demo_texts(1) by (simp add: console_ok_def console_NoSNI_def) (simp add: demo_console_def)

lemma demo_walk: "walkYAML (\<lambda>_. Inr []) w t st = Inr st"
  by (simp add: walkYAML_def parseYAML_def pairs_def wrap_def)

lemma demo_listeners:
  "\<exists>c. load_listeners (Some demo_console) (start_walk ''./certs'') = Inr c
     \<and> Listeners c = [console_listener demo_console zero_listener] \<and> PublicIPs c = []"
proof -
  have fields: "lName (console_listener demo_console zero_listener) = consoleAlias"
      "lPort (console_listener demo_console zero_listener) = 443"
    by (simp_all add: console_listener_def demo_console_def)
  then have "acceptable (console_listener demo_console zero_listener)" using demo_texts by (simp add: acceptable_def)
  then have run: "resolveListeners c = Inr (c\<lparr>Bind := lBind (hd (Listeners c)), Binds := lBinds (hd (Listeners c)), Port := lPort (hd (Listeners c))\<rparr>)"
    if "Listeners c = [console_listener demo_console zero_listener]" for c
    unfolding resolveListeners_ok using that by simp
  show ?thesis
    by (simp add: load_listeners_def Let_def resolveConsoleAlias_def placeConsoleListener_def start_walk_def
        initial_config_def run wrap_def)
qed

lemma demo_rule:
  assumes "Listeners c = [console_listener demo_console zero_listener]"
  shows "\<exists>r. buildRule no_world c (console_raw demo_console) = Inr r \<and> rRoutes r = [] \<and> rCert r = ''local-ca:ca001''"
proof -
  have named: "listener_named c consoleAlias \<noteq> None"
    using assms by (simp add: listener_named_def console_listener_def)
  have nosni: "console_NoSNI demo_console" "console_IP demo_console = NoAddr" "conCert demo_console = ''local-ca''"
      "conCertificate demo_console = None"
    by (simp_all add: console_NoSNI_def console_IP_def demo_console_def ParseAddr_def)
  show ?thesis
    using named demo_texts nosni
    by (simp add: buildRule_def console_raw_def zero_raw_def with_pattern_def with_action_def with_settings_def
        serveSettings_def tlsSettings_def upstream_settings_def tls_flag_def localCASettings_def proxySettings_def
        proxy_flag_def proxy_version_def speedSettings_def speed_setting_def zero_rule_def wrap_def Let_def Serves_def)
qed

lemma demo_loads: "\<exists>cfg. LoadConfig (\<lambda>_. Inr []) no_world ''./certs'' (Some demo_console) [] = Inr cfg"
proof -
  obtain c where c: "load_listeners (Some demo_console) (start_walk ''./certs'') = Inr c"
      "Listeners c = [console_listener demo_console zero_listener]" "PublicIPs c = []"
    using demo_listeners by blast
  obtain r where r: "buildRule no_world (c\<lparr>Rules := []\<rparr>) (console_raw demo_console) = Inr r" "rRoutes r = []"
    using demo_rule [of "c\<lparr>Rules := []\<rparr>"] c(2) by auto
  have kind: "rKind r = kindNone"
    using buildRule_ok [OF r(1)] demo_texts(3)
    by (auto simp: loaded_rule_def rule_ok_def console_raw_def zero_raw_def console_NoSNI_def demo_console_def)
  let ?r = "r\<lparr>rFixedCert := conCertificate demo_console\<rparr>"
  have table: "\<exists>t. prioritiseListener name [?r] = Inr t" for name
    using kind by (simp add: prioritiseListener_def listener_rules_def order_step_def empty_ordering_def Let_def)
  have "\<exists>c'. load_rules no_world (Some demo_console) (start_walk ''./certs'') c = Inr c' \<and> PublicIPs c' = []"
  proof -
    obtain t where t: "prioritiseListener consoleAlias [?r] = Inr t" using table by blast
    have add: "addConsoleRule no_world (Some demo_console) (c\<lparr>Rules := []\<rparr>) = Inr (c\<lparr>Rules := [?r]\<rparr>)"
      using r(1) by (simp add: addConsoleRule_def wrap_def)
    have prio: "prioritise_config (c\<lparr>Rules := [?r]\<rparr>) =
        Inr (c\<lparr>Rules := [?r], Tables := [t], Warnings := Warnings c @ concat (map (\<lambda>l. case order_warnings [] (listener_rules (lName l) [?r]) of
             [] \<Rightarrow> [] | ws \<Rightarrow> [OrderDiffers (map (\<lambda>(r, prev). (rLine r, rLine prev)) ws)]) (Listeners c))\<rparr>)"
      using t c(2) by (simp add: prioritise_config_def console_listener_def wrap_def del: order_warnings.simps)
    have "start_walk ''./certs'' = \<lparr>wkConfig = initial_config ''./certs'', wkPoolMaxIdle = None, wkRedirect = False,
        wkRaws = [], wkAuths = [], wkProviders = []\<rparr>" by (simp add: start_walk_def)
    then show ?thesis
      using c(3) r(2) unfolding load_rules_def
      by (simp add: add prio resolveServe_def resolveOIDC_def all_routes_def wrap_def del: order_warnings.simps)
  qed
  then show ?thesis using c(1) by (auto simp: LoadConfig_def demo_walk resolvers_missing_def)
qed

theorem config_loads_sound_witness:
  "\<exists>cfg. LoadConfig (\<lambda>_. Inr []) no_world ''./certs'' (Some demo_console) [] = Inr cfg
     \<and> loaded_config (Some demo_console) cfg"
  using demo_loads config_loads_sound [of "\<lambda>_. Inr []" no_world "''./certs''" "Some demo_console" "[]"]
    demo_console_ok by auto

text \<open>
  C34. With a loaded configuration, whatever name a client sends to a listener and whichever rules are
  stopped: either no running rule of that listener takes the name and the client is denied, or the
  decision is that of a rule of that very listener, running and matching, than which no other such
  rule is more specific; and if it lets the client through to a target, the target is a valid host
  with a port from 1 to 65535.
\<close>

theorem config_routes:
  assumes "LoadConfig unmarshal w ca_folder con file_text = Inr cfg" "ca_folder \<noteq> []"
    and "\<And>c. con = Some c \<Longrightarrow> console_ok c"
    and "(l, t) \<in> set (zip (Listeners cfg) (Tables cfg))" "CHR 0x00 \<notin> set sni" "ToLower sni = sni"
  shows "if \<exists>r\<in>set (Rules cfg). rListener r = lName l \<and> candidate stopped sni r
    then \<exists>r. decided_by stopped (lName l) sni (Rules cfg) (RouteExcept t stopped sni) r
    else RouteExcept t stopped sni = no_decision"
  using loaded_routes [OF LoadConfig_ok [OF assms(1-3)] assms(4-6)] by simp

theorem config_routes_witness:
  "\<exists>cfg l t. LoadConfig (\<lambda>_. Inr []) no_world ''./certs'' (Some demo_console) [] = Inr cfg
     \<and> (l, t) \<in> set (zip (Listeners cfg) (Tables cfg))
     \<and> (RouteExcept t (\<lambda>_. True) ''w.a'' = no_decision)"
proof -
  obtain cfg where cfg: "LoadConfig (\<lambda>_. Inr []) no_world ''./certs'' (Some demo_console) [] = Inr cfg"
    using demo_loads by blast
  have con: "\<And>c. Some demo_console = Some c \<Longrightarrow> console_ok c" using demo_console_ok by simp
  have ok: "loaded_config (Some demo_console) cfg" by (rule LoadConfig_ok [OF cfg _ con]) simp_all
  then have "Listeners cfg \<noteq> []" "length (Listeners cfg) = length (Tables cfg)"
    unfolding loaded_config_def by (auto dest: list_all2_lengthD)
  then obtain l t where lt: "(l, t) \<in> set (zip (Listeners cfg) (Tables cfg))"
    by (cases "Listeners cfg"; cases "Tables cfg") auto
  have ca: "''./certs'' \<noteq> []" by simp
  show ?thesis
    using config_routes [OF cfg ca con lt sample_name_ok, of "\<lambda>_. True"] cfg lt
    by (auto simp: candidate_def)
qed

text \<open>The decision that names a rule is that rule's, on its own match.\<close>

lemma decide_rule: "dRule (decide z sni m) = Some z"
  by (simp add: decide_def no_decision_def split: sum.split)

lemma decision_is_rules:
  assumes cfg: "loaded_config con cfg" and lt: "(l, t) \<in> set (zip (Listeners cfg) (Tables cfg))"
    and sni: "CHR 0x00 \<notin> set sni" "ToLower sni = sni" and d: "dRule (RouteExcept t stopped sni) = Some r"
  shows "RouteExcept t stopped sni = decide r sni (the (rule_match r sni))"
proof -
  have t: "prioritiseListener (lName l) (Rules cfg) = Inr t"
    using cfg lt unfolding loaded_config_def list_all2_iff by blast
  have ok: "\<forall>r\<in>set (Rules cfg). rule_ok r" using cfg by (auto simp: loaded_config_def rules_ok_def loaded_rule_def)
  have "RouteExcept t stopped sni = decision_of sni (chosen stopped sni (listener_rules (lName l) (Rules cfg)))"
    by (rule RouteExcept_chosen [OF t ok sni])
  then obtain y where "RouteExcept t stopped sni = decide y sni (the (rule_match y sni))"
    using d by (auto simp: decision_of_def no_decision_def split: option.split_asm)
  then show ?thesis using d decide_rule by simp
qed

text \<open>The console's rule decides its name on the table of its listener, unless it is stopped.\<close>

lemma console_decides:
  assumes cfg: "loaded_config (Some con) cfg" and ok: "console_ok con"
    and lt: "(l, t) \<in> set (zip (Listeners cfg) (Tables cfg))" and l: "lName l = consoleAlias"
  shows "\<exists>r. ConsoleRule cfg = Some r \<and> (\<forall>stopped. \<not> stopped (Key r) \<longrightarrow>
         dAllow (RouteExcept t stopped (console_sni con)) \<and> dRule (RouteExcept t stopped (console_sni con)) = Some r)"
proof -
  obtain r where r: "ConsoleRule cfg = Some r" "console_rule con r" "r \<in> set (Rules cfg)" "rule_match r (console_sni con) \<noteq> None"
    and best: "\<And>x stopped. x \<in> set (Rules cfg) \<Longrightarrow> rListener x = consoleAlias \<Longrightarrow> candidate stopped (console_sni con) x \<Longrightarrow>
       x = r \<or> more_specific r x"
    using console_best [OF cfg ok] by metis
  have sni: "CHR 0x00 \<notin> set (console_sni con)" "ToLower (console_sni con) = console_sni con"
    using ok host_literal(3) [of "conDomain con"] by (auto simp: console_sni_def console_ok_def)
  have "dAllow (RouteExcept t stopped (console_sni con)) \<and> dRule (RouteExcept t stopped (console_sni con)) = Some r"
    if run: "\<not> stopped (Key r)" for stopped
  proof -
    have cand: "candidate stopped (console_sni con) r" using run r(4) by (simp add: candidate_def)
    then have "\<exists>x\<in>set (Rules cfg). rListener x = lName l \<and> candidate stopped (console_sni con) x"
      using r(2,3) l by (auto simp: console_rule_def)
    then obtain x where x: "decided_by stopped (lName l) (console_sni con) (Rules cfg) (RouteExcept t stopped (console_sni con)) x"
      using loaded_routes [OF cfg lt sni, of stopped] by auto
    have "\<not> more_specific r x" using x r(2,3) cand l by (auto simp: decided_by_def console_rule_def)
    then have "x = r" using best [of x stopped] x l by (auto simp: decided_by_def)
    then have d: "dRule (RouteExcept t stopped (console_sni con)) = Some r" using x by (simp add: decided_by_def)
    show ?thesis using d r(2)
      by (simp add: decision_is_rules [OF cfg lt sni d] decide_rule) (simp add: decide_def console_rule_def Serves_def)
  qed
  then show ?thesis using r(1) by blast
qed



text \<open>
  The console's settings, when they are accepted, are complete: it has addresses and a port, its
  domain is a host name in lower case, an IP address or none, ACME is only used with a host name,
  and the password given, or its hash, is stored as a hash the sign-in can check.
\<close>

lemma console_settings_sound:
  assumes "ConsoleFromSettings IDKey salt env flags = Inr con"
    and "length salt = 16" "\<And>pw. length (IDKey pw salt 3 65536 4 32) = 32"
  shows "console_ok con"
  using ConsoleFromSettings_ok [OF assms] by blast

lemma console_settings_sound_witness:
  "\<exists>con. ConsoleFromSettings toy_key (replicate 16 7) (\<lambda>v. if v = ''CONSOLE_PASSWORD'' then ''secret'' else []) (\<lambda>_. None) = Inr con
     \<and> console_ok con"
proof -
  let ?env = "\<lambda>v. if v = ''CONSOLE_PASSWORD'' then ''secret'' else []"
  have dom: "console_domain [] = Inr []" by code_simp
  have "\<not> HasPrefix ''secret'' ''$argon2id$''" "\<not> HasPrefix ''secret'' (hashPrefix @ ''$'')" by code_simp+
  then have "\<exists>con. ConsoleFromSettings toy_key (replicate 16 7) ?env (\<lambda>_. None) = Inr con"
    by (simp add: ConsoleFromSettings_def setting_value_def dom console_bind_def console_port_def console_cert_def
        console_password_def Let_def)
  moreover have "length (replicate 16 (7 :: byte)) = 16" "\<And>pw. length (toy_key pw (replicate 16 7) 3 65536 4 32) = 32"
    by (simp_all add: toy_key_def)
  ultimately show ?thesis using console_settings_sound [of toy_key "replicate 16 7"] by blast
qed

end
