(* ===== verification/Rule_Stop.thy ===== *)
theory Rule_Stop
  imports Route_Cache Relay
begin

text \<open>
  Stopping and starting a rule while connections run: \<open>setRuleStopped\<close> (proxy.go),
  \<open>ConnState.stop\<close> and \<open>setKill\<close> (stats.go), and the parts of \<open>handle\<close> they race with: the
  runtime a connection was accepted with, its lookup in that runtime's cache, the rule key it
  publishes, and the check it makes before it relays. A step is one atomic access, or what one
  lock covers; connections and console operations interleave in any order.

  Two fields are history and do not influence the steps: \<open>z_standing\<close> holds the stops that no
  later start of the same rule has undone, \<open>z_swap\<close> the runtime an operation installed.
\<close>

subsection \<open>State\<close>

text \<open>Where a connection is.\<close>

datatype conn_pc =
    Absent
  | Accepted                     \<comment> \<open>the runtime is loaded\<close>
  | Registered                   \<comment> \<open>in the registry; reading its ClientHello\<close>
  | Missed                       \<comment> \<open>neither half of the cache has the name\<close>
  | Computed Decision            \<comment> \<open>routed, about to store the decision\<close>
  | Routed Decision
  | Keyed                        \<comment> \<open>the rule key is published; connecting\<close>
  | KillSet string               \<comment> \<open>\<open>setKill\<close> has released the lock\<close>
  | Checking                     \<comment> \<open>about to load the stopped rules again\<close>
  | Relaying
  | Leaving
  | Gone

record conn =
  c_at :: conn_pc
  c_rt :: nat
  c_listener :: string
  c_name :: string
  c_key :: string
  c_kill :: bool
  c_killReason :: string
  c_relay :: relay

datatype console_op = SetRule string bool | StopConn nat string

text \<open>Where an operation of the console is.\<close>

datatype op_pc =
    Called
  | SetStored                    \<comment> \<open>the set is published; about to load the runtime\<close>
  | RtLoaded nat                 \<comment> \<open>about to compare and swap\<close>
  | Swapped
  | Collecting "nat list" "nat list"  \<comment> \<open>still to visit; victims\<close>
  | Stopping "nat list"
  | Killing nat "nat list"       \<comment> \<open>\<open>stop\<close> found the kill function, about to call it\<close>
  | OpDone

record runtime =
  rt_tables :: "string \<Rightarrow> RouteTable option"   \<comment> \<open>\<open>byListener\<close>\<close>
  rt_caps :: "nat \<times> nat"                         \<comment> \<open>\<open>AllowCacheSize\<close>, \<open>DenyCacheSize\<close>\<close>
  rt_cache :: RouteCache

record proxy =
  z_stopped :: "string set"
  z_rt :: nat                      \<comment> \<open>the current runtime\<close>
  z_next :: nat                    \<comment> \<open>the next free address\<close>
  z_runtimes :: "nat \<Rightarrow> runtime"
  z_conns :: "nat \<Rightarrow> conn"
  z_registry :: "nat list"
  z_ops :: "nat \<Rightarrow> (console_op \<times> op_pc) option"
  z_standing :: "(nat \<times> string) set"
  z_swap :: "nat \<Rightarrow> nat"

abbreviation upd_conn :: "nat \<Rightarrow> (conn \<Rightarrow> conn) \<Rightarrow> proxy \<Rightarrow> proxy" where
  "upd_conn i f s \<equiv> s\<lparr>z_conns := (z_conns s)(i := f (z_conns s i))\<rparr>"

abbreviation conn_goto :: "nat \<Rightarrow> conn_pc \<Rightarrow> proxy \<Rightarrow> proxy" where
  "conn_goto i pc s \<equiv> upd_conn i (\<lambda>c. c\<lparr>c_at := pc\<rparr>) s"

abbreviation op_goto :: "nat \<Rightarrow> console_op \<Rightarrow> op_pc \<Rightarrow> proxy \<Rightarrow> proxy" where
  "op_goto o1 op pc s \<equiv> s\<lparr>z_ops := (z_ops s)(o1 := Some (op, pc))\<rparr>"

abbreviation upd_runtime :: "nat \<Rightarrow> (runtime \<Rightarrow> runtime) \<Rightarrow> proxy \<Rightarrow> proxy" where
  "upd_runtime r f s \<equiv> s\<lparr>z_runtimes := (z_runtimes s)(r := f (z_runtimes s r))\<rparr>"

definition no_conn :: conn where
  "no_conn = \<lparr>c_at = Absent, c_rt = 0, c_listener = [], c_name = [], c_key = [], c_kill = False,
     c_killReason = [], c_relay = new_relay False False\<rparr>"

definition new_runtime :: "(string \<Rightarrow> RouteTable option) \<Rightarrow> nat \<times> nat \<Rightarrow> runtime" where
  "new_runtime tables caps =
     \<lparr>rt_tables = tables, rt_caps = caps, rt_cache = NewRouteCache (fst caps) (snd caps)\<rparr>"

definition start_proxy :: "(string \<Rightarrow> RouteTable option) \<Rightarrow> nat \<times> nat \<Rightarrow> proxy" where
  "start_proxy tables caps =
     \<lparr>z_stopped = {}, z_rt = 0, z_next = 1, z_runtimes = (\<lambda>_. new_runtime tables caps),
      z_conns = (\<lambda>_. no_conn), z_registry = [], z_ops = (\<lambda>_. None), z_standing = {},
      z_swap = (\<lambda>_. 0)\<rparr>"

text \<open>A new runtime takes the next free address and becomes the current one.\<close>

definition install :: "runtime \<Rightarrow> proxy \<Rightarrow> proxy" where
  "install rt s = s\<lparr>z_runtimes := (z_runtimes s)(z_next s := rt), z_rt := z_next s, z_next := z_next s + 1\<rparr>"


subsection \<open>The registry entry of a connection\<close>

text \<open>\<open>stop\<close> up to the unlock, and whether the kill function is there to be called after it.\<close>

definition stop_locked :: "string \<Rightarrow> conn \<Rightarrow> conn \<times> bool" where
  "stop_locked reason c =
     ((if \<not> c_kill c \<and> c_killReason c = [] then c\<lparr>c_killReason := reason\<rparr> else c), c_kill c)"

text \<open>\<open>setKill\<close>, up to the unlock and after it.\<close>

definition setKill_locked :: "conn \<Rightarrow> conn" where
  "setKill_locked c = c\<lparr>c_kill := True, c_at := KillSet (c_killReason c)\<rparr>"

definition kill_conn :: "string \<Rightarrow> conn \<Rightarrow> conn" where
  "kill_conn reason c = c\<lparr>c_relay := closeAll reason (c_relay c)\<rparr>"

definition rule_stopped_reason :: string where
  "rule_stopped_reason = ''rule stopped from the console; closed by proxy''"


subsection \<open>A connection's steps\<close>

text \<open>\<open>GetOrRoute\<close> in its three accesses: the two lookups, the routing, the insert.\<close>

definition cache_find :: "string \<Rightarrow> RouteCache \<Rightarrow> Decision option \<times> RouteCache" where
  "cache_find sni c =
     (case clock_Get sni (allowed c) of
        (Some d, a) \<Rightarrow> (Some d, c\<lparr>allowed := a\<rparr>)
      | (None, a) \<Rightarrow> (case clock_Get sni (denied c) of (x, n) \<Rightarrow> (x, c\<lparr>allowed := a, denied := n\<rparr>)))"

definition cache_store :: "bool \<Rightarrow> string \<Rightarrow> Decision \<Rightarrow> RouteCache \<Rightarrow> RouteCache" where
  "cache_store busy sni d c =
     (if dAllow d then c\<lparr>allowed := clock_Put busy sni d (allowed c)\<rparr>
      else c\<lparr>denied := clock_Put busy sni d (denied c)\<rparr>)"

lemma GetOrRoute_split:
  "GetOrRoute busy sni route c =
     (case cache_find sni c of
        (Some d, c') \<Rightarrow> ((d, True), c')
      | (None, c') \<Rightarrow> ((route sni, False), cache_store busy sni (route sni) c'))"
  by (simp add: GetOrRoute_def cache_find_def cache_store_def Let_def split: prod.split option.split)

definition cache_key :: "conn \<Rightarrow> string" where
  "cache_key c = c_listener c @ NUL @ c_name c"

text \<open>The rule key a decision publishes.\<close>

definition published_key :: "string \<Rightarrow> Decision \<Rightarrow> string" where
  "published_key listener d =
     (case dRule d of
        Some r \<Rightarrow> Key r
      | None \<Rightarrow> if dErr d = None then implicitDenyKey listener else [])"

definition conn_step :: "bool \<Rightarrow> nat \<Rightarrow> proxy \<Rightarrow> proxy" where
  "conn_step busy i s =
     (let c = z_conns s i; r = c_rt c in
      case c_at c of
        Accepted \<Rightarrow> conn_goto i Registered (s\<lparr>z_registry := i # z_registry s\<rparr>)
      | Registered \<Rightarrow>
          (case cache_find (cache_key c) (rt_cache (z_runtimes s r)) of (x, cache) \<Rightarrow>
             conn_goto i (case x of Some d \<Rightarrow> Routed d | None \<Rightarrow> Missed)
               (upd_runtime r (\<lambda>rt. rt\<lparr>rt_cache := cache\<rparr>) s))
      | Missed \<Rightarrow>
          (case rt_tables (z_runtimes s r) (c_listener c) of
             Some t \<Rightarrow> conn_goto i (Computed (RouteExcept t (\<lambda>k. k \<in> z_stopped s) (c_name c))) s
           | None \<Rightarrow> s)
      | Computed d \<Rightarrow>
          conn_goto i (Routed d)
            (upd_runtime r (\<lambda>rt. rt\<lparr>rt_cache := cache_store busy (cache_key c) d (rt_cache rt)\<rparr>) s)
      | Routed d \<Rightarrow>
          upd_conn i (\<lambda>c. c\<lparr>c_key := published_key (c_listener c) d,
                            c_at := (if dAllow d then Keyed else Leaving)\<rparr>) s
      | Keyed \<Rightarrow> upd_conn i setKill_locked s
      | KillSet reason \<Rightarrow>
          conn_goto i Checking (if reason \<noteq> [] then upd_conn i (kill_conn reason) s else s)
      | Checking \<Rightarrow>
          conn_goto i Relaying
            (if c_key c \<in> z_stopped s then upd_conn i (kill_conn rule_stopped_reason) s else s)
      | Leaving \<Rightarrow> conn_goto i Gone (s\<lparr>z_registry := remove1 i (z_registry s)\<rparr>)
      | _ \<Rightarrow> s)"

text \<open>
  \<open>acceptLoop\<close> loads the runtime and closes the socket when the listener is not in it.
\<close>

definition accept_conn :: "nat \<Rightarrow> string \<Rightarrow> string \<Rightarrow> bool \<Rightarrow> bool \<Rightarrow> proxy \<Rightarrow> proxy" where
  "accept_conn i listener sni low_latency use_splice s =
     (if rt_tables (z_runtimes s (z_rt s)) listener = None then conn_goto i Gone s
      else upd_conn i (\<lambda>_. no_conn\<lparr>c_at := Accepted, c_rt := z_rt s, c_listener := listener, c_name := sni,
                            c_relay := new_relay low_latency use_splice\<rparr>) s)"


subsection \<open>The console's operations\<close>

fun op_reason :: "console_op \<Rightarrow> string" where
  "op_reason (SetRule k stop) = rule_stopped_reason"
| "op_reason (StopConn i reason) = reason"

definition op_step :: "nat \<Rightarrow> proxy \<Rightarrow> proxy" where
  "op_step p s =
     (case z_ops s p of
        Some (SetRule k stop, Called) \<Rightarrow>
          op_goto p (SetRule k stop) SetStored
            (if stop then s\<lparr>z_stopped := insert k (z_stopped s), z_standing := insert (p, k) (z_standing s)\<rparr>
             else s\<lparr>z_stopped := z_stopped s - {k}, z_standing := {(q, j) \<in> z_standing s. j \<noteq> k}\<rparr>)
      | Some (SetRule k stop, SetStored) \<Rightarrow> op_goto p (SetRule k stop) (RtLoaded (z_rt s)) s
      | Some (SetRule k stop, RtLoaded r) \<Rightarrow>
          (if z_rt s = r
           then op_goto p (SetRule k stop) Swapped
                  ((install ((z_runtimes s r)\<lparr>rt_cache :=
                       NewRouteCache (fst (rt_caps (z_runtimes s r))) (snd (rt_caps (z_runtimes s r)))\<rparr>) s)
                   \<lparr>z_swap := (z_swap s)(p := z_next s)\<rparr>)
           else op_goto p (SetRule k stop) SetStored s)
      | Some (SetRule k stop, Swapped) \<Rightarrow>
          op_goto p (SetRule k stop) (if stop then Collecting (z_registry s) [] else OpDone) s
      | Some (StopConn i reason, Called) \<Rightarrow> op_goto p (StopConn i reason) (Stopping [i]) s
      | Some (op, Collecting [] vs) \<Rightarrow> op_goto p op (Stopping vs) s
      | Some (op, Stopping []) \<Rightarrow> op_goto p op OpDone s
      | Some (op, Stopping (i # vs)) \<Rightarrow>
          (case stop_locked (op_reason op) (z_conns s i) of (c, killed) \<Rightarrow>
             op_goto p op (if killed then Killing i vs else Stopping vs) (upd_conn i (\<lambda>_. c) s))
      | Some (op, Killing i vs) \<Rightarrow>
          op_goto p op (Stopping vs) (upd_conn i (kill_conn (op_reason op)) s)
      | _ \<Rightarrow> s)"

text \<open>One call of the function \<open>Range\<close> is given: the entries may come in any order, and those that
  registered since it began may come too.\<close>

definition collect :: "nat \<Rightarrow> nat \<Rightarrow> proxy \<Rightarrow> proxy" where
  "collect p i s =
     (case z_ops s p of
        Some (SetRule k stop, Collecting todo vs) \<Rightarrow>
          op_goto p (SetRule k stop)
            (Collecting (removeAll i todo) (if c_key (z_conns s i) = k then vs @ [i] else vs)) s
      | _ \<Rightarrow> s)"


subsection \<open>Interleaving\<close>

definition may_leave :: "conn \<Rightarrow> bool" where
  "may_leave c \<longleftrightarrow> c_at c \<in> {Registered, Keyed}
     \<or> c_at c = Relaying \<and> y_phase (c_relay c) CToS = Returned \<and> y_phase (c_relay c) SToC = Returned"

text \<open>\<open>connStop\<close> looks its connection up in the registry; the reasons it and the listeners give are
  not empty.\<close>

fun may_call :: "console_op \<Rightarrow> proxy \<Rightarrow> bool" where
  "may_call (SetRule k stop) s = True"
| "may_call (StopConn i reason) s = (i \<in> set (z_registry s) \<and> reason \<noteq> [])"

inductive proxy_next :: "proxy \<Rightarrow> proxy \<Rightarrow> bool" where
  accepted: "c_at (z_conns s i) = Absent \<Longrightarrow> proxy_next s (accept_conn i l sni low_latency use_splice s)"
| stepped: "proxy_next s (conn_step busy i s)"
| relayed: "c_at (z_conns s i) = Relaying \<Longrightarrow> relay_step (c_relay (z_conns s i)) y \<Longrightarrow>
    proxy_next s (upd_conn i (\<lambda>c. c\<lparr>c_relay := y\<rparr>) s)"
| left: "may_leave (z_conns s i) \<Longrightarrow> proxy_next s (conn_goto i Leaving s)"
| called: "z_ops s p = None \<Longrightarrow> may_call op s \<Longrightarrow> proxy_next s (op_goto p op Called s)"
| operated: "proxy_next s (op_step p s)"
| visited: "proxy_next s (collect p i s)"
| reloaded: "proxy_next s (install (new_runtime tables caps) s)"

inductive proxy_reach :: "(string \<Rightarrow> RouteTable option) \<Rightarrow> nat \<times> nat \<Rightarrow> proxy \<Rightarrow> bool" for tables caps where
  begins: "proxy_reach tables caps (start_proxy tables caps)"
| goes_on: "proxy_reach tables caps s \<Longrightarrow> proxy_next s s' \<Longrightarrow> proxy_reach tables caps s'"

inductive_cases proxy_nextE: "proxy_next s s'"


subsection \<open>Decisions of other rules\<close>

text \<open>A decision, a cache and a connection the rule with key \<open>k\<close> has no part in.\<close>

definition clean :: "string \<Rightarrow> Decision \<Rightarrow> bool" where
  "clean k d = (case dRule d of Some r \<Rightarrow> Key r \<noteq> k | None \<Rightarrow> \<not> dAllow d)"

definition cache_clean :: "string \<Rightarrow> RouteCache \<Rightarrow> bool" where
  "cache_clean k c \<longleftrightarrow> clock_ok (allowed c) \<and> clock_ok (denied c)
     \<and> (\<forall>sni d. lookup (allowed c) sni = Some d \<or> lookup (denied c) sni = Some d \<longrightarrow> clean k d)"

definition conn_clean :: "string \<Rightarrow> conn \<Rightarrow> bool" where
  "conn_clean k c =
     (case c_at c of
        Computed d \<Rightarrow> clean k d
      | Routed d \<Rightarrow> clean k d
      | Keyed \<Rightarrow> c_key c \<noteq> k
      | KillSet _ \<Rightarrow> c_key c \<noteq> k
      | Checking \<Rightarrow> c_key c \<noteq> k
      | Relaying \<Rightarrow> c_key c \<noteq> k
      | _ \<Rightarrow> True)"

lemma clean_decide: "stopped k \<Longrightarrow> \<not> stopped (Key r) \<Longrightarrow> clean k (decide r sni m)"
  by (auto simp: clean_def decide_def no_decision_def split: sum.split)

lemma clean_no_decision: "clean k no_decision"
  by (simp add: clean_def no_decision_def)

lemma clean_try_rules: "stopped k \<Longrightarrow> clean k (try_rules stopped sni rs)"
  by (induction rs) (simp_all add: clean_decide clean_no_decision split: option.split)

lemma clean_RouteExcept: "stopped k \<Longrightarrow> clean k (RouteExcept t stopped sni)"
  by (simp add: RouteExcept_def clean_decide clean_try_rules split: option.split)

lemma clean_published: "clean k d \<Longrightarrow> dAllow d \<Longrightarrow> published_key l d \<noteq> k"
  by (auto simp: clean_def published_key_def split: option.splits)

lemma cache_clean_new: "cache_clean k (NewRouteCache a d)"
  by (simp add: cache_clean_def NewRouteCache_def clock_ok_new)

lemma cache_find_eq:
  "cache_find sni c =
     (case lookup (allowed c) sni of
        Some d \<Rightarrow> (Some d, c\<lparr>allowed := snd (clock_Get sni (allowed c))\<rparr>)
      | None \<Rightarrow> (lookup (denied c) sni,
          c\<lparr>allowed := snd (clock_Get sni (allowed c)), denied := snd (clock_Get sni (denied c))\<rparr>))"
  unfolding cache_find_def clock_Get_lookup(1) [symmetric]
  by (cases "clock_Get sni (allowed c)"; cases "clock_Get sni (denied c)") (simp split: option.split)

lemma cache_clean_find:
  assumes "cache_clean k c"
  shows "cache_clean k (snd (cache_find sni c)) \<and> (\<forall>d. fst (cache_find sni c) = Some d \<longrightarrow> clean k d)"
  using assms by (auto simp: cache_find_eq cache_clean_def clock_Get_ok split: option.split)

lemma half_clean_store:
  assumes "clock_ok c" "\<forall>n d. lookup c n = Some d \<longrightarrow> P d" "P e"
  shows "clock_ok (clock_Put busy sni e c) \<and> (\<forall>n d. lookup (clock_Put busy sni e c) n = Some d \<longrightarrow> P d)"
  using assms lookup_after_Put [OF assms(1), of busy sni e] clock_Put_ok [OF assms(1)] by blast

lemma cache_clean_store:
  assumes "cache_clean k c" "clean k d"
  shows "cache_clean k (cache_store busy sni d c)"
proof (cases "dAllow d")
  case True
  then show ?thesis using half_clean_store [of "allowed c" "clean k" d busy sni] assms
    unfolding cache_clean_def cache_store_def by auto
next
  case False
  then show ?thesis using half_clean_store [of "denied c" "clean k" d busy sni] assms
    unfolding cache_clean_def cache_store_def by auto
qed


subsection \<open>Runtimes a stop has cleared\<close>

text \<open>From the runtime with address \<open>a\<close> on, the rule \<open>k\<close> decides nothing.\<close>

definition cleared :: "string \<Rightarrow> nat \<Rightarrow> proxy \<Rightarrow> bool" where
  "cleared k a s \<longleftrightarrow> (\<forall>r. a \<le> r \<and> r < z_next s \<longrightarrow> cache_clean k (rt_cache (z_runtimes s r)))
     \<and> (\<forall>i. a \<le> c_rt (z_conns s i) \<longrightarrow> conn_clean k (z_conns s i))"

text \<open>A connection of the rule \<open>k\<close> that is relaying and that nobody has closed.\<close>

definition relays :: "string \<Rightarrow> conn \<Rightarrow> bool" where
  "relays k c \<longleftrightarrow> c_at c = Relaying \<and> c_key c = k \<and> \<not> y_closed (c_relay c)"

definition ids_ok :: "proxy \<Rightarrow> bool" where
  "ids_ok s \<longleftrightarrow> z_rt s < z_next s \<and> (\<forall>i. c_rt (z_conns s i) < z_next s) \<and> (\<forall>p. z_swap s p < z_next s)"

lemma conn_step_same:
  "z_stopped (conn_step busy i s) = z_stopped s" "z_rt (conn_step busy i s) = z_rt s"
  "z_next (conn_step busy i s) = z_next s" "z_ops (conn_step busy i s) = z_ops s"
  "z_standing (conn_step busy i s) = z_standing s" "z_swap (conn_step busy i s) = z_swap s"
  by (simp_all add: conn_step_def Let_def split: conn_pc.split prod.split option.split)

lemma conn_step_rt: "c_rt (z_conns (conn_step busy i s) j) = c_rt (z_conns s j)"
  by (simp add: conn_step_def Let_def setKill_locked_def kill_conn_def split: conn_pc.split prod.split option.split)

lemma cleared_upd_conn:
  assumes "cleared k a s" "cs = z_conns s" "c_rt c = c_rt (z_conns s i)"
    "a \<le> c_rt (z_conns s i) \<Longrightarrow> conn_clean k (z_conns s i) \<Longrightarrow> conn_clean k c"
  shows "cleared k a (s\<lparr>z_conns := cs(i := c)\<rparr>)"
  using assms by (simp add: cleared_def)

lemma cleared_upd_runtime:
  assumes "cleared k a s" "a \<le> r \<Longrightarrow> cache_clean k (rt_cache (z_runtimes s r)) \<Longrightarrow> cache_clean k (rt_cache (f (z_runtimes s r)))"
  shows "cleared k a (upd_runtime r f s)"
  using assms by (simp add: cleared_def)

lemma cleared_other:
  "cleared k a (s\<lparr>z_registry := v\<rparr>) = cleared k a s" "cleared k a (s\<lparr>z_ops := w\<rparr>) = cleared k a s"
  "cleared k a (s\<lparr>z_stopped := x\<rparr>) = cleared k a s" "cleared k a (s\<lparr>z_standing := y\<rparr>) = cleared k a s"
  "cleared k a (s\<lparr>z_swap := z\<rparr>) = cleared k a s"
  by (simp_all add: cleared_def)

lemma clearedD:
  assumes "cleared k a s" "ids_ok s" "a \<le> c_rt (z_conns s i)"
  shows "cache_clean k (rt_cache (z_runtimes s (c_rt (z_conns s i))))" "conn_clean k (z_conns s i)"
  using assms by (simp_all add: cleared_def ids_ok_def)

lemma cleared_conn_step:
  assumes ok: "ids_ok s" and cl: "cleared k a s" and k: "k \<in> z_stopped s"
  shows "cleared k a (conn_step busy i s)"
proof -
  let ?c = "z_conns s i"
  note D = clearedD [OF cl ok, of i]
  show ?thesis
  proof (cases "c_at ?c")
    case Registered
    obtain x cache where f: "cache_find (cache_key ?c) (rt_cache (z_runtimes s (c_rt ?c))) = (x, cache)" by fastforce
    have "cleared k a (upd_runtime (c_rt ?c) (\<lambda>rt. rt\<lparr>rt_cache := cache\<rparr>) s)"
      using cl f cache_clean_find [of k] by (auto intro!: cleared_upd_runtime) (metis snd_conv)
    then show ?thesis
      unfolding conn_step_def Let_def Registered using f cache_clean_find [OF D(1), of "cache_key ?c"]
      by (auto intro!: cleared_upd_conn simp: conn_clean_def split: option.split)
  next
    case Missed
    then show ?thesis
      unfolding conn_step_def Let_def Missed using cl k
      by (auto intro!: cleared_upd_conn simp: conn_clean_def clean_RouteExcept split: option.split)
  next
    case (Computed d)
    have "cleared k a (upd_runtime (c_rt ?c) (\<lambda>rt. rt\<lparr>rt_cache := cache_store busy (cache_key ?c) d (rt_cache rt)\<rparr>) s)"
      using cl D(2) Computed by (auto intro!: cleared_upd_runtime cache_clean_store simp: conn_clean_def)
    then show ?thesis
      unfolding conn_step_def Let_def Computed using Computed
      by (auto intro!: cleared_upd_conn simp: conn_clean_def)
  next
    case (Routed d)
    then show ?thesis
      unfolding conn_step_def Let_def Routed using cl clean_published [of k d "c_listener ?c"]
      by (auto intro!: cleared_upd_conn simp: conn_clean_def Routed)
  qed (use cl in \<open>auto simp: conn_step_def Let_def setKill_locked_def kill_conn_def conn_clean_def cleared_other
      intro!: cleared_upd_conn\<close>)
qed

lemma relays_conn_step:
  assumes "k \<in> z_stopped s" "relays k (z_conns (conn_step busy i s) j)"
  shows "relays k (z_conns s j)"
  using assms
  by (auto simp: conn_step_def Let_def setKill_locked_def kill_conn_def relays_def
      split: conn_pc.split_asm prod.split_asm option.split_asm if_split_asm)


subsection \<open>Standing stops\<close>

text \<open>What an operation still has to see to, and whether its runtime is installed.\<close>

fun awaits :: "op_pc \<Rightarrow> nat \<Rightarrow> bool" where
  "awaits (Collecting todo vs) i = (i \<in> set todo \<or> i \<in> set vs)"
| "awaits (Stopping vs) i = (i \<in> set vs)"
| "awaits (Killing j vs) i = (i = j \<or> i \<in> set vs)"
| "awaits OpDone i = False"
| "awaits _ i = True"

fun swapped :: "op_pc \<Rightarrow> bool" where
  "swapped Called = False"
| "swapped SetStored = False"
| "swapped (RtLoaded r) = False"
| "swapped _ = True"

definition standing :: "proxy \<Rightarrow> nat \<Rightarrow> string \<Rightarrow> op_pc \<Rightarrow> bool" where
  "standing s p k pc \<longleftrightarrow> k \<in> z_stopped s \<and> z_ops s p = Some (SetRule k True, pc) \<and> pc \<noteq> Called
     \<and> (swapped pc \<longrightarrow> z_swap s p \<le> z_rt s \<and> cleared k (z_swap s p) s)
     \<and> (\<forall>i. relays k (z_conns s i) \<longrightarrow> awaits pc i)"

definition standing_ok :: "proxy \<Rightarrow> bool" where
  "standing_ok s \<longleftrightarrow> (\<forall>(p, k)\<in>z_standing s. \<exists>pc. standing s p k pc)"

text \<open>A connection that relays has its kill function, and is in the registry.\<close>

definition conns_ok :: "proxy \<Rightarrow> bool" where
  "conns_ok s \<longleftrightarrow> (\<forall>i. c_at (z_conns s i) \<noteq> Relaying \<or> c_kill (z_conns s i))
     \<and> (\<forall>i. c_at (z_conns s i) = Checking \<longrightarrow> c_kill (z_conns s i))
     \<and> (\<forall>i r. c_at (z_conns s i) = KillSet r \<longrightarrow> c_kill (z_conns s i))
     \<and> (\<forall>i. c_at (z_conns s i) \<notin> {Absent, Accepted, Gone} \<longrightarrow> i \<in> set (z_registry s))
     \<and> (\<forall>i. i \<in> set (z_registry s) \<longrightarrow> c_at (z_conns s i) \<noteq> Absent)"

lemma standing_conns:
  assumes "standing s p k pc"
    and "z_stopped s' = z_stopped s" "z_ops s' = z_ops s" "z_swap s' = z_swap s" "z_rt s \<le> z_rt s'"
    and "cleared k (z_swap s p) s \<Longrightarrow> cleared k (z_swap s p) s'"
    and "\<And>i. relays k (z_conns s' i) \<Longrightarrow> relays k (z_conns s i)"
  shows "standing s' p k pc"
  using assms unfolding standing_def by force

lemma standing_okI:
  assumes "standing_ok s" "z_standing s' = z_standing s"
    and "\<And>p k pc. standing s p k pc \<Longrightarrow> \<exists>pc. standing s' p k pc"
  shows "standing_ok s'"
  using assms unfolding standing_ok_def by fastforce

lemma standing_conn_step:
  assumes "ids_ok s" "standing_ok s"
  shows "standing_ok (conn_step busy i s)"
proof (rule standing_okI [OF assms(2) conn_step_same(5)])
  fix p k pc assume st: "standing s p k pc"
  then have k: "k \<in> z_stopped s" by (simp add: standing_def)
  show "\<exists>pc. standing (conn_step busy i s) p k pc"
    by (rule exI [of _ pc], rule standing_conns [OF st]) (simp_all add: conn_step_same cleared_conn_step [OF assms(1) _ k]
        relays_conn_step [OF k])
qed

lemma standing_upd_conn:
  assumes "standing_ok s"
    and "c_rt c = c_rt (z_conns s i)" "\<And>k. conn_clean k (z_conns s i) \<Longrightarrow> conn_clean k c"
    and "\<And>k. relays k c \<Longrightarrow> relays k (z_conns s i)"
  shows "standing_ok (s\<lparr>z_conns := (z_conns s)(i := c)\<rparr>)"
proof (rule standing_okI [OF assms(1)])
  fix p k pc assume st: "standing s p k pc"
  show "\<exists>pc. standing (s\<lparr>z_conns := (z_conns s)(i := c)\<rparr>) p k pc"
    by (rule exI [of _ pc], rule standing_conns [OF st]) (use assms in \<open>auto intro: cleared_upd_conn split: if_splits\<close>)
qed simp

lemma cleared_install:
  assumes "cleared k a s" "cache_clean k (rt_cache rt)"
  shows "cleared k a (install rt s)"
  using assms by (simp add: cleared_def install_def less_Suc_eq)

lemma standing_install:
  assumes "ids_ok s" "standing_ok s" "\<And>k. cache_clean k (rt_cache rt)"
  shows "standing_ok (install rt s)"
proof (rule standing_okI [OF assms(2)])
  fix p k pc assume st: "standing s p k pc"
  show "\<exists>pc. standing (install rt s) p k pc"
    by (rule exI [of _ pc], rule standing_conns [OF st]) (use assms in \<open>auto simp: ids_ok_def intro: cleared_install, auto simp: install_def\<close>)
qed (simp add: install_def)

lemma ids_install:
  assumes "ids_ok s"
  shows "ids_ok ((install rt s)\<lparr>z_swap := (z_swap s)(p := z_next s)\<rparr>)" "ids_ok (install rt s)"
  using assms by (simp_all add: ids_ok_def install_def less_Suc_eq)

lemma new_runtime_clean: "cache_clean k (rt_cache (new_runtime tables caps))"
  by (simp add: new_runtime_def cache_clean_new)


lemma standing_other:
  "q \<noteq> p \<Longrightarrow> standing (s\<lparr>z_ops := (z_ops s)(p := x)\<rparr>) q k pc = standing s q k pc"
  by (simp add: standing_def cleared_other)

text \<open>One operation moves on; the others' stops stand as before.\<close>

lemma standing_goto:
  assumes "standing_ok s" "z_ops s p = Some (op, pc)"
    and "\<And>k. op = SetRule k True \<Longrightarrow> standing s p k pc \<Longrightarrow> pc' \<noteq> Called \<and> (swapped pc' \<longrightarrow> swapped pc)
           \<and> (\<forall>i. relays k (z_conns s i) \<longrightarrow> awaits pc i \<longrightarrow> awaits pc' i)"
  shows "standing_ok (op_goto p op pc' s)"
proof (rule standing_okI [OF assms(1)])
  fix q k qc assume st: "standing s q k qc"
  show "\<exists>qc. standing (op_goto p op pc' s) q k qc"
  proof (cases "q = p")
    case True
    then have "op = SetRule k True" "qc = pc" using st assms(2) by (auto simp: standing_def)
    then have "standing (op_goto p op pc' s) p k pc'"
      using st assms(3) [of k] True by (auto simp: standing_def cleared_other)
    then show ?thesis using True by blast
  next
    case False
    then show ?thesis using st standing_other by blast
  qed
qed simp

lemma standing_store:
  assumes "standing_ok s" "z_ops s p = Some (SetRule k b, Called)"
  shows "standing_ok (op_step p s)"
  unfolding standing_ok_def
proof (intro ballI, clarify)
  fix q j assume q: "(q, j) \<in> z_standing (op_step p s)"
  show "\<exists>pc. standing (op_step p s) q j pc"
  proof (cases "(q, j) \<in> z_standing s")
    case True
    then obtain pc where st: "standing s q j pc" using assms(1) by (auto simp: standing_ok_def)
    then have "q \<noteq> p" using assms(2) by (auto simp: standing_def)
    moreover have "b \<or> j \<noteq> k" using q assms(2) by (auto simp: op_step_def)
    ultimately have "standing (op_step p s) q j pc"
      using st assms(2) by (auto simp: standing_def op_step_def cleared_other)
    then show ?thesis by blast
  next
    case False
    then have "q = p" "j = k" "b" using q assms(2) by (auto simp: op_step_def split: if_splits)
    then have "standing (op_step p s) q j SetStored"
      using assms(2) by (simp add: standing_def op_step_def)
    then show ?thesis by blast
  qed
qed

lemma standing_swap:
  assumes ok: "ids_ok s" "standing_ok s" and p: "z_ops s p = Some (SetRule k b, RtLoaded r)" "z_rt s = r"
  shows "standing_ok (op_step p s)"
proof -
  define rt where "rt = (z_runtimes s r)\<lparr>rt_cache :=
    NewRouteCache (fst (rt_caps (z_runtimes s r))) (snd (rt_caps (z_runtimes s r)))\<rparr>"
  have step: "op_step p s = op_goto p (SetRule k b) Swapped ((install rt s)\<lparr>z_swap := (z_swap s)(p := z_next s)\<rparr>)"
    using p by (simp add: op_step_def rt_def install_def)
  have rt: "cache_clean j (rt_cache rt)" for j by (simp add: rt_def cache_clean_new)
  have std: "z_standing (op_step p s) = z_standing s" "z_stopped (op_step p s) = z_stopped s"
    "z_conns (op_step p s) = z_conns s" "z_rt (op_step p s) = z_next s"
    unfolding step by (simp_all add: install_def)
  have cl: "cleared j a (op_step p s)" if "cleared j a (install rt s)" for j a
    using that unfolding step by (simp add: cleared_other)
  show ?thesis
  proof (rule standing_okI [OF ok(2) std(1)])
    fix q j pc assume st: "standing s q j pc"
    show "\<exists>pc. standing (op_step p s) q j pc"
    proof (cases "q = p")
      case True
      then have "b" "j = k" using st p by (auto simp: standing_def)
      have "cleared k (z_next s) (install rt s)"
        using ok(1) rt by (auto simp: cleared_def install_def ids_ok_def less_Suc_eq not_le dest: leD)
      from cl [OF this] have "standing (op_step p s) p k Swapped"
        using st True \<open>j = k\<close> \<open>b\<close> std by (auto simp: standing_def) (auto simp: step)
      then show ?thesis using True \<open>j = k\<close> by blast
    next
      case False
      have "z_swap (op_step p s) q = z_swap s q" "z_ops (op_step p s) q = z_ops s q"
        using False by (simp_all add: step install_def)
      then have "standing (op_step p s) q j pc"
        using st std cl cleared_install [OF _ rt] ok(1) by (auto simp: standing_def ids_ok_def)
      then show ?thesis by blast
    qed
  qed
qed

lemma relays_kill: "\<not> relays k (kill_conn reason c)"
  by (simp add: relays_def kill_conn_def)

lemma kill_conn_same [simp]:
  "c_rt (kill_conn reason c) = c_rt c" "c_at (kill_conn reason c) = c_at c" "c_key (kill_conn reason c) = c_key c"
  "c_kill (kill_conn reason c) = c_kill c" "c_killReason (kill_conn reason c) = c_killReason c"
  "y_closed (c_relay (kill_conn reason c))"
  by (simp_all add: kill_conn_def)

lemma conn_clean_kill [simp]: "conn_clean k (kill_conn reason c) = conn_clean k c"
  by (cases "c_at c") (simp_all add: conn_clean_def)

lemma stop_locked_same [simp]:
  "c_rt (fst (stop_locked reason c)) = c_rt c" "c_at (fst (stop_locked reason c)) = c_at c"
  "c_key (fst (stop_locked reason c)) = c_key c" "c_kill (fst (stop_locked reason c)) = c_kill c"
  "c_relay (fst (stop_locked reason c)) = c_relay c" "snd (stop_locked reason c) = c_kill c"
  by (simp_all add: stop_locked_def)

lemma conn_clean_stop [simp]: "conn_clean k (fst (stop_locked reason c)) = conn_clean k c"
  by (cases "c_at c") (simp_all add: conn_clean_def)

lemma relays_stop [simp]: "relays k (fst (stop_locked reason c)) = relays k c"
  by (simp add: relays_def)

lemma standing_op_step:
  assumes ids: "ids_ok s" and st: "standing_ok s" and cs: "conns_ok s"
  shows "standing_ok (op_step p s)"
proof (cases "z_ops s p")
  case None
  then show ?thesis using st by (simp add: op_step_def)
next
  case (Some x)
  obtain op pc where p: "z_ops s p = Some (op, pc)" using Some by (cases x) simp
  note goto = standing_goto [OF st p]
  show ?thesis
  proof (cases pc)
    case Called
    show ?thesis
    proof (cases op)
      case (SetRule k b)
      then show ?thesis using standing_store st p Called by blast
    next
      case (StopConn i reason)
      then show ?thesis using goto [of "Stopping [i]"] p Called by (simp add: op_step_def)
    qed
  next
    case SetStored
    then show ?thesis using goto [of "RtLoaded (z_rt s)"] st p by (cases op) (simp_all add: op_step_def)
  next
    case (RtLoaded r)
    then show ?thesis using goto [of SetStored] st p standing_swap [OF ids st]
      by (cases op; cases "z_rt s = r") (simp_all add: op_step_def)
  next
    case Swapped
    show ?thesis
    proof (cases op)
      case (SetRule k b)
      have "relays j (z_conns s i) \<Longrightarrow> i \<in> set (z_registry s)" for i j
        using cs by (auto simp: conns_ok_def relays_def)
      then show ?thesis using goto [of "if b then Collecting (z_registry s) [] else OpDone"] p Swapped SetRule
        by (simp add: op_step_def)
    qed (use st p Swapped in \<open>simp add: op_step_def\<close>)
  next
    case (Collecting todo vs)
    then show ?thesis using goto [of "Stopping vs"] st p
      by (cases todo; cases op) (simp_all add: op_step_def)
  next
    case (Stopping vs)
    show ?thesis
    proof (cases vs)
      case Nil
      then show ?thesis using goto [of OpDone] p Stopping by (cases op) (simp_all add: op_step_def)
    next
      case (Cons i us)
      let ?x = "stop_locked (op_reason op) (z_conns s i)"
      let ?s = "s\<lparr>z_conns := (z_conns s)(i := fst ?x)\<rparr>"
      have std: "standing_ok ?s"
        by (rule standing_upd_conn [OF st]) simp_all
      have "relays j (z_conns ?s i) \<Longrightarrow> c_kill (z_conns s i)" for j
        using cs by (auto simp: conns_ok_def relays_def)
      then have "standing_ok (op_goto p op (if snd ?x then Killing i us else Stopping us) ?s)"
        using p Stopping Cons by (intro standing_goto [OF std, where pc = "Stopping (i # us)"]) auto
      then show ?thesis using p Stopping Cons by (cases op) (simp_all add: op_step_def split_beta)
    qed
  next
    case (Killing i vs)
    let ?s = "s\<lparr>z_conns := (z_conns s)(i := kill_conn (op_reason op) (z_conns s i))\<rparr>"
    have std: "standing_ok ?s"
      by (rule standing_upd_conn [OF st]) (simp_all add: relays_kill)
    have "standing_ok (op_goto p op (Stopping vs) ?s)"
      using p Killing relays_kill by (intro standing_goto [OF std, where pc = "Killing i vs"]) auto
    then show ?thesis using p Killing by (cases op) (simp_all add: op_step_def)
  next
    case OpDone
    then show ?thesis using st p by (cases op) (simp_all add: op_step_def)
  qed
qed

lemma standing_collect:
  assumes "standing_ok s"
  shows "standing_ok (collect p i s)"
proof (cases "\<exists>k b todo vs. z_ops s p = Some (SetRule k b, Collecting todo vs)")
  case True
  then obtain k b todo vs where p: "z_ops s p = Some (SetRule k b, Collecting todo vs)" by blast
  have "standing_ok (op_goto p (SetRule k b)
      (Collecting (removeAll i todo) (if c_key (z_conns s i) = k then vs @ [i] else vs)) s)"
    by (rule standing_goto [OF assms p]) (auto simp: relays_def)
  then show ?thesis using p by (simp add: collect_def)
next
  case False
  then have "collect p i s = s"
    by (auto simp: collect_def split: option.split console_op.split op_pc.split)
  then show ?thesis using assms by simp
qed


subsection \<open>The connections' invariant\<close>

lemma ids_upd_conn: "ids_ok s \<Longrightarrow> c_rt c = c_rt (z_conns s i) \<Longrightarrow> ids_ok (s\<lparr>z_conns := (z_conns s)(i := c)\<rparr>)"
  by (simp add: ids_ok_def)

lemma ids_conn_step: "ids_ok s \<Longrightarrow> ids_ok (conn_step busy i s)"
  by (simp add: ids_ok_def conn_step_same conn_step_rt)

lemma ids_op_step: "ids_ok s \<Longrightarrow> ids_ok (op_step p s)"
  by (auto simp: op_step_def ids_ok_def install_def less_Suc_eq stop_locked_def kill_conn_def
      split: option.split prod.split console_op.split op_pc.split list.split)

lemma conns_upd_conn:
  assumes "conns_ok s" "c_at c = c_at (z_conns s i)" "c_kill c = c_kill (z_conns s i)"
  shows "conns_ok (s\<lparr>z_conns := (z_conns s)(i := c)\<rparr>)"
  using assms by (simp add: conns_ok_def)

lemma conns_ops [simp]: "conns_ok (s\<lparr>z_ops := x\<rparr>) = conns_ok s"
  by (simp add: conns_ok_def)

lemma conn_step_other: "j \<noteq> i \<Longrightarrow> z_conns (conn_step busy i s) j = z_conns s j"
  by (simp add: conn_step_def Let_def split: conn_pc.split prod.split option.split)

lemma conn_step_registry:
  "z_registry (conn_step busy i s) =
     (case c_at (z_conns s i) of Accepted \<Rightarrow> i # z_registry s | Leaving \<Rightarrow> remove1 i (z_registry s) | _ \<Rightarrow> z_registry s)"
  by (simp add: conn_step_def Let_def split: conn_pc.split prod.split option.split)

definition conn_ok :: "bool \<Rightarrow> conn \<Rightarrow> bool" where
  "conn_ok registered c \<longleftrightarrow> (c_at c \<in> {Relaying, Checking} \<union> range KillSet \<longrightarrow> c_kill c)
     \<and> (c_at c \<notin> {Absent, Accepted, Gone} \<longrightarrow> registered) \<and> (registered \<longrightarrow> c_at c \<noteq> Absent)"

lemma conns_ok_each: "conns_ok s \<longleftrightarrow> (\<forall>i. conn_ok (i \<in> set (z_registry s)) (z_conns s i))"
  unfolding conns_ok_def conn_ok_def by blast

lemma conn_ok_step:
  assumes "conn_ok (i \<in> set (z_registry s)) (z_conns s i)"
  shows "conn_ok (i \<in> set (z_registry (conn_step busy i s))) (z_conns (conn_step busy i s) i)"
proof (cases "c_at (z_conns s i)")
  case Registered
  then show ?thesis using assms
    by (simp add: conn_step_def Let_def conn_ok_def split_beta image_iff split: option.split)
next
  case Missed
  then show ?thesis using assms
    by (simp add: conn_step_def Let_def conn_ok_def image_iff split: option.split)
qed (use assms in \<open>simp_all add: conn_step_def Let_def conn_ok_def setKill_locked_def image_iff\<close>)

lemma conns_conn_step:
  assumes "conns_ok s"
  shows "conns_ok (conn_step busy i s)"
  unfolding conns_ok_each
proof
  fix j
  show "conn_ok (j \<in> set (z_registry (conn_step busy i s))) (z_conns (conn_step busy i s) j)"
  proof (cases "j = i")
    case True
    then show ?thesis using assms conn_ok_step conns_ok_each by blast
  next
    case False
    then have "j \<in> set (z_registry (conn_step busy i s)) \<longleftrightarrow> j \<in> set (z_registry s)"
      by (simp add: conn_step_registry split: conn_pc.split)
    then show ?thesis using assms False conn_step_other by (simp add: conns_ok_each)
  qed
qed

lemma op_step_same:
  "c_at (z_conns (op_step p s) j) = c_at (z_conns s j)" "c_kill (z_conns (op_step p s) j) = c_kill (z_conns s j)"
  "z_registry (op_step p s) = z_registry s"
  by (simp_all add: op_step_def split_beta install_def split: option.split console_op.split op_pc.split list.split)

lemma conns_op_step: "conns_ok s \<Longrightarrow> conns_ok (op_step p s)"
  by (simp add: conns_ok_def op_step_same)

lemma conns_collect: "conns_ok s \<Longrightarrow> conns_ok (collect p i s)"
  by (auto simp: collect_def split: option.split console_op.split op_pc.split)

text \<open>A stop was asked for: it is remembered, or about to be applied, or the relay is closed.\<close>

definition told :: "conn \<Rightarrow> bool" where
  "told c \<longleftrightarrow> (if c_kill c then y_closed (c_relay c) \<or> (\<exists>r. r \<noteq> [] \<and> c_at c = KillSet r)
               else c_killReason c \<noteq> [])"

definition ask_ok :: "proxy \<Rightarrow> nat \<Rightarrow> string \<Rightarrow> op_pc \<Rightarrow> bool" where
  "ask_ok s i reason pc \<longleftrightarrow> reason \<noteq> [] \<and> c_at (z_conns s i) \<noteq> Absent
     \<and> (pc \<in> {Called, Stopping [i]} \<or> pc = Killing i [] \<and> c_kill (z_conns s i)
        \<or> pc \<in> {Stopping [], OpDone} \<and> told (z_conns s i))"

definition asks_ok :: "proxy \<Rightarrow> bool" where
  "asks_ok s \<longleftrightarrow> (\<forall>p i reason pc. z_ops s p = Some (StopConn i reason, pc) \<longrightarrow> ask_ok s i reason pc)"

lemma ask_ok_mono:
  assumes "ask_ok s i reason pc"
    and "c_at (z_conns s i) \<noteq> Absent \<Longrightarrow> c_at (z_conns s' i) \<noteq> Absent"
    and "c_kill (z_conns s i) \<Longrightarrow> c_kill (z_conns s' i)" "told (z_conns s i) \<Longrightarrow> told (z_conns s' i)"
  shows "ask_ok s' i reason pc"
  using assms by (auto simp: ask_ok_def)

lemma asks_conns:
  assumes "asks_ok s" "z_ops s' = z_ops s"
    and "\<And>i. c_at (z_conns s i) \<noteq> Absent \<Longrightarrow> c_at (z_conns s' i) \<noteq> Absent
      \<and> (c_kill (z_conns s i) \<longrightarrow> c_kill (z_conns s' i)) \<and> (told (z_conns s i) \<longrightarrow> told (z_conns s' i))"
  shows "asks_ok s'"
  using assms unfolding asks_ok_def ask_ok_def by metis

lemma asks_conn_step:
  assumes "asks_ok s"
  shows "asks_ok (conn_step busy i s)"
  by (rule asks_conns [OF assms conn_step_same(4)])
    (auto simp: conn_step_def Let_def told_def setKill_locked_def split: conn_pc.split prod.split option.split)

lemma told_kill: "c_kill c \<Longrightarrow> told (kill_conn reason c)"
  by (simp add: told_def)

lemma told_mono_kill: "told c \<Longrightarrow> told (kill_conn reason c)"
  by (simp add: told_def)

lemma told_stop: "reason \<noteq> [] \<Longrightarrow> \<not> c_kill c \<Longrightarrow> told (fst (stop_locked reason c))"
  by (simp add: told_def stop_locked_def)

lemma told_mono_stop: "told c \<Longrightarrow> told (fst (stop_locked reason c))"
  by (auto simp: told_def stop_locked_def split: if_splits)

lemma asks_goto:
  assumes "asks_ok s" "\<And>i reason. op = StopConn i reason \<Longrightarrow> ask_ok s i reason pc"
  shows "asks_ok (op_goto p op pc s)"
  using assms by (simp add: asks_ok_def ask_ok_def)

lemma asks_op_step:
  assumes as: "asks_ok s"
  shows "asks_ok (op_step p s)"
proof (cases "z_ops s p")
  case None
  then show ?thesis using as by (simp add: op_step_def)
next
  case (Some x)
  obtain op pc where p: "z_ops s p = Some (op, pc)" using Some by (cases x) simp
  have same: "asks_ok (op_goto p (SetRule k b) pc' s')" if "z_conns s' = z_conns s" "z_ops s' = z_ops s" for k b pc' s'
    using as that by (simp add: asks_ok_def ask_ok_def)
  have upd: "asks_ok (op_goto p op pc' (s\<lparr>z_conns := (z_conns s)(i := f (z_conns s i))\<rparr>))"
    if "\<And>c. c_at (f c) = c_at c \<and> c_kill (f c) = c_kill c \<and> (told c \<longrightarrow> told (f c))"
      "\<And>j reason. op = StopConn j reason \<Longrightarrow> ask_ok (s\<lparr>z_conns := (z_conns s)(i := f (z_conns s i))\<rparr>) j reason pc'"
    for f i pc'
    using that by (intro asks_goto asks_conns [OF as]) auto
  show ?thesis
  proof (cases op)
    case (SetRule k b)
    show ?thesis
      using as same upd [of "\<lambda>c. fst (stop_locked rule_stopped_reason c)"]
        upd [of "\<lambda>c. kill_conn rule_stopped_reason c"] p SetRule told_mono_stop told_mono_kill
      by (auto simp: op_step_def split_beta install_def split: op_pc.split list.split)
  next
    case (StopConn i reason)
    then have a: "ask_ok s i reason pc" using as p by (auto simp: asks_ok_def)
    show ?thesis
    proof (cases "pc = Stopping [i]")
      case True
      then have "asks_ok (op_goto p op (if c_kill (z_conns s i) then Killing i [] else Stopping [])
          (s\<lparr>z_conns := (z_conns s)(i := fst (stop_locked reason (z_conns s i)))\<rparr>))"
        using a told_mono_stop told_stop StopConn
        by (intro upd) (auto simp: ask_ok_def)
      then show ?thesis using p StopConn True by (simp add: op_step_def split_beta)
    next
      case False
      then consider "pc = Called" | "pc = Killing i []" | "pc = Stopping []" | "pc = OpDone"
        using a by (auto simp: ask_ok_def)
      then show ?thesis
      proof cases
        case 1
        then show ?thesis using p StopConn a asks_goto [OF as, of op "Stopping [i]"]
          by (simp add: op_step_def ask_ok_def)
      next
        case 2
        then have "asks_ok (op_goto p op (Stopping []) (s\<lparr>z_conns := (z_conns s)(i := kill_conn reason (z_conns s i))\<rparr>))"
          using a told_mono_kill told_kill StopConn by (intro upd) (auto simp: ask_ok_def)
        then show ?thesis using p StopConn 2 by (simp add: op_step_def)
      next
        case 3
        then show ?thesis using p StopConn a asks_goto [OF as, of op OpDone]
          by (simp add: op_step_def ask_ok_def)
      next
        case 4
        then show ?thesis using p StopConn as by (simp add: op_step_def)
      qed
    qed
  qed
qed

lemma asks_collect: "asks_ok s \<Longrightarrow> asks_ok (collect p i s)"
  by (auto simp: collect_def asks_ok_def ask_ok_def split: option.split console_op.split op_pc.split)


subsection \<open>Every reachable state\<close>

definition proxy_ok :: "proxy \<Rightarrow> bool" where
  "proxy_ok s \<longleftrightarrow> ids_ok s \<and> standing_ok s \<and> conns_ok s \<and> asks_ok s"

lemma proxy_ok_start: "proxy_ok (start_proxy tables caps)"
  by (simp add: proxy_ok_def ids_ok_def standing_ok_def conns_ok_def asks_ok_def start_proxy_def no_conn_def)

text \<open>What a change of one connection must keep.\<close>

lemma proxy_ok_upd:
  assumes "proxy_ok s" "c_rt c = c_rt (z_conns s i)" "\<And>k. conn_clean k (z_conns s i) \<Longrightarrow> conn_clean k c"
    "\<And>k. relays k c \<Longrightarrow> relays k (z_conns s i)"
    "conns_ok (s\<lparr>z_conns := (z_conns s)(i := c)\<rparr>)"
    "c_at (z_conns s i) \<noteq> Absent \<Longrightarrow> c_at c \<noteq> Absent \<and> (c_kill (z_conns s i) \<longrightarrow> c_kill c)
       \<and> (told (z_conns s i) \<longrightarrow> told c)"
  shows "proxy_ok (s\<lparr>z_conns := (z_conns s)(i := c)\<rparr>)"
proof -
  have "asks_ok (s\<lparr>z_conns := (z_conns s)(i := c)\<rparr>)"
    by (rule asks_conns [of s]) (use assms(1,6) in \<open>auto simp: proxy_ok_def\<close>)
  then show ?thesis
    using assms(1-5) by (auto simp: proxy_ok_def intro: ids_upd_conn standing_upd_conn)
qed

lemma conn_clean_at: "c_at c \<in> {Absent, Accepted, Registered, Missed, Leaving, Gone} \<Longrightarrow> conn_clean k c"
  by (auto simp: conn_clean_def)

lemma ok_accept:
  assumes ok: "proxy_ok s" and absent: "c_at (z_conns s i) = Absent"
  shows "proxy_ok (accept_conn i l sni low_latency use_splice s)"
proof -
  have nreg: "i \<notin> set (z_registry s)" using ok absent by (auto simp: proxy_ok_def conns_ok_def)
  show ?thesis
  proof (cases "rt_tables (z_runtimes s (z_rt s)) l = None")
    case True
    have "conns_ok (conn_goto i Gone s)" using ok nreg by (auto simp: proxy_ok_def conns_ok_def)
    then have "proxy_ok (conn_goto i Gone s)"
      by (intro proxy_ok_upd [OF ok]) (auto simp: conn_clean_at relays_def absent)
    then show ?thesis using True by (simp add: accept_conn_def)
  next
    case False
    define c where "c = no_conn\<lparr>c_at := Accepted, c_rt := z_rt s, c_listener := l, c_name := sni,
      c_relay := new_relay low_latency use_splice\<rparr>"
    let ?s = "s\<lparr>z_conns := (z_conns s)(i := c)\<rparr>"
    have "ids_ok ?s" using ok by (simp add: proxy_ok_def ids_ok_def c_def)
    moreover have "conns_ok ?s" using ok by (auto simp: proxy_ok_def conns_ok_def c_def)
    moreover have "asks_ok ?s"
      by (rule asks_conns [of s]) (use ok absent in \<open>auto simp: proxy_ok_def\<close>)
    moreover have "standing_ok ?s"
    proof (rule standing_okI [of s])
      fix p k pc assume st: "standing s p k pc"
      show "\<exists>pc. standing ?s p k pc"
        by (rule exI [of _ pc], rule standing_conns [OF st])
          (auto simp: cleared_def relays_def conn_clean_at c_def split: if_splits)
    qed (use ok in \<open>simp_all add: proxy_ok_def\<close>)
    ultimately have "proxy_ok ?s" by (simp add: proxy_ok_def)
    then show ?thesis using False unfolding accept_conn_def c_def by (simp only: if_False)
  qed
qed

lemma ok_leave:
  assumes ok: "proxy_ok s" and "may_leave (z_conns s i)"
  shows "proxy_ok (conn_goto i Leaving s)"
proof -
  have "conns_ok (conn_goto i Leaving s)" using ok assms(2) by (auto simp: proxy_ok_def conns_ok_def may_leave_def)
  then show ?thesis
    using assms(2) by (intro proxy_ok_upd [OF ok]) (auto simp: conn_clean_at relays_def told_def may_leave_def)
qed

lemma ok_relay_step:
  assumes ok: "proxy_ok s" and at: "c_at (z_conns s i) = Relaying" and y: "relay_step (c_relay (z_conns s i)) y"
  shows "proxy_ok (upd_conn i (\<lambda>c. c\<lparr>c_relay := y\<rparr>) s)"
proof -
  have "conns_ok (upd_conn i (\<lambda>c. c\<lparr>c_relay := y\<rparr>) s)" using ok by (simp add: proxy_ok_def conns_upd_conn)
  then show ?thesis
    using step_keeps_reason [OF y] at
    by (intro proxy_ok_upd [OF ok]) (auto simp: conn_clean_def relays_def told_def)
qed

lemma ok_install:
  assumes "proxy_ok s" "\<And>k. cache_clean k (rt_cache rt)"
  shows "proxy_ok (install rt s)"
  using assms ids_install(2) standing_install
  by (simp add: proxy_ok_def) (simp add: conns_ok_def asks_ok_def ask_ok_def install_def)

lemma ok_call:
  assumes ok: "proxy_ok s" and p: "z_ops s p = None" and "may_call op s"
  shows "proxy_ok (op_goto p op Called s)"
proof -
  have "standing_ok (op_goto p op Called s)"
  proof (rule standing_okI [of s])
    fix q k pc assume st: "standing s q k pc"
    then have "q \<noteq> p" using p by (auto simp: standing_def)
    then show "\<exists>pc. standing (op_goto p op Called s) q k pc" using st standing_other by blast
  qed (use ok in \<open>simp_all add: proxy_ok_def\<close>)
  moreover have "asks_ok (op_goto p op Called s)"
    using ok assms(3) by (intro asks_goto) (auto simp: proxy_ok_def ask_ok_def conns_ok_def)
  ultimately show ?thesis using ok by (simp add: proxy_ok_def ids_ok_def)
qed

lemma ok_next:
  assumes "proxy_next s s'" and ok: "proxy_ok s"
  shows "proxy_ok s'"
  using assms(1)
proof cases
  case stepped
  then show ?thesis using ok ids_conn_step standing_conn_step conns_conn_step asks_conn_step by (simp add: proxy_ok_def)
next
  case operated
  then show ?thesis using ok ids_op_step standing_op_step conns_op_step asks_op_step by (simp add: proxy_ok_def)
next
  case (visited p i)
  have "ids_ok (collect p i s)" using ok
    by (auto simp: collect_def proxy_ok_def ids_ok_def split: option.split console_op.split op_pc.split)
  then show ?thesis using visited ok standing_collect conns_collect asks_collect by (simp add: proxy_ok_def)
next
  case (reloaded tables caps)
  then show ?thesis using ok ok_install new_runtime_clean by blast
qed (use ok ok_accept ok_relay_step ok_leave ok_call in blast)+

lemma reach_proxy_ok: "proxy_reach tables caps s \<Longrightarrow> proxy_ok s"
  by (induction rule: proxy_reach.induct) (auto intro: proxy_ok_start ok_next)

lemma stop_done:
  assumes "proxy_reach tables caps s" "(p, k) \<in> z_standing s" "z_ops s p = Some (op, OpDone)"
  shows "\<not> relays k (z_conns s i)" "z_swap s p \<le> c_rt (z_conns s i) \<Longrightarrow> conn_clean k (z_conns s i)"
    "z_swap s p \<le> z_rt s" "cache_clean k (rt_cache (z_runtimes s (z_rt s)))"
proof -
  have ok: "ids_ok s" "standing s p k OpDone"
    using reach_proxy_ok [OF assms(1)] assms(2,3) by (auto simp: proxy_ok_def standing_ok_def standing_def)
  then show "\<not> relays k (z_conns s i)" "z_swap s p \<le> z_rt s" by (simp_all add: standing_def)
  show "z_swap s p \<le> c_rt (z_conns s i) \<Longrightarrow> conn_clean k (z_conns s i)"
    using ok by (simp add: standing_def cleared_def)
  show "cache_clean k (rt_cache (z_runtimes s (z_rt s)))"
    using ok by (simp add: standing_def cleared_def ids_ok_def)
qed


lemma asked_done:
  assumes "proxy_reach tables caps s" "z_ops s p = Some (StopConn i reason, OpDone)"
  shows "told (z_conns s i)" "c_at (z_conns s i) = Relaying \<Longrightarrow> y_closed (c_relay (z_conns s i))"
proof -
  have ok: "conns_ok s" "ask_ok s i reason OpDone"
    using reach_proxy_ok [OF assms(1)] assms(2) by (auto simp: proxy_ok_def asks_ok_def)
  then show "told (z_conns s i)" by (simp add: ask_ok_def)
  then show "c_at (z_conns s i) = Relaying \<Longrightarrow> y_closed (c_relay (z_conns s i))"
    using ok(1) by (auto simp: told_def conns_ok_def)
qed


subsection \<open>Properties\<close>

text \<open>A run for the witnesses: the console's rule relays a connection; the rule is stopped; the same
  connection was also stopped on its own, before it relayed.\<close>

definition served_rule :: Rule where
  "served_rule = (plain_rule 1 ''a'' kindLiteral (Some (Toks [Lit (CHR ''a'')])) 1 ''t'')\<lparr>rConsole := True\<rparr>"

definition one_rule :: "string \<Rightarrow> RouteTable option" where
  "one_rule l = (if l = ''https''
     then Some \<lparr>tName = l, literals = (\<lambda>n. if n = ''a'' then Some served_rule else None), byPriority = [served_rule]\<rparr>
     else None)"

definition rule_stopped :: "nat \<Rightarrow> proxy \<Rightarrow> proxy" where
  "rule_stopped p s =
     (op_step p ^^ 4) (collect p 0 ((op_step p ^^ 4) (op_goto p (SetRule (Key served_rule) True) Called s)))"

lemma conn_steps_reach: "proxy_reach tables caps s \<Longrightarrow> proxy_reach tables caps ((conn_step busy i ^^ n) s)"
  by (induction n) (auto intro: proxy_reach.goes_on stepped)

lemma op_steps_reach: "proxy_reach tables caps s \<Longrightarrow> proxy_reach tables caps ((op_step p ^^ n) s)"
  by (induction n) (auto intro: proxy_reach.goes_on operated)

definition sample_keyed :: proxy where
  "sample_keyed = (conn_step False 0 ^^ 5) (accept_conn 0 ''https'' ''a'' False False (start_proxy one_rule (1, 1)))"

definition sample_relaying :: proxy where
  "sample_relaying = (conn_step False 0 ^^ 3) sample_keyed"

lemma sample_keyed_reach: "proxy_reach one_rule (1, 1) sample_keyed"
  unfolding sample_keyed_def
  by (intro conn_steps_reach proxy_reach.goes_on [OF proxy_reach.begins accepted]) (simp add: start_proxy_def no_conn_def)

lemma sample_keyed_at:
  "z_conns sample_keyed 0 = \<lparr>c_at = Keyed, c_rt = 0, c_listener = ''https'', c_name = ''a'',
     c_key = Key served_rule, c_kill = False, c_killReason = [], c_relay = new_relay False False\<rparr>"
  "z_registry sample_keyed = [0]" "z_ops sample_keyed = (\<lambda>_. None)" "z_standing sample_keyed = {}"
  "z_stopped sample_keyed = {}"
proof -
  have "dAllow (decide served_rule ''a'' [0, 1])" "dRule (decide served_rule ''a'' [0, 1]) = Some served_rule"
    by (simp_all add: decide_def served_rule_def plain_rule_def Serves_def no_decision_def)
  moreover obtain t where "one_rule ''https'' = Some t" "RouteExcept t (\<lambda>k. False) ''a'' = decide served_rule ''a'' [0, 1]"
    by (auto simp: one_rule_def RouteExcept_def)
  ultimately show "z_conns sample_keyed 0 = \<lparr>c_at = Keyed, c_rt = 0, c_listener = ''https'', c_name = ''a'',
     c_key = Key served_rule, c_kill = False, c_killReason = [], c_relay = new_relay False False\<rparr>"
    "z_registry sample_keyed = [0]" "z_ops sample_keyed = (\<lambda>_. None)" "z_standing sample_keyed = {}"
    "z_stopped sample_keyed = {}"
    by (simp_all add: sample_keyed_def eval_nat_numeral accept_conn_def start_proxy_def new_runtime_def no_conn_def
        conn_step_def Let_def cache_find_eq NewRouteCache_def cache_store_def published_key_def)
qed

lemma sample_relaying_reach: "proxy_reach one_rule (1, 1) sample_relaying"
  unfolding sample_relaying_def by (intro conn_steps_reach sample_keyed_reach)

lemma sample_relaying_at:
  "c_at (z_conns sample_relaying 0) = Relaying" "c_key (z_conns sample_relaying 0) = Key served_rule"
  "z_registry sample_relaying = [0]" "z_ops sample_relaying = (\<lambda>_. None)"
  by (simp_all add: sample_relaying_def eval_nat_numeral conn_step_def Let_def setKill_locked_def sample_keyed_at)

definition sample_stopped :: proxy where
  "sample_stopped = rule_stopped 0 sample_relaying"

lemma sample_stopped_reach: "proxy_reach one_rule (1, 1) sample_stopped"
  unfolding sample_stopped_def rule_stopped_def
  by (intro op_steps_reach proxy_reach.goes_on [OF _ visited] proxy_reach.goes_on [OF sample_relaying_reach called])
    (simp_all add: sample_relaying_at)

lemma sample_stopped_at:
  "z_ops sample_stopped 0 = Some (SetRule (Key served_rule) True, OpDone)"
  "(0, Key served_rule) \<in> z_standing sample_stopped"
  "c_at (z_conns sample_stopped 0) = Relaying" "c_key (z_conns sample_stopped 0) = Key served_rule"
proof -
  have "c_kill (z_conns sample_relaying 0)"
    using reach_proxy_ok [OF sample_relaying_reach] sample_relaying_at(1) by (auto simp: proxy_ok_def conns_ok_def)
  then show "z_ops sample_stopped 0 = Some (SetRule (Key served_rule) True, OpDone)"
    "(0, Key served_rule) \<in> z_standing sample_stopped"
    "c_at (z_conns sample_stopped 0) = Relaying" "c_key (z_conns sample_stopped 0) = Key served_rule"
    by (simp_all add: sample_stopped_def rule_stopped_def eval_nat_numeral op_step_def collect_def install_def
        sample_relaying_at stop_locked_def)
qed

definition sample_asked :: proxy where
  "sample_asked = (op_step 0 ^^ 3) (op_goto 0 (StopConn 0 ''off'') Called sample_keyed)"

lemma sample_asked_reach: "proxy_reach one_rule (1, 1) sample_asked"
  unfolding sample_asked_def
  by (intro op_steps_reach proxy_reach.goes_on [OF sample_keyed_reach called]) (simp_all add: sample_keyed_at)

lemma sample_asked_at:
  "z_ops sample_asked 0 = Some (StopConn 0 ''off'', OpDone)" "c_at (z_conns sample_asked 0) = Keyed"
  "\<not> c_kill (z_conns sample_asked 0)"
  by (simp_all add: sample_asked_def eval_nat_numeral op_step_def stop_locked_def sample_keyed_at)



text \<open>
  C37. A stop asked of one connection is never lost: once it has returned, a connection that relays
  is closed, and one that does not relay yet keeps the reason, which its \<open>setKill\<close> applies.
\<close>

theorem connection_stop_kept:
  assumes "proxy_reach tables caps s" "z_ops s p = Some (StopConn i reason, OpDone)"
  shows "(c_at (z_conns s i) = Relaying \<longrightarrow> y_closed (c_relay (z_conns s i)))
    \<and> (\<not> c_kill (z_conns s i) \<longrightarrow> c_killReason (z_conns s i) \<noteq> [])"
  using asked_done [OF assms] by (auto simp: told_def)

text \<open>A connection stopped while it is connecting: it is closed as soon as it relays.\<close>

theorem connection_stop_kept_witness:
  "c_at (z_conns sample_asked 0) = Keyed \<and> c_killReason (z_conns sample_asked 0) \<noteq> []"
  using connection_stop_kept [OF sample_asked_reach sample_asked_at(1)] sample_asked_at(2,3) by blast

end
