(* ===== verification/Live_Listeners.thy ===== *)
theory Live_Listeners
  imports Listener_Set_Props "HOL-Library.AList"
begin

text \<open>
  listeners.go: the ports the proxy accepts on, opened and closed to match the configuration, and
  stopped or started from the console. The listeners are an association list by name, the sockets
  of the process a list of numbered ones; what the operating system answers to a \<open>net.Listen\<close>,
  given the process's open sockets, is the parameter \<open>listen\<close>. Go's iteration over a map has no
  fixed order: where it matters, the parameter \<open>which\<close> chooses.
\<close>

type_synonym sock = "string \<times> string"   \<comment> \<open>network and address\<close>

record os =
  o_open :: "(nat \<times> sock) list"
  o_next :: nat

record liveListener =
  vName :: string
  vAddrs :: "string list"
  vLns :: "nat list"
  vErr :: string
  vAdopted :: bool

record listeners =
  ls_live :: "(string \<times> liveListener) list"
  ls_stopped :: "string set"
  ls_os :: os

definition newLiveListener :: "string \<Rightarrow> string list \<Rightarrow> liveListener" where
  "newLiveListener name addrs = \<lparr>vName = name, vAddrs = addrs, vLns = [], vErr = [], vAdopted = False\<rparr>"

definition is_open :: "liveListener \<Rightarrow> bool" where
  "is_open v \<longleftrightarrow> vLns v \<noteq> []"

definition close_socks :: "nat list \<Rightarrow> os \<Rightarrow> os" where
  "close_socks ids os1 = os1\<lparr>o_open := filter (\<lambda>(i, _). i \<notin> set ids) (o_open os1)\<rparr>"

definition close_live :: "liveListener \<Rightarrow> os \<Rightarrow> liveListener \<times> os" where
  "close_live v os1 = (v\<lparr>vLns := []\<rparr>, close_socks (vLns v) os1)"

definition sock_of :: "Listener \<Rightarrow> string \<Rightarrow> sock" where
  "sock_of l bind1 = (bind_network (length (lBinds l)) bind1, JoinHostPort bind1 (Itoa (lPort l)))"

fun bind_loop :: "(sock list \<Rightarrow> sock \<Rightarrow> string option) \<Rightarrow> Listener \<Rightarrow> string list \<Rightarrow> nat list \<Rightarrow> os \<Rightarrow>
    (string, nat list) result \<times> os" where
  "bind_loop listen l [] lns os1 = (Inr lns, os1)"
| "bind_loop listen l (b # bs) lns os1 =
     (case listen (map snd (o_open os1)) (sock_of l b) of
        Some e \<Rightarrow> (Inl e, close_socks lns os1)
      | None \<Rightarrow> bind_loop listen l bs (lns @ [o_next os1])
          (os1\<lparr>o_open := o_open os1 @ [(o_next os1, sock_of l b)], o_next := o_next os1 + 1\<rparr>))"

definition bindListener :: "(sock list \<Rightarrow> sock \<Rightarrow> string option) \<Rightarrow> Listener \<Rightarrow> os \<Rightarrow>
    (string, nat list) result \<times> os" where
  "bindListener listen l os1 = bind_loop listen l (lBinds l) [] os1"

text \<open>\<open>openLocked\<close> for the entry \<open>v\<close>.\<close>

definition openLocked :: "(sock list \<Rightarrow> sock \<Rightarrow> string option) \<Rightarrow> liveListener \<Rightarrow> Listener \<Rightarrow> os \<Rightarrow>
    string option \<times> liveListener \<times> os" where
  "openLocked listen v l os1 =
     (case bindListener listen l os1 of
        (Inl e, os2) \<Rightarrow> (Some e, v\<lparr>vErr := e\<rparr>, os2)
      | (Inr lns, os2) \<Rightarrow> (None, v\<lparr>vLns := lns, vErr := []\<rparr>, os2))"

definition takeOverLocked :: "(string \<Rightarrow> nat) \<Rightarrow> string \<Rightarrow> string list \<Rightarrow> string set \<Rightarrow> listeners \<Rightarrow>
    liveListener option \<times> listeners" where
  "takeOverLocked which name addrs want s =
     (case filter (\<lambda>(old, v). old \<notin> want \<and> is_open v \<and> vAddrs v = addrs) (ls_live s) of
        [] \<Rightarrow> (None, s)
      | c # cs \<Rightarrow>
          (let (old, v) = (c # cs) ! (which name mod length (c # cs)); v' = v\<lparr>vName := name\<rparr> in
           (Some v', s\<lparr>ls_live := AList.update name v' (AList.delete old (ls_live s)),
                       ls_stopped := ls_stopped s - {old}\<rparr>)))"

datatype sync_failure = CannotListen string "string list" string

text \<open>The last part of the loop: a new entry, opened unless the listener is stopped.\<close>

definition open_new :: "(sock list \<Rightarrow> sock \<Rightarrow> string option) \<Rightarrow> Listener \<Rightarrow> listeners \<Rightarrow>
    sync_failure list \<times> listeners" where
  "open_new listen l s =
     (let v = newLiveListener (lName l) (Addrs l) in
      if lName l \<in> ls_stopped s then ([], s\<lparr>ls_live := AList.update (lName l) v (ls_live s)\<rparr>)
      else case openLocked listen v l (ls_os s) of
             (err, v', os2) \<Rightarrow>
               (case err of Some e \<Rightarrow> [CannotListen (lName l) (Addrs l) e] | None \<Rightarrow> [],
                s\<lparr>ls_live := AList.update (lName l) v' (ls_live s), ls_os := os2\<rparr>))"

definition sync_one :: "(sock list \<Rightarrow> sock \<Rightarrow> string option) \<Rightarrow> (string \<Rightarrow> nat) \<Rightarrow> string set \<Rightarrow> Listener \<Rightarrow>
    listeners \<Rightarrow> sync_failure list \<times> listeners" where
  "sync_one listen which want l s =
     (case (case map_of (ls_live s) (lName l) of
              Some v \<Rightarrow> (Some v, s)
            | None \<Rightarrow> takeOverLocked which (lName l) (Addrs l) want s) of
        (None, s) \<Rightarrow> open_new listen l s
      | (Some v, s) \<Rightarrow>
          if vAdopted v then ([], s)
          else if vAddrs v = Addrs l \<and> (is_open v \<or> lName l \<in> ls_stopped s) then ([], s)
          else open_new listen l (s\<lparr>ls_os := snd (close_live v (ls_os s))\<rparr>))"

fun sync_all :: "(sock list \<Rightarrow> sock \<Rightarrow> string option) \<Rightarrow> (string \<Rightarrow> nat) \<Rightarrow> string set \<Rightarrow> Listener list \<Rightarrow>
    listeners \<Rightarrow> sync_failure list \<times> listeners" where
  "sync_all listen which want [] s = ([], s)"
| "sync_all listen which want (l # ls) s =
     (let (f, s1) = sync_one listen which want l s; (g, s2) = sync_all listen which want ls s1 in (f @ g, s2))"

text \<open>The last loop closes what the configuration no longer has.\<close>

definition remove_unwanted :: "string set \<Rightarrow> listeners \<Rightarrow> listeners" where
  "remove_unwanted want s =
     (let gone = filter (\<lambda>(n, _). n \<notin> want) (ls_live s) in
      \<lparr>ls_live = filter (\<lambda>(n, _). n \<in> want) (ls_live s), ls_stopped = ls_stopped s - fst ` set gone,
       ls_os = close_socks (concat (map (\<lambda>(_, v). vLns v) gone)) (ls_os s)\<rparr>)"

definition syncListeners :: "(sock list \<Rightarrow> sock \<Rightarrow> string option) \<Rightarrow> (string \<Rightarrow> nat) \<Rightarrow> Config \<Rightarrow> listeners \<Rightarrow>
    sync_failure list \<times> listeners" where
  "syncListeners listen which cfg s =
     (let want = lName ` set (PortListeners cfg);
          (failed, s1) = sync_all listen which want (PortListeners cfg) s in
      (failed, remove_unwanted want s1))"

subsection \<open>Stopping and starting a listener\<close>

datatype listener_stop_error =
    NoListenerNamed string
  | NotSetUpYet string
  | HandedOver
  | CannotListenOn "string list" string

text \<open>The connections, as the registry lists them with their listeners, that a stop ends.\<close>

definition listener_victims :: "string \<Rightarrow> (nat \<times> string) list \<Rightarrow> nat list" where
  "listener_victims name conns = map fst (filter (\<lambda>(_, l). l = name) conns)"

definition setListenerStopped :: "(sock list \<Rightarrow> sock \<Rightarrow> string option) \<Rightarrow> Config \<Rightarrow> (nat \<times> string) list \<Rightarrow>
    string \<Rightarrow> bool \<Rightarrow> listeners \<Rightarrow> (listener_stop_error, nat list) result \<times> listeners" where
  "setListenerStopped listen cfg conns name stop s =
     (case PortListener cfg name of
        None \<Rightarrow> (Inl (NoListenerNamed name), s)
      | Some l \<Rightarrow>
          (case map_of (ls_live s) name of
             None \<Rightarrow> (Inl (NotSetUpYet name), s)
           | Some v \<Rightarrow>
               if vAdopted v then (Inl HandedOver, s)
               else if stop
               then (case close_live v (ls_os s) of
                       (v', os2) \<Rightarrow> (Inr (listener_victims name conns),
                         \<lparr>ls_live = AList.update name (v'\<lparr>vErr := []\<rparr>) (ls_live s),
                          ls_stopped = insert name (ls_stopped s), ls_os = os2\<rparr>))
               else if \<not> is_open v
               then (case openLocked listen v l (ls_os s) of
                       (err, v', os2) \<Rightarrow>
                         (let s' = s\<lparr>ls_live := AList.update name v' (ls_live s), ls_os := os2\<rparr> in
                          case err of
                            Some e \<Rightarrow> (Inl (CannotListenOn (vAddrs v) e), s')
                          | None \<Rightarrow> (Inr [], s'\<lparr>ls_stopped := ls_stopped s - {name}\<rparr>)))
               else (Inr [], s\<lparr>ls_stopped := ls_stopped s - {name}\<rparr>)))"

definition listenerState :: "string \<Rightarrow> listeners \<Rightarrow> sock list \<times> bool \<times> bool \<times> string" where
  "listenerState name s =
     (case map_of (ls_live s) name of
        None \<Rightarrow> ([], False, name \<in> ls_stopped s, [])
      | Some v \<Rightarrow> (map snd (filter (\<lambda>(i, _). i \<in> set (vLns v)) (o_open (ls_os s))), is_open v,
                    name \<in> ls_stopped s, vErr v))"

definition anyOpen :: "Listener list \<Rightarrow> listeners \<Rightarrow> bool" where
  "anyOpen ls s \<longleftrightarrow> list_ex (\<lambda>l. case map_of (ls_live s) (lName l) of Some v \<Rightarrow> is_open v | None \<Rightarrow> False) ls"

end
