(* ===== verification/Live_Listeners_Props.thy ===== *)
theory Live_Listeners_Props
  imports Live_Listeners
begin

text \<open>
  What the live listeners keep: every socket of the process belongs to exactly one of them, a
  synchronised set of listeners is the configured one, and a second run opens what the first could
  not.
\<close>

subsection \<open>The invariant\<close>

text \<open>
  Over the maps the lists stand for: every open socket belongs to exactly one live listener, whose
  sockets are those of its addresses; a stopped listener is live and has none.
\<close>

definition socks :: "Listener \<Rightarrow> sock list" where
  "socks l = map (sock_of l) (lBinds l)"

definition live_ok :: "(nat \<Rightarrow> sock option) \<Rightarrow> string \<Rightarrow> liveListener \<Rightarrow> bool" where
  "live_ok socket n v \<longleftrightarrow> vName v = n \<and> \<not> vAdopted v
     \<and> (vLns v = [] \<or> (\<exists>l. vAddrs v = Addrs l \<and> map socket (vLns v) = map Some (socks l)))"

definition ports_ok :: "(string \<Rightarrow> liveListener option) \<Rightarrow> (nat \<Rightarrow> sock option) \<Rightarrow> nat \<Rightarrow> string set \<Rightarrow> bool" where
  "ports_ok live socket nx stopped \<longleftrightarrow>
     (\<forall>n v. live n = Some v \<longrightarrow> live_ok socket n v)
     \<and> (\<forall>n v i. live n = Some v \<and> i \<in> set (vLns v) \<longrightarrow> socket i \<noteq> None)
     \<and> (\<forall>i. socket i \<noteq> None \<longrightarrow> (\<exists>n v. live n = Some v \<and> i \<in> set (vLns v)))
     \<and> (\<forall>n v n' v' i. live n = Some v \<and> live n' = Some v' \<and> i \<in> set (vLns v) \<and> i \<in> set (vLns v') \<longrightarrow> n = n')
     \<and> (\<forall>i. socket i \<noteq> None \<longrightarrow> i < nx)
     \<and> (\<forall>n\<in>stopped. \<exists>v. live n = Some v \<and> vLns v = [])"

lemma ports_okD:
  assumes "ports_ok live socket nx stopped"
  shows "live n = Some v \<Longrightarrow> live_ok socket n v"
    "live n = Some v \<Longrightarrow> i \<in> set (vLns v) \<Longrightarrow> socket i \<noteq> None"
    "socket i \<noteq> None \<Longrightarrow> \<exists>n v. live n = Some v \<and> i \<in> set (vLns v)"
    "live n = Some v \<Longrightarrow> live n' = Some v' \<Longrightarrow> i \<in> set (vLns v) \<Longrightarrow> i \<in> set (vLns v') \<Longrightarrow> n = n'"
    "socket i \<noteq> None \<Longrightarrow> i < nx"
    "n \<in> stopped \<Longrightarrow> \<exists>v. live n = Some v \<and> vLns v = []"
  using assms unfolding ports_ok_def by blast+

lemma live_ok_cong:
  assumes "live_ok socket n v" "\<And>i. i \<in> set (vLns v) \<Longrightarrow> socket' i = socket i"
  shows "live_ok socket' n v"
proof -
  have "map socket' (vLns v) = map socket (vLns v)" using assms(2) by simp
  then show ?thesis using assms(1) unfolding live_ok_def by presburger
qed

text \<open>A listener's sockets are closed and its entry taken away.\<close>

lemma ports_ok_close:
  assumes ok: "ports_ok live socket nx stopped" and n: "live n = Some v"
  shows "ports_ok (live(n := None)) (\<lambda>i. if i \<in> set (vLns v) then None else socket i) nx (stopped - {n})"
proof -
  have other: "i \<notin> set (vLns v)" if "live m = Some w" "m \<noteq> n" "i \<in> set (vLns w)" for m w i
    using ports_okD(4) [OF ok n that(1) _ that(3)] that(2) by blast
  show ?thesis
    unfolding ports_ok_def
  proof (intro conjI allI impI ballI)
    fix m w assume m: "(live(n := None)) m = Some w"
    then have "live m = Some w" "m \<noteq> n" by (auto split: if_splits)
    then show "live_ok (\<lambda>i. if i \<in> set (vLns v) then None else socket i) m w"
      using ports_okD(1) [OF ok, of m w] other [of m w] by - (rule live_ok_cong [of socket], auto)
  next
    fix m w i assume "(live(n := None)) m = Some w \<and> i \<in> set (vLns w)"
    then have "live m = Some w" "m \<noteq> n" "i \<in> set (vLns w)" by (auto split: if_splits)
    then show "(if i \<in> set (vLns v) then None else socket i) \<noteq> None"
      using ports_okD(2) [OF ok, of m w i] other [of m w i] by simp
  next
    fix i assume "(if i \<in> set (vLns v) then None else socket i) \<noteq> None"
    then have i: "i \<notin> set (vLns v)" "socket i \<noteq> None" by (auto split: if_splits)
    then obtain m w where m: "live m = Some w" "i \<in> set (vLns w)" using ports_okD(3) [OF ok] by blast
    then have "m \<noteq> n" using n i by auto
    then show "\<exists>m w. (live(n := None)) m = Some w \<and> i \<in> set (vLns w)" using m by (intro exI [of _ m] exI [of _ w]) simp
  next
    fix m w m' w' i
    assume "(live(n := None)) m = Some w \<and> (live(n := None)) m' = Some w' \<and> i \<in> set (vLns w) \<and> i \<in> set (vLns w')"
    then have "live m = Some w" "live m' = Some w'" "i \<in> set (vLns w)" "i \<in> set (vLns w')" by (auto split: if_splits)
    then show "m = m'" by (rule ports_okD(4) [OF ok])
  next
    fix i assume "(if i \<in> set (vLns v) then None else socket i) \<noteq> None"
    then show "i < nx" using ports_okD(5) [OF ok, of i] by (simp split: if_splits)
  next
    fix m assume "m \<in> stopped - {n}"
    then show "\<exists>w. (live(n := None)) m = Some w \<and> vLns w = []" using ports_okD(6) [OF ok, of m] by auto
  qed
qed

text \<open>A new entry, with the sockets just opened for it.\<close>

lemma ports_ok_open:
  assumes ok: "ports_ok live socket nx stopped" and n: "live n = None" and nx: "nx \<le> nx'"
    and fresh: "\<forall>i\<in>set (vLns v). nx \<le> i \<and> i < nx'" and v: "live_ok socket' n v"
    and socket': "\<forall>i\<in>set (vLns v). socket' i \<noteq> None" "\<forall>i. i \<notin> set (vLns v) \<longrightarrow> socket' i = socket i"
    and st: "stopped' \<subseteq> insert n stopped" "n \<in> stopped' \<Longrightarrow> vLns v = []"
  shows "ports_ok (live(n \<mapsto> v)) socket' nx' stopped'"
proof -
  have old: "i \<notin> set (vLns v)" if "live m = Some w" "i \<in> set (vLns w)" for m w i
    using ports_okD(2,5) [OF ok] that fresh by (meson leD)
  show ?thesis
    unfolding ports_ok_def
  proof (intro conjI allI impI ballI)
    fix m w assume m: "(live(n \<mapsto> v)) m = Some w"
    show "live_ok socket' m w"
    proof (cases "m = n")
      case True
      then show ?thesis using m v by simp
    next
      case False
      then show ?thesis using m ports_okD(1) [OF ok, of m w] old socket'(2)
        by - (rule live_ok_cong [of socket], auto)
    qed
  next
    fix m w i assume m: "(live(n \<mapsto> v)) m = Some w \<and> i \<in> set (vLns w)"
    show "socket' i \<noteq> None"
    proof (cases "i \<in> set (vLns v)")
      case True
      then show ?thesis using socket'(1) by simp
    next
      case False
      then have "live m = Some w" using m by (auto split: if_splits)
      then show ?thesis using ports_okD(2) [OF ok] m False socket'(2) by auto
    qed
  next
    fix i assume i: "socket' i \<noteq> None"
    show "\<exists>m w. (live(n \<mapsto> v)) m = Some w \<and> i \<in> set (vLns w)"
    proof (cases "i \<in> set (vLns v)")
      case True
      then show ?thesis by (intro exI [of _ n] exI [of _ v]) simp
    next
      case False
      then obtain m w where m: "live m = Some w" "i \<in> set (vLns w)"
        using ports_okD(3) [OF ok, of i] i socket'(2) by auto
      then have "m \<noteq> n" using n by auto
      then show ?thesis using m by (intro exI [of _ m] exI [of _ w]) simp
    qed
  next
    fix m w m' w' i
    assume mm: "(live(n \<mapsto> v)) m = Some w \<and> (live(n \<mapsto> v)) m' = Some w' \<and> i \<in> set (vLns w) \<and> i \<in> set (vLns w')"
    consider "m = n" "m' = n" | "m = n" "m' \<noteq> n" | "m \<noteq> n" "m' = n" | "m \<noteq> n" "m' \<noteq> n" by blast
    then show "m = m'"
    proof cases
      case 4
      then show ?thesis using mm ports_okD(4) [OF ok, of m w m' w' i] by simp
    qed (use mm old [of m w i] old [of m' w' i] in auto)
  next
    fix i assume "socket' i \<noteq> None"
    then show "i < nx'" using ports_okD(5) [OF ok, of i] fresh socket'(2) nx
      by (cases "i \<in> set (vLns v)") auto
  next
    fix m assume "m \<in> stopped'"
    then show "\<exists>w. (live(n \<mapsto> v)) m = Some w \<and> vLns w = []"
      using st ports_okD(6) [OF ok, of m] n by (cases "m = n") auto
  qed
qed

text \<open>A rename.\<close>

lemma ports_ok_rename:
  assumes ok: "ports_ok live socket nx stopped" and old: "live old = Some v" and n: "live n = None"
  shows "ports_ok (live(old := None, n \<mapsto> v\<lparr>vName := n\<rparr>)) socket nx (stopped - {old})"
proof -
  let ?live = "live(old := None, n \<mapsto> v\<lparr>vName := n\<rparr>)"
  have origin: "\<exists>m0 w0. live m0 = Some w0 \<and> vLns w0 = vLns w \<and> (if m = n then m0 = old else m0 = m \<and> m \<noteq> old)"
    if "?live m = Some w" for m w
    using that old n by (auto split: if_splits)
  show ?thesis
    unfolding ports_ok_def
  proof (intro conjI allI impI ballI)
    fix m w assume m: "?live m = Some w"
    show "live_ok socket m w"
      using m ports_okD(1) [OF ok, of m w] ports_okD(1) [OF ok old]
      by (cases "m = n") (auto simp: live_ok_def split: if_splits)
  next
    fix m w i assume "?live m = Some w \<and> i \<in> set (vLns w)"
    then show "socket i \<noteq> None" using origin [of m w] ports_okD(2) [OF ok] by fastforce
  next
    fix i assume "socket i \<noteq> None"
    then obtain m w where m: "live m = Some w" "i \<in> set (vLns w)" using ports_okD(3) [OF ok] by blast
    show "\<exists>m w. ?live m = Some w \<and> i \<in> set (vLns w)"
    proof (cases "m = old")
      case True
      then show ?thesis using m old by (intro exI [of _ n] exI [of _ "v\<lparr>vName := n\<rparr>"]) simp
    next
      case False
      moreover have "m \<noteq> n" using m n by auto
      ultimately show ?thesis using m by (intro exI [of _ m] exI [of _ w]) simp
    qed
  next
    fix m w m' w' i assume i: "?live m = Some w \<and> ?live m' = Some w' \<and> i \<in> set (vLns w) \<and> i \<in> set (vLns w')"
    obtain a x b y where "live a = Some x" "vLns x = vLns w" "live b = Some y" "vLns y = vLns w'"
      and ab: "if m = n then a = old else a = m \<and> m \<noteq> old" "if m' = n then b = old else b = m' \<and> m' \<noteq> old"
      using origin [of m w] origin [of m' w'] i by blast
    then have "a = b" using ports_okD(4) [OF ok] i by metis
    then show "m = m'" using ab by (auto split: if_splits)
  next
    fix i assume "socket i \<noteq> None"
    then show "i < nx" by (rule ports_okD(5) [OF ok])
  next
    fix m assume "m \<in> stopped - {old}"
    then obtain w where "live m = Some w" "vLns w = []" "m \<noteq> old" using ports_okD(6) [OF ok] by blast
    then show "\<exists>w. ?live m = Some w \<and> vLns w = []" using n by auto
  qed
qed


subsection \<open>Sockets\<close>

lemma map_of_filter_key: "map_of (filter (\<lambda>(k, _). P k) xs) k = (if P k then map_of xs k else None)"
  by (induction xs) auto

lemma map_of_filter_fun: "map_of (filter (\<lambda>(k, _). P k) xs) = (\<lambda>k. if P k then map_of xs k else None)"
  by (rule ext) (rule map_of_filter_key)

abbreviation socket_at :: "os \<Rightarrow> nat \<Rightarrow> sock option" where
  "socket_at os1 \<equiv> map_of (o_open os1)"

lemma socket_close: "socket_at (close_socks ids os1) = (\<lambda>i. if i \<in> set ids then None else socket_at os1 i)"
  by (auto simp: close_socks_def map_of_filter_fun)

definition below :: "os \<Rightarrow> bool" where
  "below os1 \<longleftrightarrow> (\<forall>x\<in>set (o_open os1). fst x < o_next os1)"

text \<open>All the addresses or none: \<open>base\<close> are the sockets open before the call.\<close>

lemma bind_loop_spec:
  assumes "o_open os1 = base @ added" "fst ` set added = set lns" "\<forall>x\<in>set base. fst x \<notin> set lns" "below os1"
  shows "case bind_loop listen l bs lns os1 of
      (Inr lns', os2) \<Rightarrow> lns' = lns @ [o_next os1..<o_next os1 + length bs] \<and> o_next os2 = o_next os1 + length bs
        \<and> o_open os2 = o_open os1 @ zip [o_next os1..<o_next os1 + length bs] (map (sock_of l) bs)
    | (Inl e, os2) \<Rightarrow> o_open os2 = base \<and> o_next os1 \<le> o_next os2"
  using assms
proof (induction bs arbitrary: lns os1 added)
  case Nil
  then show ?case by simp
next
  case (Cons b bs)
  let ?k = "sock_of l b" and ?n = "o_next os1"
  show ?case
  proof (cases "listen (map snd (o_open os1)) ?k")
    case None
    let ?os = "os1\<lparr>o_open := o_open os1 @ [(?n, ?k)], o_next := ?n + 1\<rparr>"
    have up: "[?n..<?n + length (b # bs)] = ?n # [Suc ?n..<Suc ?n + length bs]"
      by (subst upt_conv_Cons) simp_all
    have "fst x < ?n" if "x \<in> set base" for x
      using Cons.prems(1,4) that unfolding below_def by simp
    then have "fst x \<notin> set (lns @ [?n])" if "x \<in> set base" for x
      using that Cons.prems(3) less_irrefl by (metis Un_iff empty_set empty_iff insert_iff list.simps(15) set_append)
    then have "\<forall>x\<in>set base. fst x \<notin> set (lns @ [?n])" by blast
    moreover have "below ?os" using Cons.prems(4) by (auto simp: below_def less_Suc_eq)
    moreover have "o_open ?os = base @ (added @ [(?n, ?k)])" "fst ` set (added @ [(?n, ?k)]) = set (lns @ [?n])"
      using Cons.prems(1,2) by simp_all
    ultimately have "case bind_loop listen l bs (lns @ [?n]) ?os of
      (Inr lns', os2) \<Rightarrow> lns' = (lns @ [?n]) @ [o_next ?os..<o_next ?os + length bs] \<and> o_next os2 = o_next ?os + length bs
        \<and> o_open os2 = o_open ?os @ zip [o_next ?os..<o_next ?os + length bs] (map (sock_of l) bs)
    | (Inl e, os2) \<Rightarrow> o_open os2 = base \<and> o_next ?os \<le> o_next os2"
      by (intro Cons.IH)
    moreover obtain r os2 where "bind_loop listen l bs (lns @ [?n]) ?os = (r, os2)" by fastforce
    ultimately show ?thesis using None unfolding up by (cases r) simp_all
  next
    case (Some e)
    have "filter (\<lambda>(i, _). i \<notin> set lns) base = base" using Cons.prems(3) by (auto intro!: filter_True)
    moreover have "filter (\<lambda>(i, _). i \<notin> set lns) added = []"
      using Cons.prems(2) by (force simp: filter_empty_conv)
    ultimately show ?thesis using Some Cons.prems(1) by (simp add: close_socks_def)
  qed
qed

lemma bindListener_spec:
  assumes "below os1"
  obtains (opened) lns os2 where "bindListener listen l os1 = (Inr lns, os2)"
      "lns = [o_next os1..<o_next os1 + length (lBinds l)]" "o_next os2 = o_next os1 + length (lBinds l)"
      "o_open os2 = o_open os1 @ zip lns (socks l)"
  | (failed) e os2 where "bindListener listen l os1 = (Inl e, os2)" "o_open os2 = o_open os1" "o_next os1 \<le> o_next os2"
  using bind_loop_spec [where ?os1.0 = os1 and base = "o_open os1" and added = "[]" and lns = "[]" and listen = listen
      and l = l and bs = "lBinds l"] assms that
  by (cases "bindListener listen l os1"; cases "fst (bindListener listen l os1)") (simp_all add: bindListener_def socks_def)

text \<open>Nothing the process has open, and nothing of the listener itself, is in the way.\<close>

lemma bind_loop_succeeds:
  assumes "\<And>open1 k. set open1 \<subseteq> W \<Longrightarrow> k \<in> W \<Longrightarrow> k \<notin> set open1 \<Longrightarrow> listen open1 k = None"
    and "snd ` set (o_open os1) \<subseteq> W" "sock_of l ` set bs \<subseteq> W" "distinct (map (sock_of l) bs)"
    "sock_of l ` set bs \<inter> snd ` set (o_open os1) = {}"
  shows "\<exists>lns' os2. bind_loop listen l bs lns os1 = (Inr lns', os2)"
  using assms(2-)
proof (induction bs arbitrary: lns os1)
  case (Cons b bs)
  have "listen (map snd (o_open os1)) (sock_of l b) = None" using Cons.prems by (intro assms(1)) auto
  moreover have "\<exists>lns' os2. bind_loop listen l bs (lns @ [o_next os1])
      (os1\<lparr>o_open := o_open os1 @ [(o_next os1, sock_of l b)], o_next := o_next os1 + 1\<rparr>) = (Inr lns', os2)"
    using Cons.prems by (intro Cons.IH) auto
  ultimately show ?case by simp
qed simp


subsection \<open>One step of the loop\<close>

abbreviation live_at :: "listeners \<Rightarrow> string \<Rightarrow> liveListener option" where
  "live_at s \<equiv> map_of (ls_live s)"

definition listeners_ok :: "listeners \<Rightarrow> bool" where
  "listeners_ok s \<longleftrightarrow> distinct (map fst (ls_live s)) \<and> distinct (map fst (o_open (ls_os s)))
     \<and> ports_ok (live_at s) (socket_at (ls_os s)) (o_next (ls_os s)) (ls_stopped s)"

lemma below_ok:
  assumes "ports_ok live (socket_at os1) (o_next os1) stopped"
  shows "below os1"
  unfolding below_def
proof
  fix x assume "x \<in> set (o_open os1)"
  then have "socket_at os1 (fst x) \<noteq> None" by (simp add: map_of_eq_None_iff)
  then show "fst x < o_next os1" by (rule ports_okD(5) [OF assms])
qed

text \<open>The sockets just opened for a listener with no entry.\<close>

lemma bound_ok:
  assumes ok: "ports_ok live (socket_at os1) (o_next os1) stopped" and dist: "distinct (map fst (o_open os1))"
    and n: "live n = None" and b: "bindListener listen l os1 = (Inr lns, os2)"
    and v: "vName v = n" "\<not> vAdopted v" "vAddrs v = Addrs l" "vLns v = lns"
    and st: "stopped' \<subseteq> stopped" "n \<notin> stopped'"
  shows "ports_ok (live(n \<mapsto> v)) (socket_at os2) (o_next os2) stopped'" "distinct (map fst (o_open os2))"
    "length lns = length (lBinds l)"
proof -
  have opened: "lns = [o_next os1..<o_next os1 + length (lBinds l)]" "o_next os2 = o_next os1 + length (lBinds l)"
      "o_open os2 = o_open os1 @ zip lns (socks l)"
    using below_ok [OF ok] b by (cases rule: bindListener_spec [where listen = listen and l = l]; simp)+
  have len: "length lns = length (socks l)" "distinct lns" using opened(1) by (simp_all add: socks_def)
  then show "length lns = length (lBinds l)" by (simp add: socks_def)
  have none: "socket_at os1 i = None" if "i \<in> set lns" for i
    using that ports_okD(5) [OF ok, of i] opened(1) by fastforce
  have so: "socket_at os2 = map_of (zip lns (socks l)) ++ socket_at os1"
    using opened(3) by simp
  have new: "socket_at os2 i = map_of (zip lns (socks l)) i" if "i \<in> set lns" for i
    using none [OF that] so by (simp add: map_add_def)
  have "map_of (zip lns (socks l)) i = None" if "i \<notin> set lns" for i
    using that len(1) by (simp add: map_of_zip_is_None)
  then have old: "socket_at os2 i = socket_at os1 i" if "i \<notin> set lns" for i
    using that so by (simp add: map_add_def split: option.split)
  have "map (socket_at os2) lns = map (map_of (zip lns (socks l))) lns" using new by simp
  also have "\<dots> = map Some (socks l)"
    using len by (intro nth_equalityI) (simp_all add: map_of_zip_nth)
  finally have "map (socket_at os2) lns = map Some (socks l)" .
  then have "live_ok (socket_at os2) n v" using v by (auto simp: live_ok_def)
  moreover have "socket_at os2 i \<noteq> None" if "i \<in> set lns" for i
    using new [OF that] that len(1) by (simp add: map_of_zip_is_None)
  ultimately show "ports_ok (live(n \<mapsto> v)) (socket_at os2) (o_next os2) stopped'"
    using opened(1,2) old v(4) st by (intro ports_ok_open [OF ok n]) auto
  show "distinct (map fst (o_open os2))"
    using opened(3) dist none len by (auto simp: map_of_eq_None_iff)
qed

text \<open>\<open>open_new\<close> in a state whose entry of that name, if any, has no sockets left.\<close>

lemma open_new_spec:
  assumes ok: "ports_ok ((live_at s)(lName l := None)) (socket_at (ls_os s)) (o_next (ls_os s)) (ls_stopped s - {lName l})"
    and dist: "distinct (map fst (ls_live s))" "distinct (map fst (o_open (ls_os s)))"
    and o: "open_new listen l s = (f, s')"
  obtains v where "listeners_ok s'" "live_at s' = (live_at s)(lName l \<mapsto> v)" "vAddrs v = Addrs l"
    "ls_stopped s' = ls_stopped s"
    "lName l \<in> ls_stopped s \<and> vLns v = [] \<and> f = []
     \<or> lName l \<notin> ls_stopped s \<and> length (vLns v) = length (lBinds l) \<and> f = [] \<and> (\<exists>lns os2. bindListener listen l (ls_os s) = (Inr lns, os2))
     \<or> lName l \<notin> ls_stopped s \<and> vLns v = [] \<and> (\<exists>e os2. f = [CannotListen (lName l) (Addrs l) e] \<and> bindListener listen l (ls_os s) = (Inl e, os2))"
proof -
  let ?v = "newLiveListener (lName l) (Addrs l)"
  note open1 = ports_ok_open [OF ok fun_upd_same]
  consider "lName l \<in> ls_stopped s" | "lName l \<notin> ls_stopped s" by blast
  then show ?thesis
  proof cases
    case 1
    then have s': "s' = s\<lparr>ls_live := AList.update (lName l) ?v (ls_live s)\<rparr>" "f = []"
      using o by (simp_all add: open_new_def Let_def)
    have "ports_ok (((live_at s)(lName l := None))(lName l \<mapsto> ?v)) (socket_at (ls_os s)) (o_next (ls_os s)) (ls_stopped s)"
      by (rule open1) (auto simp: newLiveListener_def live_ok_def)
    then have "listeners_ok s'" using dist by (simp add: listeners_ok_def s' update_conv' distinct_update)
    with 1 show ?thesis using that [of ?v] s' by (simp add: update_conv' newLiveListener_def)
  next
    case 2
    show ?thesis
      using below_ok [OF ok]
    proof (cases rule: bindListener_spec [where listen = listen and l = l])
      case (opened lns os2)
      let ?w = "?v\<lparr>vLns := lns, vErr := []\<rparr>"
      have s': "s' = s\<lparr>ls_live := AList.update (lName l) ?w (ls_live s), ls_os := os2\<rparr>" "f = []"
        using o 2 opened(1) by (auto simp: open_new_def Let_def openLocked_def)
      have "ports_ok (((live_at s)(lName l := None))(lName l \<mapsto> ?w)) (socket_at os2) (o_next os2) (ls_stopped s)"
        "distinct (map fst (o_open os2))"
        using bound_ok [OF ok dist(2) _ opened(1), of "lName l" ?w "ls_stopped s"] 2
        by (simp_all add: newLiveListener_def)
      then have "listeners_ok s'" using dist by (simp add: listeners_ok_def s' update_conv' distinct_update)
      with 2 opened show ?thesis using that [of ?w] s' by (simp add: update_conv' newLiveListener_def)
    next
      case (failed e os2)
      let ?w = "?v\<lparr>vErr := e\<rparr>"
      have s': "s' = s\<lparr>ls_live := AList.update (lName l) ?w (ls_live s), ls_os := os2\<rparr>"
        "f = [CannotListen (lName l) (Addrs l) e]"
        using o 2 failed(1) by (auto simp: open_new_def Let_def openLocked_def)
      have "ports_ok (((live_at s)(lName l := None))(lName l \<mapsto> ?w)) (socket_at os2) (o_next os2) (ls_stopped s)"
        using failed(2,3) 2 by (intro open1) (auto simp: newLiveListener_def live_ok_def)
      then have "listeners_ok s'" using dist failed(2) by (simp add: listeners_ok_def s' update_conv' distinct_update)
      with 2 failed show ?thesis using that [of ?w] s' by (simp add: update_conv' newLiveListener_def)
    qed
  qed
qed

lemma distinct_keys_filter: "distinct (map fst xs) \<Longrightarrow> distinct (map fst (filter P xs))"
  by (rule distinct_map_filter)

lemma listeners_okD:
  assumes "listeners_ok s"
  shows "distinct (map fst (ls_live s))" "distinct (map fst (o_open (ls_os s)))"
    "ports_ok (live_at s) (socket_at (ls_os s)) (o_next (ls_os s)) (ls_stopped s)"
  using assms by (simp_all add: listeners_ok_def)

text \<open>The open listeners this configuration no longer has, with exactly these addresses.\<close>

definition replaces :: "string set \<Rightarrow> listeners \<Rightarrow> Listener \<Rightarrow> liveListener \<Rightarrow> bool" where
  "replaces want s l v0 \<longleftrightarrow> is_open v0 \<and> vAddrs v0 = Addrs l \<and> (\<exists>old. old \<notin> want \<and> live_at s old = Some v0)"

lemma takeOver_spec:
  assumes ok: "listeners_ok s" and n: "live_at s (lName l) = None"
    and t: "takeOverLocked which (lName l) (Addrs l) want s = (x, s')"
  obtains (none) "x = None" "s' = s" "\<nexists>v0. replaces want s l v0"
  | (taken) old v0 where "old \<notin> want" "live_at s old = Some v0" "is_open v0" "vAddrs v0 = Addrs l"
      "x = Some (v0\<lparr>vName := lName l\<rparr>)" "live_at s' = (live_at s)(old := None, lName l \<mapsto> v0\<lparr>vName := lName l\<rparr>)"
      "ls_os s' = ls_os s" "ls_stopped s' = ls_stopped s - {old}" "listeners_ok s'"
proof -
  let ?P = "\<lambda>(old, v). old \<notin> want \<and> is_open v \<and> vAddrs v = Addrs l"
  note D = listeners_okD [OF ok]
  show ?thesis
  proof (cases "filter ?P (ls_live s)")
    case Nil
    have "\<nexists>v0. replaces want s l v0"
      using Nil by (force simp: replaces_def filter_empty_conv dest: map_of_SomeD)
    then show ?thesis using t Nil none by (simp add: takeOverLocked_def)
  next
    case (Cons c cs)
    let ?i = "which (lName l) mod length (c # cs)"
    obtain old v0 where c: "(c # cs) ! ?i = (old, v0)" by fastforce
    have "?i < length (c # cs)" by (rule mod_less_divisor) simp
    then have "(old, v0) \<in> set (filter ?P (ls_live s))" using c Cons nth_mem by metis
    then have P: "old \<notin> want" "is_open v0" "vAddrs v0 = Addrs l" "(old, v0) \<in> set (ls_live s)" by auto
    then have old: "live_at s old = Some v0" using D(1) by simp
    have s': "x = Some (v0\<lparr>vName := lName l\<rparr>)"
      "s' = s\<lparr>ls_live := AList.update (lName l) (v0\<lparr>vName := lName l\<rparr>) (AList.delete old (ls_live s)),
             ls_stopped := ls_stopped s - {old}\<rparr>"
      using t Cons c by (auto simp: takeOverLocked_def Let_def)
    have "listeners_ok s'"
      using D ports_ok_rename [OF D(3) old n]
      by (simp add: listeners_ok_def s' update_conv' delete_conv' distinct_update distinct_delete)
    then show ?thesis using taken [OF P(1) old P(2,3) s'(1)] s' by (simp add: update_conv' delete_conv')
  qed
qed

lemma sync_one_spec:
  assumes ok: "listeners_ok s" and want: "lName l \<in> want" and binds: "lBinds l \<noteq> []"
    and step: "sync_one listen which want l s = (f, s')"
  obtains v where "listeners_ok s'" "live_at s' (lName l) = Some v" "vAddrs v = Addrs l"
    "f = [] \<and> (is_open v \<or> lName l \<in> ls_stopped s')
     \<or> (\<exists>e. f = [CannotListen (lName l) (Addrs l) e]) \<and> \<not> is_open v \<and> lName l \<notin> ls_stopped s'"
    "\<forall>m\<in>want. m \<noteq> lName l \<longrightarrow> live_at s' m = live_at s m"
    "\<forall>m. m \<notin> want \<longrightarrow> live_at s' m = live_at s m
       \<or> live_at s' m = None \<and> (\<exists>v. live_at s m = Some v \<and> vAddrs v = Addrs l)"
    "ls_stopped s' \<inter> want = ls_stopped s \<inter> want"
    "\<And>v0. live_at s (lName l) = Some v0 \<Longrightarrow> vAddrs v0 = Addrs l \<Longrightarrow> is_open v0 \<Longrightarrow> v = v0"
    "live_at s (lName l) = None \<Longrightarrow> \<exists>v0. replaces want s l v0 \<Longrightarrow> \<exists>v0. replaces want s l v0 \<and> vLns v = vLns v0"
proof -
  let ?n = "lName l"
  note D = listeners_okD [OF ok]
  have adopted: "\<not> vAdopted v" if "live_at s m = Some v" for m v
    using ports_okD(1) [OF D(3) that] by (simp add: live_ok_def)
  show ?thesis
  proof (cases "live_at s ?n")
    case (Some v)
    show ?thesis
    proof (cases "vAddrs v = Addrs l \<and> (is_open v \<or> ?n \<in> ls_stopped s)")
      case True
      then have "s' = s" "f = []" using step Some adopted by (auto simp: sync_one_def)
      then show ?thesis using True Some ok by (intro that [of v]) auto
    next
      case False
      let ?s = "s\<lparr>ls_os := close_socks (vLns v) (ls_os s)\<rparr>"
      have o: "open_new listen l ?s = (f, s')"
        using step Some adopted False by (auto simp: sync_one_def close_live_def)
      have "ports_ok ((live_at ?s)(?n := None)) (socket_at (ls_os ?s)) (o_next (ls_os ?s)) (ls_stopped ?s - {?n})"
        using ports_ok_close [OF D(3) Some] by (simp add: socket_close) (simp add: close_socks_def)
      moreover have "distinct (map fst (ls_live ?s))" using D(1) by simp
      moreover have "distinct (map fst (o_open (ls_os ?s)))"
        using D(2) by (simp add: close_socks_def distinct_keys_filter)
      ultimately obtain w where "listeners_ok s'" "live_at s' = (live_at ?s)(?n \<mapsto> w)" "vAddrs w = Addrs l"
        "ls_stopped s' = ls_stopped ?s"
        "?n \<in> ls_stopped ?s \<and> vLns w = [] \<and> f = []
         \<or> ?n \<notin> ls_stopped ?s \<and> length (vLns w) = length (lBinds l) \<and> f = [] \<and> (\<exists>lns os2. bindListener listen l (ls_os ?s) = (Inr lns, os2))
         \<or> ?n \<notin> ls_stopped ?s \<and> vLns w = [] \<and> (\<exists>e os2. f = [CannotListen ?n (Addrs l) e] \<and> bindListener listen l (ls_os ?s) = (Inl e, os2))"
        by (rule open_new_spec [OF _ _ _ o])
      then have w: "listeners_ok s'" "live_at s' = (live_at s)(?n \<mapsto> w)" "vAddrs w = Addrs l"
        "ls_stopped s' = ls_stopped s"
        "?n \<in> ls_stopped s \<and> vLns w = [] \<and> f = []
         \<or> ?n \<notin> ls_stopped s \<and> length (vLns w) = length (lBinds l) \<and> f = []
         \<or> ?n \<notin> ls_stopped s \<and> vLns w = [] \<and> (\<exists>e. f = [CannotListen ?n (Addrs l) e])"
        by auto
      show ?thesis using w binds Some False want by (intro that [of w]) (auto simp: is_open_def)
    qed
  next
    case None
    obtain x s1 where t: "takeOverLocked which ?n (Addrs l) want s = (x, s1)" by fastforce
    show ?thesis
    proof (cases rule: takeOver_spec [OF ok None t, case_names none taken])
      case none
      then have o: "open_new listen l s = (f, s')" using step None t by (simp add: sync_one_def)
      have ns: "?n \<notin> ls_stopped s" using ports_okD(6) [OF D(3), of ?n] None by auto
      have "(live_at s)(?n := None) = live_at s" "ls_stopped s - {?n} = ls_stopped s" using None ns by auto
      then have "ports_ok ((live_at s)(?n := None)) (socket_at (ls_os s)) (o_next (ls_os s)) (ls_stopped s - {?n})"
        using D(3) by simp
      then obtain w where "listeners_ok s'" "live_at s' = (live_at s)(?n \<mapsto> w)" "vAddrs w = Addrs l"
        "ls_stopped s' = ls_stopped s"
        "?n \<in> ls_stopped s \<and> vLns w = [] \<and> f = []
         \<or> ?n \<notin> ls_stopped s \<and> length (vLns w) = length (lBinds l) \<and> f = [] \<and> (\<exists>lns os2. bindListener listen l (ls_os s) = (Inr lns, os2))
         \<or> ?n \<notin> ls_stopped s \<and> vLns w = [] \<and> (\<exists>e os2. f = [CannotListen ?n (Addrs l) e] \<and> bindListener listen l (ls_os s) = (Inl e, os2))"
        using D(1,2) by (rule open_new_spec [OF _ _ _ o])
      then have w: "listeners_ok s'" "live_at s' = (live_at s)(?n \<mapsto> w)" "vAddrs w = Addrs l"
        "ls_stopped s' = ls_stopped s"
        "length (vLns w) = length (lBinds l) \<and> f = [] \<or> vLns w = [] \<and> (\<exists>e. f = [CannotListen ?n (Addrs l) e])"
        using ns by auto
      show ?thesis using w binds None none(3) ns want by (intro that [of w]) (auto simp: is_open_def)
    next
      case (taken old v0)
      have "vLns v0 \<noteq> []" using taken(3) by (simp add: is_open_def)
      then have "s' = s1" "f = []" using step None t taken ports_okD(1) [OF D(3) taken(2)]
        by (auto simp: sync_one_def is_open_def live_ok_def)
      moreover have "old \<noteq> ?n" using taken(1) want by blast
      moreover have "replaces want s l v0" using taken by (auto simp: replaces_def)
      ultimately show ?thesis using taken None want
        by (intro that [of "v0\<lparr>vName := ?n\<rparr>"]) (auto simp: is_open_def)
    qed
  qed
qed


subsection \<open>The whole loop\<close>

text \<open>An open listener with unchanged addresses, under its name or a new one, keeps its sockets.\<close>

definition kept :: "string set \<Rightarrow> listeners \<Rightarrow> Listener \<Rightarrow> liveListener \<Rightarrow> bool" where
  "kept want s l v \<longleftrightarrow>
     (\<forall>v0. live_at s (lName l) = Some v0 \<and> vAddrs v0 = Addrs l \<and> is_open v0 \<longrightarrow> v = v0)
     \<and> (live_at s (lName l) = None \<and> (\<exists>v0. replaces want s l v0) \<longrightarrow>
          (\<exists>v0. replaces want s l v0 \<and> vLns v = vLns v0))"

text \<open>A listener after the loop: open unless it is stopped or reported.\<close>

definition synced :: "string set \<Rightarrow> listeners \<Rightarrow> sync_failure list \<Rightarrow> listeners \<Rightarrow> Listener \<Rightarrow> bool" where
  "synced want s f s' l \<longleftrightarrow>
     (\<exists>v. live_at s' (lName l) = Some v \<and> vAddrs v = Addrs l \<and> kept want s l v
        \<and> (is_open v \<longleftrightarrow> lName l \<notin> ls_stopped s' \<and> (\<forall>a e. CannotListen (lName l) a e \<notin> set f)))"

definition frame :: "string set \<Rightarrow> string list set \<Rightarrow> string set \<Rightarrow> listeners \<Rightarrow> listeners \<Rightarrow> bool" where
  "frame names addrs want s s' \<longleftrightarrow> (\<forall>m\<in>want - names. live_at s' m = live_at s m)
     \<and> (\<forall>m. m \<notin> want \<longrightarrow> live_at s' m = live_at s m
           \<or> live_at s' m = None \<and> (\<exists>v. live_at s m = Some v \<and> vAddrs v \<in> addrs))
     \<and> ls_stopped s' \<inter> want = ls_stopped s \<inter> want"

lemma frame_refl: "frame {} {} want s s"
  by (simp add: frame_def)

lemma frame_trans:
  assumes "frame A B want s s'" "frame A' B' want s' s''"
  shows "frame (A \<union> A') (B \<union> B') want s s''"
proof -
  have 1: "\<forall>m\<in>want - (A \<union> A'). live_at s'' m = live_at s m" and 3: "ls_stopped s'' \<inter> want = ls_stopped s \<inter> want"
    using assms by (simp_all add: frame_def)
  have "live_at s'' m = live_at s m \<or> live_at s'' m = None \<and> (\<exists>v. live_at s m = Some v \<and> vAddrs v \<in> B \<union> B')"
    if "m \<notin> want" for m
    using assms that unfolding frame_def by (metis UnCI option.distinct(1))
  with 1 3 show ?thesis by (simp add: frame_def)
qed

lemma replaces_frame:
  assumes "frame names addrs want s s'"
  shows "replaces want s' l v0 \<Longrightarrow> replaces want s l v0"
    "replaces want s l v0 \<Longrightarrow> Addrs l \<notin> addrs \<Longrightarrow> replaces want s' l v0"
proof -
  have old: "live_at s' m = live_at s m \<or> live_at s' m = None \<and> (\<exists>v. live_at s m = Some v \<and> vAddrs v \<in> addrs)"
    if "m \<notin> want" for m
    using assms that by (simp add: frame_def)
  show "replaces want s' l v0 \<Longrightarrow> replaces want s l v0"
    unfolding replaces_def using old by (metis option.distinct(1))
  show "replaces want s l v0 \<Longrightarrow> Addrs l \<notin> addrs \<Longrightarrow> replaces want s' l v0"
    unfolding replaces_def using old by (metis option.inject)
qed

lemma kept_frame:
  assumes "frame names addrs want s s'" "lName l \<in> want" "lName l \<notin> names" "Addrs l \<notin> addrs" "kept want s' l v"
  shows "kept want s l v"
proof -
  have n: "live_at s' (lName l) = live_at s (lName l)" using assms(1-3) by (simp add: frame_def)
  show ?thesis
    using assms(5) replaces_frame [OF assms(1)] assms(4) unfolding kept_def n by metis
qed

lemma sync_one_frame:
  assumes ok: "listeners_ok s" and want: "lName l \<in> want" and binds: "lBinds l \<noteq> []"
    and step: "sync_one listen which want l s = (f, s')"
  shows "listeners_ok s' \<and> frame {lName l} {Addrs l} want s s' \<and> synced want s f s' l
    \<and> (\<forall>x\<in>set f. \<exists>e. x = CannotListen (lName l) (Addrs l) e)"
proof -
  obtain v where v: "listeners_ok s'" "live_at s' (lName l) = Some v" "vAddrs v = Addrs l"
    "f = [] \<and> (is_open v \<or> lName l \<in> ls_stopped s')
     \<or> (\<exists>e. f = [CannotListen (lName l) (Addrs l) e]) \<and> \<not> is_open v \<and> lName l \<notin> ls_stopped s'"
    "frame {lName l} {Addrs l} want s s'" "kept want s l v"
    by (rule sync_one_spec [OF assms]) (auto simp: frame_def kept_def)
  have "lName l \<in> ls_stopped s' \<Longrightarrow> \<not> is_open v"
    using ports_okD(6) [OF listeners_okD(3) [OF v(1)], of "lName l"] v(2) by (simp add: is_open_def)
  then have "is_open v \<longleftrightarrow> lName l \<notin> ls_stopped s' \<and> (\<forall>a e. CannotListen (lName l) a e \<notin> set f)"
    using v(4) by auto
  then show ?thesis using v by (auto simp: synced_def)
qed

lemma sync_all_spec:
  assumes "listeners_ok s" "distinct (map lName ls)" "distinct (map Addrs ls)"
    and "\<forall>l\<in>set ls. lName l \<in> want \<and> lBinds l \<noteq> []" "sync_all listen which want ls s = (f, s')"
  shows "listeners_ok s' \<and> frame (lName ` set ls) (Addrs ` set ls) want s s' \<and> (\<forall>l\<in>set ls. synced want s f s' l)
    \<and> (\<forall>x\<in>set f. \<exists>l\<in>set ls. \<exists>e. x = CannotListen (lName l) (Addrs l) e)"
  using assms
proof (induction ls arbitrary: s f s')
  case Nil
  then show ?case by (simp add: frame_refl)
next
  case (Cons l ls)
  obtain g s1 where one: "sync_one listen which want l s = (g, s1)" by fastforce
  obtain h s2 where all: "sync_all listen which want ls s1 = (h, s2)" by fastforce
  have eq: "f = g @ h" "s' = s2" using Cons.prems(5) one all by simp_all
  have l: "lName l \<in> want" "lBinds l \<noteq> []" using Cons.prems(4) by simp_all
  note A = sync_one_frame [OF Cons.prems(1) l one]
  have B: "listeners_ok s2 \<and> frame (lName ` set ls) (Addrs ` set ls) want s1 s2 \<and> (\<forall>l\<in>set ls. synced want s1 h s2 l)
    \<and> (\<forall>x\<in>set h. \<exists>l\<in>set ls. \<exists>e. x = CannotListen (lName l) (Addrs l) e)"
    using Cons.prems A all by - (rule Cons.IH, auto)
  have names: "CannotListen (lName l) a e \<notin> set h" for a e using B Cons.prems(2) by force
  have "live_at s2 (lName l) = live_at s1 (lName l)" "lName l \<in> ls_stopped s2 \<longleftrightarrow> lName l \<in> ls_stopped s1"
    using B l(1) Cons.prems(2) unfolding frame_def by (auto simp: set_eq_iff)
  then have 1: "synced want s (g @ h) s2 l" using A names by (simp add: synced_def)
  have 2: "synced want s (g @ h) s2 m" if m: "m \<in> set ls" for m
  proof -
    have ne: "lName m \<noteq> lName l" "Addrs m \<noteq> Addrs l" "lName m \<in> want"
      using m Cons.prems(2-4) by (auto simp: image_iff)
    have "kept want s m v" if "kept want s1 m v" for v
      using kept_frame [OF _ ne(3) _ _ that, of "{lName l}" "{Addrs l}" s] A ne(1,2) by blast
    moreover have "CannotListen (lName m) a e \<notin> set g" for a e using A ne(1) by auto
    ultimately show ?thesis using B m unfolding synced_def by auto
  qed
  have "frame (insert (lName l) (lName ` set ls)) (insert (Addrs l) (Addrs ` set ls)) want s s2"
    using frame_trans A B by (metis insert_is_Un)
  then show ?case using A B 1 2 unfolding eq by auto
qed


subsection \<open>What the configuration no longer has\<close>

lemma ports_ok_restrict:
  assumes ok: "ports_ok live socket nx stopped" and st: "stopped' \<subseteq> stopped \<inter> want"
  shows "ports_ok (\<lambda>n. if n \<in> want then live n else None)
    (\<lambda>i. if \<exists>n v. n \<notin> want \<and> live n = Some v \<and> i \<in> set (vLns v) then None else socket i) nx stopped'"
  (is "ports_ok ?live ?socket nx stopped'")
proof -
  have same: "?socket i = socket i" if "live m = Some w" "m \<in> want" "i \<in> set (vLns w)" for m w i
    using ports_okD(4) [OF ok _ that(1) _ that(3)] that(2) by auto
  have inD: "m \<in> want \<and> live m = Some w" if "?live m = Some w" for m w using that by (auto split: if_splits)
  show ?thesis
    unfolding ports_ok_def
  proof (intro conjI allI impI ballI)
    fix m w assume "?live m = Some w"
    then have m: "m \<in> want" "live m = Some w" using inD by blast+
    show "live_ok ?socket m w"
      by (rule live_ok_cong [OF ports_okD(1) [OF ok m(2)]]) (rule same [OF m(2,1)])
  next
    fix m w i assume a: "?live m = Some w \<and> i \<in> set (vLns w)"
    then have m: "m \<in> want" "live m = Some w" using inD by blast+
    show "?socket i \<noteq> None" using same [OF m(2,1)] a ports_okD(2) [OF ok m(2)] by metis
  next
    fix i assume "?socket i \<noteq> None"
    then have i: "\<nexists>n v. n \<notin> want \<and> live n = Some v \<and> i \<in> set (vLns v)" "socket i \<noteq> None" by (auto split: if_splits)
    then obtain m w where "live m = Some w" "i \<in> set (vLns w)" using ports_okD(3) [OF ok] by blast
    moreover from this have "m \<in> want" using i(1) by blast
    ultimately show "\<exists>m w. ?live m = Some w \<and> i \<in> set (vLns w)" by (intro exI [of _ m] exI [of _ w]) simp
  next
    fix m w m' w' i assume "?live m = Some w \<and> ?live m' = Some w' \<and> i \<in> set (vLns w) \<and> i \<in> set (vLns w')"
    then show "m = m'" using inD ports_okD(4) [OF ok] by metis
  next
    fix i assume "?socket i \<noteq> None"
    then show "i < nx" using ports_okD(5) [OF ok, of i] by (simp split: if_splits)
  next
    fix m assume "m \<in> stopped'"
    then show "\<exists>w. ?live m = Some w \<and> vLns w = []" using st ports_okD(6) [OF ok, of m] by auto
  qed
qed

lemma remove_unwanted_spec:
  assumes ok: "listeners_ok s"
  shows "listeners_ok (remove_unwanted want s)"
    "live_at (remove_unwanted want s) = (\<lambda>n. if n \<in> want then live_at s n else None)"
    "ls_stopped (remove_unwanted want s) = ls_stopped s \<inter> want"
proof -
  let ?gone = "filter (\<lambda>(n, _). n \<notin> want) (ls_live s)"
  let ?s = "remove_unwanted want s"
  note D = listeners_okD [OF ok]
  show live: "live_at ?s = (\<lambda>n. if n \<in> want then live_at s n else None)"
    by (simp add: remove_unwanted_def Let_def map_of_filter_fun)
  have keys: "n \<in> fst ` set ?gone \<longleftrightarrow> n \<notin> want \<and> live_at s n \<noteq> None" for n
    by (force simp: map_of_eq_None_iff)
  have st: "n \<in> ls_stopped s \<Longrightarrow> live_at s n \<noteq> None" for n using ports_okD(6) [OF D(3)] by blast
  show stopped: "ls_stopped ?s = ls_stopped s \<inter> want"
    using keys st by (auto simp: remove_unwanted_def Let_def)
  have "i \<in> set (concat (map (\<lambda>(_, v). vLns v) ?gone)) \<longleftrightarrow> (\<exists>n v. n \<notin> want \<and> live_at s n = Some v \<and> i \<in> set (vLns v))" for i
  proof -
    have "live_at s n = Some v \<longleftrightarrow> (n, v) \<in> set (ls_live s)" for n v using D(1) by simp
    then show ?thesis by force
  qed
  then have sock: "socket_at (ls_os ?s) =
      (\<lambda>i. if \<exists>n v. n \<notin> want \<and> live_at s n = Some v \<and> i \<in> set (vLns v) then None else socket_at (ls_os s) i)"
    by (simp add: remove_unwanted_def Let_def socket_close)
  have nx: "o_next (ls_os ?s) = o_next (ls_os s)"
    by (simp add: remove_unwanted_def Let_def close_socks_def)
  have "distinct (map fst (ls_live ?s))" "distinct (map fst (o_open (ls_os ?s)))"
    using D(1,2) by (simp_all add: remove_unwanted_def Let_def close_socks_def distinct_keys_filter)
  moreover have "ports_ok (live_at ?s) (socket_at (ls_os ?s)) (o_next (ls_os ?s)) (ls_stopped ?s)"
    unfolding live sock nx stopped by (rule ports_ok_restrict [OF D(3)]) simp
  ultimately show "listeners_ok ?s" by (simp add: listeners_ok_def)
qed

text \<open>What a loaded configuration gives (\<open>resolveListeners\<close>): distinct names and addresses, each with
  at least one.\<close>

definition syncable :: "Config \<Rightarrow> bool" where
  "syncable cfg \<longleftrightarrow> distinct (map lName (PortListeners cfg)) \<and> distinct (map Addrs (PortListeners cfg))
     \<and> (\<forall>l\<in>set (PortListeners cfg). lBinds l \<noteq> [])"

definition wanted_names :: "Config \<Rightarrow> string set" where
  "wanted_names cfg = lName ` set (PortListeners cfg)"

lemma sync_spec:
  assumes ok: "listeners_ok s" and cfg: "syncable cfg" and sync: "syncListeners listen which cfg s = (f, s')"
  shows "listeners_ok s'" "dom (live_at s') = wanted_names cfg" "ls_stopped s' = ls_stopped s \<inter> wanted_names cfg"
    "\<forall>l\<in>set (PortListeners cfg). synced (wanted_names cfg) s f s' l"
    "\<forall>x\<in>set f. \<exists>l\<in>set (PortListeners cfg). \<exists>e. x = CannotListen (lName l) (Addrs l) e"
proof -
  let ?ls = "PortListeners cfg" and ?want = "wanted_names cfg"
  obtain s1 where all: "sync_all listen which ?want ?ls s = (f, s1)" and s': "s' = remove_unwanted ?want s1"
    using sync by (auto simp: syncListeners_def wanted_names_def Let_def split: prod.splits)
  have A: "listeners_ok s1 \<and> frame (lName ` set ?ls) (Addrs ` set ?ls) ?want s s1 \<and> (\<forall>l\<in>set ?ls. synced ?want s f s1 l)
    \<and> (\<forall>x\<in>set f. \<exists>l\<in>set ?ls. \<exists>e. x = CannotListen (lName l) (Addrs l) e)"
    using cfg by (intro sync_all_spec [OF ok _ _ _ all]) (auto simp: syncable_def wanted_names_def)
  note R = remove_unwanted_spec [of s1 ?want]
  show "listeners_ok s'" using R(1) A s' by blast
  show "ls_stopped s' = ls_stopped s \<inter> ?want" using R(3) A s' by (simp add: frame_def)
  have in_want: "lName l \<in> ?want" if "l \<in> set ?ls" for l using that by (simp add: wanted_names_def)
  then show "\<forall>l\<in>set ?ls. synced ?want s f s' l" using A R(2,3) s' unfolding synced_def by auto
  have "live_at s1 n \<noteq> None" if "n \<in> ?want" for n
    using that A by (force simp: wanted_names_def synced_def)
  then show "dom (live_at s') = ?want" using R(2) A s' by (auto simp: dom_def split: if_splits)
  show "\<forall>x\<in>set f. \<exists>l\<in>set ?ls. \<exists>e. x = CannotListen (lName l) (Addrs l) e" using A by blast
qed


subsection \<open>Configurations that load\<close>

lemma digits_no_colon: "list_all is_digit p \<Longrightarrow> CHR '':'' \<notin> set p"
  by (auto simp: list_all_iff is_digit_def)

lemma JoinHostPort_last:
  assumes "CHR '':'' \<notin> set p"
  shows "rev (takeWhile (\<lambda>c. c \<noteq> CHR '':'') (rev (JoinHostPort h p))) = p"
proof -
  have "takeWhile (\<lambda>c. c \<noteq> CHR '':'') (rev p @ CHR '':'' # xs) = rev p" for xs
    using assms by (subst takeWhile_append2) auto
  then show ?thesis by (simp add: JoinHostPort_def)
qed

lemma JoinHostPort_port:
  assumes "JoinHostPort h p = JoinHostPort h' p'" "CHR '':'' \<notin> set p" "CHR '':'' \<notin> set p'"
  shows "h = h' \<and> p = p'"
  using assms JoinHostPort_last JoinHostPort_inject by metis

lemma Addrs_inject:
  assumes "Addrs l = Addrs m" "lBinds l \<noteq> []"
  shows "lBinds l = lBinds m \<and> lPort l = lPort m"
proof -
  have len: "length (lBinds l) = length (lBinds m)" using assms(1) map_eq_imp_length_eq by (fastforce simp: Addrs_def)
  have each: "lBinds l ! i = lBinds m ! i \<and> Itoa (lPort l) = Itoa (lPort m)" if "i < length (lBinds l)" for i
  proof (rule JoinHostPort_port)
    show "JoinHostPort (lBinds l ! i) (Itoa (lPort l)) = JoinHostPort (lBinds m ! i) (Itoa (lPort m))"
      using arg_cong [OF assms(1), of "\<lambda>xs. xs ! i"] that len by (simp add: Addrs_def)
  qed (use Itoa_digits digits_no_colon in blast)+
  have "Itoa (lPort l) = Itoa (lPort m)" using each [of 0] assms(2) by simp
  then have "lPort l = lPort m" by (metis dec_val_Itoa)
  then show ?thesis using each len by (auto intro: nth_equalityI)
qed

lemma socks_Addrs: "Addrs l = Addrs m \<Longrightarrow> lBinds l \<noteq> [] \<Longrightarrow> socks l = socks m"
  using Addrs_inject [of l m] by (simp add: socks_def sock_of_def)

lemma compatible_Addrs:
  assumes "compatible p l" "lBinds p \<noteq> []"
  shows "Addrs p \<noteq> Addrs l"
proof
  assume "Addrs p = Addrs l"
  from Addrs_inject [OF this assms(2)] have eq: "lBinds p = lBinds l" "lPort p = lPort l" by simp_all
  have "sameBinds (lBinds l) (lBinds l)" by (auto simp: sameBinds_def list_all_iff list_ex_iff)
  moreover have "hd (lBinds l) \<in> set (lBinds l)" using assms(2) eq by simp
  ultimately show False using assms(1) eq unfolding compatible_def by metis
qed

lemma sorted_distinct:
  assumes "sorted_wrt P xs" "\<And>x y. x \<in> set xs \<Longrightarrow> y \<in> set xs \<Longrightarrow> P x y \<Longrightarrow> f x \<noteq> f y"
  shows "distinct (map f xs)"
  using assms by (induction xs) force+

lemma resolved_distinct:
  assumes "sorted_wrt compatible ls" "\<forall>l\<in>set ls. lBinds l \<noteq> []"
  shows "distinct (map lName ls)" "distinct (map Addrs ls)"
  by (rule sorted_distinct [OF assms(1)]; use assms(2) compatible_Addrs in \<open>force simp: compatible_def\<close>)+

lemma redirect_binds_nonempty:
  assumes "l \<in> set ls" "b \<in> set (lBinds l)"
  shows "redirect_binds ls \<noteq> []"
proof (cases "b \<in> set (redirect_binds ls)")
  case False
  then have "covered (any_family Is4 ls) (any_family Is6 ls) b" using assms redirect_binds_set by blast
  then have "any_family Is4 ls \<or> any_family Is6 ls" by (auto simp: covered_def split: option.splits)
  then obtain x where "x \<in> set (redirect_binds ls)" using any_family_iff by metis
  then show ?thesis by auto
qed auto

lemma port80_disjoint:
  assumes "port80_conflict bs ls = None" "l \<in> set ls" "lPort l = 80"
  shows "set (lBinds l) \<inter> set bs = {}"
  using assms by (induction ls) (auto simp: bindsOverlap_None split: if_splits option.splits)

text \<open>The listeners of a configuration that loads can be synchronised, with the redirect listener too.\<close>

lemma resolved_syncable:
  assumes "resolveListeners c = Inr c1" "\<forall>l\<in>set (Listeners c). lBinds l \<noteq> []" "Redirect c = None"
  shows "syncable c1" "makeRedirectListener c1 = Inr c2 \<Longrightarrow> syncable c2"
proof -
  have r: "Listeners c \<noteq> []" "\<forall>l\<in>set (Listeners c). acceptable l" "sorted_wrt compatible (Listeners c)"
      "Listeners c1 = Listeners c" "Redirect c1 = None"
    using assms(1,3) unfolding resolveListeners_ok by simp_all
  note d = resolved_distinct [OF r(3) assms(2)]
  show "syncable c1" using d assms(2) r by (simp add: syncable_def PortListeners_def)
  show "syncable c2" if m: "makeRedirectListener c1 = Inr c2"
  proof -
    let ?binds = "redirect_binds (Listeners c)"
    define rl where "rl = zero_listener\<lparr>lName := RedirectListenerName,
          lBind := Join ''; '' ?binds, lBinds := ?binds, lPort := 80, lIsRedirect := True\<rparr>"
    have p80: "port80_conflict ?binds (Listeners c) = None" and c2: "Redirect c2 = Some rl" "Listeners c2 = Listeners c"
      using m r by (auto simp: makeRedirectListener_def Let_def rl_def split: option.splits)
    have rl: "lName rl = RedirectListenerName" "lBinds rl = ?binds" "lPort rl = 80" by (simp_all add: rl_def)
    obtain l b where "l \<in> set (Listeners c)" "b \<in> set (lBinds l)"
      using r(1) assms(2) by (metis hd_in_set)
    then have ne: "lBinds rl \<noteq> []" using redirect_binds_nonempty rl by simp
    have "ToLower RedirectListenerName = RedirectListenerName"
      by (simp add: RedirectListenerName_def lower_char_def)
    then have "lName l \<noteq> lName rl" if "l \<in> set (Listeners c)" for l using r(2) that rl by (metis acceptable_def)
    moreover have "Addrs l \<noteq> Addrs rl" if l: "l \<in> set (Listeners c)" for l
    proof
      assume "Addrs l = Addrs rl"
      then have "lBinds l = lBinds rl" "lPort l = lPort rl" using Addrs_inject l assms(2) by blast+
      then show False using port80_disjoint [OF p80 l] rl ne by simp
    qed
    ultimately have "lName rl \<notin> lName ` set (Listeners c)" "Addrs rl \<notin> Addrs ` set (Listeners c)" by force+
    then show ?thesis using d assms(2) ne c2 by (auto simp: syncable_def PortListeners_def)
  qed
qed


subsection \<open>A second run\<close>

text \<open>
  What the operating system allows: any of the wanted sockets, while no other socket of the process
  is open than further wanted ones.
\<close>

definition bindable :: "(sock list \<Rightarrow> sock \<Rightarrow> string option) \<Rightarrow> Config \<Rightarrow> bool" where
  "bindable listen cfg \<longleftrightarrow> (let W = set (concat (map socks (PortListeners cfg))) in
     \<forall>open1 k. set open1 \<subseteq> W \<and> k \<in> W \<and> k \<notin> set open1 \<longrightarrow> listen open1 k = None)"

definition settled :: "Config \<Rightarrow> listeners \<Rightarrow> bool" where
  "settled cfg s \<longleftrightarrow> listeners_ok s \<and> dom (live_at s) = wanted_names cfg
     \<and> (\<forall>l\<in>set (PortListeners cfg). \<exists>v. live_at s (lName l) = Some v \<and> vAddrs v = Addrs l)"

lemma sync_settled:
  assumes "listeners_ok s" "syncable cfg" "syncListeners listen which cfg s = (f, s')"
  shows "settled cfg s'"
  using sync_spec [OF assms] unfolding settled_def synced_def by blast

text \<open>In a settled state every open socket is one of an open wanted listener.\<close>

lemma settled_sockets:
  assumes "settled cfg s" "syncable cfg" "k \<in> snd ` set (o_open (ls_os s))"
  shows "\<exists>m\<in>set (PortListeners cfg). k \<in> set (socks m) \<and> (\<exists>v. live_at s (lName m) = Some v \<and> is_open v)"
proof -
  note ok = listeners_okD [of s]
  have lok: "listeners_ok s" using assms(1) by (simp add: settled_def)
  obtain i where "(i, k) \<in> set (o_open (ls_os s))" using assms(3) by force
  then have i: "socket_at (ls_os s) i = Some k" using ok(2) [OF lok] by simp
  then obtain n v where n: "live_at s n = Some v" "i \<in> set (vLns v)"
    using ports_okD(3) [OF ok(3) [OF lok], of i] by auto
  then have "n \<in> wanted_names cfg" using assms(1) by (auto simp: settled_def)
  then obtain m where m: "m \<in> set (PortListeners cfg)" "lName m = n" by (auto simp: wanted_names_def)
  then have addrs: "vAddrs v = Addrs m" using assms(1) n(1) by (fastforce simp: settled_def)
  have "vLns v \<noteq> []" using n(2) by auto
  then obtain l where l: "vAddrs v = Addrs l" "map (socket_at (ls_os s)) (vLns v) = map Some (socks l)"
    using ports_okD(1) [OF ok(3) [OF lok] n(1)] by (auto simp: live_ok_def)
  have "socks m = socks l" using socks_Addrs [of m l] addrs l(1) assms(2) m(1) by (simp add: syncable_def)
  moreover have "Some k \<in> set (map (socket_at (ls_os s)) (vLns v))" using n(2) i by force
  ultimately have "k \<in> set (socks m)" using l(2) by auto
  then show ?thesis using m n(1) \<open>vLns v \<noteq> []\<close> by (auto simp: is_open_def)
qed

lemma distinct_concat_unique:
  "distinct (concat (map f xs)) \<Longrightarrow> x \<in> set xs \<Longrightarrow> y \<in> set xs \<Longrightarrow> k \<in> set (f x) \<Longrightarrow> k \<in> set (f y) \<Longrightarrow> x = y"
  by (induction xs) auto

lemma distinct_concat_each: "distinct (concat (map f xs)) \<Longrightarrow> x \<in> set xs \<Longrightarrow> distinct (f x)"
  by (induction xs) auto

lemma sync_one_settled:
  assumes set: "settled cfg s" and cfg: "syncable cfg" and dist: "distinct (concat (map socks (PortListeners cfg)))"
    and os: "bindable listen cfg" and l: "l \<in> set (PortListeners cfg)"
    and step: "sync_one listen which (wanted_names cfg) l s = (f, s')"
  shows "f = [] \<and> settled cfg s'"
proof -
  let ?W = "set (concat (map socks (PortListeners cfg)))" and ?want = "wanted_names cfg"
  have ok: "listeners_ok s" and dom: "dom (live_at s) = ?want" using set by (simp_all add: settled_def)
  have binds: "lBinds l \<noteq> []" using cfg l by (simp add: syncable_def)
  have want: "lName m \<in> ?want" if "m \<in> set (PortListeners cfg)" for m using that by (simp add: wanted_names_def)
  note frame = sync_one_frame [OF ok want [OF l] binds step]
  have live: "live_at s' m = live_at s m" if "m \<noteq> lName l" for m
  proof (cases "m \<in> ?want")
    case True
    then show ?thesis using frame that by (simp add: frame_def)
  next
    case False
    then have "live_at s m = None" using dom by blast
    then show ?thesis using frame False by (auto simp: frame_def)
  qed
  obtain v' where v': "live_at s' (lName l) = Some v'" "vAddrs v' = Addrs l" using frame by (auto simp: synced_def)
  have "\<exists>v. live_at s' (lName m) = Some v \<and> vAddrs v = Addrs m" if m: "m \<in> set (PortListeners cfg)" for m
  proof (cases "lName m = lName l")
    case True
    then have "m = l" using cfg l m by (auto simp: syncable_def distinct_map dest: inj_onD)
    then show ?thesis using v' by simp
  next
    case False
    then show ?thesis using live set m by (simp add: settled_def)
  qed
  moreover have "live_at s' = (live_at s)(lName l \<mapsto> v')" using live v'(1) by auto
  then have "dom (live_at s') = ?want" using dom want [OF l] by auto
  ultimately have settled: "settled cfg s'" using frame by (simp add: settled_def)
  have "f = []"
  proof (rule ccontr)
    assume "f \<noteq> []"
    obtain v where v: "live_at s (lName l) = Some v" "vAddrs v = Addrs l" using set l by (auto simp: settled_def)
    have "\<not> vAdopted v" using ports_okD(1) [OF listeners_okD(3) [OF ok] v(1)] by (simp add: live_ok_def)
    then have closed: "\<not> is_open v" "lName l \<notin> ls_stopped s"
      using step v \<open>f \<noteq> []\<close> by (auto simp: sync_one_def split: if_splits)
    have "close_socks [] (ls_os s) = ls_os s" by (simp add: close_socks_def)
    then have bound: "\<exists>e os2. bindListener listen l (ls_os s) = (Inl e, os2)"
      using step v closed \<open>\<not> vAdopted v\<close> \<open>f \<noteq> []\<close>
      by (auto simp: sync_one_def is_open_def close_live_def open_new_def Let_def openLocked_def
          split: prod.splits sum.splits)
    have mine: "m = l" if "m \<in> set (PortListeners cfg)" "k \<in> set (socks m)" "k \<in> set (socks l)" for m k
      using distinct_concat_unique [OF dist that(1) l that(2,3)] .
    have a: "snd ` set (o_open (ls_os s)) \<subseteq> ?W" using settled_sockets [OF set cfg] by fastforce
    have b: "sock_of l ` set (lBinds l) \<inter> snd ` set (o_open (ls_os s)) = {}"
    proof (rule ccontr)
      assume "sock_of l ` set (lBinds l) \<inter> snd ` set (o_open (ls_os s)) \<noteq> {}"
      then obtain k where k: "k \<in> set (socks l)" "k \<in> snd ` set (o_open (ls_os s))" by (auto simp: socks_def)
      then obtain m where "m \<in> set (PortListeners cfg)" "k \<in> set (socks m)" "\<exists>v. live_at s (lName m) = Some v \<and> is_open v"
        using settled_sockets [OF set cfg] by blast
      then show False using mine k(1) v(1) closed(1) by fastforce
    qed
    have c: "sock_of l ` set (lBinds l) \<subseteq> ?W" using l by (auto simp: socks_def)
    have d: "distinct (map (sock_of l) (lBinds l))"
      using distinct_concat_each [OF dist l] by (simp add: socks_def)
    have e: "listen open1 k = None" if "set open1 \<subseteq> ?W" "k \<in> ?W" "k \<notin> set open1" for open1 k
      using os that unfolding bindable_def Let_def by blast
    have "\<exists>lns os2. bindListener listen l (ls_os s) = (Inr lns, os2)"
      unfolding bindListener_def by (rule bind_loop_succeeds [where W = ?W and listen = listen, OF e a c d b])
    then show False using bound by auto
  qed
  with settled show ?thesis by blast
qed


lemma sync_all_settled:
  assumes "settled cfg s" "syncable cfg" "distinct (concat (map socks (PortListeners cfg)))" "bindable listen cfg"
    "set ls \<subseteq> set (PortListeners cfg)" "sync_all listen which (wanted_names cfg) ls s = (f, s')"
  shows "f = [] \<and> settled cfg s'"
  using assms(1,5,6)
proof (induction ls arbitrary: s f s')
  case (Cons l ls)
  obtain g s1 where one: "sync_one listen which (wanted_names cfg) l s = (g, s1)" by fastforce
  obtain h s2 where all: "sync_all listen which (wanted_names cfg) ls s1 = (h, s2)" by fastforce
  have l: "l \<in> set (PortListeners cfg)" "set ls \<subseteq> set (PortListeners cfg)" using Cons.prems(2) by simp_all
  have g: "g = []" "settled cfg s1" using sync_one_settled [OF Cons.prems(1) assms(2-4) l(1) one] by simp_all
  have "h = [] \<and> settled cfg s2" using Cons.IH [OF g(2) l(2) all] .
  then show ?case using Cons.prems(3) one all g by simp
qed simp

lemma second_sync:
  assumes "listeners_ok s" "syncable cfg" "distinct (concat (map socks (PortListeners cfg)))" "bindable listen cfg"
    "syncListeners listen which cfg s = (f1, s1)" "syncListeners listen which' cfg s1 = (f2, s2)"
  shows "f2 = []"
proof -
  have set: "settled cfg s1" by (rule sync_settled [OF assms(1,2,5)])
  obtain s3 where "sync_all listen which' (wanted_names cfg) (PortListeners cfg) s1 = (f2, s3)"
    using assms(6) by (auto simp: syncListeners_def wanted_names_def Let_def split: prod.splits)
  then show ?thesis using sync_all_settled [OF set assms(2-4)] by blast
qed

subsection \<open>Stopping and starting from the console\<close>

lemma set_stopped_spec:
  assumes ok: "listeners_ok s" and l: "PortListener cfg name = Some l" "lBinds l \<noteq> []"
    and v: "live_at s name = Some v" "vAddrs v = Addrs l"
    and step: "setListenerStopped listen cfg conns name stop s = (r, s')"
  shows "listeners_ok s' \<and> (\<exists>v'. live_at s' = (live_at s)(name \<mapsto> v') \<and>
    (case r of
       Inl e \<Rightarrow> \<not> stop \<and> \<not> is_open v' \<and> ls_stopped s' = ls_stopped s \<and> (\<exists>e'. e = CannotListenOn (Addrs l) e' \<and> vErr v' = e')
     | Inr vs \<Rightarrow> (is_open v' \<longleftrightarrow> \<not> stop)
         \<and> ls_stopped s' = (if stop then insert name (ls_stopped s) else ls_stopped s - {name})
         \<and> set vs = (if stop then {i. (i, name) \<in> set conns} else {})))"
proof -
  note D = listeners_okD [OF ok]
  have ad: "\<not> vAdopted v" "vName v = name" using ports_okD(1) [OF D(3) v(1)] by (simp_all add: live_ok_def)
  note closed = ports_ok_close [OF D(3) v(1)]
  show ?thesis
  proof (cases stop)
    case True
    let ?w = "v\<lparr>vLns := [], vErr := []\<rparr>" and ?os = "close_socks (vLns v) (ls_os s)"
    have s': "s' = \<lparr>ls_live = AList.update name ?w (ls_live s), ls_stopped = insert name (ls_stopped s), ls_os = ?os\<rparr>"
      "r = Inr (listener_victims name conns)"
      using step l v ad True by (auto simp: setListenerStopped_def close_live_def)
    have "ports_ok ((live_at s)(name := None, name \<mapsto> ?w)) (socket_at ?os) (o_next ?os) (insert name (ls_stopped s))"
      unfolding socket_close
      by (rule ports_ok_open [OF closed]) (use ad in \<open>auto simp: live_ok_def close_socks_def\<close>)
    then have "listeners_ok s'"
      using D(1,2) by (simp add: listeners_ok_def s' update_conv' distinct_update close_socks_def distinct_keys_filter)
    then show ?thesis using s' True
      by (intro conjI exI [of _ ?w]) (auto simp: update_conv' is_open_def listener_victims_def image_iff)
  next
    case False
    show ?thesis
    proof (cases "is_open v")
      case True
      then have s': "s' = s\<lparr>ls_stopped := ls_stopped s - {name}\<rparr>" "r = Inr []"
        using step l v ad False by (auto simp: setListenerStopped_def)
      have "ports_ok (live_at s) (socket_at (ls_os s)) (o_next (ls_os s)) (ls_stopped s - {name})"
        using D(3) unfolding ports_ok_def by blast
      then have "listeners_ok s'" using D(1,2) by (simp add: listeners_ok_def s')
      moreover have "live_at s = (live_at s)(name \<mapsto> v)" using v(1) by auto
      ultimately show ?thesis using s' True False by (intro conjI exI [of _ v]) simp_all
    next
      case closed_v: False
      then have none: "vLns v = []" by (simp add: is_open_def)
      have ok0: "ports_ok ((live_at s)(name := None)) (socket_at (ls_os s)) (o_next (ls_os s)) (ls_stopped s - {name})"
        using closed none by simp
      show ?thesis
        using below_ok [OF ok0]
      proof (cases rule: bindListener_spec [where listen = listen and l = l])
        case (opened lns os2)
        let ?w = "v\<lparr>vLns := lns, vErr := []\<rparr>"
        have s': "s' = s\<lparr>ls_live := AList.update name ?w (ls_live s), ls_os := os2, ls_stopped := ls_stopped s - {name}\<rparr>"
          "r = Inr []"
          using step l v ad False closed_v opened(1) by (auto simp: setListenerStopped_def openLocked_def Let_def)
        have "ports_ok ((live_at s)(name := None, name \<mapsto> ?w)) (socket_at os2) (o_next os2) (ls_stopped s - {name})"
          "distinct (map fst (o_open os2))" "length lns = length (lBinds l)"
          using bound_ok [OF ok0 D(2) _ opened(1), of name ?w "ls_stopped s - {name}"] ad v by simp_all
        then have "listeners_ok s'" "lns \<noteq> []"
          using D(1) l(2) by (auto simp: listeners_ok_def s' update_conv' distinct_update)
        then show ?thesis using s' False by (intro conjI exI [of _ ?w]) (auto simp: update_conv' is_open_def)
      next
        case (failed e os2)
        let ?w = "v\<lparr>vErr := e\<rparr>"
        have s': "s' = s\<lparr>ls_live := AList.update name ?w (ls_live s), ls_os := os2\<rparr>" "r = Inl (CannotListenOn (vAddrs v) e)"
          using step l v ad False closed_v failed(1) by (auto simp: setListenerStopped_def openLocked_def Let_def)
        have "ports_ok ((live_at s)(name := None, name \<mapsto> ?w)) (socket_at os2) (o_next os2) (ls_stopped s)"
          using failed(2,3) none ad by (intro ports_ok_open [OF ok0]) (auto simp: live_ok_def)
        then have "listeners_ok s'" using D(1,2) failed(2) by (simp add: listeners_ok_def s' update_conv' distinct_update)
        then show ?thesis using s' False none v(2) by (intro conjI exI [of _ ?w]) (auto simp: update_conv' is_open_def)
      qed
    qed
  qed
qed


subsection \<open>Properties\<close>

text \<open>
  C38. Synchronising makes the live listeners exactly the configured ones: each has an entry with the
  configured addresses, which is open unless it is stopped or reported as failed, and nothing else
  is reported; a listener whose addresses did not change keeps its sockets, under its old name or a
  new one; no socket is left that no listener owns; what was stopped stays stopped.
\<close>

theorem sync_matches:
  assumes "listeners_ok s" "syncable cfg" "syncListeners listen which cfg s = (f, s')"
  shows "listeners_ok s' \<and> dom (live_at s') = wanted_names cfg
    \<and> (\<forall>l\<in>set (PortListeners cfg). synced (wanted_names cfg) s f s' l)
    \<and> (\<forall>x\<in>set f. \<exists>l\<in>set (PortListeners cfg). \<exists>e. x = CannotListen (lName l) (Addrs l) e)
    \<and> ls_stopped s' = ls_stopped s \<inter> wanted_names cfg"
  using sync_spec [OF assms] by blast

text \<open>The sample for the witnesses: two listeners, and an edit that swaps their ports.\<close>

definition in_use :: "sock list \<Rightarrow> sock \<Rightarrow> string option" where
  "in_use open1 k = (if list_ex (\<lambda>x. snd x = snd k) open1 then Some ''address already in use'' else None)"

definition two_ports :: "nat \<Rightarrow> nat \<Rightarrow> Config" where
  "two_ports p q = demo_config [demo_listener ''a'' [''10.0.0.1''] p, demo_listener ''b'' [''10.0.0.1''] q]"

definition no_listeners :: listeners where
  "no_listeners = \<lparr>ls_live = [], ls_stopped = {}, ls_os = \<lparr>o_open = [], o_next = 0\<rparr>\<rparr>"

abbreviation demo_sync :: "Config \<Rightarrow> listeners \<Rightarrow> sync_failure list \<times> listeners" where
  "demo_sync \<equiv> syncListeners in_use (\<lambda>_. 0)"

lemma no_listeners_ok: "listeners_ok no_listeners"
  by (simp add: listeners_ok_def no_listeners_def ports_ok_def)

lemma demo_network: "bind_network (Suc 0) ''10.0.0.1'' = ''tcp4''" "Itoa (Suc 0) = ''1''" "Itoa 2 = ''2''"
  by code_simp+

lemma demo_fields:
  "lName (demo_listener n [''10.0.0.1''] p) = n" "lBinds (demo_listener n [''10.0.0.1''] p) = [''10.0.0.1'']"
  "lPort (demo_listener n [''10.0.0.1''] p) = p"
  "PortListeners (two_ports p q) = [demo_listener ''a'' [''10.0.0.1''] p, demo_listener ''b'' [''10.0.0.1''] q]"
  by (simp_all add: demo_listener_def two_ports_def PortListeners_def demo_config_def initial_config_def)

lemmas demo_listeners_simps = demo_network demo_fields Addrs_def JoinHostPort_def sock_of_def socks_def

lemma two_ports_syncable: "syncable (two_ports 1 2)" "syncable (two_ports 2 1)"
  by (simp_all add: syncable_def demo_listeners_simps)

lemma two_ports_socks: "distinct (concat (map socks (PortListeners (two_ports 2 1))))"
  by (simp add: demo_listeners_simps)

lemma two_ports_bindable: "bindable in_use (two_ports 2 1)"
  by (auto simp: bindable_def demo_listeners_simps in_use_def list_ex_iff)

definition demo_live :: "string \<Rightarrow> string \<Rightarrow> nat list \<Rightarrow> string \<Rightarrow> string \<times> liveListener" where
  "demo_live n a lns e = (n, \<lparr>vName = n, vAddrs = [a], vLns = lns, vErr = e, vAdopted = False\<rparr>)"

lemma first_ports:
  "demo_sync (two_ports 1 2) no_listeners =
     ([], \<lparr>ls_live = [demo_live ''a'' ''10.0.0.1:1'' [0] [], demo_live ''b'' ''10.0.0.1:2'' [1] []], ls_stopped = {},
           ls_os = \<lparr>o_open = [(0, (''tcp4'', ''10.0.0.1:1'')), (1, (''tcp4'', ''10.0.0.1:2''))], o_next = 2\<rparr>\<rparr>)"
  by (simp add: syncListeners_def demo_listeners_simps no_listeners_def sync_one_def takeOverLocked_def open_new_def
      openLocked_def bindListener_def in_use_def newLiveListener_def remove_unwanted_def close_socks_def demo_live_def Let_def) auto

lemma swap_fails_first:
  "demo_sync (two_ports 2 1) (snd (demo_sync (two_ports 1 2) no_listeners)) =
     ([CannotListen ''a'' [''10.0.0.1:2''] ''address already in use''],
      \<lparr>ls_live = [demo_live ''a'' ''10.0.0.1:2'' [] ''address already in use'', demo_live ''b'' ''10.0.0.1:1'' [2] []],
       ls_stopped = {}, ls_os = \<lparr>o_open = [(2, (''tcp4'', ''10.0.0.1:1''))], o_next = 3\<rparr>\<rparr>)"
  unfolding first_ports
  by (simp add: syncListeners_def demo_listeners_simps sync_one_def takeOverLocked_def open_new_def close_live_def
      openLocked_def bindListener_def in_use_def newLiveListener_def remove_unwanted_def close_socks_def demo_live_def
      is_open_def Let_def) auto

lemma first_ports_ok: "listeners_ok (snd (demo_sync (two_ports 1 2) no_listeners))"
  using sync_spec(1) [OF no_listeners_ok two_ports_syncable(1)] by (metis prod.collapse)

text \<open>The swap: \<open>b\<close> moves, and \<open>a\<close> is reported, since \<open>b\<close> still held its new port.\<close>

theorem sync_matches_witness:
  "let (f, s') = demo_sync (two_ports 2 1) (snd (demo_sync (two_ports 1 2) no_listeners)) in
   listeners_ok s' \<and> length f = 1 \<and> synced (wanted_names (two_ports 2 1)) (snd (demo_sync (two_ports 1 2) no_listeners)) f s'
     (demo_listener ''b'' [''10.0.0.1''] 1)"
proof -
  obtain f s' where d: "demo_sync (two_ports 2 1) (snd (demo_sync (two_ports 1 2) no_listeners)) = (f, s')" by fastforce
  then have "length f = 1" using swap_fails_first by simp
  then show ?thesis using sync_matches [OF first_ports_ok two_ports_syncable(2) d] unfolding d by (simp add: demo_fields)
qed



text \<open>
  C40. A listener stopped from the console has no socket, is remembered as stopped and its
  connections are the ones ended; a start opens it and forgets the stop, or reports why the port
  cannot be opened and leaves the listener as it was. No other listener is touched.
\<close>

theorem console_listener_stop:
  assumes "listeners_ok s" "PortListener cfg name = Some l" "lBinds l \<noteq> []" "live_at s name = Some v" "vAddrs v = Addrs l"
    "setListenerStopped listen cfg conns name stop s = (r, s')"
  shows "listeners_ok s' \<and> (\<exists>v'. live_at s' = (live_at s)(name \<mapsto> v') \<and>
    (case r of
       Inl e \<Rightarrow> \<not> stop \<and> \<not> is_open v' \<and> ls_stopped s' = ls_stopped s \<and> (\<exists>e'. e = CannotListenOn (Addrs l) e' \<and> vErr v' = e')
     | Inr vs \<Rightarrow> (is_open v' \<longleftrightarrow> \<not> stop)
         \<and> ls_stopped s' = (if stop then insert name (ls_stopped s) else ls_stopped s - {name})
         \<and> set vs = (if stop then {i. (i, name) \<in> set conns} else {})))"
  by (rule set_stopped_spec [OF assms])

text \<open>Stopping \<open>a\<close>, which has two of the three open connections.\<close>

theorem console_listener_stop_witness:
  "\<exists>vs s'. setListenerStopped in_use (two_ports 1 2) [(7, ''a''), (8, ''b''), (9, ''a'')] ''a'' True
     (snd (demo_sync (two_ports 1 2) no_listeners)) = (Inr vs, s') \<and> set vs = {7, 9} \<and> ''a'' \<in> ls_stopped s'"
proof -
  let ?s = "snd (demo_sync (two_ports 1 2) no_listeners)" and ?conns = "[(7::nat, ''a''), (8, ''b''), (9, ''a'')]"
  let ?l = "demo_listener ''a'' [''10.0.0.1''] 1"
  obtain r s' where step: "setListenerStopped in_use (two_ports 1 2) ?conns ''a'' True ?s = (r, s')" by fastforce
  have l: "PortListener (two_ports 1 2) ''a'' = Some ?l" "lBinds ?l \<noteq> []"
    by (simp_all add: PortListener_def two_ports_def demo_config_def initial_config_def listener_named_def demo_listener_def)
  have v: "live_at ?s ''a'' = Some (snd (demo_live ''a'' ''10.0.0.1:1'' [0] []))"
    "vAddrs (snd (demo_live ''a'' ''10.0.0.1:1'' [0] [])) = Addrs ?l"
    unfolding first_ports by (simp_all add: demo_live_def demo_listeners_simps)
  from console_listener_stop [OF first_ports_ok l v step] step show ?thesis by (cases r) auto
qed

end
