(* ===== verification/Traffic.thy ===== *)
theory Traffic
  imports Config_Types
begin

text \<open>
  The counters of the proxy (stats.go): the totals, those of each rule and listener, and the ring
  of samples the rates are computed from. A counter made on first use is an entry of a map. Each
  counter is one atomic integer of the code; \<open>float64\<close> is exact, as in Limiter.
\<close>

record Totals =
  tAccepted :: int
  tRejected :: int
  tDenied :: int
  tFailed :: int
  tCompleted :: int
  tActive :: int
  tStarted :: int
  tFinished :: int
  tUp :: int
  tDown :: int
  tHits :: int
  tMisses :: int

definition no_totals :: Totals where
  "no_totals = \<lparr>tAccepted = 0, tRejected = 0, tDenied = 0, tFailed = 0, tCompleted = 0, tActive = 0,
     tStarted = 0, tFinished = 0, tUp = 0, tDown = 0, tHits = 0, tMisses = 0\<rparr>"

record RuleStats =
  rsActive :: int
  rsTotal :: int
  rsUp :: int
  rsDown :: int

record ListenerStats =
  lsActive :: int
  lsAccepted :: int
  lsRejected :: int
  lsUp :: int
  lsDown :: int

record HostStats =
  hoActive :: int
  hoTotal :: int
  hoUp :: int
  hoDown :: int
  hoTerminated :: int

definition no_rule_stats :: RuleStats where
  "no_rule_stats = \<lparr>rsActive = 0, rsTotal = 0, rsUp = 0, rsDown = 0\<rparr>"

definition no_listener_stats :: ListenerStats where
  "no_listener_stats = \<lparr>lsActive = 0, lsAccepted = 0, lsRejected = 0, lsUp = 0, lsDown = 0\<rparr>"

definition no_host_stats :: HostStats where
  "no_host_stats = \<lparr>hoActive = 0, hoTotal = 0, hoUp = 0, hoDown = 0, hoTerminated = 0\<rparr>"

text \<open>\<open>LoadOrMake\<close>.\<close>

definition LoadOrMake :: "'k \<Rightarrow> 'v \<Rightarrow> ('k \<Rightarrow> 'v option) \<Rightarrow> 'v \<times> ('k \<Rightarrow> 'v option)" where
  "LoadOrMake k mk m = (case m k of Some v \<Rightarrow> (v, m) | None \<Rightarrow> (mk, m(k := Some mk)))"

type_synonym ruleCounters = "string \<Rightarrow> RuleStats option"
type_synonym listenerCounters = "string \<Rightarrow> ListenerStats option"

definition redirectKey :: string where
  "redirectKey = ''http-to-https-redirect'' @ [CHR 0x00] @ ''redirect''"

subsection \<open>Before a configuration goes live\<close>

definition make_all :: "'k list \<Rightarrow> 'v \<Rightarrow> ('k \<Rightarrow> 'v option) \<Rightarrow> ('k \<Rightarrow> 'v option)" where
  "make_all ks mk m = fold (\<lambda>k m. snd (LoadOrMake k mk m)) ks m"

definition prepare_rules :: "Config \<Rightarrow> string list" where
  "prepare_rules cfg = map Key (Rules cfg) @ (if Redirect cfg \<noteq> None then [redirectKey] else [])"

definition prepare :: "Config \<Rightarrow> ruleCounters \<times> listenerCounters \<Rightarrow> ruleCounters \<times> listenerCounters" where
  "prepare cfg s =
     (let rules = prepare_rules cfg; lists = map lName (PortListeners cfg);
          r = make_all rules no_rule_stats (fst s); l = make_all lists no_listener_stats (snd s) in
      ((\<lambda>k. if k \<in> set rules then r k else None), (\<lambda>k. if k \<in> set lists then l k else None)))"

lemma make_all_exact:
  "make_all ks mk m k = (if m k = None \<and> k \<in> set ks then Some mk else m k)"
  by (induction ks arbitrary: m) (auto simp: make_all_def LoadOrMake_def split: option.splits)

text \<open>
  The counters that exist afterwards are those of the configuration's rules and listeners, what
  was counted before is kept, and preparing twice changes nothing.
\<close>

lemma prepare_exact:
  "prepare cfg s = ((\<lambda>k. if k \<in> Key ` set (Rules cfg) \<or> Redirect cfg \<noteq> None \<and> k = redirectKey
                        then Some (case fst s k of Some v \<Rightarrow> v | None \<Rightarrow> no_rule_stats) else None),
                    (\<lambda>k. if k \<in> lName ` set (PortListeners cfg)
                        then Some (case snd s k of Some v \<Rightarrow> v | None \<Rightarrow> no_listener_stats) else None))"
  by (auto simp: prepare_def prepare_rules_def make_all_exact Let_def fun_eq_iff split: option.splits)

lemma prepare_idem: "prepare cfg (prepare cfg s) = prepare cfg s"
  by (auto simp: prepare_exact fun_eq_iff split: option.splits)

subsection \<open>Rates\<close>

definition rateWindow :: nat where "rateWindow = 5"

record rateSample =
  sampleAt :: int
  sampleUp :: int
  sampleDown :: int
  sampleAccepted :: int

record samples =
  sampleRing :: "rateSample list"
  sampleN :: nat

definition no_sample :: rateSample where
  "no_sample = \<lparr>sampleAt = 0, sampleUp = 0, sampleDown = 0, sampleAccepted = 0\<rparr>"

definition no_samples :: samples where
  "no_samples = \<lparr>sampleRing = replicate (rateWindow + 1) no_sample, sampleN = 0\<rparr>"

text \<open>Times are nanoseconds.\<close>

definition sample :: "int \<Rightarrow> Totals \<Rightarrow> samples \<Rightarrow> samples" where
  "sample now t s =
     s\<lparr>sampleRing := (sampleRing s)[sampleN s mod length (sampleRing s) :=
                 \<lparr>sampleAt = now, sampleUp = tUp t, sampleDown = tDown t, sampleAccepted = tAccepted t\<rparr>],
       sampleN := sampleN s + 1\<rparr>"

definition Rates :: "samples \<Rightarrow> rat \<times> rat \<times> rat" where
  "Rates s =
     (if sampleN s < 2 then (0, 0, 0)
      else let newest = sampleRing s ! ((sampleN s - 1) mod length (sampleRing s));
               oldest = sampleRing s ! (nat (max 0 (int (sampleN s) - int (length (sampleRing s)))) mod length (sampleRing s));
               secs = of_int (sampleAt newest - sampleAt oldest) / 1000000000 in
           if secs \<le> 0 then (0, 0, 0)
           else (of_int (sampleUp newest - sampleUp oldest) / secs,
                 of_int (sampleDown newest - sampleDown oldest) / secs,
                 of_int (sampleAccepted newest - sampleAccepted oldest) / secs))"

definition take_sample :: "int \<times> Totals \<Rightarrow> rateSample" where
  "take_sample x = \<lparr>sampleAt = fst x, sampleUp = tUp (snd x), sampleDown = tDown (snd x),
     sampleAccepted = tAccepted (snd x)\<rparr>"

text \<open>The ring holds the last samples, each at its number modulo the ring's size.\<close>

definition ring_of :: "(int \<times> Totals) list \<Rightarrow> samples \<Rightarrow> bool" where
  "ring_of xs s \<longleftrightarrow> length (sampleRing s) = rateWindow + 1 \<and> sampleN s = length xs
     \<and> (\<forall>i<length xs. length xs \<le> i + (rateWindow + 1) \<longrightarrow>
          sampleRing s ! (i mod (rateWindow + 1)) = take_sample (xs ! i))"

lemma rate_window_inj:
  fixes i j n :: nat
  assumes "i mod n = j mod n" "i \<le> j" "j < i + n"
  shows "i = j"
proof -
  have "(j - i) mod n = 0" using assms by (metis mod_eq_dvd_iff_nat mod_eq_0_iff_dvd)
  then show ?thesis using assms by simp
qed

lemma ring_of_sample:
  assumes r: "ring_of xs s"
  shows "ring_of (xs @ [x]) (sample (fst x) (snd x) s)"
proof -
  let ?n = "length xs"
  have len: "length (sampleRing s) = rateWindow + 1" "sampleN s = ?n"
    and at: "\<And>i. i < ?n \<Longrightarrow> ?n \<le> i + (rateWindow + 1) \<Longrightarrow> sampleRing s ! (i mod (rateWindow + 1)) = take_sample (xs ! i)"
    using r by (auto simp: ring_of_def)
  have other: "i mod (rateWindow + 1) \<noteq> ?n mod (rateWindow + 1)" if "i < ?n" "?n + 1 \<le> i + (rateWindow + 1)" for i
    using rate_window_inj [of i "rateWindow + 1" ?n] that by auto
  have "(sampleRing s)[?n mod (rateWindow + 1) := take_sample x] ! (i mod (rateWindow + 1)) = take_sample ((xs @ [x]) ! i)"
    if "i < ?n + 1" "?n + 1 \<le> i + (rateWindow + 1)" for i
    using at [of i] other [of i] len that by (cases "i = ?n") (auto simp: nth_append)
  then show ?thesis using len by (simp add: ring_of_def sample_def take_sample_def)
qed

lemma ring_of_run: "ring_of xs (fold (\<lambda>x. sample (fst x) (snd x)) xs no_samples)"
proof (induction xs rule: rev_induct)
  case Nil
  show ?case by (simp add: ring_of_def no_samples_def)
next
  case (snoc x xs)
  show ?case using ring_of_sample [OF snoc] by simp
qed

text \<open>What the rates are: the growth since the oldest sample of the window over the time since it.\<close>

definition rates_since :: "rateSample \<Rightarrow> rateSample \<Rightarrow> rat \<times> rat \<times> rat" where
  "rates_since a b =
     (let secs = of_int (sampleAt b - sampleAt a) / 1000000000; per = (\<lambda>f. of_int (f b - f a) / secs) in
      if secs \<le> 0 then (0, 0, 0) else (per sampleUp, per sampleDown, per sampleAccepted))"

lemma rates_window:
  assumes "2 \<le> length xs"
  shows "Rates (fold (\<lambda>x. sample (fst x) (snd x)) xs no_samples)
    = rates_since (take_sample (xs ! (length xs - (rateWindow + 1)))) (take_sample (last xs))"
proof -
  let ?s = "fold (\<lambda>x. sample (fst x) (snd x)) xs no_samples" and ?n = "length xs"
  have r: "ring_of xs ?s" by (rule ring_of_run)
  have len: "length (sampleRing ?s) = 6" "sampleN ?s = ?n" using r by (auto simp: ring_of_def rateWindow_def)
  have at: "sampleRing ?s ! (i mod 6) = take_sample (xs ! i)" if "i < ?n" "?n \<le> i + 6" for i
    using r that by (simp add: ring_of_def rateWindow_def)
  have "sampleRing ?s ! ((?n - 1) mod 6) = take_sample (last xs)"
    using at [of "?n - 1"] assms last_conv_nth [of xs] by (cases "xs = []") auto
  moreover have "nat (max 0 (int ?n - 6)) = ?n - 6" by simp
  moreover have "sampleRing ?s ! ((?n - 6) mod 6) = take_sample (xs ! (?n - 6))"
    using at [of "?n - 6"] assms by simp
  ultimately show ?thesis
    using assms by (simp add: Rates_def rates_since_def Let_def len rateWindow_def)
qed

end
