(* ===== verification/Flow_Log.thy ===== *)
theory Flow_Log
  imports Traffic Proxy_Protocol Rule_Config Host_Table "HOL-Library.Product_Lexorder" "HOL-Library.Multiset"
begin

text \<open>
  The state of one connection (stats.go, \<open>ConnState\<close>) and the flow log (flows.go): what a
  connection looked like when it closed is kept in a ring of the last 2000, and while a page
  watches, each event is published. Times are Unix milliseconds, addresses are kept unprinted and
  the texts of ends are constructors. JSON, the queue behind the pages and their WebSocket are not
  modelled: \<open>fSent\<close> is what was handed to the queue.
\<close>

subsection \<open>Connections\<close>

definition flowClosed :: string where "flowClosed = ''closed''"
definition flowDenied :: string where "flowDenied = ''denied''"
definition flowFailed :: string where "flowFailed = ''failed''"
definition flowACME :: string where "flowACME = ''acme''"
definition flowRejected :: string where "flowRejected = ''rejected''"

text \<open>How a connection ended or why it was turned away: the texts the code formats.\<close>

datatype end_reason =
    TooManyConnections int nat
  | TooManyOnListener string int nat
  | TooManyHandshakes
  | BadProxyHeader Proxy_Protocol.proxy_error
  | NoHelloWithin int
  | BadHello read_error
  | ConnectionLoop
  | ChallengeFailed string
  | ChallengeAnswered
  | RoutingError route_error
  | NoRuleMatched
  | DenyRule nat
  | CARefuses string issue_error
  | ConnectFailed string
  | ChallengeForPlaintext
  | TargetHeaderFailed Proxy_Protocol.proxy_error
  | TargetTLSFailed string
  | ClientTLSFailed string
  | TargetWriteFailed string
  | ShortHelloWrite
  | NoRequestWithin int
  | IdleAfter int nat
  | RequestTooLarge
  | ClientClosedAfter nat
  | ClosedBeforeRequest nat
  | BadRequest string
  | CannotRedirect string string string
  | ResponseFailed nat string
  | Redirected nat
  | Ended string

record flowHow =
  hwVia :: "net_addr option"
  hwViaVersion :: nat
  hwTLS :: string
  hwClientTLS :: string
  hwALPN :: string
  hwUpstream :: string
  hwResumed :: bool
  hwProxyOut :: int
  hwConnLimit :: rat
  hwShareLimit :: rat
  hwCached :: bool

definition no_how :: flowHow where
  "no_how = \<lparr>hwVia = None, hwViaVersion = 0, hwTLS = [], hwClientTLS = [], hwALPN = [], hwUpstream = [],
     hwResumed = False, hwProxyOut = 0, hwConnLimit = 0, hwShareLimit = 0, hwCached = False\<rparr>"

text \<open>
  \<open>cTerminated\<close> is \<open>Mode \<noteq> ""\<close>; \<open>cHost\<close> is the index of the name's counters, \<open>cRule\<close> the
  key of the rule's.
\<close>

record ConnState =
  cID :: nat
  cSrc :: net_addr
  cLocal :: net_addr
  cStart :: int
  cSNI :: string
  cDst :: string
  cPeer :: "net_addr option"
  cRouted :: bool
  cUpLocal :: "net_addr option"
  cResult :: string
  cReason :: "end_reason option"
  cHow :: flowHow
  cTerminated :: bool
  cHost :: "nat option"
  cListener :: string
  cRuleKey :: string
  cPattern :: string
  cRule :: "string option"
  cUp :: nat
  cDown :: nat
  cRelaying :: nat
  cSpliced :: nat

definition setEnd :: "string \<Rightarrow> end_reason \<Rightarrow> ConnState \<Rightarrow> ConnState" where
  "setEnd result reason c = c\<lparr>cResult := result, cReason := Some reason\<rparr>"

subsection \<open>Views of connections\<close>

record flowView =
  vwID :: nat
  vwSeq :: nat
  vwListener :: string
  vwSrc :: net_addr
  vwLocal :: net_addr
  vwSNI :: string
  vwRouted :: bool
  vwDst :: string
  vwPeer :: "net_addr option"
  vwRule :: string
  vwRuleKey :: string
  vwTerminated :: bool
  vwStarted :: int
  vwEnded :: int
  vwUp :: nat
  vwDown :: nat
  vwResult :: string
  vwReason :: "end_reason option"
  vwHow :: flowHow
  vwRelay :: string

definition flowHistory :: nat where "flowHistory = 2000"

record flowLog =
  fClosed :: "nat \<Rightarrow> flowView option"
  fNext :: nat
  fSeq :: nat
  fViewers :: nat
  fSent :: "(string \<times> flowView) list"

definition newFlowLog :: flowLog where
  "newFlowLog = \<lparr>fClosed = (\<lambda>_. None), fNext = 0, fSeq = 0, fViewers = 0, fSent = []\<rparr>"

definition relay_kind :: "nat \<Rightarrow> nat \<Rightarrow> string" where
  "relay_kind relaying spliced =
     (if relaying = 0 then [] else if spliced = relaying then ''splice''
      else if spliced = 0 then ''copy'' else ''splice+copy'')"

definition flow_view :: "ConnState \<Rightarrow> nat \<Rightarrow> flowView" where
  "flow_view c seq =
     \<lparr>vwID = cID c, vwSeq = seq, vwListener = cListener c, vwSrc = cSrc c, vwLocal = cLocal c,
      vwSNI = cSNI c, vwRouted = cRouted c, vwDst = cDst c, vwPeer = cPeer c, vwRule = cPattern c,
      vwRuleKey = cRuleKey c, vwTerminated = cTerminated c, vwStarted = cStart c, vwEnded = 0,
      vwUp = cUp c, vwDown = cDown c, vwResult = cResult c, vwReason = cReason c, vwHow = cHow c,
      vwRelay = relay_kind (cRelaying c) (cSpliced c)\<rparr>"

definition publish :: "string \<Rightarrow> flowView \<Rightarrow> flowLog \<Rightarrow> flowLog" where
  "publish typ v f = f\<lparr>fSent := fSent f @ [(typ, v)]\<rparr>"

definition emit :: "string \<Rightarrow> ConnState \<Rightarrow> flowLog \<Rightarrow> flowLog" where
  "emit typ c f =
     (if fViewers f = 0 then f
      else publish typ (flow_view c (fSeq f + 1)) (f\<lparr>fSeq := fSeq f + 1\<rparr>))"

definition record_view :: "flowView \<Rightarrow> flowLog \<Rightarrow> flowLog" where
  "record_view v f =
     (let f = f\<lparr>fClosed := (fClosed f)(fNext f mod flowHistory := Some v), fNext := fNext f + 1\<rparr> in
      if 0 < fViewers f then publish ''close'' v f else f)"

definition flow_end :: "int \<Rightarrow> ConnState \<Rightarrow> flowLog \<Rightarrow> flowLog" where
  "flow_end now c f =
     (let v = (flow_view c (fSeq f + 1))\<lparr>vwEnded := now\<rparr>;
          v = (if vwResult v = [] then v\<lparr>vwResult := flowClosed\<rparr> else v) in
      record_view v (f\<lparr>fSeq := fSeq f + 1\<rparr>))"

definition refused :: "nat \<Rightarrow> string \<Rightarrow> int \<Rightarrow> int \<Rightarrow> net_addr \<Rightarrow> net_addr \<Rightarrow> end_reason \<Rightarrow> flowLog \<Rightarrow> flowLog" where
  "refused i listener start now src local reason f =
     record_view
       \<lparr>vwID = i, vwSeq = fSeq f + 1, vwListener = listener, vwSrc = src, vwLocal = local, vwSNI = [],
        vwRouted = False, vwDst = [], vwPeer = None, vwRule = [], vwRuleKey = [], vwTerminated = False,
        vwStarted = start, vwEnded = now, vwUp = 0, vwDown = 0, vwResult = flowRejected,
        vwReason = Some reason, vwHow = no_how, vwRelay = []\<rparr>
       (f\<lparr>fSeq := fSeq f + 1\<rparr>)"

text \<open>\<open>sort.Slice\<close> by when they ended, then by number; numbers are never equal.\<close>

definition view_key :: "flowView \<Rightarrow> int \<times> nat" where
  "view_key v = (vwEnded v, vwSeq v)"

definition kept_views :: "flowLog \<Rightarrow> flowView list" where
  "kept_views f = List.map_filter (fClosed f) [0..<flowHistory]"

definition closedSince :: "int \<Rightarrow> flowLog \<Rightarrow> flowView list" where
  "closedSince since f = sort_key view_key (filter (\<lambda>v. since \<le> vwEnded v) (kept_views f))"

subsection \<open>What the ring keeps\<close>

text \<open>The events of a log: connections that end, that are turned away, and events on the way.\<close>

datatype flow_op = Emit string ConnState | End int ConnState | Refuse nat string int int net_addr net_addr end_reason

fun flow_step :: "flow_op \<Rightarrow> flowLog \<Rightarrow> flowLog" where
  "flow_step (Emit typ c) f = emit typ c f"
| "flow_step (End now c) f = flow_end now c f"
| "flow_step (Refuse i l s n a b r) f = refused i l s n a b r f"

text \<open>The view an event records, numbered \<open>n\<close>, and all the views of a run, in order.\<close>

fun view_of :: "flow_op \<Rightarrow> nat \<Rightarrow> flowView option" where
  "view_of (Emit typ c) n = None"
| "view_of (End now c) n =
     Some ((flow_view (if cResult c = [] then c\<lparr>cResult := flowClosed\<rparr> else c) n)\<lparr>vwEnded := now\<rparr>)"
| "view_of (Refuse i l s t a b r) n =
     Some \<lparr>vwID = i, vwSeq = n, vwListener = l, vwSrc = a, vwLocal = b, vwSNI = [], vwRouted = False,
           vwDst = [], vwPeer = None, vwRule = [], vwRuleKey = [], vwTerminated = False, vwStarted = s,
           vwEnded = t, vwUp = 0, vwDown = 0, vwResult = flowRejected, vwReason = Some r, vwHow = no_how,
           vwRelay = []\<rparr>"

fun recorded :: "flow_op list \<Rightarrow> bool \<Rightarrow> nat \<Rightarrow> flowView list" where
  "recorded [] watched n = []"
| "recorded (op # ops) watched n =
     (case view_of op (n + 1) of
        None \<Rightarrow> recorded ops watched (if watched then n + 1 else n)
      | Some v \<Rightarrow> v # recorded ops watched (n + 1))"

definition last_views :: "flowView list \<Rightarrow> flowView list" where
  "last_views vs = drop (length vs - flowHistory) vs"

lemma flow_step_view:
  assumes "view_of op (fSeq f + 1) = Some v"
  shows "flow_step op f = record_view v (f\<lparr>fSeq := fSeq f + 1\<rparr>)"
  using assms by (cases op) (auto simp: flow_end_def refused_def flow_view_def Let_def)

lemma flow_step_quiet:
  "view_of op (fSeq f + 1) = None \<Longrightarrow>
   flow_step op f = f \<or> (\<exists>sent. flow_step op f = f\<lparr>fSeq := fSeq f + 1, fSent := sent\<rparr>)"
  by (cases op) (auto simp: emit_def publish_def intro!: exI)

lemma record_view_fields [simp]:
  "fClosed (record_view v f) = (fClosed f)(fNext f mod flowHistory := Some v)"
  "fNext (record_view v f) = fNext f + 1" "fSeq (record_view v f) = fSeq f"
  "fViewers (record_view v f) = fViewers f"
  by (simp_all add: record_view_def publish_def Let_def)

text \<open>The last 2000 views are in the slots of their positions; slots never used are empty.\<close>

definition ring_holds :: "flowView list \<Rightarrow> flowLog \<Rightarrow> bool" where
  "ring_holds vs f \<longleftrightarrow> fNext f = length vs
     \<and> (\<forall>i<length vs. length vs \<le> i + flowHistory \<longrightarrow> fClosed f (i mod flowHistory) = Some (vs ! i))
     \<and> (\<forall>s<flowHistory. length vs \<le> s \<longrightarrow> fClosed f s = None)"

lemma history_pos [simp]: "0 < flowHistory"
  by (simp add: flowHistory_def)

lemma ring_holds_record:
  assumes "ring_holds vs f"
  shows "ring_holds (vs @ [v]) (record_view v (f\<lparr>fSeq := k\<rparr>))"
proof -
  have n: "fNext f = length vs" using assms by (simp add: ring_holds_def)
  have old: "fClosed f (i mod flowHistory) = Some (vs ! i) \<and> i mod flowHistory \<noteq> length vs mod flowHistory"
    if "i < length vs" "length vs + 1 \<le> i + flowHistory" for i
    using assms that rate_window_inj [of i flowHistory "length vs"] by (auto simp: ring_holds_def)
  have fresh: "s \<noteq> length vs mod flowHistory" if "s < flowHistory" "length vs + 1 \<le> s" for s
    using that by auto
  show ?thesis
    using assms old fresh by (auto simp: ring_holds_def n nth_append less_Suc_eq)
qed

lemma ring_holds_step:
  assumes "ring_holds vs f"
  shows "ring_holds (vs @ (case view_of op (fSeq f + 1) of Some v \<Rightarrow> [v] | None \<Rightarrow> [])) (flow_step op f)"
proof (cases "view_of op (fSeq f + 1)")
  case None
  then show ?thesis using assms flow_step_quiet [OF None] by (auto simp: ring_holds_def)
next
  case (Some v)
  then show ?thesis using ring_holds_record [OF assms] flow_step_view [OF Some] by simp
qed

lemma mod_bij: "bij_betw (\<lambda>i. i mod n) {m..<m + n} {0..<n :: nat}"
proof -
  have "inj_on (\<lambda>i. i mod n) {m..<m + n}"
  proof (rule inj_onI)
    fix i j assume "i \<in> {m..<m + n}" "j \<in> {m..<m + n}" "i mod n = j mod n"
    then show "i = j" using rate_window_inj [of i n j] rate_window_inj [of j n i] by (cases "i \<le> j") auto
  qed
  moreover have "(\<lambda>i. i mod n) ` {m..<m + n} \<subseteq> {0..<n}" by (cases "n = 0") auto
  ultimately show ?thesis
    by (simp add: bij_betw_def card_image card_subset_eq)
qed

lemma map_filter_Some: "(\<And>x. x \<in> set xs \<Longrightarrow> g x = Some (h x)) \<Longrightarrow> List.map_filter g xs = map h xs"
  by (induction xs) (auto simp: List.map_filter_def)

lemma map_filter_None: "(\<And>x. x \<in> set xs \<Longrightarrow> g x = None) \<Longrightarrow> List.map_filter g xs = []"
  by (induction xs) (auto simp: List.map_filter_def)

lemma map_filter_append: "List.map_filter g (xs @ ys) = List.map_filter g xs @ List.map_filter g ys"
  by (simp add: List.map_filter_def)

lemma kept_few:
  assumes r: "ring_holds vs f" and n: "length vs \<le> flowHistory"
  shows "kept_views f = vs"
proof -
  have split: "[0..<flowHistory] = [0..<length vs] @ [length vs..<flowHistory]"
    using n by (metis le_add_diff_inverse upt_add_eq_append zero_le)
  have "List.map_filter (fClosed f) [0..<length vs] = map ((!) vs) [0..<length vs]"
  proof (rule map_filter_Some)
    fix i assume "i \<in> set [0..<length vs]"
    then have "i < length vs" by simp
    then show "fClosed f i = Some (vs ! i)" using r n by (auto simp: ring_holds_def)
  qed
  moreover have "List.map_filter (fClosed f) [length vs..<flowHistory] = []"
    using r by (intro map_filter_None) (auto simp: ring_holds_def)
  ultimately show ?thesis by (simp add: kept_views_def split map_filter_append map_nth)
qed

lemma kept_many:
  assumes r: "ring_holds vs f" and n: "flowHistory \<le> length vs"
  shows "mset (kept_views f) = mset (last_views vs)"
proof -
  let ?m = "length vs - flowHistory" and ?slot = "\<lambda>i. i mod flowHistory"
  have bij: "bij_betw ?slot {?m..<length vs} {0..<flowHistory}"
    using mod_bij [of flowHistory ?m] n by simp
  have slot: "fClosed f (?slot i) = Some (vs ! i)" if "i \<in> {?m..<length vs}" for i
    using r n that by (auto simp: ring_holds_def)
  have some: "fClosed f s = Some (the (fClosed f s))" if s: "s \<in> set [0..<flowHistory]" for s
  proof -
    obtain i where "i \<in> {?m..<length vs}" "s = ?slot i" using bij s by (metis atLeastLessThan_upt bij_betw_iff_bijections)
    then show ?thesis using slot by simp
  qed
  have "mset (kept_views f) = image_mset (\<lambda>s. the (fClosed f s)) (mset_set {0..<flowHistory})"
    unfolding kept_views_def by (subst map_filter_Some [OF some]) simp_all
  also have "\<dots> = image_mset (\<lambda>i. the (fClosed f (?slot i))) (mset_set {?m..<length vs})"
  proof -
    have slots: "image_mset ?slot (mset_set {?m..<length vs}) = mset_set {0..<flowHistory}"
      using bij by (simp add: image_mset_mset_set bij_betw_def)
    show ?thesis by (simp only: multiset.map_comp comp_def flip: slots)
  qed
  also have "\<dots> = image_mset ((!) vs) (mset_set {?m..<length vs})"
    using slot by (intro image_mset_cong) auto
  also have "\<dots> = mset (map ((!) vs) [?m..<length vs])" by simp
  also have "map ((!) vs) [?m..<length vs] = last_views vs"
    unfolding last_views_def by (rule nth_equalityI) auto
  finally show ?thesis .
qed

lemma kept_last: "ring_holds vs f \<Longrightarrow> mset (kept_views f) = mset (last_views vs)"
  using kept_few [of vs f] kept_many [of vs f] by (cases "length vs \<le> flowHistory") (auto simp: last_views_def)

lemma emit_seq: "fSeq (emit typ c f) = (if fViewers f = 0 then fSeq f else fSeq f + 1)"
  by (simp add: emit_def publish_def)

lemma step_fields:
  "fViewers (flow_step op f) = fViewers f"
  "fSeq (flow_step op f) = (case view_of op (fSeq f + 1) of
     Some _ \<Rightarrow> fSeq f + 1 | None \<Rightarrow> if 0 < fViewers f then fSeq f + 1 else fSeq f)"
  by (cases op; simp add: emit_def publish_def flow_end_def refused_def Let_def)+

lemma run_holds:
  "ring_holds vs f \<Longrightarrow> ring_holds (vs @ recorded ops (0 < fViewers f) (fSeq f)) (fold flow_step ops f)"
proof (induction ops arbitrary: vs f)
  case (Cons op ops)
  note step = ring_holds_step [OF Cons.prems, of op]
  show ?case using Cons.IH [OF step] by (auto simp: step_fields split: option.splits)
qed simp

lemma recorded_seqs: "v \<in> set (recorded ops w n) \<Longrightarrow> n < vwSeq v"
proof (induction ops arbitrary: n)
  case (Cons op ops)
  have "vwSeq v' = n + 1" if "view_of op (n + 1) = Some v'" for v'
    using that by (cases op) (auto simp: flow_view_def)
  then show ?case using Cons by (auto split: option.splits if_splits dest: Suc_lessD)
qed simp

text \<open>
  C18. The flow log's answer about the past: after any run of events on a fresh log, with any
  number of pages watching, \<open>closedSince\<close> lists exactly those of the last 2000 connections ended
  or turned away that ended at or after the time asked for, each once, ordered by when they ended
  and then in the order they were recorded.
\<close>
theorem flow_history:
  "let f = fold flow_step ops (newFlowLog\<lparr>fViewers := pages\<rparr>); vs = recorded ops (0 < pages) 0 in
     mset (closedSince since f) = filter_mset (\<lambda>v. since \<le> vwEnded v) (mset (last_views vs))
     \<and> sorted (map view_key (closedSince since f)) \<and> distinct (map vwSeq vs)"
proof -
  let ?f = "fold flow_step ops (newFlowLog\<lparr>fViewers := pages\<rparr>)" and ?vs = "recorded ops (0 < pages) 0"
  have "ring_holds ?vs ?f"
    using run_holds [of "[]" "newFlowLog\<lparr>fViewers := pages\<rparr>" ops] by (simp add: ring_holds_def newFlowLog_def)
  then have "mset (kept_views ?f) = mset (last_views ?vs)" by (rule kept_last)
  moreover have "distinct (map vwSeq (recorded ops w n))" for w n
  proof (induction ops arbitrary: n)
    case (Cons op ops)
    have "vwSeq v = n + 1" if "view_of op (n + 1) = Some v" for v
      using that by (cases op) (auto simp: flow_view_def)
    then show ?case using Cons recorded_seqs by (force split: option.splits)
  qed simp
  ultimately show ?thesis by (simp add: closedSince_def Let_def)
qed

end
