(* ===== verification/Handle.thy ===== *)
theory Handle
  imports Flow_Log Route_Cache Nonce Buffer_Pool Admission Limiter
begin

text \<open>
  One connection from accept to close (proxy.go, \<open>handle\<close>, \<open>terminate\<close>; serve.go, \<open>serveHere\<close>).
  The functions pass the server's state on and append what they do to the two sockets, in order, to
  \<open>svActs\<close>. What the world answers during the connection (the bytes of the client, the dial, TLS
  handshakes, writes, the clock, what the console has stopped by then) is a record, and the
  relaying itself, the subject of Relay, is the outcome of one answer. A call runs as if alone;
  how calls interleave on the state they share is the subject of Admission, Conn_Table, Ring,
  Buffer_Pool and Rule_Stop. The \<open>defer\<close>s of the code are the calls around a stage.
\<close>

subsection \<open>What the code works on\<close>

text \<open>What is done to the sockets of a connection.\<close>

datatype act =
    ReadBy int
  | ReadAnytime
  | ToClient bytes
  | ChallengeTLS string bytes
  | ClientTLS bytes "string list"
  | Dial string nat
  | WriteBy int
  | WriteAnytime
  | ToTarget bytes
  | TargetTLS string bool "string list"
  | Remember "64 word"
  | RelayBoth
  | AnswerBy int
  | CloseWriting
  | CloseBoth
  | CloseTarget
  | CloseClient

record server =
  svCounts :: sourceCounts
  svNonces :: nonceCache
  svCache :: RouteCache
  svPool :: BufferPool
  svTotals :: Totals
  svRules :: ruleCounters
  svLists :: listenerCounters
  svHosts :: hostTable
  svHostStats :: "nat \<Rightarrow> HostStats"
  svOpen :: "nat list"
  svFlows :: flowLog
  svActs :: "act list"

text \<open>The keyed hashes of the process: of sources, of ClientHellos, of names.\<close>

record hashes =
  hashSource :: "bytes \<Rightarrow> nat"
  hashHello :: "bytes \<Rightarrow> 64 word"
  hashName :: "string \<Rightarrow> nat"

record tlsState =
  tlsVersion :: string
  tlsALPN :: string
  tlsResumed :: bool

text \<open>
  What the world answers: the socket's addresses, the bytes that arrive and how the network cuts
  what is left of them, times, whether the cache's lock is taken, the rules stopped when it is
  routed and when it starts relaying, the answer to a challenge and its handshake, the dial with
  the addresses of the new socket, what writes accept, the handshakes' outcomes and the relaying:
  bytes up and down and why it ended.
\<close>

record answers =
  aID :: nat
  aRemote :: net_addr
  aLocal :: net_addr
  aInbound :: inbound
  aCut :: "bytes \<Rightarrow> bytes list"
  aStart :: int
  aEnd :: int
  aSeenAt :: nat
  aSentAt :: nat
  aPutAt :: nat
  aBusy :: bool
  aStopped :: "string \<Rightarrow> bool"
  aStoppedLate :: "string \<Rightarrow> bool"
  aChallenge :: "string \<Rightarrow> bool"
  aChallengeTLS :: "string option"
  aDial :: "(string, net_addr \<times> net_addr) result"
  aHeaderWrites :: "(nat \<times> bool) list"
  aHelloWrite :: "nat \<times> string option"
  aTargetTLS :: "(string, string) result"
  aClientTLS :: "(string, tlsState) result"
  aKillReason :: string
  aTraffic :: "nat \<times> nat"
  aRelayEnd :: string

definition alertAccessDenied :: bytes where
  "alertAccessDenied = [0x15, 0x03, 0x03, 0x00, 0x02, 0x02, 49]"

definition acmeALPN :: string where "acmeALPN = ''acme-tls/1''"

definition isTimeout :: "read_error \<Rightarrow> bool" where
  "isTimeout e \<longleftrightarrow> e = ReadErr ReadTimeout"

definition addrOf :: "net_addr \<Rightarrow> addr" where
  "addrOf a = (case a of
     OtherAddr _ \<Rightarrow> NoAddr
   | TCPAddr ip _ _ \<Rightarrow> (case AddrFromSlice ip of Some ip \<Rightarrow> Unmap ip | None \<Rightarrow> NoAddr))"

subsection \<open>Small steps on the state\<close>

definition act :: "act \<Rightarrow> server \<Rightarrow> server" where
  "act a s = s\<lparr>svActs := svActs s @ [a]\<rparr>"

definition total :: "(Totals \<Rightarrow> Totals) \<Rightarrow> server \<Rightarrow> server" where
  "total f s = s\<lparr>svTotals := f (svTotals s)\<rparr>"

definition accepted :: "int \<Rightarrow> server \<Rightarrow> server" where
  "accepted d = total (\<lambda>t. t\<lparr>tAccepted := tAccepted t + d\<rparr>)"

definition rejected :: "server \<Rightarrow> server" where
  "rejected = total (\<lambda>t. t\<lparr>tRejected := tRejected t + 1\<rparr>)"

definition denied_one :: "server \<Rightarrow> server" where
  "denied_one = total (\<lambda>t. t\<lparr>tDenied := tDenied t + 1\<rparr>)"

definition failed_one :: "server \<Rightarrow> server" where
  "failed_one = total (\<lambda>t. t\<lparr>tFailed := tFailed t + 1\<rparr>)"

definition completed_one :: "server \<Rightarrow> server" where
  "completed_one = total (\<lambda>t. t\<lparr>tCompleted := tCompleted t + 1\<rparr>)"

definition put_buffer :: "answers \<Rightarrow> buffer \<Rightarrow> server \<Rightarrow> server" where
  "put_buffer w b s = s\<lparr>svPool := Pool_Put (aPutAt w) b (svPool s)\<rparr>"

definition flows :: "(flowLog \<Rightarrow> flowLog) \<Rightarrow> server \<Rightarrow> server" where
  "flows f s = s\<lparr>svFlows := f (svFlows s)\<rparr>"

definition hold_source :: "hashes \<Rightarrow> net_addr \<Rightarrow> Config \<Rightarrow> server \<Rightarrow> nat option \<times> server" where
  "hold_source h a cfg s =
     (case beginHandshake (hashSource h) (sourceKey a) (int (MaxHandshakesPerIP cfg)) (svCounts s) of
        (slot, counts) \<Rightarrow> (slot, s\<lparr>svCounts := counts\<rparr>))"

definition release_source :: "nat \<Rightarrow> server \<Rightarrow> server" where
  "release_source slot s = s\<lparr>svCounts := endHandshake slot (svCounts s)\<rparr>"

definition rule_stats :: "string \<Rightarrow> (RuleStats \<Rightarrow> RuleStats) \<Rightarrow> server \<Rightarrow> server" where
  "rule_stats key f s =
     (case LoadOrMake key no_rule_stats (svRules s) of (v, m) \<Rightarrow> s\<lparr>svRules := m(key := Some (f v))\<rparr>)"

definition listener_stats :: "string \<Rightarrow> (ListenerStats \<Rightarrow> ListenerStats) \<Rightarrow> server \<Rightarrow> server" where
  "listener_stats name f s =
     (case LoadOrMake name no_listener_stats (svLists s) of (v, m) \<Rightarrow> s\<lparr>svLists := m(name := Some (f v))\<rparr>)"

definition host_stats :: "nat option \<Rightarrow> (HostStats \<Rightarrow> HostStats) \<Rightarrow> server \<Rightarrow> server" where
  "host_stats i f s =
     (case i of None \<Rightarrow> s | Some i \<Rightarrow> s\<lparr>svHostStats := (svHostStats s)(i := f (svHostStats s i))\<rparr>)"

definition register :: "ConnState \<Rightarrow> server \<Rightarrow> server" where
  "register c s = flows (emit ''open'' c) (s\<lparr>svOpen := cID c # svOpen s\<rparr>)"

definition unregister :: "int \<Rightarrow> ConnState \<times> server \<Rightarrow> server" where
  "unregister now cs =
     (case cs of (c, s) \<Rightarrow> flows (flow_end now c) (s\<lparr>svOpen := remove1 (cID c) (svOpen s)\<rparr>))"

text \<open>Bytes that go up and down are counted for the connection, its name, rule, listener and in all.\<close>

definition count_bytes :: "nat \<Rightarrow> nat \<Rightarrow> ConnState \<times> server \<Rightarrow> ConnState \<times> server" where
  "count_bytes up down cs =
     (case cs of (c, s) \<Rightarrow>
        let s = total (\<lambda>t. t\<lparr>tUp := tUp t + int up, tDown := tDown t + int down\<rparr>) s;
            s = listener_stats (cListener c) (\<lambda>l. l\<lparr>lsUp := lsUp l + int up, lsDown := lsDown l + int down\<rparr>) s;
            s = (case cRule c of None \<Rightarrow> s
                 | Some k \<Rightarrow> rule_stats k (\<lambda>r. r\<lparr>rsUp := rsUp r + int up, rsDown := rsDown r + int down\<rparr>) s);
            s = host_stats (cHost c) (\<lambda>h. h\<lparr>hoUp := hoUp h + int up, hoDown := hoDown h + int down\<rparr>) s
        in (c\<lparr>cUp := cUp c + up, cDown := cDown c + down\<rparr>, s))"

subsection \<open>Relaying and serving\<close>

definition served_end :: string where "served_end = ''closed (HTTP connection ended)''"

definition stopped_from_console :: string where
  "stopped_from_console = ''rule stopped from the console; closed by proxy''"

text \<open>
  The stop that meets a connection at the start of its relaying: one asked for earlier, else that
  of its rule since it was routed.
\<close>

definition early_stop :: "answers \<Rightarrow> string \<Rightarrow> string option" where
  "early_stop w key =
     (if aKillReason w \<noteq> [] then Some (aKillReason w)
      else if aStoppedLate w key then Some stopped_from_console else None)"

definition closed_with :: "string \<Rightarrow> ConnState \<times> server \<Rightarrow> ConnState \<times> server" where
  "closed_with reason cs = (setEnd flowClosed (Ended reason) (fst cs), completed_one (snd cs))"

definition failed_with :: "end_reason \<Rightarrow> ConnState \<times> server \<Rightarrow> ConnState \<times> server" where
  "failed_with reason cs = (setEnd flowFailed reason (fst cs), failed_one (snd cs))"

definition run_relay :: "answers \<Rightarrow> string \<Rightarrow> ConnState \<times> server \<Rightarrow> ConnState \<times> server" where
  "run_relay w key cs =
     (case early_stop w key of
        Some reason \<Rightarrow> closed_with reason (fst cs, act CloseBoth (snd cs))
      | None \<Rightarrow> closed_with (aRelayEnd w)
                  (count_bytes (fst (aTraffic w)) (snd (aTraffic w)) (fst cs, act RelayBoth (snd cs))))"

text \<open>
  A connection served here: \<open>aTraffic\<close> is what passed in all, the handshake included. Which web
  server takes the connection, and its requests, are not modelled.
\<close>

definition serve_protos :: "helloInfo \<Rightarrow> string list" where
  "serve_protos info = filter (offers info) [''h2'', ''http/1.1'']"

definition terminated_how :: "tlsState \<Rightarrow> string \<Rightarrow> ConnState \<Rightarrow> ConnState" where
  "terminated_how st upstream c =
     c\<lparr>cTerminated := True,
       cHow := (cHow c)\<lparr>hwTLS := ''terminated'', hwClientTLS := tlsVersion st, hwALPN := tlsALPN st,
                        hwResumed := tlsResumed st, hwUpstream := upstream\<rparr>\<rparr>"

definition host_terminated :: "ConnState \<Rightarrow> server \<Rightarrow> server" where
  "host_terminated c = host_stats (cHost c) (\<lambda>h. h\<lparr>hoTerminated := hoTerminated h + 1\<rparr>)"

definition serveHere :: "answers \<Rightarrow> Rule \<Rightarrow> helloInfo \<Rightarrow> bytes \<Rightarrow> buffer \<Rightarrow> ConnState \<times> server \<Rightarrow> ConnState \<times> server" where
  "serveHere w r info hello buf cs =
     (let s = put_buffer w buf (act (ClientTLS hello (serve_protos info)) (snd cs));
          cs = count_bytes (fst (aTraffic w)) (snd (aTraffic w)) (fst cs, s);
          pattern = drop 1 (dropWhile (\<lambda>x. x \<noteq> CHR 0x00) (Key r)) in
      case aClientTLS w of
        Inl e \<Rightarrow> failed_with (ClientTLSFailed e) cs
      | Inr st \<Rightarrow>
          let s = host_terminated (fst cs) (snd cs);
              c = terminated_how st ''served'' (fst cs);
              s = flows (emit ''route'' c) s in
          closed_with
            (case early_stop w (cListener c @ NUL @ pattern) of
               Some reason \<Rightarrow> reason
             | None \<Rightarrow> if aRelayEnd w = [] then served_end else aRelayEnd w) (c, s))"

subsection \<open>Terminating TLS\<close>

text \<open>The PROXY header for the target: what reached it, and the error of its writes.\<close>

definition send_header :: "answers \<Rightarrow> Config \<Rightarrow> Rule \<Rightarrow> net_addr \<Rightarrow> net_addr \<Rightarrow> server \<Rightarrow> Proxy_Protocol.proxy_error option \<times> server" where
  "send_header w cfg r src local s =
     (let s = act (WriteBy (ConnectTimeout cfg)) s in
      case writeProxyProtocol (aHeaderWrites w) (rProxyVersion r) src local of
        (Some e, sent) \<Rightarrow> (Some e, act (ToTarget sent) s)
      | (None, sent) \<Rightarrow> (None, act WriteAnytime (act (ToTarget sent) s)))"

definition target_name :: "Rule \<Rightarrow> helloInfo \<Rightarrow> Decision \<Rightarrow> string" where
  "target_name r info d =
     (if rUpstreamSNI r \<noteq> [] then rUpstreamSNI r else if SNI info \<noteq> [] then SNI info else dHost d)"

text \<open>The protocols offered to the target, and those then offered to the client.\<close>

definition target_offer :: "helloInfo \<Rightarrow> string list" where
  "target_offer info = filter (\<lambda>p. p \<noteq> acmeALPN) (ALPN info)"

definition terminate ::
  "answers \<Rightarrow> Config \<Rightarrow> Rule \<Rightarrow> net_addr \<Rightarrow> net_addr \<Rightarrow> bytes \<Rightarrow> helloInfo \<Rightarrow> Decision \<Rightarrow> server
   \<Rightarrow> (end_reason, tlsState) result \<times> server" where
  "terminate w cfg r src local hello info d s =
     (case (if rProxy r then send_header w cfg r src local s else (None, s)) of
        (Some e, s) \<Rightarrow> (Inl (TargetHeaderFailed e), s)
      | (None, s) \<Rightarrow>
          (case (if rUpstreamTLS r
                 then (map_sum TargetTLSFailed (\<lambda>p. if p = [] then [] else [p]) (aTargetTLS w),
                       act (TargetTLS (target_name r info d) (rUpstreamTLSVerify r) (target_offer info)) s)
                 else (Inr (if offers info ''http/1.1'' then [''http/1.1''] else []), s)) of
             (Inl e, s) \<Rightarrow> (Inl e, s)
           | (Inr protos, s) \<Rightarrow> (map_sum ClientTLSFailed id (aClientTLS w), act (ClientTLS hello protos) s)))"

definition upstream_kind :: "Rule \<Rightarrow> string" where
  "upstream_kind r =
     (if \<not> rUpstreamTLS r then ''plain'' else if \<not> rUpstreamTLSVerify r then ''tls-unverified'' else ''tls'')"

subsection \<open>With the target connected\<close>

text \<open>Passing through: the digest, the header, then the ClientHello as it came.\<close>

definition send_hello :: "answers \<Rightarrow> Config \<Rightarrow> bytes \<Rightarrow> buffer \<Rightarrow> ConnState \<times> server \<Rightarrow> end_reason option \<times> ConnState \<times> server" where
  "send_hello w cfg hello buf cs =
     (let s = (if 0 < IdleTimeout cfg then act (WriteBy (IdleTimeout cfg)) (snd cs) else snd cs);
          (n, e) = aHelloWrite w;
          cs = count_bytes n 0 (fst cs, act (ToTarget (take n hello)) s) in
      (case e of Some e \<Rightarrow> Some (TargetWriteFailed e) | None \<Rightarrow> if n \<noteq> length hello then Some ShortHelloWrite else None,
       fst cs, put_buffer w buf (snd cs)))"

definition pass_through ::
  "answers \<Rightarrow> Config \<Rightarrow> Rule \<Rightarrow> net_addr \<Rightarrow> net_addr \<Rightarrow> bytes \<Rightarrow> buffer \<Rightarrow> helloInfo \<Rightarrow> ConnState \<times> server
   \<Rightarrow> end_reason option \<times> ConnState \<times> server" where
  "pass_through w cfg r src local hello buf info cs =
     (let c = (fst cs)\<lparr>cHow := (cHow (fst cs))\<lparr>hwTLS := ''passthrough'', hwALPN := Join '','' (ALPN info)\<rparr>\<rparr>;
          s = (if RememberNonce cfg
               then act (Remember (Digest info)) ((snd cs)\<lparr>svNonces := remember (svNonces (snd cs)) (Digest info) (aSentAt w)\<rparr>)
               else snd cs) in
      case (if rProxy r then send_header w cfg r src local s else (None, s)) of
        (Some e, s) \<Rightarrow> (Some (TargetHeaderFailed e), c, put_buffer w buf s)
      | (None, s) \<Rightarrow> send_hello w cfg hello buf (c, s))"

definition handle_connected ::
  "answers \<Rightarrow> Config \<Rightarrow> Rule \<Rightarrow> net_addr \<Rightarrow> net_addr \<Rightarrow> bytes \<Rightarrow> buffer \<Rightarrow> helloInfo \<Rightarrow> Decision \<Rightarrow>
   ConnState \<times> server \<Rightarrow> ConnState \<times> server" where
  "handle_connected w cfg r src local hello buf info d cs =
     (let foreign = Terminates r \<and> offers info acmeALPN in
      if foreign \<and> \<not> rUpstreamTLS r
      then failed_with ChallengeForPlaintext (fst cs, put_buffer w buf (snd cs))
      else if Terminates r \<and> \<not> foreign
      then (case terminate w cfg r src local hello info d (snd cs) of
              (Inl e, s) \<Rightarrow> failed_with e (fst cs, put_buffer w buf s)
            | (Inr st, s) \<Rightarrow>
                let s = host_terminated (fst cs) (put_buffer w buf s);
                    c = terminated_how st (upstream_kind r) (fst cs) in
                run_relay w (Key r) (c, flows (emit ''route'' c) s))
      else (case pass_through w cfg r src local hello buf info cs of
              (Some e, cs) \<Rightarrow> failed_with e cs
            | (None, c, s) \<Rightarrow> run_relay w (Key r) (c, flows (emit ''route'' c) s)))"

subsection \<open>An allowed connection\<close>

definition refuse_client :: "ConnState \<times> server \<Rightarrow> ConnState \<times> server" where
  "refuse_client cs = (fst cs, act (ToClient alertAccessDenied) (snd cs))"

definition handle_target ::
  "answers \<Rightarrow> Config \<Rightarrow> Rule \<Rightarrow> net_addr \<Rightarrow> net_addr \<Rightarrow> bytes \<Rightarrow> buffer \<Rightarrow> helloInfo \<Rightarrow> Decision \<Rightarrow>
   ConnState \<times> server \<Rightarrow> ConnState \<times> server" where
  "handle_target w cfg r src local hello buf info d cs =
     (case (if LocalCA r \<noteq> [] then LocalCAName r (SNI info) (SNIIP info) (addrOf local) else Inr []) of
        Inl e \<Rightarrow> refuse_client (failed_with (CARefuses (LocalCA r) e) (fst cs, put_buffer w buf (snd cs)))
      | Inr _ \<Rightarrow>
          if Serves r then serveHere w r info hello buf cs
          else let s = act (Dial (dHost d) (dPort d)) (snd cs) in
            (case aDial w of
               Inl e \<Rightarrow> failed_with (ConnectFailed e) (fst cs, put_buffer w buf s)
             | Inr (peer, own) \<Rightarrow>
                 let (c, s) = handle_connected w cfg r src local hello buf info d
                                ((fst cs)\<lparr>cPeer := Some peer, cUpLocal := Some own\<rparr>, s)
                 in (c, act CloseTarget s)))"

definition sni_shown :: "helloInfo \<Rightarrow> string" where
  "sni_shown info =
     (if SNI info \<noteq> [] then SNI info
      else if IsValid (SNIIP info) then ''<ip '' @ addr_String (SNIIP info) @ ''>'' else ''<none>'')"

definition shown_target :: "Rule \<Rightarrow> Decision \<Rightarrow> string" where
  "shown_target r d = (if Serves r then ''served here'' else JoinHostPort (dHost d) (Itoa (dPort d)))"

definition allowed_how :: "Config \<Rightarrow> Rule \<Rightarrow> bool \<Rightarrow> flowHow \<Rightarrow> flowHow" where
  "allowed_how cfg r hit how =
     (let l = the (current cfg) in
      how\<lparr>hwCached := hit, hwProxyOut := (if rProxy r then rProxyVersion r else hwProxyOut how),
          hwConnLimit := minLimit (rMaxSingleConnectionSpeed r) (lMaxSingleConnectionSpeed l),
          hwShareLimit := minLimit (rMaxAggregatedSpeed r) (lMaxAggregatedSpeed l)\<rparr>)"

definition handle_allowed ::
  "hashes \<Rightarrow> answers \<Rightarrow> Config \<Rightarrow> Rule \<Rightarrow> bool \<Rightarrow> net_addr \<Rightarrow> net_addr \<Rightarrow> bytes \<Rightarrow> buffer \<Rightarrow> helloInfo \<Rightarrow> Decision
   \<Rightarrow> ConnState \<times> server \<Rightarrow> ConnState \<times> server" where
  "handle_allowed h w cfg r hit src local hello buf info d cs =
     (case host_get (hashName h) (sni_shown info) (svHosts (snd cs)) of (host, hosts) \<Rightarrow>
      let c = (fst cs)\<lparr>cHow := allowed_how cfg r hit (cHow (fst cs)), cSNI := SNI info,
                 cDst := shown_target r d, cRouted := True, cHost := host,
                 cRuleKey := Key r, cPattern := rSource r, cRule := Some (Key r)\<rparr>;
          s = (snd cs)\<lparr>svHosts := hosts\<rparr>;
          s = host_stats host (\<lambda>n. n\<lparr>hoActive := hoActive n + 1, hoTotal := hoTotal n + 1\<rparr>) s;
          s = rule_stats (Key r) (\<lambda>n. n\<lparr>rsActive := rsActive n + 1, rsTotal := rsTotal n + 1\<rparr>) s;
          (c, s) = handle_target w cfg r src local hello buf info d (c, flows (emit ''route'' c) s);
          s = rule_stats (Key r) (\<lambda>n. n\<lparr>rsActive := rsActive n - 1\<rparr>) s
      in (c, host_stats host (\<lambda>n. n\<lparr>hoActive := hoActive n - 1\<rparr>) s))"

subsection \<open>The other ways a ClientHello is answered\<close>

definition denied_reason :: "Decision \<Rightarrow> end_reason" where
  "denied_reason d =
     (case dErr d of
        Some e \<Rightarrow> RoutingError e
      | None \<Rightarrow> if dRuleLine d = 0 then NoRuleMatched else DenyRule (dRuleLine d))"

definition handle_denied ::
  "answers \<Rightarrow> Config \<Rightarrow> buffer \<Rightarrow> helloInfo \<Rightarrow> Decision \<Rightarrow> ConnState \<times> server \<Rightarrow> ConnState \<times> server" where
  "handle_denied w cfg buf info d cs =
     (let s = denied_one (put_buffer w buf (snd cs));
          c = (fst cs)\<lparr>cSNI := SNI info, cRouted := True\<rparr>;
          deny = implicitDenyKey (lName (the (current cfg)));
          (c, s) =
            (case dRule d of
               Some r \<Rightarrow> (c\<lparr>cRuleKey := Key r, cPattern := rSource r\<rparr>, s)
             | None \<Rightarrow>
                 if dErr d = None
                 then (c\<lparr>cRuleKey := deny, cPattern := anythingElse, cRule := Some deny\<rparr>,
                       rule_stats deny (\<lambda>n. n\<lparr>rsTotal := rsTotal n + 1\<rparr>) s)
                 else (c, s))
      in refuse_client (setEnd flowDenied (denied_reason d) c, s))"

definition handle_loop :: "answers \<Rightarrow> buffer \<Rightarrow> helloInfo \<Rightarrow> ConnState \<times> server \<Rightarrow> ConnState \<times> server" where
  "handle_loop w buf info cs =
     refuse_client (setEnd flowDenied ConnectionLoop ((fst cs)\<lparr>cSNI := SNI info, cRouted := True\<rparr>),
                    denied_one (put_buffer w buf (snd cs)))"

definition handle_challenge :: "answers \<Rightarrow> bytes \<Rightarrow> buffer \<Rightarrow> helloInfo \<Rightarrow> ConnState \<times> server \<Rightarrow> ConnState \<times> server" where
  "handle_challenge w hello buf info cs =
     (let c = (fst cs)\<lparr>cSNI := SNI info, cRouted := True\<rparr>;
          s = put_buffer w buf (act (ChallengeTLS (SNI info) hello) (snd cs)) in
      case aChallengeTLS w of
        Some e \<Rightarrow> failed_with (ChallengeFailed e) (c, s)
      | None \<Rightarrow> (setEnd flowACME ChallengeAnswered c, completed_one s))"

definition cfg_RouteExcept :: "Config \<Rightarrow> (string \<Rightarrow> bool) \<Rightarrow> string \<Rightarrow> Decision" where
  "cfg_RouteExcept cfg stopped sni =
     (let l = (case current cfg of Some l \<Rightarrow> l | None \<Rightarrow> hd (Listeners cfg)) in
      case find (\<lambda>t. tName t = lName l) (Tables cfg) of
        Some t \<Rightarrow> RouteExcept t stopped sni
      | None \<Rightarrow> no_decision)"

text \<open>
  With the ClientHello read and its loop ruled out. An allowed decision always has its rule
  (\<open>allowed_has_rule\<close> below), so the last \<open>None\<close> is never taken.
\<close>

definition handle_hello ::
  "hashes \<Rightarrow> answers \<Rightarrow> Config \<Rightarrow> net_addr \<Rightarrow> net_addr \<Rightarrow> bytes \<Rightarrow> buffer \<Rightarrow> helloInfo \<Rightarrow>
   ConnState \<times> server \<Rightarrow> ConnState \<times> server" where
  "handle_hello h w cfg src local hello buf info cs =
     (case GetOrRoute (aBusy w) (lName (the (current cfg)) @ NUL @ SNI info)
             (\<lambda>_. cfg_RouteExcept cfg (aStopped w) (SNI info)) (svCache (snd cs)) of
        ((d, hit), cache) \<Rightarrow>
          let s = total (\<lambda>t. if hit then t\<lparr>tHits := tHits t + 1\<rparr> else t\<lparr>tMisses := tMisses t + 1\<rparr>)
                    ((snd cs)\<lparr>svCache := cache\<rparr>);
              passed = dAllow d \<and> (case dRule d of Some r \<Rightarrow> \<not> Terminates r | None \<Rightarrow> False) in
          if offers info acmeALPN \<and> \<not> passed \<and> aChallenge w (SNI info)
          then handle_challenge w hello buf info (fst cs, s)
          else if \<not> dAllow d then handle_denied w cfg buf info d (fst cs, s)
          else case dRule d of
                 Some r \<Rightarrow> handle_allowed h w cfg r hit src local hello buf info d (fst cs, s)
               | None \<Rightarrow> (fst cs, s))"

subsection \<open>From accept to close\<close>

definition new_conn :: "answers \<Rightarrow> Config \<Rightarrow> proxyConn \<Rightarrow> ConnState" where
  "new_conn w cfg client =
     \<lparr>cID = aID w, cSrc = proxyConn_RemoteAddr (aRemote w) client, cLocal = proxyConn_LocalAddr (aLocal w) client,
      cStart = aStart w, cSNI = [], cDst = [], cPeer = None, cRouted = False, cUpLocal = None,
      cResult = [], cReason = None,
      cHow = (if 0 < pc_version client
              then no_how\<lparr>hwVia := Some (aRemote w), hwViaVersion := pc_version client\<rparr> else no_how),
      cTerminated = False, cHost = None, cListener = lName (the (current cfg)), cRuleKey = [],
      cPattern = [], cRule = None, cUp = 0, cDown = 0, cRelaying = 0, cSpliced = 0\<rparr>"

text \<open>What reading the client delivers: what was replayed, then the rest as the network cuts it.\<close>

definition client_segments :: "answers \<Rightarrow> proxyConn \<Rightarrow> bytes list" where
  "client_segments w client = (if pc_prefix client = [] then [] else [pc_prefix client]) @ aCut w (pending (pc_conn client))"

definition read_failed :: "Config \<Rightarrow> read_error \<Rightarrow> end_reason" where
  "read_failed cfg e = (if isTimeout e then NoHelloWithin (HandshakeTimeout cfg) else BadHello e)"

definition handle_registered :: "hashes \<Rightarrow> answers \<Rightarrow> Config \<Rightarrow> proxyConn \<Rightarrow> nat \<Rightarrow> ConnState \<times> server \<Rightarrow> ConnState \<times> server" where
  "handle_registered h w cfg client slot cs =
     (case Pool_Get (svPool (snd cs)) of (buf, pool) \<Rightarrow>
      case readHello (hashHello h) (bufCap buf) (ending (pc_conn client)) (client_segments w client) of (r, hello) \<Rightarrow>
      let s = release_source slot ((snd cs)\<lparr>svPool := pool\<rparr>) in
      case r of
        Inl e \<Rightarrow> failed_with (read_failed cfg e) (fst cs, put_buffer w buf s)
      | Inr info \<Rightarrow>
          let s = act ReadAnytime s in
          if RememberNonce cfg \<and> seen (svNonces s) (Digest info) (aSeenAt w)
          then handle_loop w buf info (fst cs, s)
          else handle_hello h w cfg (cSrc (fst cs)) (cLocal (fst cs)) hello buf info (fst cs, s))"

definition turned_away :: "answers \<Rightarrow> Config \<Rightarrow> net_addr \<Rightarrow> net_addr \<Rightarrow> end_reason \<Rightarrow> server \<Rightarrow> server" where
  "turned_away w cfg src local reason =
     flows (refused (aID w) (lName (the (current cfg))) (aStart w) (aEnd w) src local reason)"

text \<open>
  What every connection goes through first, on the TLS listeners and on the redirect listener: its
  source is counted, a PROXY header looked for when the peer may send one, the stated source
  counted instead. \<open>go\<close> gets the connection and the count it holds.
\<close>

definition admit_client ::
  "hashes \<Rightarrow> answers \<Rightarrow> Config \<Rightarrow> (nat \<Rightarrow> server \<Rightarrow> server) \<Rightarrow> proxyConn \<Rightarrow> nat \<Rightarrow> server \<Rightarrow> server" where
  "admit_client h w cfg go client physicalSlot s =
     (let src = proxyConn_RemoteAddr (aRemote w) client; local = proxyConn_LocalAddr (aLocal w) client in
      if sourceKey src = sourceKey (aRemote w) then go physicalSlot s
      else case hold_source h src cfg s of
             (None, s) \<Rightarrow>
               release_source physicalSlot
                 (turned_away w cfg src local TooManyHandshakes (rejected (accepted (- 1) s)))
           | (Some slot, s) \<Rightarrow> go slot (release_source physicalSlot s))"

definition admit :: "hashes \<Rightarrow> answers \<Rightarrow> Config \<Rightarrow> (proxyConn \<Rightarrow> nat \<Rightarrow> server \<Rightarrow> server) \<Rightarrow> server \<Rightarrow> server" where
  "admit h w cfg go s =
     act CloseClient
       (case hold_source h (aRemote w) cfg s of
          (None, s) \<Rightarrow> turned_away w cfg (aRemote w) (aLocal w) TooManyHandshakes (rejected s)
        | (Some slot, s) \<Rightarrow>
            let s = act (ReadBy (HandshakeTimeout cfg)) (accepted 1 s) in
            case (if trustsProxySource cfg (aRemote w) then detectProxyProtocol (aInbound w)
                  else Inr (plain_conn (aInbound w) [])) of
              Inl e \<Rightarrow>
                release_source slot
                  (turned_away w cfg (aRemote w) (aLocal w) (BadProxyHeader e) (failed_one s))
            | Inr client \<Rightarrow> admit_client h w cfg (go client) client slot s)"

definition handle_conn :: "hashes \<Rightarrow> answers \<Rightarrow> Config \<Rightarrow> proxyConn \<Rightarrow> nat \<Rightarrow> server \<Rightarrow> server" where
  "handle_conn h w cfg client slot s =
     (let c = new_conn w cfg client in
      unregister (aEnd w) (handle_registered h w cfg client slot (c, register c s)))"

definition handle :: "hashes \<Rightarrow> answers \<Rightarrow> Config \<Rightarrow> server \<Rightarrow> server" where
  "handle h w cfg = admit h w cfg (handle_conn h w cfg)"

end
