(* ===== verification/Redirect.thy ===== *)
theory Redirect
  imports Handle
begin

text \<open>
  The redirect listener (redirect.go): the host of a request, the response written for it, the
  bytes counted and the loop over the requests of one connection. \<open>http.ReadRequest\<close> is not code
  of the repository: each turn of the loop takes what it returns from a list, with the bytes the
  connection read for it and what the write of the response accepts.
\<close>

subsection \<open>The host of a request\<close>

definition validPort :: "string \<Rightarrow> bool" where
  "validPort s \<longleftrightarrow> 2 \<le> length s \<and> length s \<le> 6 \<and> hd s = CHR '':'' \<and> list_all is_digit (tl s)"

definition redirectHost :: "string \<Rightarrow> string option" where
  "redirectHost h =
     (if HasPrefix h ''[''
      then (case IndexByte h (CHR '']'') of
              None \<Rightarrow> None
            | Some close \<Rightarrow>
              let rest = drop (close + 1) h in
              case ParseAddr (take (close - 1) (drop 1 h)) of
                None \<Rightarrow> None
              | Some a \<Rightarrow>
                  if \<not> Is6 a \<or> Zone a \<noteq> [] then None
                  else if rest \<noteq> [] \<and> \<not> validPort rest then None
                  else Some (ToLower (take (close + 1) h)))
      else case (case IndexByte h (CHR '':'') of
                   None \<Rightarrow> Some h
                 | Some i \<Rightarrow> if validPort (drop i h) then Some (take i h) else None) of
             None \<Rightarrow> None
           | Some name \<Rightarrow> if name = [] \<or> \<not> list_all isHostChar name then None else Some (ToLower name))"

subsection \<open>Responses\<close>

definition serverName :: string where "serverName = ''tlsproxy_go_quick''"

definition StatusText :: "nat \<Rightarrow> string" where
  "StatusText code =
     (if code = 301 then ''Moved Permanently''
      else if code = 308 then ''Permanent Redirect''
      else if code = 400 then ''Bad Request''
      else if code = 431 then ''Request Header Fields Too Large''
      else [])"

definition redirect_text :: "nat \<Rightarrow> string \<Rightarrow> bool \<Rightarrow> string" where
  "redirect_text status location keepAlive =
     ''HTTP/1.1 '' @ Itoa status @ '' '' @ StatusText status @ CRLF @ ''Server: '' @ serverName @ CRLF @
     (if location \<noteq> [] then ''Location: '' @ location @ CRLF else []) @
     ''Content-Length: 0'' @ CRLF @ ''Connection: '' @ (if keepAlive then ''keep-alive'' else ''close'') @ CRLF @ CRLF"

subsection \<open>The requests of a connection\<close>

definition maxRedirectHeader :: nat where "maxRedirectHeader = 8 * 2 ^ 10"

record request =
  rqHost :: string
  rqMethod :: string
  rqTarget :: string
  rqURL :: string
  rqClose :: bool
  rqLength :: int
  rqTransfer :: "string list"

text \<open>
  How reading a request fails, in the order the code asks: a timeout, the header's limit used up,
  the end of the stream, the stream cut or closed, anything else.
\<close>

datatype request_error = RequestTimeout | RequestLimit | RequestEOF | RequestCut | RequestFault string

record turn =
  tuRead :: "(request_error, request) result"
  tuUp :: nat
  tuKilled :: "string option"
  tuWrite :: "nat \<times> string option"

text \<open>The turns of a connection, whether a stop came, whether half-closing works, what is then dropped.\<close>

record visitTurns =
  viTurns :: "turn list"
  viKilled :: bool
  viCloseWrite :: bool
  viDropped :: nat

definition last_turn :: turn where
  "last_turn = \<lparr>tuRead = Inl RequestEOF, tuUp = 0, tuKilled = None, tuWrite = (0, None)\<rparr>"

definition write_response ::
  "Config \<Rightarrow> turn \<Rightarrow> nat \<Rightarrow> string \<Rightarrow> bool \<Rightarrow> ConnState \<times> server \<Rightarrow> string option \<times> ConnState \<times> server" where
  "write_response cfg t status location keepAlive cs =
     (let sent = take (fst (tuWrite t)) (bytes_of_string (redirect_text status location keepAlive)) in
      (snd (tuWrite t),
       count_bytes 0 (length sent)
         (fst cs, act (ToClient sent) (act (AnswerBy (HandshakeTimeout cfg)) (snd cs)))))"

text \<open>Why a connection is left when no request came: the result, the reason, the status answered.\<close>

definition no_request :: "Config \<Rightarrow> nat \<Rightarrow> turn \<Rightarrow> request_error \<Rightarrow> string \<times> end_reason \<times> nat" where
  "no_request cfg requests t e =
     (case tuKilled t of
        Some reason \<Rightarrow> (flowClosed, Ended reason, 0)
      | None \<Rightarrow>
          (case e of
             RequestTimeout \<Rightarrow>
               if requests = 0 then (flowFailed, NoRequestWithin (HandshakeTimeout cfg), 0)
               else (flowClosed, IdleAfter (IdleTimeout cfg) requests, 0)
           | RequestLimit \<Rightarrow> (flowFailed, RequestTooLarge, 431)
           | RequestEOF \<Rightarrow>
               if 0 < requests then (flowClosed, ClientClosedAfter requests, 0)
               else (flowFailed, ClosedBeforeRequest requests, 0)
           | RequestCut \<Rightarrow> (flowFailed, ClosedBeforeRequest requests, 0)
           | RequestFault m \<Rightarrow> (flowFailed, BadRequest m, 400)))"

record leaving =
  leResult :: string
  leReason :: end_reason
  leAnswered :: bool

definition redirect_status :: "string \<Rightarrow> nat" where
  "redirect_status method = (if method = ''GET'' \<or> method = ''HEAD'' then 301 else 308)"

definition keeps_alive :: "request \<Rightarrow> bool" where
  "keeps_alive r \<longleftrightarrow> \<not> rqClose r \<and> rqLength r = 0 \<and> rqTransfer r = []"

text \<open>A request that was read, the \<open>requests\<close>th: \<open>None\<close> goes on to the next.\<close>

definition redirect_one :: "Config \<Rightarrow> nat \<Rightarrow> turn \<Rightarrow> request \<Rightarrow> ConnState \<times> server \<Rightarrow> leaving option \<times> ConnState \<times> server" where
  "redirect_one cfg requests t r cs =
     (case (if rqTarget r = ''*'' then None else redirectHost (rqHost r)) of
        None \<Rightarrow>
          (case write_response cfg t 400 [] False cs of
             (e, cs) \<Rightarrow> (Some \<lparr>leResult = flowFailed,
                               leReason = CannotRedirect (rqMethod r) (rqTarget r) (rqHost r),
                               leAnswered = (e = None)\<rparr>, cs))
      | Some host \<Rightarrow>
          let c = (fst cs)\<lparr>cSNI := host, cDst := ''https://'' @ host, cRouted := True\<rparr>;
              s = (if cSNI (fst cs) \<noteq> host then flows (emit ''route'' c) (snd cs) else snd cs) in
          case write_response cfg t (redirect_status (rqMethod r)) (''https://'' @ host @ rqURL r) (keeps_alive r) (c, s) of
            (Some e, cs) \<Rightarrow>
              (Some \<lparr>leResult = flowFailed, leReason = ResponseFailed requests e, leAnswered = False\<rparr>, cs)
          | (None, cs) \<Rightarrow>
              ((if keeps_alive r then None
                else Some \<lparr>leResult = flowClosed, leReason = Redirected requests, leAnswered = True\<rparr>), cs))"

definition redirect_turn ::
  "Config \<Rightarrow> nat \<Rightarrow> nat option \<Rightarrow> turn \<Rightarrow> ConnState \<times> server \<Rightarrow> leaving option \<times> ConnState \<times> server" where
  "redirect_turn cfg requests slot t cs =
     (let s = (if 0 < requests then act (if 0 < IdleTimeout cfg then ReadBy (IdleTimeout cfg) else ReadAnytime) (snd cs)
               else snd cs);
          cs = count_bytes (tuUp t) 0 (fst cs, s);
          cs = (fst cs, (case slot of Some n \<Rightarrow> release_source n (snd cs) | None \<Rightarrow> snd cs)) in
      case tuRead t of
        Inr r \<Rightarrow> redirect_one cfg (requests + 1) t r cs
      | Inl e \<Rightarrow>
          let (result, reason, status) = no_request cfg requests t e;
              (failed, cs) = (if status \<noteq> 0 then write_response cfg t status [] False cs else (Some [], cs)) in
          (Some \<lparr>leResult = result, leReason = reason, leAnswered = (failed = None)\<rparr>, cs))"

text \<open>After the turns given, the client has closed.\<close>

fun redirect_loop ::
  "Config \<Rightarrow> nat \<Rightarrow> nat option \<Rightarrow> turn list \<Rightarrow> ConnState \<times> server \<Rightarrow> leaving \<times> ConnState \<times> server" where
  "redirect_loop cfg requests slot [] cs =
     (case redirect_turn cfg requests slot last_turn cs of (l, cs) \<Rightarrow> (the l, cs))"
| "redirect_loop cfg requests slot (t # ts) cs =
     (case redirect_turn cfg requests slot t cs of
        (Some l, cs) \<Rightarrow> (l, cs)
      | (None, cs) \<Rightarrow> redirect_loop cfg (requests + 1) None ts cs)"

definition redirectPattern :: string where
  "redirectPattern = ''http://* '' @ map (char_of :: nat \<Rightarrow> char) [0xE2, 0x86, 0x92] @ '' https://*''"

definition redirect_conn :: "answers \<Rightarrow> visitTurns \<Rightarrow> Config \<Rightarrow> proxyConn \<Rightarrow> nat \<Rightarrow> server \<Rightarrow> server" where
  "redirect_conn w v cfg client slot s =
     (let c = new_conn w cfg client;
          c = c\<lparr>cRuleKey := redirectKey, cPattern := redirectPattern, cRule := Some redirectKey,
                cHow := (cHow c)\<lparr>hwTLS := ''http''\<rparr>\<rparr>;
          s = rule_stats redirectKey (\<lambda>n. n\<lparr>rsActive := rsActive n + 1, rsTotal := rsTotal n + 1\<rparr>) s;
          (l, cs) = redirect_loop cfg 0 (Some slot) (viTurns v) (c, register c s);
          cs = (if leAnswered l \<and> \<not> viKilled v \<and> viCloseWrite v
                then count_bytes (viDropped v) 0 (fst cs, act (ReadBy (2 * Second)) (act CloseWriting (snd cs))) else cs);
          c = setEnd (leResult l) (leReason l) (fst cs);
          s = (if leResult l = flowClosed then completed_one (snd cs) else failed_one (snd cs)) in
      rule_stats redirectKey (\<lambda>n. n\<lparr>rsActive := rsActive n - 1\<rparr>) (unregister (aEnd w) (c, s)))"

definition handleRedirect :: "hashes \<Rightarrow> answers \<Rightarrow> visitTurns \<Rightarrow> Config \<Rightarrow> server \<Rightarrow> server" where
  "handleRedirect h w v cfg = admit h w cfg (redirect_conn w v cfg)"

subsection \<open>Accepting\<close>

text \<open>
  One socket of the accept loop, on the listener whose configuration is \<open>cfg\<close>; \<open>None\<close> when a
  reload has just removed it. Goroutines are counted while they run.
\<close>

definition accept_refusal :: "Config \<Rightarrow> Config \<Rightarrow> int \<Rightarrow> int \<Rightarrow> end_reason option" where
  "accept_refusal global cfg active mine =
     (let l = the (current cfg) in
      if over_total (MaxConnections global) active then Some (TooManyConnections active (MaxConnections global))
      else if over_listener (lMaxConnections l) mine
      then Some (TooManyOnListener (lName l) mine (lMaxConnections l)) else None)"

definition accept_one :: "hashes \<Rightarrow> answers \<Rightarrow> visitTurns \<Rightarrow> Config \<Rightarrow> Config option \<Rightarrow> server \<Rightarrow> server" where
  "accept_one h w v global cfg s =
     (case cfg of
        None \<Rightarrow> act CloseClient s
      | Some cfg \<Rightarrow>
          let l = the (current cfg); name = lName l;
              s = total (\<lambda>t. t\<lparr>tActive := tActive t + 1\<rparr>) s;
              s = listener_stats name (\<lambda>n. n\<lparr>lsActive := lsActive n + 1\<rparr>) s;
              leave = (\<lambda>s. listener_stats name (\<lambda>n. n\<lparr>lsActive := lsActive n - 1\<rparr>)
                             (total (\<lambda>t. t\<lparr>tActive := tActive t - 1\<rparr>) s)) in
          case accept_refusal global cfg (tActive (svTotals s)) (lsActive (fst (LoadOrMake name no_listener_stats (svLists s)))) of
            Some reason \<Rightarrow>
              act CloseClient
                (listener_stats name (\<lambda>n. n\<lparr>lsRejected := lsRejected n + 1\<rparr>)
                  (rejected (leave (turned_away w cfg (aRemote w) (aLocal w) reason s))))
          | None \<Rightarrow>
              let s = listener_stats name (\<lambda>n. n\<lparr>lsAccepted := lsAccepted n + 1\<rparr>) s;
                  s = total (\<lambda>t. t\<lparr>tStarted := tStarted t + 1\<rparr>) s;
                  s = (if lIsRedirect l then handleRedirect h w v cfg s else handle h w cfg s) in
              total (\<lambda>t. t\<lparr>tFinished := tFinished t + 1\<rparr>) (leave s))"

end
