(* ===== verification/Handle_Books.thy ===== *)
theory Handle_Books
  imports Redirect
begin

text \<open>
  The books of the server over whole connections: every connection accepted ends in exactly one of
  the ways that are counted, and what it held while it ran (the count of its source, its place in
  the registry, the active counts of its listener, rule and name, its buffer) is given back on
  every path. \<open>standing\<close> is all that a connection may only borrow.
\<close>

named_theorems books

definition rule_active :: "server \<Rightarrow> string \<Rightarrow> int" where
  "rule_active s k = (case svRules s k of Some v \<Rightarrow> rsActive v | None \<Rightarrow> 0)"

definition listener_active :: "server \<Rightarrow> string \<Rightarrow> int" where
  "listener_active s k = (case svLists s k of Some v \<Rightarrow> lsActive v | None \<Rightarrow> 0)"

definition host_active :: "server \<Rightarrow> nat \<Rightarrow> int" where
  "host_active s i = hoActive (svHostStats s i)"

record standing =
  stCounts :: sourceCounts
  stOpen :: "nat list"
  stRules :: "string \<Rightarrow> int"
  stLists :: "string \<Rightarrow> int"
  stHosts :: "nat \<Rightarrow> int"
  stActive :: int
  stRunning :: int
  stOpenBooks :: int
  stOutcomes :: int
  stLogged :: nat
  stPool :: BufferPool
  stCache :: RouteCache

text \<open>
  \<open>stOpenBooks\<close> is the number of connections accepted and not settled, \<open>stOutcomes\<close> the number
  of outcomes counted, rejections included, \<open>stLogged\<close> the number in the flow log.
\<close>

definition standing_of :: "server \<Rightarrow> standing" where
  "standing_of s =
     \<lparr>stCounts = svCounts s, stOpen = svOpen s, stRules = rule_active s, stLists = listener_active s,
      stHosts = host_active s, stActive = tActive (svTotals s),
      stRunning = tStarted (svTotals s) - tFinished (svTotals s),
      stOpenBooks = tAccepted (svTotals s) - (tDenied (svTotals s) + tFailed (svTotals s) + tCompleted (svTotals s)),
      stOutcomes = tRejected (svTotals s) + tDenied (svTotals s) + tFailed (svTotals s) + tCompleted (svTotals s),
      stLogged = fNext (svFlows s),
      stPool = svPool s, stCache = svCache s\<rparr>"

subsection \<open>The small steps\<close>

lemma standing_act [books]: "standing_of (act a s) = standing_of s"
  by (simp add: standing_of_def act_def fun_eq_iff rule_active_def listener_active_def host_active_def)

definition returned :: "answers \<Rightarrow> buffer \<Rightarrow> standing \<Rightarrow> standing" where
  "returned w b t = t\<lparr>stPool := Pool_Put (aPutAt w) b (stPool t)\<rparr>"

lemma standing_put [books]: "standing_of (put_buffer w b s) = returned w b (standing_of s)"
  by (simp add: standing_of_def put_buffer_def returned_def fun_eq_iff rule_active_def listener_active_def host_active_def)

lemma standing_fields [books]:
  "standing_of (s\<lparr>svCache := c\<rparr>) = (standing_of s)\<lparr>stCache := c\<rparr>" "standing_of (s\<lparr>svNonces := n\<rparr>) = standing_of s"
  "standing_of (s\<lparr>svPool := p\<rparr>) = (standing_of s)\<lparr>stPool := p\<rparr>" "standing_of (s\<lparr>svHosts := hs\<rparr>) = standing_of s"
  by (simp_all add: standing_of_def fun_eq_iff rule_active_def listener_active_def host_active_def)

lemma fNext_emit [simp]: "fNext (emit typ c f) = fNext f"
  by (simp add: emit_def publish_def)

lemma fNext_end [simp]: "fNext (flow_end now c f) = fNext f + 1"
  by (simp add: flow_end_def Let_def)

lemma fNext_refused [simp]: "fNext (refused i l s n a b r f) = fNext f + 1"
  by (simp add: refused_def)

lemma standing_emit [books]: "standing_of (flows (emit typ c) s) = standing_of s"
  by (simp add: standing_of_def flows_def fun_eq_iff rule_active_def listener_active_def host_active_def)

lemma standing_total:
  "standing_of (total f s) = (standing_of s)\<lparr>stActive := tActive (f (svTotals s)),
     stRunning := tStarted (f (svTotals s)) - tFinished (f (svTotals s)),
     stOpenBooks := tAccepted (f (svTotals s)) - (tDenied (f (svTotals s)) + tFailed (f (svTotals s)) + tCompleted (f (svTotals s))),
     stOutcomes := tRejected (f (svTotals s)) + tDenied (f (svTotals s)) + tFailed (f (svTotals s)) + tCompleted (f (svTotals s))\<rparr>"
  by (simp add: standing_of_def total_def fun_eq_iff rule_active_def listener_active_def host_active_def)

text \<open>An outcome settles one connection and has yet to be logged; a rejection was never accepted.\<close>

definition settle :: "standing \<Rightarrow> standing" where
  "settle t = t\<lparr>stOpenBooks := stOpenBooks t - 1, stOutcomes := stOutcomes t + 1\<rparr>"

lemma standing_outcome [books]:
  "standing_of (denied_one s) = settle (standing_of s)"
  "standing_of (failed_one s) = settle (standing_of s)"
  "standing_of (completed_one s) = settle (standing_of s)"
  by (simp_all add: denied_one_def failed_one_def completed_one_def standing_total settle_def)
    (simp_all add: standing_of_def)

lemma standing_rejected [books]:
  "standing_of (rejected s) = (standing_of s)\<lparr>stOutcomes := stOutcomes (standing_of s) + 1\<rparr>"
  by (simp add: rejected_def standing_total) (simp add: standing_of_def)

lemma standing_accepted [books]:
  "standing_of (accepted d s) = (standing_of s)\<lparr>stOpenBooks := stOpenBooks (standing_of s) + d\<rparr>"
  by (simp add: accepted_def standing_total) (simp add: standing_of_def)

lemma standing_turned_away [books]:
  "standing_of (turned_away w cfg src local reason s) = (standing_of s)\<lparr>stLogged := stLogged (standing_of s) + 1\<rparr>"
  by (simp add: turned_away_def flows_def standing_of_def fun_eq_iff rule_active_def listener_active_def host_active_def)

text \<open>An active count moved by \<open>d\<close>.\<close>

definition move_rule :: "string \<Rightarrow> int \<Rightarrow> standing \<Rightarrow> standing" where
  "move_rule k d t = t\<lparr>stRules := (stRules t)(k := stRules t k + d)\<rparr>"

definition move_listener :: "string \<Rightarrow> int \<Rightarrow> standing \<Rightarrow> standing" where
  "move_listener k d t = t\<lparr>stLists := (stLists t)(k := stLists t k + d)\<rparr>"

definition move_host :: "nat option \<Rightarrow> int \<Rightarrow> standing \<Rightarrow> standing" where
  "move_host i d t = (case i of None \<Rightarrow> t | Some i \<Rightarrow> t\<lparr>stHosts := (stHosts t)(i := stHosts t i + d)\<rparr>)"

lemma moves [books]:
  "move_rule k 0 t = t" "move_listener k 0 t = t" "move_host i 0 t = t"
  "move_rule k (- 1) (settle (move_rule k 1 t)) = settle t"
  "move_host i (- 1) (settle (move_host i 1 t)) = settle t"
  "settle (move_rule k d t) = move_rule k d (settle t)"
  "move_host i e (move_rule k d t) = move_rule k d (move_host i e t)"
  "move_rule k (- 1) (move_rule k 1 t) = t" "move_listener k (- 1) (move_listener k 1 t) = t"
  "move_host i (- 1) (move_host i 1 t) = t" "settle (move_host i d t) = move_host i d (settle t)"
  "returned w b (settle t) = settle (returned w b t)" "returned w b (move_rule k d t) = move_rule k d (returned w b t)"
  "returned w b (move_host i d t) = move_host i d (returned w b t)"
  by (simp_all add: returned_def move_rule_def move_listener_def move_host_def settle_def split: option.splits)

lemma settle_inject [simp]: "settle t = settle u \<longleftrightarrow> t = u"
  by (cases t; cases u) (simp add: settle_def)

lemma rule_active_stats:
  "(\<And>v. rsActive (f v) = rsActive v + d) \<Longrightarrow> standing_of (rule_stats k f s) = move_rule k d (standing_of s)"
  by (auto simp: standing_of_def rule_stats_def LoadOrMake_def fun_eq_iff rule_active_def move_rule_def
    listener_active_def host_active_def no_rule_stats_def split: option.splits prod.splits)

lemma listener_active_stats:
  "(\<And>v. lsActive (f v) = lsActive v + d) \<Longrightarrow>
   standing_of (listener_stats k f s) = move_listener k d (standing_of s)"
  by (auto simp: standing_of_def listener_stats_def LoadOrMake_def fun_eq_iff rule_active_def move_listener_def
    listener_active_def host_active_def no_listener_stats_def split: option.splits prod.splits)

lemma host_active_stats:
  "(\<And>v. hoActive (f v) = hoActive v + d) \<Longrightarrow> standing_of (host_stats i f s) = move_host i d (standing_of s)"
  by (auto simp: standing_of_def host_stats_def fun_eq_iff rule_active_def move_host_def
    listener_active_def host_active_def split: option.splits)

lemma standing_bytes [books]: "standing_of (snd (count_bytes up down cs)) = standing_of (snd cs)"
proof -
  have l: "standing_of (listener_stats k (\<lambda>l. l\<lparr>lsUp := lsUp l + u, lsDown := lsDown l + v\<rparr>) s) = standing_of s" for k u v s
    by (subst listener_active_stats [where d = 0]) (auto simp: moves)
  have r: "standing_of (rule_stats k (\<lambda>l. l\<lparr>rsUp := rsUp l + u, rsDown := rsDown l + v\<rparr>) s) = standing_of s" for k u v s
    by (subst rule_active_stats [where d = 0]) (auto simp: moves)
  have h: "standing_of (host_stats k (\<lambda>l. l\<lparr>hoUp := hoUp l + u, hoDown := hoDown l + v\<rparr>) s) = standing_of s" for k u v s
    by (subst host_active_stats [where d = 0]) (auto simp: moves)
  have t: "standing_of (total (\<lambda>t. t\<lparr>tUp := tUp t + u, tDown := tDown t + v\<rparr>) s) = standing_of s" for u v s
    by (simp add: standing_total) (simp add: standing_of_def)
  show ?thesis by (cases cs) (simp add: count_bytes_def Let_def l r h t split: option.splits)
qed

lemma standing_terminated [books]: "standing_of (host_terminated c s) = standing_of s"
  unfolding host_terminated_def by (subst host_active_stats [where d = 0]) (auto simp: moves)

lemma cID_bytes [books]: "cID (fst (count_bytes up down cs)) = cID (fst cs)"
  by (cases cs) (simp add: count_bytes_def Let_def)

lemma cID_how [books]: "cID (terminated_how st u c) = cID c" "cID (setEnd a b c) = cID c"
  by (simp_all add: terminated_how_def setEnd_def)

subsection \<open>The stages of a connection\<close>

text \<open>
  A stage settles the connection: it counts one outcome, returns the buffer of the ClientHello and
  leaves the rest as it was.
\<close>

definition settled_from :: "answers \<Rightarrow> buffer \<Rightarrow> ConnState \<times> server \<Rightarrow> ConnState \<times> server \<Rightarrow> bool" where
  "settled_from w b cs cs' \<longleftrightarrow>
     cID (fst cs') = cID (fst cs) \<and> standing_of (snd cs') = settle (returned w b (standing_of (snd cs)))"

lemma settled_with [books]:
  "settled_from w buf cs (closed_with reason cs') \<longleftrightarrow> cID (fst cs') = cID (fst cs) \<and> standing_of (snd cs') = returned w buf (standing_of (snd cs))"
  "settled_from w buf cs (failed_with e cs') \<longleftrightarrow> cID (fst cs') = cID (fst cs) \<and> standing_of (snd cs') = returned w buf (standing_of (snd cs))"
  by (auto simp: settled_from_def closed_with_def failed_with_def books)

lemma settled_refuse [books]: "settled_from w buf cs (refuse_client cs') \<longleftrightarrow> settled_from w buf cs cs'"
  by (simp add: settled_from_def refuse_client_def books)

lemma relay_settles: "cID (fst (run_relay w k cs)) = cID (fst cs)" "standing_of (snd (run_relay w k cs)) = settle (standing_of (snd cs))"
  by (simp_all add: run_relay_def closed_with_def books split: option.splits)

lemma serve_settles: "settled_from w buf cs (serveHere w r info hello buf cs)"
  by (simp add: serveHere_def books Let_def split: sum.splits)

lemma header_standing [books]: "standing_of (snd (send_header w cfg r a b s)) = standing_of s"
  by (simp add: send_header_def Let_def books split: prod.splits option.splits)

lemma header_standing': "send_header w cfg r a b s = (x, s') \<Longrightarrow> standing_of s' = standing_of s"
  using header_standing [of w cfg r a b s] by simp

lemma terminate_standing: "terminate w cfg r a b hello info d s = (x, s') \<Longrightarrow> standing_of s' = standing_of s"
  by (auto simp: terminate_def books dest!: header_standing' split: prod.splits option.splits sum.splits if_splits)

lemma hello_standing:
  "send_hello w cfg hello buf cs = (e, cs') \<Longrightarrow>
   standing_of (snd cs') = returned w buf (standing_of (snd cs)) \<and> cID (fst cs') = cID (fst cs)"
  by (auto simp: send_hello_def Let_def books split: prod.splits)

lemma pass_standing:
  "pass_through w cfg r a b hello buf info cs = (e, cs') \<Longrightarrow>
   standing_of (snd cs') = returned w buf (standing_of (snd cs)) \<and> cID (fst cs') = cID (fst cs)"
  by (auto simp: pass_through_def Let_def books dest!: header_standing' hello_standing
      split: prod.splits option.splits if_splits)

lemma settled_relay:
  "cID (fst cs') = cID (fst cs) \<Longrightarrow> standing_of (snd cs') = returned w buf (standing_of (snd cs))
   \<Longrightarrow> settled_from w buf cs (run_relay w k cs')"
  by (simp add: settled_from_def relay_settles)

lemma connected_settles: "settled_from w buf cs (handle_connected w cfg r a b hello buf info d cs)"
  by (auto simp: handle_connected_def Let_def books intro!: settled_relay dest!: terminate_standing pass_standing
      split: prod.splits sum.splits option.splits)

lemma settled_act: "settled_from w buf cs (c, s) \<Longrightarrow> settled_from w buf cs (c, act a s)"
  by (simp add: settled_from_def books)

lemma target_settles: "settled_from w buf cs (handle_target w cfg r a b hello buf info d cs)"
proof -
  have "settled_from w buf cs (let (c, s) = handle_connected w cfg r a b hello buf info d (c0, act x (snd cs)) in (c, act CloseTarget s))"
    if "cID c0 = cID (fst cs)" for c0 x
    using connected_settles [of w buf "(c0, act x (snd cs))" cfg r a b hello info d] that
    by (auto simp: settled_from_def books split: prod.splits)
  then show ?thesis
    using serve_settles [of w buf cs r info hello]
    by (simp add: handle_target_def Let_def books split: sum.splits prod.splits)
qed

lemma denied_settles: "settled_from w buf cs (handle_denied w cfg buf info d cs)"
proof -
  have "standing_of (rule_stats k (\<lambda>n. n\<lparr>rsTotal := rsTotal n + 1\<rparr>) s) = standing_of s" for k s
    by (subst rule_active_stats [where d = 0]) (auto simp: moves)
  then show ?thesis
    by (simp add: handle_denied_def Let_def settled_from_def refuse_client_def books split: option.splits)
qed

lemma loop_settles: "settled_from w buf cs (handle_loop w buf info cs)"
  by (simp add: handle_loop_def settled_from_def refuse_client_def books)

lemma challenge_settles: "settled_from w buf cs (handle_challenge w hello buf info cs)"
  by (simp add: handle_challenge_def Let_def settled_from_def failed_with_def books split: option.splits)

lemma allowed_settles: "settled_from w buf cs (handle_allowed h w cfg r hit a b hello buf info d cs)"
proof -
  have up: "standing_of (rule_stats k (\<lambda>n. n\<lparr>rsActive := rsActive n + 1, rsTotal := rsTotal n + 1\<rparr>) s) = move_rule k 1 (standing_of s)"
      "standing_of (host_stats i (\<lambda>n. n\<lparr>hoActive := hoActive n + 1, hoTotal := hoTotal n + 1\<rparr>) s) = move_host i 1 (standing_of s)"
      "standing_of (rule_stats k (\<lambda>n. n\<lparr>rsActive := rsActive n - 1\<rparr>) s) = move_rule k (- 1) (standing_of s)"
      "standing_of (host_stats i (\<lambda>n. n\<lparr>hoActive := hoActive n - 1\<rparr>) s) = move_host i (- 1) (standing_of s)" for k i s
    by (subst rule_active_stats host_active_stats; simp)+
  obtain host hosts where hh: "host_get (hashName h) (sni_shown info) (svHosts (snd cs)) = (host, hosts)" by fastforce
  let ?c = "(fst cs)\<lparr>cHow := allowed_how cfg r hit (cHow (fst cs)), cSNI := SNI info, cDst := shown_target r d,
    cRouted := True, cHost := host, cRuleKey := Key r, cPattern := rSource r, cRule := Some (Key r)\<rparr>"
  let ?s = "flows (emit ''route'' ?c) (rule_stats (Key r) (\<lambda>n. n\<lparr>rsActive := rsActive n + 1, rsTotal := rsTotal n + 1\<rparr>)
    (host_stats host (\<lambda>n. n\<lparr>hoActive := hoActive n + 1, hoTotal := hoTotal n + 1\<rparr>) ((snd cs)\<lparr>svHosts := hosts\<rparr>)))"
  obtain c s where t: "handle_target w cfg r a b hello buf info d (?c, ?s) = (c, s)" by fastforce
  have "settled_from w buf (?c, ?s) (c, s)" unfolding t [symmetric] by (rule target_settles)
  then show ?thesis by (simp add: handle_allowed_def hh t settled_from_def up books)
qed

lemma hit_standing [books]:
  "standing_of (total (\<lambda>t. if hit then t\<lparr>tHits := tHits t + 1\<rparr> else t\<lparr>tMisses := tMisses t + 1\<rparr>) s) = standing_of s"
  by (cases hit) (simp_all add: standing_total, simp_all add: standing_of_def)

lemma settled_trans:
  "settled_from w b (c, s) x \<Longrightarrow> standing_of s = standing_of s0 \<Longrightarrow> cID c = cID c0 \<Longrightarrow> settled_from w b (c0, s0) x"
  by (simp add: settled_from_def)

subsection \<open>Cached decisions\<close>

text \<open>What a key of the cache is routed to, by the configurations of the listeners.\<close>

definition rt_route :: "(string \<Rightarrow> Config option) \<Rightarrow> (string \<Rightarrow> bool) \<Rightarrow> string \<Rightarrow> Decision" where
  "rt_route byListener stopped key =
     (let name = takeWhile (\<lambda>c. c \<noteq> CHR 0x00) key in
      case byListener name of
        None \<Rightarrow> no_decision
      | Some cfg \<Rightarrow> cfg_RouteExcept cfg stopped (drop (length name + 1) key))"

definition listens :: "(string \<Rightarrow> Config option) \<Rightarrow> Config \<Rightarrow> bool" where
  "listens byListener cfg \<longleftrightarrow>
     CHR 0x00 \<notin> set (lName (the (current cfg))) \<and> byListener (lName (the (current cfg))) = Some cfg"

lemma rt_route_key:
  assumes "listens byListener cfg"
  shows "rt_route byListener stopped (lName (the (current cfg)) @ NUL @ sni) = cfg_RouteExcept cfg stopped sni"
proof -
  have "takeWhile (\<lambda>c. c \<noteq> CHR 0x00) (lName (the (current cfg)) @ NUL @ sni) = lName (the (current cfg))"
    using assms by (subst takeWhile_append2) (auto simp: listens_def NUL_def)
  then show ?thesis using assms by (simp add: rt_route_def listens_def NUL_def)
qed

text \<open>An allowed decision names its rule.\<close>

definition named_rule :: "Decision \<Rightarrow> bool" where
  "named_rule d \<longleftrightarrow> (dAllow d \<longrightarrow> dRule d \<noteq> None)"

lemma decide_named: "named_rule (decide r sni m)"
  by (simp add: named_rule_def decide_def no_decision_def Let_def split: sum.splits)

lemma none_named: "named_rule no_decision"
  by (simp add: named_rule_def no_decision_def)

lemma tried_named: "named_rule (try_rules stopped sni rs)"
  by (induction rs) (auto simp: decide_named none_named split: option.splits)

lemma allowed_has_rule:
  assumes "dAllow (cfg_RouteExcept cfg stopped sni)"
  shows "\<exists>r. dRule (cfg_RouteExcept cfg stopped sni) = Some r"
proof -
  have "named_rule (cfg_RouteExcept cfg stopped sni)"
    by (auto simp: cfg_RouteExcept_def RouteExcept_def decide_named tried_named none_named Let_def split: option.splits)
  then show ?thesis using assms by (auto simp: named_rule_def)
qed

lemma GetOrRoute_cong: "route k = route' k \<Longrightarrow> GetOrRoute busy k route c = GetOrRoute busy k route' c"
  by (simp add: GetOrRoute_def split: prod.splits option.splits)

lemma cached_decision:
  assumes "cache_ok (rt_route byListener stopped) c" "listens byListener cfg"
  shows "\<exists>hit cache. GetOrRoute busy (lName (the (current cfg)) @ NUL @ sni) (\<lambda>_. cfg_RouteExcept cfg stopped sni) c
    = ((cfg_RouteExcept cfg stopped sni, hit), cache) \<and> cache_ok (rt_route byListener stopped) cache"
proof -
  let ?k = "lName (the (current cfg)) @ NUL @ sni" and ?r = "rt_route byListener stopped"
  have same: "GetOrRoute busy ?k (\<lambda>_. cfg_RouteExcept cfg stopped sni) c = GetOrRoute busy ?k ?r c"
    by (rule GetOrRoute_cong) (simp add: rt_route_key [OF assms(2)])
  obtain d hit cache where g: "GetOrRoute busy ?k ?r c = ((d, hit), cache)" by (metis surj_pair)
  then have "d = ?r ?k" "cache_ok ?r cache" using GetOrRoute_ok [OF assms(1), of busy ?k] by auto
  then show ?thesis using same g by (simp add: rt_route_key [OF assms(2)])
qed

subsection \<open>Whole connections\<close>

definition cached :: "RouteCache \<Rightarrow> standing \<Rightarrow> standing" where
  "cached c t = t\<lparr>stCache := c\<rparr>"

lemma cached_comm [books]:
  "t\<lparr>stCache := c\<rparr> = cached c t" "returned w b (cached c t) = cached c (returned w b t)"
  "settle (cached c t) = cached c (settle t)"
  by (simp_all add: cached_def returned_def settle_def)

lemma hello_settles:
  assumes "cache_ok (rt_route byListener (aStopped w)) (svCache (snd cs))" "listens byListener cfg"
  shows "\<exists>cache. cache_ok (rt_route byListener (aStopped w)) cache
    \<and> cID (fst (handle_hello h w cfg a b hello buf info cs)) = cID (fst cs)
    \<and> standing_of (snd (handle_hello h w cfg a b hello buf info cs))
        = cached cache (settle (returned w buf (standing_of (snd cs))))"
proof -
  let ?d = "cfg_RouteExcept cfg (aStopped w) (SNI info)"
  obtain hit cache where g: "GetOrRoute (aBusy w) (lName (the (current cfg)) @ NUL @ SNI info) (\<lambda>_. ?d) (svCache (snd cs))
      = ((?d, hit), cache)" and ok: "cache_ok (rt_route byListener (aStopped w)) cache"
    using cached_decision [OF assms, of "aBusy w" "SNI info"] by blast
  let ?s = "total (\<lambda>t. if hit then t\<lparr>tHits := tHits t + 1\<rparr> else t\<lparr>tMisses := tMisses t + 1\<rparr>) ((snd cs)\<lparr>svCache := cache\<rparr>)"
  have st: "standing_of ?s = cached cache (standing_of (snd cs))" by (simp add: books)
  have "settled_from w buf (fst cs, ?s) (handle_hello h w cfg a b hello buf info cs)"
    using challenge_settles [of w buf "(fst cs, ?s)" hello info] denied_settles [of w buf "(fst cs, ?s)" cfg info ?d]
      allowed_settles [of w buf "(fst cs, ?s)" h cfg _ hit a b hello info ?d] allowed_has_rule [of cfg "aStopped w" "SNI info"]
    by (auto simp: handle_hello_def g Let_def split: option.splits)
  then show ?thesis using ok by (auto simp: settled_from_def st books)
qed

lemma standing_release [books]:
  "standing_of (release_source n s) = (standing_of s)\<lparr>stCounts := endHandshake n (stCounts (standing_of s))\<rparr>"
  by (simp add: standing_of_def release_source_def fun_eq_iff rule_active_def listener_active_def host_active_def)

lemma standing_register [books]:
  "standing_of (register c s) = (standing_of s)\<lparr>stOpen := cID c # stOpen (standing_of s)\<rparr>"
  by (simp add: standing_of_def register_def flows_def fun_eq_iff rule_active_def listener_active_def host_active_def)

lemma standing_unregister [books]:
  "standing_of (unregister now cs) = (standing_of (snd cs))\<lparr>stOpen := remove1 (cID (fst cs)) (stOpen (standing_of (snd cs))),
     stLogged := stLogged (standing_of (snd cs)) + 1\<rparr>"
  by (cases cs) (simp add: standing_of_def unregister_def flows_def fun_eq_iff rule_active_def listener_active_def host_active_def)

text \<open>What a connection leaves behind: the decisions in the cache and its buffer in the pool.\<close>

definition traces :: "standing \<Rightarrow> standing \<Rightarrow> RouteCache \<Rightarrow> BufferPool \<Rightarrow> bool" where
  "traces t t' cache pool \<longleftrightarrow> t' = t\<lparr>stCache := cache, stPool := pool\<rparr>"

definition pool_after :: "answers \<Rightarrow> BufferPool \<Rightarrow> BufferPool" where
  "pool_after w p = Pool_Put (aPutAt w) (fst (Pool_Get p)) (snd (Pool_Get p))"

lemma svCache_simps [simp]: "stCache (standing_of s) = svCache s" "stPool (standing_of s) = svPool s"
  "stCounts (standing_of s) = svCounts s" "stOpen (standing_of s) = svOpen s"
  by (simp_all add: standing_of_def)

lemma registered_settles:
  assumes "cache_ok (rt_route byListener (aStopped w)) (svCache (snd cs))" "listens byListener cfg"
  shows "\<exists>cache. cache_ok (rt_route byListener (aStopped w)) cache
    \<and> cID (fst (handle_registered h w cfg client slot cs)) = cID (fst cs)
    \<and> standing_of (snd (handle_registered h w cfg client slot cs))
        = settle ((standing_of (snd cs))\<lparr>stCounts := endHandshake slot (svCounts (snd cs)), stCache := cache,
            stPool := pool_after w (svPool (snd cs))\<rparr>)"
proof -
  obtain buf pool where b: "Pool_Get (svPool (snd cs)) = (buf, pool)" by fastforce
  obtain r hello where rd: "readHello (hashHello h) (bufCap buf) (ending (pc_conn client)) (client_segments w client) = (r, hello)"
    by fastforce
  let ?s = "release_source slot ((snd cs)\<lparr>svPool := pool\<rparr>)" and ?ok = "cache_ok (rt_route byListener (aStopped w))"
  let ?T = "\<lambda>cache. (standing_of (snd cs))\<lparr>stCounts := endHandshake slot (svCounts (snd cs)), stCache := cache,
            stPool := pool_after w (svPool (snd cs))\<rparr>"
  have st: "cached cache (returned w buf (standing_of ?s)) = ?T cache" for cache
    by (simp add: books pool_after_def b) (simp add: cached_def returned_def standing_of_def)
  have "returned w buf (standing_of ?s) = cached (svCache (snd cs)) (returned w buf (standing_of ?s))"
    by (simp add: cached_def returned_def standing_of_def release_source_def)
  then have keep: "returned w buf (standing_of ?s) = ?T (svCache (snd cs))" unfolding st .
  have ended: ?thesis if "settled_from w buf (fst cs, s0) (handle_registered h w cfg client slot cs)"
    "standing_of s0 = standing_of ?s" for s0
    using that assms(1) keep unfolding settled_from_def by auto
  show ?thesis
  proof (cases r)
    case (Inl e)
    have "settled_from w buf (fst cs, ?s) (handle_registered h w cfg client slot cs)"
      by (simp add: handle_registered_def b rd Inl books)
    then show ?thesis by (rule ended) simp
  next
    case (Inr info)
    let ?s2 = "act ReadAnytime ?s"
    have s2: "standing_of ?s2 = standing_of ?s" by (rule standing_act)
    show ?thesis
    proof (cases "RememberNonce cfg \<and> seen (svNonces ?s2) (Digest info) (aSeenAt w)")
      case True
      then have "handle_registered h w cfg client slot cs = handle_loop w buf info (fst cs, ?s2)"
        by (simp add: handle_registered_def b rd Inr Let_def)
      then show ?thesis using loop_settles [of w buf "(fst cs, ?s2)" info] s2 by (intro ended [of ?s2]) simp_all
    next
      case False
      have c: "svCache ?s2 = svCache (snd cs)" by (simp add: act_def release_source_def)
      have run: "handle_registered h w cfg client slot cs
          = handle_hello h w cfg (cSrc (fst cs)) (cLocal (fst cs)) hello buf info (fst cs, ?s2)"
        by (simp only: handle_registered_def b rd Inr Let_def prod.case sum.case False if_False snd_conv)
      obtain cache where "?ok cache" "cID (fst (handle_registered h w cfg client slot cs)) = cID (fst cs)"
        "standing_of (snd (handle_registered h w cfg client slot cs)) = cached cache (settle (returned w buf (standing_of ?s)))"
        using hello_settles [of byListener w "(fst cs, ?s2)" cfg h "cSrc (fst cs)" "cLocal (fst cs)" hello buf info] assms
        unfolding run c fst_conv snd_conv s2 by blast
      moreover have "cached cache (settle (returned w buf (standing_of ?s))) = settle (?T cache)"
        by (simp only: st flip: cached_comm(3))
      ultimately show ?thesis by auto
    qed
  qed
qed

lemma hold_standing:
  assumes "hold_source h a cfg s = (slot, s')"
  shows "slot = None \<Longrightarrow> standing_of s' = standing_of s"
    "slot = Some n \<Longrightarrow> endHandshake n (svCounts s') = svCounts s"
    "standing_of s' = (standing_of s)\<lparr>stCounts := svCounts s'\<rparr>"
    "svCache s' = svCache s" "svPool s' = svPool s"
proof -
  obtain counts where b: "beginHandshake (hashSource h) (sourceKey a) (int (MaxHandshakesPerIP cfg)) (svCounts s) = (slot, counts)"
      "s' = s\<lparr>svCounts := counts\<rparr>"
    using assms by (auto simp: hold_source_def split: prod.splits)
  then show "slot = None \<Longrightarrow> standing_of s' = standing_of s" using begin_refused by fastforce
  show "slot = Some n \<Longrightarrow> endHandshake n (svCounts s') = svCounts s" using b begin_end by fastforce
  show "standing_of s' = (standing_of s)\<lparr>stCounts := svCounts s'\<rparr>" "svCache s' = svCache s" "svPool s' = svPool s"
    using b by (simp_all add: standing_of_def fun_eq_iff rule_active_def listener_active_def host_active_def)
qed

text \<open>Counts of sources commute.\<close>

lemma end_comm: "endHandshake m (endHandshake n s) = endHandshake n (endHandshake m s)"
  by (auto simp: endHandshake_def)

lemma release_fields [simp]:
  "svCache (release_source n s) = svCache s" "svPool (release_source n s) = svPool s"
  "svCounts (release_source n s) = endHandshake n (svCounts s)"
  by (simp_all add: release_source_def)

text \<open>
  Admission around what follows it: when \<open>go\<close> settles the connection and releases the count it
  holds, the whole call leaves everything borrowed as it was.
\<close>

definition closes :: "(RouteCache \<Rightarrow> bool) \<Rightarrow> answers \<Rightarrow> (nat \<Rightarrow> server \<Rightarrow> server) \<Rightarrow> bool" where
  "closes ok w go \<longleftrightarrow>
     (\<forall>slot s. ok (svCache s) \<longrightarrow>
        (\<exists>cache pool. ok cache \<and> (pool = svPool s \<or> pool = pool_after w (svPool s)) \<and>
           standing_of (go slot s) = (standing_of s)\<lparr>stCounts := endHandshake slot (svCounts s), stCache := cache,
             stPool := pool, stOpenBooks := stOpenBooks (standing_of s) - 1,
             stOutcomes := stOutcomes (standing_of s) + 1, stLogged := stLogged (standing_of s) + 1\<rparr>))"

lemma admit_client_closes:
  assumes go: "closes ok w go" and ok: "ok (svCache s)"
  shows "\<exists>cache pool. ok cache \<and> (pool = svPool s \<or> pool = pool_after w (svPool s)) \<and>
    standing_of (admit_client h w cfg go client slot s) = (standing_of s)\<lparr>stCounts := endHandshake slot (svCounts s),
      stCache := cache, stPool := pool, stOpenBooks := stOpenBooks (standing_of s) - 1,
             stOutcomes := stOutcomes (standing_of s) + 1, stLogged := stLogged (standing_of s) + 1\<rparr>"
proof (cases "sourceKey (proxyConn_RemoteAddr (aRemote w) client) = sourceKey (aRemote w)")
  case True
  then have "admit_client h w cfg go client slot s = go slot s" by (simp add: admit_client_def)
  then show ?thesis using go ok by (auto simp: closes_def)
next
  case False
  obtain held s1 where h1: "hold_source h (proxyConn_RemoteAddr (aRemote w) client) cfg s = (held, s1)" by fastforce
  note hs = hold_standing [OF h1]
  show ?thesis
  proof (cases held)
    case None
    have st1: "standing_of s1 = standing_of s" using hs(1) None by simp
    have "standing_of (admit_client h w cfg go client slot s)
        = (standing_of s)\<lparr>stCounts := endHandshake slot (svCounts s), stOpenBooks := stOpenBooks (standing_of s) - 1,
             stOutcomes := stOutcomes (standing_of s) + 1, stLogged := stLogged (standing_of s) + 1\<rparr>"
      using False h1 None by (simp add: admit_client_def Let_def books st1)
    then show ?thesis using ok
      by (intro exI [of _ "svCache s"] exI [of _ "svPool s"]) (simp add: standing_of_def)
  next
    case (Some n)
    let ?s2 = "release_source slot s1"
    have run: "admit_client h w cfg go client slot s = go n ?s2"
      using False h1 Some by (simp add: admit_client_def Let_def)
    have "ok (svCache ?s2)" using ok hs(4) by simp
    then obtain cache pool where g: "ok cache" "pool = svPool ?s2 \<or> pool = pool_after w (svPool ?s2)"
      "standing_of (go n ?s2) = (standing_of ?s2)\<lparr>stCounts := endHandshake n (svCounts ?s2), stCache := cache,
             stPool := pool, stOpenBooks := stOpenBooks (standing_of ?s2) - 1,
             stOutcomes := stOutcomes (standing_of ?s2) + 1, stLogged := stLogged (standing_of ?s2) + 1\<rparr>"
      using go unfolding closes_def by blast
    have "endHandshake n (svCounts ?s2) = endHandshake slot (svCounts s)"
      using hs(2) [OF Some] by (simp add: end_comm [of n])
    moreover have "(standing_of ?s2) = (standing_of s)\<lparr>stCounts := svCounts ?s2\<rparr>"
      by (simp add: standing_release) (simp add: hs(3))
    ultimately have "standing_of (go n ?s2) = (standing_of s)\<lparr>stCounts := endHandshake slot (svCounts s), stCache := cache,
             stPool := pool, stOpenBooks := stOpenBooks (standing_of s) - 1,
             stOutcomes := stOutcomes (standing_of s) + 1, stLogged := stLogged (standing_of s) + 1\<rparr>"
      using g(3) by simp
    then show ?thesis using g(1,2) hs(5) run by (intro exI [of _ cache] exI [of _ pool]) auto
  qed
qed

lemma admit_standing:
  assumes go: "\<And>client. closes ok w (go client)" and ok: "ok (svCache s)"
  shows "\<exists>cache pool. ok cache \<and> (pool = svPool s \<or> pool = pool_after w (svPool s)) \<and>
    standing_of (admit h w cfg go s) = (standing_of s)\<lparr>stCache := cache, stPool := pool,
      stOutcomes := stOutcomes (standing_of s) + 1, stLogged := stLogged (standing_of s) + 1\<rparr>"
proof -
  obtain held s1 where h1: "hold_source h (aRemote w) cfg s = (held, s1)" by fastforce
  note hs = hold_standing [OF h1]
  have same: "(standing_of s)\<lparr>stCache := svCache s, stPool := svPool s\<rparr> = standing_of s"
    by (simp add: standing_of_def)
  show ?thesis
  proof (cases held)
    case None
    have "standing_of (admit h w cfg go s) = (standing_of s)\<lparr>stOutcomes := stOutcomes (standing_of s) + 1, stLogged := stLogged (standing_of s) + 1\<rparr>"
      using None h1 hs(1) by (simp add: admit_def books)
    then show ?thesis using ok by (intro exI [of _ "svCache s"] exI [of _ "svPool s"]) (simp add: standing_of_def)
  next
    case (Some slot)
    let ?s2 = "act (ReadBy (HandshakeTimeout cfg)) (accepted 1 s1)"
    let ?start = "if trustsProxySource cfg (aRemote w) then detectProxyProtocol (aInbound w) else Inr (plain_conn (aInbound w) [])"
    have st2: "standing_of ?s2 = (standing_of s)\<lparr>stCounts := svCounts s1, stOpenBooks := stOpenBooks (standing_of s) + 1\<rparr>"
      by (simp add: books hs(3))
    have f2: "svCounts ?s2 = svCounts s1" "svCache ?s2 = svCache s" "svPool ?s2 = svPool s"
      using hs(4,5) by (simp_all add: act_def accepted_def total_def)
    show ?thesis
    proof (cases ?start)
      case (Inl e)
      have run: "admit h w cfg go s = act CloseClient (release_source slot
          (turned_away w cfg (aRemote w) (aLocal w) (BadProxyHeader e) (failed_one ?s2)))"
        by (simp only: admit_def h1 Some Let_def prod.case option.case Inl sum.case)
      have "standing_of (admit h w cfg go s) = (standing_of s)\<lparr>stCounts := endHandshake slot (svCounts s1),
          stOutcomes := stOutcomes (standing_of s) + 1, stLogged := stLogged (standing_of s) + 1\<rparr>"
        unfolding run by (simp add: standing_act standing_release standing_turned_away standing_outcome st2 [simplified standing_act] settle_def books hs(3))
      then show ?thesis using ok same hs(2) [OF Some]
        by (intro exI [of _ "svCache s"] exI [of _ "svPool s"]) (simp add: standing_of_def)
    next
      case (Inr client)
      have run: "admit h w cfg go s = act CloseClient (admit_client h w cfg (go client) client slot ?s2)"
        by (simp only: admit_def h1 Some Let_def prod.case option.case Inr sum.case)
      have "ok (svCache ?s2)" using ok f2(2) by simp
      then obtain cache pool where g: "ok cache" "pool = svPool ?s2 \<or> pool = pool_after w (svPool ?s2)"
        "standing_of (admit_client h w cfg (go client) client slot ?s2) = (standing_of ?s2)\<lparr>stCounts := endHandshake slot (svCounts ?s2),
          stCache := cache, stPool := pool, stOpenBooks := stOpenBooks (standing_of ?s2) - 1,
             stOutcomes := stOutcomes (standing_of ?s2) + 1, stLogged := stLogged (standing_of ?s2) + 1\<rparr>"
        using admit_client_closes [where go = "go client" and s = ?s2 and h = h and cfg = cfg and client = client and slot = slot, OF go] by blast
      have "standing_of (admit h w cfg go s) = (standing_of s)\<lparr>stCounts := svCounts s, stCache := cache, stPool := pool,
          stOutcomes := stOutcomes (standing_of s) + 1, stLogged := stLogged (standing_of s) + 1\<rparr>"
        unfolding run standing_act [of CloseClient] g(3) f2(1) hs(2) [OF Some] st2 by simp
      then show ?thesis using g(1,2) f2
        by (intro exI [of _ cache] exI [of _ pool]) (simp add: standing_of_def)
    qed
  qed
qed

lemma handle_conn_closes:
  assumes "listens byListener cfg"
  shows "closes (cache_ok (rt_route byListener (aStopped w))) w (handle_conn h w cfg client)"
  unfolding closes_def
proof (intro allI impI)
  fix slot and s :: server assume ok: "cache_ok (rt_route byListener (aStopped w)) (svCache s)"
  let ?c = "new_conn w cfg client" let ?s = "register (new_conn w cfg client) s"
  let ?r = "handle_registered h w cfg client slot (?c, ?s)"
  have f: "svCache ?s = svCache s" "svCounts ?s = svCounts s" "svPool ?s = svPool s"
    by (simp_all add: register_def flows_def)
  obtain cache where r: "cache_ok (rt_route byListener (aStopped w)) cache" "cID (fst ?r) = cID ?c"
    "standing_of (snd ?r) = settle ((standing_of ?s)\<lparr>stCounts := endHandshake slot (svCounts s), stCache := cache,
            stPool := pool_after w (svPool s)\<rparr>)"
    using registered_settles [of byListener w "(?c, ?s)" cfg h client slot] ok assms f by auto
  have "standing_of (handle_conn h w cfg client slot s) = (standing_of s)\<lparr>stCounts := endHandshake slot (svCounts s), stCache := cache,
             stPool := pool_after w (svPool s), stOpenBooks := stOpenBooks (standing_of s) - 1,
             stOutcomes := stOutcomes (standing_of s) + 1, stLogged := stLogged (standing_of s) + 1\<rparr>"
    by (simp add: handle_conn_def Let_def standing_unregister r standing_register settle_def)
  then show "\<exists>cache pool. cache_ok (rt_route byListener (aStopped w)) cache \<and> (pool = svPool s \<or> pool = pool_after w (svPool s)) \<and>
           standing_of (handle_conn h w cfg client slot s) = (standing_of s)\<lparr>stCounts := endHandshake slot (svCounts s), stCache := cache,
             stPool := pool, stOpenBooks := stOpenBooks (standing_of s) - 1,
             stOutcomes := stOutcomes (standing_of s) + 1, stLogged := stLogged (standing_of s) + 1\<rparr>"
    using r(1) by blast
qed

lemma handle_standing:
  assumes "listens byListener cfg" "cache_ok (rt_route byListener (aStopped w)) (svCache s)"
  shows "\<exists>cache pool. cache_ok (rt_route byListener (aStopped w)) cache \<and> (pool = svPool s \<or> pool = pool_after w (svPool s)) \<and>
    standing_of (handle h w cfg s) = (standing_of s)\<lparr>stCache := cache, stPool := pool,
      stOutcomes := stOutcomes (standing_of s) + 1, stLogged := stLogged (standing_of s) + 1\<rparr>"
  unfolding handle_def by (rule admit_standing) (use handle_conn_closes [OF assms(1)] assms(2) in auto)

end
