(* ===== verification/Handle_Wire.thy ===== *)
theory Handle_Wire
  imports Handle_Books Proxy_Protocol_Props
begin

text \<open>
  What a connection does to its two sockets, in order: the acts of each stage in closed form, then
  what follows from them. A target is dialled only for a client whose ClientHello was read whole
  and routed to it; a connection passed through gives its target the header it is owed and the
  bytes of the ClientHello as they came, remembered before the first of them leaves; a hello that
  comes back is stopped here.
\<close>

named_theorems wire

lemma acts_small [wire]:
  "svActs (act a s) = svActs s @ [a]" "svActs (total f s) = svActs s" "svActs (accepted d s) = svActs s"
  "svActs (rejected s) = svActs s" "svActs (denied_one s) = svActs s" "svActs (failed_one s) = svActs s"
  "svActs (completed_one s) = svActs s" "svActs (put_buffer w b s) = svActs s" "svActs (flows g s) = svActs s"
  "svActs (release_source n s) = svActs s" "svActs (register c s) = svActs s"
  "svActs (turned_away w cfg x y reason s) = svActs s"
  by (simp_all add: act_def total_def accepted_def rejected_def denied_one_def failed_one_def completed_one_def
      put_buffer_def flows_def release_source_def register_def turned_away_def)

lemma acts_stats [wire]:
  "svActs (rule_stats k f s) = svActs s" "svActs (listener_stats k g s) = svActs s"
  "svActs (host_stats i u s) = svActs s" "svActs (host_terminated c s) = svActs s"
  by (simp_all add: rule_stats_def listener_stats_def host_stats_def host_terminated_def split: prod.splits option.splits)

lemma acts_bytes [wire]: "svActs (snd (count_bytes u d cs)) = svActs (snd cs)"
  by (cases cs) (simp add: count_bytes_def Let_def wire split: option.splits)

lemma acts_unregister [wire]: "svActs (unregister now cs) = svActs (snd cs)"
  by (cases cs) (simp add: unregister_def wire)

lemma acts_with [wire]:
  "svActs (snd (closed_with r cs)) = svActs (snd cs)" "svActs (snd (failed_with e cs)) = svActs (snd cs)"
  "svActs (snd (refuse_client cs)) = svActs (snd cs) @ [ToClient alertAccessDenied]"
  by (simp_all add: closed_with_def failed_with_def refuse_client_def wire)

subsection \<open>The acts of each stage\<close>

definition relay_acts :: "answers \<Rightarrow> string \<Rightarrow> act list" where
  "relay_acts w key = (if early_stop w key = None then [RelayBoth] else [CloseBoth])"

lemma acts_relay [wire]: "svActs (snd (run_relay w key cs)) = svActs (snd cs) @ relay_acts w key"
  by (simp add: run_relay_def relay_acts_def wire split: option.splits)

lemma acts_serve [wire]:
  "svActs (snd (serveHere w r info hello buf cs)) = svActs (snd cs) @ [ClientTLS hello (serve_protos info)]"
  by (simp add: serveHere_def Let_def wire split: sum.splits)

definition header_sent :: "answers \<Rightarrow> Rule \<Rightarrow> net_addr \<Rightarrow> net_addr \<Rightarrow> Proxy_Protocol.proxy_error option \<times> bytes" where
  "header_sent w r src local =
     (if rProxy r then writeProxyProtocol (aHeaderWrites w) (rProxyVersion r) src local else (None, []))"

definition header_acts :: "answers \<Rightarrow> Config \<Rightarrow> Rule \<Rightarrow> net_addr \<Rightarrow> net_addr \<Rightarrow> act list" where
  "header_acts w cfg r src local =
     (if rProxy r
      then [WriteBy (ConnectTimeout cfg), ToTarget (snd (header_sent w r src local))] @
           (if fst (header_sent w r src local) = None then [WriteAnytime] else [])
      else [])"

lemma acts_header:
  assumes "(if rProxy r then send_header w cfg r src local s else (None, s)) = (e, s')"
  shows "e = fst (header_sent w r src local)" "svActs s' = svActs s @ header_acts w cfg r src local"
    "svNonces s' = svNonces s"
  using assms by (auto simp: header_sent_def header_acts_def send_header_def Let_def act_def split: if_splits prod.splits option.splits)

definition client_protos :: "answers \<Rightarrow> Rule \<Rightarrow> helloInfo \<Rightarrow> string list" where
  "client_protos w r info =
     (if rUpstreamTLS r then (case aTargetTLS w of Inl _ \<Rightarrow> [] | Inr p \<Rightarrow> if p = [] then [] else [p])
      else if offers info ''http/1.1'' then [''http/1.1''] else [])"

definition target_tls_ok :: "answers \<Rightarrow> Rule \<Rightarrow> bool" where
  "target_tls_ok w r \<longleftrightarrow> (rUpstreamTLS r \<longrightarrow> (case aTargetTLS w of Inl _ \<Rightarrow> False | Inr _ \<Rightarrow> True))"

definition terminate_acts ::
  "answers \<Rightarrow> Config \<Rightarrow> Rule \<Rightarrow> net_addr \<Rightarrow> net_addr \<Rightarrow> bytes \<Rightarrow> helloInfo \<Rightarrow> Decision \<Rightarrow> act list" where
  "terminate_acts w cfg r src local hello info d =
     header_acts w cfg r src local @
     (if fst (header_sent w r src local) \<noteq> None then []
      else (if rUpstreamTLS r then [TargetTLS (target_name r info d) (rUpstreamTLSVerify r) (target_offer info)] else []) @
           (if target_tls_ok w r then [ClientTLS hello (client_protos w r info)] else []))"

lemma acts_terminate:
  assumes "terminate w cfg r src local hello info d s = (x, s')"
  shows "svActs s' = svActs s @ terminate_acts w cfg r src local hello info d"
    "x = Inr st \<Longrightarrow> fst (header_sent w r src local) = None \<and> target_tls_ok w r"
    "svNonces s' = svNonces s"
proof -
  obtain e s1 where h: "(if rProxy r then send_header w cfg r src local s else (None, s)) = (e, s1)" by (metis surj_pair)
  note hd = acts_header [OF h]
  note run = assms [unfolded terminate_def h prod.case]
  have "svActs s' = svActs s @ terminate_acts w cfg r src local hello info d
    \<and> (x = Inr st \<longrightarrow> fst (header_sent w r src local) = None \<and> target_tls_ok w r) \<and> svNonces s' = svNonces s"
  proof (cases e)
    case (Some y)
    then show ?thesis using run hd by (auto simp: terminate_acts_def)
  next
    case None
    then show ?thesis using run hd
      by (cases "rUpstreamTLS r"; cases "aTargetTLS w")
        (auto simp: terminate_acts_def target_tls_ok_def client_protos_def act_def)
  qed
  then show "svActs s' = svActs s @ terminate_acts w cfg r src local hello info d"
    "x = Inr st \<Longrightarrow> fst (header_sent w r src local) = None \<and> target_tls_ok w r" "svNonces s' = svNonces s" by auto
qed

definition hello_sent :: "answers \<Rightarrow> bytes \<Rightarrow> bool" where
  "hello_sent w hello \<longleftrightarrow> aHelloWrite w = (length hello, None)"

definition pass_acts :: "answers \<Rightarrow> Config \<Rightarrow> Rule \<Rightarrow> net_addr \<Rightarrow> net_addr \<Rightarrow> bytes \<Rightarrow> helloInfo \<Rightarrow> act list" where
  "pass_acts w cfg r src local hello info =
     (if RememberNonce cfg then [Remember (Digest info)] else []) @ header_acts w cfg r src local @
     (if fst (header_sent w r src local) \<noteq> None then []
      else (if 0 < IdleTimeout cfg then [WriteBy (IdleTimeout cfg)] else []) @
           [ToTarget (take (fst (aHelloWrite w)) hello)])"

definition passed_nonces :: "answers \<Rightarrow> Config \<Rightarrow> helloInfo \<Rightarrow> nonceCache \<Rightarrow> nonceCache" where
  "passed_nonces w cfg info n = (if RememberNonce cfg then remember n (Digest info) (aSentAt w) else n)"

lemma nonces_small [wire]:
  "svNonces (act a s) = svNonces s" "svNonces (put_buffer w b s) = svNonces s" "svNonces (total g s) = svNonces s"
  "svNonces (flows g' s) = svNonces s" "svNonces (release_source n s) = svNonces s"
  "svNonces (failed_one s) = svNonces s" "svNonces (completed_one s) = svNonces s" "svNonces (denied_one s) = svNonces s"
  "svNonces (rejected s) = svNonces s" "svNonces (accepted j s) = svNonces s" "svNonces (register c s) = svNonces s"
  "svNonces (turned_away w' cfg x y reason s) = svNonces s"
  by (simp_all add: act_def put_buffer_def total_def flows_def release_source_def failed_one_def completed_one_def
      denied_one_def rejected_def accepted_def register_def turned_away_def)

lemma nonces_stats [wire]:
  "svNonces (rule_stats k f s) = svNonces s" "svNonces (listener_stats k g s) = svNonces s"
  "svNonces (host_stats i u s) = svNonces s" "svNonces (host_terminated c s) = svNonces s"
  by (simp_all add: rule_stats_def listener_stats_def host_stats_def host_terminated_def split: prod.splits option.splits)

lemma nonces_bytes [wire]: "svNonces (snd (count_bytes u d cs)) = svNonces (snd cs)"
  by (cases cs) (simp add: count_bytes_def Let_def wire split: option.splits)

lemma nonces_with [wire]:
  "svNonces (snd (closed_with r cs)) = svNonces (snd cs)" "svNonces (snd (failed_with e cs)) = svNonces (snd cs)"
  "svNonces (snd (refuse_client cs)) = svNonces (snd cs)" "svNonces (snd (run_relay w key cs)) = svNonces (snd cs)"
  "svNonces (unregister now cs) = svNonces (snd cs)"
  by (auto simp: closed_with_def failed_with_def refuse_client_def run_relay_def unregister_def wire split: option.splits prod.splits)

lemma nonces_serve [wire]: "svNonces (snd (serveHere w r info hello buf cs)) = svNonces (snd cs)"
  by (simp add: serveHere_def Let_def wire split: sum.splits)

lemma acts_pass:
  assumes "pass_through w cfg r src local hello buf info cs = (e, cs')"
  shows "svActs (snd cs') = svActs (snd cs) @ pass_acts w cfg r src local hello info"
    "e = None \<Longrightarrow> fst (header_sent w r src local) = None \<and> hello_sent w hello"
    "svNonces (snd cs') = passed_nonces w cfg info (svNonces (snd cs))"
proof -
  define s0 where "s0 = (if RememberNonce cfg
               then act (Remember (Digest info)) ((snd cs)\<lparr>svNonces := remember (svNonces (snd cs)) (Digest info) (aSentAt w)\<rparr>)
               else snd cs)"
  have s0: "svActs s0 = svActs (snd cs) @ (if RememberNonce cfg then [Remember (Digest info)] else [])"
    "svNonces s0 = passed_nonces w cfg info (svNonces (snd cs))"
    by (simp_all add: s0_def act_def passed_nonces_def)
  obtain f s1 where h: "(if rProxy r then send_header w cfg r src local s0 else (None, s0)) = (f, s1)" by (metis surj_pair)
  note hd = acts_header [OF h]
  note run = assms [unfolded pass_through_def Let_def, folded s0_def, unfolded h prod.case]
  have "svActs (snd cs') = svActs (snd cs) @ pass_acts w cfg r src local hello info
    \<and> (e = None \<longrightarrow> fst (header_sent w r src local) = None \<and> hello_sent w hello)
    \<and> svNonces (snd cs') = passed_nonces w cfg info (svNonces (snd cs))"
  proof (cases f)
    case (Some y)
    then show ?thesis using run hd s0 by (auto simp: pass_acts_def wire)
  next
    case None
    then show ?thesis using run hd s0
      by (auto simp: pass_acts_def send_hello_def Let_def wire hello_sent_def split: prod.splits option.splits if_splits)
  qed
  then show "svActs (snd cs') = svActs (snd cs) @ pass_acts w cfg r src local hello info"
    "e = None \<Longrightarrow> fst (header_sent w r src local) = None \<and> hello_sent w hello"
    "svNonces (snd cs') = passed_nonces w cfg info (svNonces (snd cs))" by auto
qed

subsection \<open>With the target dialled\<close>

definition terminated_run ::
  "answers \<Rightarrow> Config \<Rightarrow> Rule \<Rightarrow> net_addr \<Rightarrow> net_addr \<Rightarrow> bytes \<Rightarrow> helloInfo \<Rightarrow> Decision \<Rightarrow> act list \<Rightarrow> bool" where
  "terminated_run w cfg r src local hello info d bs \<longleftrightarrow>
     Terminates r \<and> \<not> offers info acmeALPN \<and>
     (bs = terminate_acts w cfg r src local hello info d
      \<or> bs = terminate_acts w cfg r src local hello info d @ relay_acts w (Key r)
        \<and> fst (header_sent w r src local) = None \<and> target_tls_ok w r)"

definition passed_run ::
  "answers \<Rightarrow> Config \<Rightarrow> Rule \<Rightarrow> net_addr \<Rightarrow> net_addr \<Rightarrow> bytes \<Rightarrow> helloInfo \<Rightarrow> act list \<Rightarrow> bool" where
  "passed_run w cfg r src local hello info bs \<longleftrightarrow>
     (Terminates r \<longrightarrow> offers info acmeALPN \<and> rUpstreamTLS r) \<and>
     (bs = pass_acts w cfg r src local hello info
      \<or> bs = pass_acts w cfg r src local hello info @ relay_acts w (Key r)
        \<and> fst (header_sent w r src local) = None \<and> hello_sent w hello)"

text \<open>The acts between dialling and closing the target, and the table of hellos after them.\<close>

definition connected_run ::
  "answers \<Rightarrow> Config \<Rightarrow> Rule \<Rightarrow> net_addr \<Rightarrow> net_addr \<Rightarrow> bytes \<Rightarrow> helloInfo \<Rightarrow> Decision \<Rightarrow> nonceCache \<Rightarrow> act list \<Rightarrow> nonceCache \<Rightarrow> bool" where
  "connected_run w cfg r src local hello info d n bs n' \<longleftrightarrow>
     n' = n \<and> bs = [] \<or> n' = n \<and> terminated_run w cfg r src local hello info d bs
     \<or> n' = passed_nonces w cfg info n \<and> passed_run w cfg r src local hello info bs"

lemma acts_connected:
  "\<exists>bs. svActs (snd (handle_connected w cfg r src local hello buf info d cs)) = svActs (snd cs) @ bs
     \<and> connected_run w cfg r src local hello info d (svNonces (snd cs)) bs
         (svNonces (snd (handle_connected w cfg r src local hello buf info d cs)))"
proof -
  let ?run = "handle_connected w cfg r src local hello buf info d cs"
  consider (plain) "Terminates r \<and> offers info acmeALPN \<and> \<not> rUpstreamTLS r"
    | (here) "Terminates r \<and> \<not> offers info acmeALPN"
    | (through) "Terminates r \<longrightarrow> offers info acmeALPN \<and> rUpstreamTLS r" by blast
  then show ?thesis
  proof cases
    case plain
    then have "?run = failed_with ChallengeForPlaintext (fst cs, put_buffer w buf (snd cs))"
      by (simp add: handle_connected_def)
    then show ?thesis by (intro exI [of _ "[]"]) (simp add: wire connected_run_def)
  next
    case here
    obtain x s' where t: "terminate w cfg r src local hello info d (snd cs) = (x, s')" by fastforce
    show ?thesis
    proof (cases x)
      case (Inl e)
      then show ?thesis using here t acts_terminate [OF t]
        by (intro exI [of _ "terminate_acts w cfg r src local hello info d"])
          (simp add: handle_connected_def wire connected_run_def terminated_run_def)
    next
      case (Inr st)
      then show ?thesis using here t acts_terminate [OF t]
        by (intro exI [of _ "terminate_acts w cfg r src local hello info d @ relay_acts w (Key r)"])
          (simp add: handle_connected_def wire connected_run_def terminated_run_def Let_def)
    qed
  next
    case through
    obtain x cs' where t: "pass_through w cfg r src local hello buf info cs = (x, cs')" by (metis surj_pair)
    show ?thesis
    proof (cases x)
      case (Some e)
      then show ?thesis using through t acts_pass [OF t]
        by (intro exI [of _ "pass_acts w cfg r src local hello info"])
          (auto simp: handle_connected_def wire connected_run_def passed_run_def)
    next
      case None
      then show ?thesis using through t acts_pass [OF t]
        by (intro exI [of _ "pass_acts w cfg r src local hello info @ relay_acts w (Key r)"])
          (auto simp: handle_connected_def wire connected_run_def passed_run_def split: prod.splits)
    qed
  qed
qed

text \<open>
  The acts on a connection whose ClientHello has been read, for the decision \<open>d\<close>: either no target
  is involved and no hello remembered, or it is dialled, used and closed.
\<close>

fun for_target :: "act \<Rightarrow> bool" where
  "for_target (Dial _ _) = True"
| "for_target (WriteBy _) = True"
| "for_target WriteAnytime = True"
| "for_target (ToTarget _) = True"
| "for_target (TargetTLS _ _ _) = True"
| "for_target (Remember _) = True"
| "for_target RelayBoth = True"
| "for_target CloseTarget = True"
| "for_target _ = False"

definition answered_run ::
  "answers \<Rightarrow> Config \<Rightarrow> net_addr \<Rightarrow> net_addr \<Rightarrow> bytes \<Rightarrow> helloInfo \<Rightarrow> Decision \<Rightarrow> nonceCache \<Rightarrow> act list \<Rightarrow> nonceCache \<Rightarrow> bool" where
  "answered_run w cfg src local hello info d n bs n' \<longleftrightarrow>
     n' = n \<and> \<not> list_ex for_target bs
     \<or> (\<exists>r. dAllow d \<and> dRule d = Some r \<and> \<not> Serves r \<and>
          (bs = [Dial (dHost d) (dPort d)] \<and> n' = n
           \<or> (\<exists>us. bs = Dial (dHost d) (dPort d) # us @ [CloseTarget]
                \<and> connected_run w cfg r src local hello info d n us n')))"

lemma acts_target:
  assumes "dAllow d" "dRule d = Some r"
  shows "\<exists>bs. svActs (snd (handle_target w cfg r src local hello buf info d cs)) = svActs (snd cs) @ bs
     \<and> answered_run w cfg src local hello info d (svNonces (snd cs)) bs
         (svNonces (snd (handle_target w cfg r src local hello buf info d cs)))"
proof (cases "if LocalCA r \<noteq> [] then LocalCAName r (SNI info) (SNIIP info) (addrOf local) else Inr []")
  case (Inl e)
  then show ?thesis
    by (intro exI [of _ "[ToClient alertAccessDenied]"]) (simp add: handle_target_def wire answered_run_def)
next
  case (Inr name)
  note ca = Inr
  show ?thesis
  proof (cases "Serves r")
    case True
    then show ?thesis
      by (intro exI [of _ "[ClientTLS hello (serve_protos info)]"]) (simp add: handle_target_def ca wire answered_run_def)
  next
    case False
    show ?thesis
    proof (cases "aDial w")
      case (Inl e)
      then show ?thesis using False assms
        by (intro exI [of _ "[Dial (dHost d) (dPort d)]"]) (simp add: handle_target_def ca wire answered_run_def Let_def)
    next
      case (Inr ends)
      obtain peer own where ends: "ends = (peer, own)" by fastforce
      let ?cs = "((fst cs)\<lparr>cPeer := Some peer, cUpLocal := Some own\<rparr>, act (Dial (dHost d) (dPort d)) (snd cs))"
      obtain us where us: "svActs (snd (handle_connected w cfg r src local hello buf info d ?cs)) = svActs (snd ?cs) @ us"
        "connected_run w cfg r src local hello info d (svNonces (snd ?cs)) us
         (svNonces (snd (handle_connected w cfg r src local hello buf info d ?cs)))"
        using acts_connected by blast
      obtain c' s' where run: "handle_connected w cfg r src local hello buf info d ?cs = (c', s')" by fastforce
      have "handle_target w cfg r src local hello buf info d cs = (c', act CloseTarget s')"
        by (simp add: handle_target_def ca Inr ends False run Let_def)
      then show ?thesis using us False assms
        by (intro exI [of _ "Dial (dHost d) (dPort d) # us @ [CloseTarget]"]) (simp add: run wire answered_run_def)
    qed
  qed
qed

lemma acts_allowed:
  assumes "dAllow d" "dRule d = Some r"
  shows "\<exists>bs. svActs (snd (handle_allowed h w cfg r hit src local hello buf info d cs)) = svActs (snd cs) @ bs
     \<and> answered_run w cfg src local hello info d (svNonces (snd cs)) bs
         (svNonces (snd (handle_allowed h w cfg r hit src local hello buf info d cs)))"
proof -
  obtain host hosts where hh: "host_get (hashName h) (sni_shown info) (svHosts (snd cs)) = (host, hosts)" by fastforce
  let ?c = "(fst cs)\<lparr>cHow := allowed_how cfg r hit (cHow (fst cs)), cSNI := SNI info, cDst := shown_target r d,
    cRouted := True, cHost := host, cRuleKey := Key r, cPattern := rSource r, cRule := Some (Key r)\<rparr>"
  let ?s = "flows (emit ''route'' ?c) (rule_stats (Key r) (\<lambda>n. n\<lparr>rsActive := rsActive n + 1, rsTotal := rsTotal n + 1\<rparr>)
    (host_stats host (\<lambda>n. n\<lparr>hoActive := hoActive n + 1, hoTotal := hoTotal n + 1\<rparr>) ((snd cs)\<lparr>svHosts := hosts\<rparr>)))"
  obtain bs where bs: "svActs (snd (handle_target w cfg r src local hello buf info d (?c, ?s))) = svActs (snd (?c, ?s)) @ bs"
    "answered_run w cfg src local hello info d (svNonces (snd (?c, ?s))) bs
         (svNonces (snd (handle_target w cfg r src local hello buf info d (?c, ?s))))"
    using acts_target [OF assms] by blast
  have s0: "svActs ?s = svActs (snd cs)" "svNonces ?s = svNonces (snd cs)" by (simp_all add: wire)
  obtain c s where t: "handle_target w cfg r src local hello buf info d (?c, ?s) = (c, s)" by fastforce
  have "svActs (snd (handle_allowed h w cfg r hit src local hello buf info d cs)) = svActs s"
    "svNonces (snd (handle_allowed h w cfg r hit src local hello buf info d cs)) = svNonces s"
    by (simp_all add: handle_allowed_def hh t wire)
  then show ?thesis using bs [unfolded t snd_conv s0] by (intro exI [of _ bs]) simp
qed

subsection \<open>From the ClientHello to the close\<close>

lemma acts_hello:
  assumes "cache_ok (rt_route byListener (aStopped w)) (svCache (snd cs))" "listens byListener cfg"
  shows "\<exists>bs. svActs (snd (handle_hello h w cfg src local hello buf info cs)) = svActs (snd cs) @ bs
     \<and> answered_run w cfg src local hello info (cfg_RouteExcept cfg (aStopped w) (SNI info)) (svNonces (snd cs)) bs
         (svNonces (snd (handle_hello h w cfg src local hello buf info cs)))"
proof -
  let ?d = "cfg_RouteExcept cfg (aStopped w) (SNI info)"
  obtain hit cache where g: "GetOrRoute (aBusy w) (lName (the (current cfg)) @ NUL @ SNI info) (\<lambda>_. ?d) (svCache (snd cs))
      = ((?d, hit), cache)"
    using cached_decision [OF assms, of "aBusy w" "SNI info"] by blast
  define s where "s = total (\<lambda>t. if hit then t\<lparr>tHits := tHits t + 1\<rparr> else t\<lparr>tMisses := tMisses t + 1\<rparr>) ((snd cs)\<lparr>svCache := cache\<rparr>)"
  have s: "svActs s = svActs (snd cs)" "svNonces s = svNonces (snd cs)" by (simp_all add: s_def wire)
  define passed where "passed = (dAllow ?d \<and> (case dRule ?d of Some r \<Rightarrow> \<not> Terminates r | None \<Rightarrow> False))"
  have run: "handle_hello h w cfg src local hello buf info cs =
      (if offers info acmeALPN \<and> \<not> passed \<and> aChallenge w (SNI info) then handle_challenge w hello buf info (fst cs, s)
       else if \<not> dAllow ?d then handle_denied w cfg buf info ?d (fst cs, s)
       else case dRule ?d of
              Some r \<Rightarrow> handle_allowed h w cfg r hit src local hello buf info ?d (fst cs, s)
            | None \<Rightarrow> (fst cs, s))"
    unfolding handle_hello_def g prod.case Let_def s_def [symmetric] passed_def [symmetric] ..
  show ?thesis
  proof (cases "offers info acmeALPN \<and> \<not> passed \<and> aChallenge w (SNI info)")
    case True
    then show ?thesis
      by (intro exI [of _ "[ChallengeTLS (SNI info) hello]"])
        (simp add: run handle_challenge_def Let_def wire s answered_run_def split: option.splits)
  next
    case False
    show ?thesis
    proof (cases "dAllow ?d")
      case True
      then obtain r where r: "dRule ?d = Some r" using allowed_has_rule by blast
      have "handle_hello h w cfg src local hello buf info cs = handle_allowed h w cfg r hit src local hello buf info ?d (fst cs, s)"
        using False True by (simp only: run r option.case if_False not_True_eq_False)
      then show ?thesis using acts_allowed [OF True r, of h w cfg hit src local hello buf info "(fst cs, s)"]
        by (simp add: s)
    next
      case deny: False
      have "handle_hello h w cfg src local hello buf info cs = handle_denied w cfg buf info ?d (fst cs, s)"
        unfolding run using False deny by (simp only: if_False not_False_eq_True if_True)
      then show ?thesis
        by (intro exI [of _ "[ToClient alertAccessDenied]"])
          (simp add: handle_denied_def Let_def wire s answered_run_def split: option.splits)
    qed
  qed
qed

text \<open>The connection as the handler reads it: a PROXY header only from a peer that may send one.\<close>

definition started :: "answers \<Rightarrow> Config \<Rightarrow> (Proxy_Protocol.proxy_error, proxyConn) result" where
  "started w cfg = (if trustsProxySource cfg (aRemote w) then detectProxyProtocol (aInbound w)
                    else Inr (plain_conn (aInbound w) []))"

definition stated_source :: "answers \<Rightarrow> proxyConn \<Rightarrow> net_addr" where
  "stated_source w client = proxyConn_RemoteAddr (aRemote w) client"

definition stated_local :: "answers \<Rightarrow> proxyConn \<Rightarrow> net_addr" where
  "stated_local w client = proxyConn_LocalAddr (aLocal w) client"

text \<open>A ClientHello that was read whole and is no loop, and the acts that answer it.\<close>

definition hello_run ::
  "hashes \<Rightarrow> answers \<Rightarrow> Config \<Rightarrow> proxyConn \<Rightarrow> nonceCache \<Rightarrow> act list \<Rightarrow> nonceCache \<Rightarrow> bool" where
  "hello_run h w cfg client n bs n' \<longleftrightarrow>
     (\<exists>bufcap info hello.
        readHello (hashHello h) bufcap (ending (pc_conn client)) (client_segments w client) = (Inr info, hello)
        \<and> \<not> (RememberNonce cfg \<and> seen n (Digest info) (aSeenAt w))
        \<and> answered_run w cfg (stated_source w client) (stated_local w client) hello info
            (cfg_RouteExcept cfg (aStopped w) (SNI info)) n bs n')"

definition wire_run :: "hashes \<Rightarrow> answers \<Rightarrow> Config \<Rightarrow> nonceCache \<Rightarrow> act list \<Rightarrow> nonceCache \<Rightarrow> bool" where
  "wire_run h w cfg n bs n' \<longleftrightarrow>
     n' = n \<and> \<not> list_ex for_target bs
     \<or> (\<exists>client cs. started w cfg = Inr client \<and> hello_run h w cfg client n cs n'
          \<and> bs = [ReadBy (HandshakeTimeout cfg), ReadAnytime] @ cs @ [CloseClient])"

lemma acts_registered:
  assumes "cache_ok (rt_route byListener (aStopped w)) (svCache (snd cs))" "listens byListener cfg"
    and c: "cSrc (fst cs) = stated_source w client" "cLocal (fst cs) = stated_local w client"
  shows "\<exists>bs. svActs (snd (handle_registered h w cfg client slot cs)) = svActs (snd cs) @ bs
     \<and> (\<not> list_ex for_target bs \<and> svNonces (snd (handle_registered h w cfg client slot cs)) = svNonces (snd cs)
        \<or> (\<exists>us. bs = ReadAnytime # us \<and> hello_run h w cfg client (svNonces (snd cs)) us
             (svNonces (snd (handle_registered h w cfg client slot cs)))))"
proof -
  obtain buf pool where b: "Pool_Get (svPool (snd cs)) = (buf, pool)" by fastforce
  obtain r hello where rd: "readHello (hashHello h) (bufCap buf) (ending (pc_conn client)) (client_segments w client) = (r, hello)"
    by fastforce
  define s where "s = release_source slot ((snd cs)\<lparr>svPool := pool\<rparr>)"
  have s: "svActs s = svActs (snd cs)" "svNonces s = svNonces (snd cs)" "svCache s = svCache (snd cs)"
    by (simp_all add: s_def release_source_def)
  show ?thesis
  proof (cases r)
    case (Inl e)
    then show ?thesis
      by (intro exI [of _ "[]"]) (simp add: handle_registered_def b rd wire)
  next
    case (Inr info)
    have run: "handle_registered h w cfg client slot cs =
        (if RememberNonce cfg \<and> seen (svNonces s) (Digest info) (aSeenAt w) then handle_loop w buf info (fst cs, act ReadAnytime s)
         else handle_hello h w cfg (cSrc (fst cs)) (cLocal (fst cs)) hello buf info (fst cs, act ReadAnytime s))"
      by (simp only: handle_registered_def b rd Inr Let_def prod.case sum.case s_def wire)
    show ?thesis
    proof (cases "RememberNonce cfg \<and> seen (svNonces s) (Digest info) (aSeenAt w)")
      case True
      then have "handle_registered h w cfg client slot cs = handle_loop w buf info (fst cs, act ReadAnytime s)"
        using run by simp
      then show ?thesis
        by (intro exI [of _ "[ReadAnytime, ToClient alertAccessDenied]"]) (simp add: handle_loop_def wire s)
    next
      case False
      then have run': "handle_registered h w cfg client slot cs
          = handle_hello h w cfg (cSrc (fst cs)) (cLocal (fst cs)) hello buf info (fst cs, act ReadAnytime s)"
        unfolding run by (simp only: if_False)
      have "svCache (snd (fst cs, act ReadAnytime s)) = svCache (snd cs)" using s by (simp add: act_def)
      then obtain us where us:
        "svActs (snd (handle_registered h w cfg client slot cs)) = svActs (act ReadAnytime s) @ us"
        "answered_run w cfg (cSrc (fst cs)) (cLocal (fst cs)) hello info (cfg_RouteExcept cfg (aStopped w) (SNI info))
          (svNonces (act ReadAnytime s)) us (svNonces (snd (handle_registered h w cfg client slot cs)))"
        using acts_hello [of byListener w "(fst cs, act ReadAnytime s)" cfg h "cSrc (fst cs)" "cLocal (fst cs)" hello buf info] assms(1,2)
        unfolding run' by auto
      have "hello_run h w cfg client (svNonces (snd cs)) us (svNonces (snd (handle_registered h w cfg client slot cs)))"
        unfolding hello_run_def using us(2) False rd Inr s c by (auto simp: wire)
      then show ?thesis using us(1) s by (intro exI [of _ "ReadAnytime # us"]) (simp add: wire)
    qed
  qed
qed

lemma acts_conn:
  assumes "cache_ok (rt_route byListener (aStopped w)) (svCache s)" "listens byListener cfg"
  shows "\<exists>bs. svActs (handle_conn h w cfg client slot s) = svActs s @ bs
     \<and> (\<not> list_ex for_target bs \<and> svNonces (handle_conn h w cfg client slot s) = svNonces s
        \<or> (\<exists>us. bs = ReadAnytime # us \<and> hello_run h w cfg client (svNonces s) us (svNonces (handle_conn h w cfg client slot s))))"
proof -
  let ?cs = "(new_conn w cfg client, register (new_conn w cfg client) s)"
  have "svCache (snd ?cs) = svCache s" by (simp add: register_def flows_def)
  then show ?thesis
    using acts_registered [of byListener w ?cs cfg client h slot] assms
    by (simp add: handle_conn_def Let_def wire new_conn_def stated_source_def stated_local_def)
qed

lemma hold_wire:
  assumes "hold_source h a cfg s = (slot, s')"
  shows "svActs s' = svActs s" "svNonces s' = svNonces s" "svCache s' = svCache s"
  using assms by (auto simp: hold_source_def split: prod.splits)

lemma wire_handle:
  assumes ok: "cache_ok (rt_route byListener (aStopped w)) (svCache s)" and l: "listens byListener cfg"
  shows "\<exists>bs. svActs (handle h w cfg s) = svActs s @ bs \<and> wire_run h w cfg (svNonces s) bs (svNonces (handle h w cfg s))"
proof -
  obtain held s1 where h1: "hold_source h (aRemote w) cfg s = (held, s1)" by fastforce
  note f1 = hold_wire [OF h1]
  show ?thesis
  proof (cases held)
    case None
    then show ?thesis
      by (intro exI [of _ "[CloseClient]"]) (simp add: handle_def admit_def h1 wire f1 wire_run_def)
  next
    case (Some slot)
    define s2 where "s2 = act (ReadBy (HandshakeTimeout cfg)) (accepted 1 s1)"
    have f2: "svActs s2 = svActs s @ [ReadBy (HandshakeTimeout cfg)]" "svNonces s2 = svNonces s" "svCache s2 = svCache s"
      using f1 by (simp_all add: s2_def wire) (simp add: act_def accepted_def total_def)
    have run: "handle h w cfg s = act CloseClient (case started w cfg of
          Inl e \<Rightarrow> release_source slot (turned_away w cfg (aRemote w) (aLocal w) (BadProxyHeader e) (failed_one s2))
        | Inr client \<Rightarrow> admit_client h w cfg (handle_conn h w cfg client) client slot s2)"
      by (simp only: handle_def admit_def h1 Some prod.case option.case Let_def s2_def started_def)
    show ?thesis
    proof (cases "started w cfg")
      case (Inl e)
      then show ?thesis
        by (intro exI [of _ "[ReadBy (HandshakeTimeout cfg), CloseClient]"]) (simp add: run wire f2 wire_run_def)
    next
      case (Inr client)
      have go: "\<exists>bs. svActs (act CloseClient (handle_conn h w cfg client n s3)) = svActs s @ bs
          \<and> wire_run h w cfg (svNonces s) bs (svNonces (act CloseClient (handle_conn h w cfg client n s3)))"
        if s3: "svActs s3 = svActs s2" "svNonces s3 = svNonces s2" "svCache s3 = svCache s2" for n s3
      proof -
        obtain us where "svActs (handle_conn h w cfg client n s3) = svActs s3 @ us"
          "\<not> list_ex for_target us \<and> svNonces (handle_conn h w cfg client n s3) = svNonces s3
           \<or> (\<exists>vs. us = ReadAnytime # vs \<and> hello_run h w cfg client (svNonces s3) vs (svNonces (handle_conn h w cfg client n s3)))"
          using acts_conn [OF _ l, of w s3 h client n] ok s3 f2 by auto
        then show ?thesis using s3 f2 Inr
          by (intro exI [of _ "ReadBy (HandshakeTimeout cfg) # us @ [CloseClient]"]) (auto simp: wire wire_run_def)
      qed
      show ?thesis
      proof (cases "sourceKey (proxyConn_RemoteAddr (aRemote w) client) = sourceKey (aRemote w)")
        case True
        then show ?thesis using go [of s2 slot] by (simp add: run Inr admit_client_def)
      next
        case False
        obtain held2 s3 where h2: "hold_source h (proxyConn_RemoteAddr (aRemote w) client) cfg s2 = (held2, s3)" by fastforce
        note f3 = hold_wire [OF h2]
        show ?thesis
        proof (cases held2)
          case None
          then show ?thesis using False
            by (intro exI [of _ "[ReadBy (HandshakeTimeout cfg), CloseClient]"])
              (simp add: run Inr admit_client_def h2 Let_def wire f2 f3 wire_run_def)
        next
          case (Some n)
          then show ?thesis using False go [of "release_source slot s3" n] f3
            by (simp add: run Inr admit_client_def h2 Let_def wire)
        qed
      qed
    qed
  qed
qed

end
