(* ===== verification/Accept_Books.thy ===== *)
theory Accept_Books
  imports Handle_Books
begin

text \<open>
  The books continued: the redirect listener, the accept loop, and whole runs of the proxy.
\<close>

subsection \<open>The redirect listener\<close>

lemma response_standing:
  "write_response cfg t status location keep cs = (e, cs') \<Longrightarrow>
   standing_of (snd cs') = standing_of (snd cs) \<and> cID (fst cs') = cID (fst cs)"
  by (auto simp: write_response_def Let_def books)

lemma one_standing:
  "redirect_one cfg n t r cs = (l, cs') \<Longrightarrow>
   standing_of (snd cs') = standing_of (snd cs) \<and> cID (fst cs') = cID (fst cs)"
  by (auto simp: redirect_one_def Let_def books dest!: response_standing split: option.splits prod.splits if_splits)

text \<open>The first turn releases the count of the source, the others hold none.\<close>

definition released :: "nat option \<Rightarrow> standing \<Rightarrow> standing" where
  "released slot t = (case slot of Some n \<Rightarrow> t\<lparr>stCounts := endHandshake n (stCounts t)\<rparr> | None \<Rightarrow> t)"

lemma turn_standing:
  assumes "redirect_turn cfg n slot t cs = (l, cs')"
  shows "standing_of (snd cs') = released slot (standing_of (snd cs)) \<and> cID (fst cs') = cID (fst cs)"
proof -
  define s1 where "s1 = (if 0 < n then act (if 0 < IdleTimeout cfg then ReadBy (IdleTimeout cfg) else ReadAnytime) (snd cs) else snd cs)"
  define cs1 where "cs1 = count_bytes (tuUp t) 0 (fst cs, s1)"
  define cs2 where "cs2 = (fst cs1, case slot of Some m \<Rightarrow> release_source m (snd cs1) | None \<Rightarrow> snd cs1)"
  have "standing_of s1 = standing_of (snd cs)" by (simp add: s1_def standing_act)
  then have "standing_of (snd cs1) = standing_of (snd cs)" "cID (fst cs1) = cID (fst cs)"
    unfolding cs1_def by (simp_all only: standing_bytes cID_bytes fst_conv snd_conv)
  then have st: "standing_of (snd cs2) = released slot (standing_of (snd cs))" "cID (fst cs2) = cID (fst cs)"
    unfolding cs2_def by (simp_all add: released_def standing_release split: option.splits)
  note run = assms [unfolded redirect_turn_def Let_def, folded s1_def, folded cs1_def, folded cs2_def]
  show ?thesis
  proof (cases "tuRead t")
    case (Inr r)
    then have "redirect_one cfg (n + 1) t r cs2 = (l, cs')" using run by simp
    from one_standing [OF this] show ?thesis using st by simp
  next
    case (Inl e)
    obtain result reason status where x: "no_request cfg n t e = (result, reason, status)" by (metis surj_pair)
    have "(\<exists>f. write_response cfg t status [] False cs2 = (f, cs')) \<or> cs' = cs2"
      using run Inl x by (auto split: if_splits prod.splits)
    then show ?thesis using response_standing st by fastforce
  qed
qed

lemma loop_standing:
  "redirect_loop cfg n slot ts cs = (l, cs') \<Longrightarrow>
   standing_of (snd cs') = released slot (standing_of (snd cs)) \<and> cID (fst cs') = cID (fst cs)"
proof (induction cfg n slot ts cs rule: redirect_loop.induct)
  case (1 cfg n slot cs)
  then show ?case using turn_standing [of cfg n slot last_turn cs] by (auto split: prod.splits)
next
  case (2 cfg n slot t ts cs)
  obtain l1 cs1 where t: "redirect_turn cfg n slot t cs = (l1, cs1)" by (metis surj_pair)
  note st = turn_standing [OF t]
  show ?case
  proof (cases l1)
    case None
    then have "redirect_loop cfg (n + 1) None ts cs1 = (l, cs')" using 2(2) t by simp
    then show ?thesis using 2(1) [OF t [symmetric] None] st by (simp add: released_def)
  next
    case (Some x)
    then show ?thesis using 2(2) t st by simp
  qed
qed

lemma redirect_conn_closes:
  "closes ok w (redirect_conn w v cfg client)"
  unfolding closes_def
proof (intro allI impI)
  fix slot and s :: server assume ok: "ok (svCache s)"
  have up: "standing_of (rule_stats k (\<lambda>n. n\<lparr>rsActive := rsActive n + 1, rsTotal := rsTotal n + 1\<rparr>) s) = move_rule k 1 (standing_of s)"
      "standing_of (rule_stats k (\<lambda>n. n\<lparr>rsActive := rsActive n - 1\<rparr>) s) = move_rule k (- 1) (standing_of s)" for k and s :: server
    by (subst rule_active_stats; simp)+
  define c where "c = (new_conn w cfg client)\<lparr>cRuleKey := redirectKey, cPattern := redirectPattern, cRule := Some redirectKey,
                cHow := (cHow (new_conn w cfg client))\<lparr>hwTLS := ''http''\<rparr>\<rparr>"
  define s1 where "s1 = register c (rule_stats redirectKey (\<lambda>n. n\<lparr>rsActive := rsActive n + 1, rsTotal := rsTotal n + 1\<rparr>) s)"
  have st1: "standing_of s1 = (move_rule redirectKey 1 (standing_of s))\<lparr>stOpen := cID c # svOpen s\<rparr>"
    by (simp add: s1_def standing_register up) (simp add: move_rule_def)
  obtain l cs where loop: "redirect_loop cfg 0 (Some slot) (viTurns v) (c, s1) = (l, cs)" by (metis surj_pair)
  have st: "standing_of (snd cs) = released (Some slot) (standing_of s1)" "cID (fst cs) = cID c"
    using loop_standing [OF loop] by simp_all
  define cs2 where "cs2 = (if leAnswered l \<and> \<not> viKilled v \<and> viCloseWrite v
                then count_bytes (viDropped v) 0 (fst cs, act (ReadBy (2 * Second)) (act CloseWriting (snd cs))) else cs)"
  have st2: "standing_of (snd cs2) = standing_of (snd cs)" "cID (fst cs2) = cID (fst cs)"
    by (simp_all add: cs2_def standing_bytes cID_bytes standing_act)
  define s3 where "s3 = (if leResult l = flowClosed then completed_one (snd cs2) else failed_one (snd cs2))"
  have st3: "standing_of s3 = settle (standing_of (snd cs2))" by (simp add: s3_def standing_outcome)
  have run: "redirect_conn w v cfg client slot s = rule_stats redirectKey (\<lambda>n. n\<lparr>rsActive := rsActive n - 1\<rparr>)
      (unregister (aEnd w) (setEnd (leResult l) (leReason l) (fst cs2), s3))"
    unfolding redirect_conn_def Let_def c_def [symmetric] s1_def [symmetric] loop prod.case cs2_def [symmetric] s3_def [symmetric] ..
  have "standing_of (redirect_conn w v cfg client slot s) = (standing_of s)\<lparr>stCounts := endHandshake slot (svCounts s),
      stOpenBooks := stOpenBooks (standing_of s) - 1, stOutcomes := stOutcomes (standing_of s) + 1, stLogged := stLogged (standing_of s) + 1\<rparr>"
    by (simp add: run up standing_unregister st3 st2 st st1 cID_how released_def settle_def move_rule_def)
  then show "\<exists>cache pool. ok cache \<and> (pool = svPool s \<or> pool = pool_after w (svPool s)) \<and>
           standing_of (redirect_conn w v cfg client slot s) = (standing_of s)\<lparr>stCounts := endHandshake slot (svCounts s), stCache := cache,
             stPool := pool, stOpenBooks := stOpenBooks (standing_of s) - 1,
             stOutcomes := stOutcomes (standing_of s) + 1, stLogged := stLogged (standing_of s) + 1\<rparr>"
    using ok by (intro exI [of _ "svCache s"] exI [of _ "svPool s"]) (simp add: standing_of_def)
qed

subsection \<open>The accept loop\<close>

lemma total_standing:
  "standing_of (total (\<lambda>t. t\<lparr>tActive := tActive t + 1\<rparr>) s) = (standing_of s)\<lparr>stActive := stActive (standing_of s) + 1\<rparr>"
  "standing_of (total (\<lambda>t. t\<lparr>tActive := tActive t - 1\<rparr>) s) = (standing_of s)\<lparr>stActive := stActive (standing_of s) - 1\<rparr>"
  "standing_of (total (\<lambda>t. t\<lparr>tStarted := tStarted t + 1\<rparr>) s) = (standing_of s)\<lparr>stRunning := stRunning (standing_of s) + 1\<rparr>"
  "standing_of (total (\<lambda>t. t\<lparr>tFinished := tFinished t + 1\<rparr>) s) = (standing_of s)\<lparr>stRunning := stRunning (standing_of s) - 1\<rparr>"
  by (simp_all add: standing_total, simp_all add: standing_of_def)

lemma listener_standing:
  "standing_of (listener_stats k (\<lambda>n. n\<lparr>lsActive := lsActive n + 1\<rparr>) s) = move_listener k 1 (standing_of s)"
  "standing_of (listener_stats k (\<lambda>n. n\<lparr>lsActive := lsActive n - 1\<rparr>) s) = move_listener k (- 1) (standing_of s)"
  "standing_of (listener_stats k (\<lambda>n. n\<lparr>lsRejected := lsRejected n + 1\<rparr>) s) = standing_of s"
  "standing_of (listener_stats k (\<lambda>n. n\<lparr>lsAccepted := lsAccepted n + 1\<rparr>) s) = standing_of s"
proof -
  show "standing_of (listener_stats k (\<lambda>n. n\<lparr>lsActive := lsActive n + 1\<rparr>) s) = move_listener k 1 (standing_of s)"
    "standing_of (listener_stats k (\<lambda>n. n\<lparr>lsActive := lsActive n - 1\<rparr>) s) = move_listener k (- 1) (standing_of s)"
    by (subst listener_active_stats; simp)+
  show "standing_of (listener_stats k (\<lambda>n. n\<lparr>lsRejected := lsRejected n + 1\<rparr>) s) = standing_of s"
    "standing_of (listener_stats k (\<lambda>n. n\<lparr>lsAccepted := lsAccepted n + 1\<rparr>) s) = standing_of s"
    by (subst listener_active_stats [where d = 0]; simp add: moves)+
qed

definition gone_by :: "int \<Rightarrow> standing \<Rightarrow> standing" where
  "gone_by d t = t\<lparr>stOutcomes := stOutcomes t + d, stLogged := stLogged t + nat d\<rparr>"

lemma visit_standing:
  assumes "listens byListener cfg" "cache_ok (rt_route byListener (aStopped w)) (svCache s)"
  shows "\<exists>cache pool. cache_ok (rt_route byListener (aStopped w)) cache \<and> (pool = svPool s \<or> pool = pool_after w (svPool s)) \<and>
    standing_of (if lIsRedirect l then handleRedirect h w v cfg s else handle h w cfg s)
      = (gone_by 1 (standing_of s))\<lparr>stCache := cache, stPool := pool\<rparr>"
proof -
  have "\<exists>cache pool. cache_ok (rt_route byListener (aStopped w)) cache \<and> (pool = svPool s \<or> pool = pool_after w (svPool s)) \<and>
    standing_of (handleRedirect h w v cfg s) = (standing_of s)\<lparr>stCache := cache, stPool := pool,
      stOutcomes := stOutcomes (standing_of s) + 1, stLogged := stLogged (standing_of s) + 1\<rparr>"
    unfolding handleRedirect_def by (rule admit_standing) (use redirect_conn_closes assms(2) in auto)
  moreover have "t\<lparr>stCache := cache, stPool := pool, stOutcomes := stOutcomes t + 1, stLogged := stLogged t + 1\<rparr>
      = (gone_by 1 t)\<lparr>stCache := cache, stPool := pool\<rparr>" for t cache pool
    by (cases t) (simp add: gone_by_def)
  ultimately show ?thesis using handle_standing [OF assms, of h] by (simp only: split: if_split) blast
qed

lemma accept_standing:
  assumes cfg: "listens byListener cfg" and ok: "cache_ok (rt_route byListener (aStopped w)) (svCache s)"
  shows "\<exists>cache pool. cache_ok (rt_route byListener (aStopped w)) cache \<and> (pool = svPool s \<or> pool = pool_after w (svPool s)) \<and>
    standing_of (accept_one h w v global (Some cfg) s) = (gone_by 1 (standing_of s))\<lparr>stCache := cache, stPool := pool\<rparr>"
proof -
  define l where "l = the (current cfg)"
  define s1 where "s1 = listener_stats (lName l) (\<lambda>n. n\<lparr>lsActive := lsActive n + 1\<rparr>) (total (\<lambda>t. t\<lparr>tActive := tActive t + 1\<rparr>) s)"
  define leave where "leave = (\<lambda>s. listener_stats (lName l) (\<lambda>n. n\<lparr>lsActive := lsActive n - 1\<rparr>) (total (\<lambda>t. t\<lparr>tActive := tActive t - 1\<rparr>) s))"
  have st1: "standing_of s1 = move_listener (lName l) 1 ((standing_of s)\<lparr>stActive := stActive (standing_of s) + 1\<rparr>)"
    by (simp add: s1_def listener_standing total_standing)
  have left: "standing_of (leave x) = move_listener (lName l) (- 1) ((standing_of x)\<lparr>stActive := stActive (standing_of x) - 1\<rparr>)" for x
    by (simp add: leave_def listener_standing total_standing)
  have c1: "svCache s1 = svCache s" "svPool s1 = svPool s"
    by (simp_all add: s1_def listener_stats_def total_def split: prod.splits)
  define refusal where "refusal = accept_refusal global cfg (tActive (svTotals (total (\<lambda>t. t\<lparr>tActive := tActive t + 1\<rparr>) s)))
      (lsActive (fst (LoadOrMake (lName l) no_listener_stats (svLists s1))))"
  have body: "accept_one h w v global (Some cfg) s = (case refusal of
      Some reason \<Rightarrow> act CloseClient (listener_stats (lName l) (\<lambda>n. n\<lparr>lsRejected := lsRejected n + 1\<rparr>)
                  (rejected (leave (turned_away w cfg (aRemote w) (aLocal w) reason s1))))
    | None \<Rightarrow> let s2 = total (\<lambda>t. t\<lparr>tStarted := tStarted t + 1\<rparr>) (listener_stats (lName l) (\<lambda>n. n\<lparr>lsAccepted := lsAccepted n + 1\<rparr>) s1)
        in total (\<lambda>t. t\<lparr>tFinished := tFinished t + 1\<rparr>)
             (leave (if lIsRedirect l then handleRedirect h w v cfg s2 else handle h w cfg s2)))"
    unfolding accept_one_def option.case Let_def refusal_def s1_def leave_def l_def
    by (simp add: listener_stats_def total_def split: prod.splits)
  show ?thesis
  proof (cases refusal)
    case (Some reason)
    then have "accept_one h w v global (Some cfg) s = act CloseClient (listener_stats (lName l) (\<lambda>n. n\<lparr>lsRejected := lsRejected n + 1\<rparr>)
                  (rejected (leave (turned_away w cfg (aRemote w) (aLocal w) reason s1))))"
      by (simp add: body)
    then have "standing_of (accept_one h w v global (Some cfg) s) = gone_by 1 (standing_of s)"
      by (simp add: standing_act listener_standing standing_rejected left standing_turned_away st1 gone_by_def move_listener_def)
    then show ?thesis using ok
      by (intro exI [of _ "svCache s"] exI [of _ "svPool s"]) (simp add: standing_of_def gone_by_def)
  next
    case None
    define s2 where "s2 = total (\<lambda>t. t\<lparr>tStarted := tStarted t + 1\<rparr>) (listener_stats (lName l) (\<lambda>n. n\<lparr>lsAccepted := lsAccepted n + 1\<rparr>) s1)"
    define s3 where "s3 = (if lIsRedirect l then handleRedirect h w v cfg s2 else handle h w cfg s2)"
    have run: "accept_one h w v global (Some cfg) s = total (\<lambda>t. t\<lparr>tFinished := tFinished t + 1\<rparr>) (leave s3)"
      using None by (simp only: body option.case Let_def s2_def s3_def)
    have st2: "standing_of s2 = (standing_of s1)\<lparr>stRunning := stRunning (standing_of s1) + 1\<rparr>"
      by (simp add: s2_def total_standing listener_standing)
    have c2: "svCache s2 = svCache s" "svPool s2 = svPool s"
      using c1 by (simp_all add: s2_def listener_stats_def total_def split: prod.splits)
    obtain cache pool where v: "cache_ok (rt_route byListener (aStopped w)) cache" "pool = svPool s \<or> pool = pool_after w (svPool s)"
      "standing_of s3 = (gone_by 1 (standing_of s2))\<lparr>stCache := cache, stPool := pool\<rparr>"
      using visit_standing [OF cfg, of w s2 l h v] ok unfolding c2 s3_def by blast
    have "standing_of (accept_one h w v global (Some cfg) s) = (gone_by 1 (standing_of s))\<lparr>stCache := cache, stPool := pool\<rparr>"
      unfolding run by (simp add: total_standing left v(3) st2 st1 gone_by_def move_listener_def)
    then show ?thesis using v by blast
  qed
qed

subsection \<open>Runs of the proxy\<close>

definition new_server :: "nat \<Rightarrow> nat \<Rightarrow> BufferPool \<Rightarrow> server" where
  "new_server allowCap denyCap pool =
     \<lparr>svCounts = newSourceCounts, svNonces = newNonceCache, svCache = NewRouteCache allowCap denyCap,
      svPool = pool, svTotals = no_totals, svRules = (\<lambda>_. None), svLists = (\<lambda>_. None),
      svHosts = newHostTable, svHostStats = (\<lambda>_. no_host_stats), svOpen = [], svFlows = newFlowLog,
      svActs = []\<rparr>"

definition serve_all ::
  "hashes \<Rightarrow> Config \<Rightarrow> (string \<Rightarrow> Config option) \<Rightarrow> (answers \<times> visitTurns \<times> string) list \<Rightarrow> server \<Rightarrow> server" where
  "serve_all h global byListener = fold (\<lambda>(w, v, name). accept_one h w v global (byListener name))"

definition named :: "(string \<Rightarrow> Config option) \<Rightarrow> bool" where
  "named byListener \<longleftrightarrow> (\<forall>name cfg. byListener name = Some cfg \<longrightarrow> lName (the (current cfg)) = name \<and> CHR 0x00 \<notin> set name)"

definition sockets :: "(string \<Rightarrow> Config option) \<Rightarrow> (answers \<times> visitTurns \<times> string) list \<Rightarrow> nat" where
  "sockets byListener visits = length (filter (\<lambda>(w, v, name). byListener name \<noteq> None) visits)"

text \<open>What is borrowed, without the cache and the pool.\<close>

definition settled_books :: "standing \<Rightarrow> standing" where
  "settled_books t = t\<lparr>stCache := NewRouteCache 0 0, stPool := NewBufferPool 0 0\<rparr>"

lemma run_standing:
  assumes "named byListener" "\<forall>(w, v, name)\<in>set visits. aStopped w = stopped" "cache_ok (rt_route byListener stopped) (svCache s)"
  shows "settled_books (standing_of (serve_all h global byListener visits s))
      = gone_by (int (sockets byListener visits)) (settled_books (standing_of s))
    \<and> cache_ok (rt_route byListener stopped) (svCache (serve_all h global byListener visits s))"
  using assms
proof (induction visits arbitrary: s)
  case Nil
  then show ?case by (simp add: serve_all_def sockets_def gone_by_def)
next
  case (Cons x visits)
  obtain w v name where x: "x = (w, v, name)" by (metis surj_pair)
  let ?s = "accept_one h w v global (byListener name) s"
  have stop: "aStopped w = stopped" using Cons.prems(2) x by simp
  have step: "settled_books (standing_of ?s) = gone_by (if byListener name = None then 0 else 1) (settled_books (standing_of s))
      \<and> cache_ok (rt_route byListener stopped) (svCache ?s)"
  proof (cases "byListener name")
    case None
    then show ?thesis using Cons.prems(3) by (simp add: accept_one_def standing_act gone_by_def) (simp add: act_def)
  next
    case (Some cfg)
    then have l: "listens byListener cfg" using Cons.prems(1) by (auto simp: named_def listens_def)
    obtain cache pool where a: "cache_ok (rt_route byListener stopped) cache"
      "standing_of ?s = (gone_by 1 (standing_of s))\<lparr>stCache := cache, stPool := pool\<rparr>"
      using accept_standing [OF l, of w s h v global] Cons.prems(3) Some unfolding stop by auto
    have "svCache ?s = cache" using arg_cong [OF a(2), of stCache] by simp
    then show ?thesis using a Some by (simp add: settled_books_def gone_by_def)
  qed
  have rest: "\<forall>(w, v, name)\<in>set visits. aStopped w = stopped" using Cons.prems(2) by auto
  have "serve_all h global byListener (x # visits) s = serve_all h global byListener visits ?s"
    by (simp add: serve_all_def x)
  moreover have "sockets byListener (x # visits) = sockets byListener visits + (if byListener name = None then 0 else 1)"
    by (simp add: sockets_def x)
  moreover have "gone_by (int n) (gone_by (if b then 0 else 1) t) = gone_by (int (n + (if b then 0 else 1))) t" for n b t
    by (cases t) (simp add: gone_by_def nat_add_distrib)
  ultimately show ?case using Cons.IH [OF Cons.prems(1) rest, of ?s] step by simp
qed

lemma standing_new:
  "standing_of (new_server a d pool) = \<lparr>stCounts = newSourceCounts, stOpen = [], stRules = (\<lambda>_. 0), stLists = (\<lambda>_. 0),
     stHosts = (\<lambda>_. 0), stActive = 0, stRunning = 0, stOpenBooks = 0, stOutcomes = 0, stLogged = 0,
     stPool = pool, stCache = NewRouteCache a d\<rparr>"
  by (simp add: standing_of_def new_server_def no_totals_def newFlowLog_def rule_active_def listener_active_def
      host_active_def no_host_stats_def fun_eq_iff)

text \<open>
  C14. The books balance: after any run of connections through the accept loop, whatever their
  clients, targets, the network and the console do, every socket of a listener has ended in
  exactly one way: it was rejected, or it was accepted and denied, failed or completed; each is in
  the flow log once; and nothing is still held: no active connection in total or for any listener,
  rule or name, no open connection in the registry, no goroutine running, no source counted as
  still sending its ClientHello.
\<close>
theorem books_balance:
  assumes "named byListener" "\<forall>(w, v, name)\<in>set visits. aStopped w = stopped"
  shows "let s = serve_all h global byListener visits (new_server allowCap denyCap pool); t = svTotals s in
    tAccepted t = tDenied t + tFailed t + tCompleted t
    \<and> tRejected t + tAccepted t = int (sockets byListener visits) \<and> fNext (svFlows s) = sockets byListener visits
    \<and> tActive t = 0 \<and> tStarted t = tFinished t \<and> svOpen s = [] \<and> svCounts s = newSourceCounts
    \<and> rule_active s = (\<lambda>_. 0) \<and> listener_active s = (\<lambda>_. 0) \<and> host_active s = (\<lambda>_. 0)"
proof -
  define s where "s = serve_all h global byListener visits (new_server allowCap denyCap pool)"
  have "settled_books (standing_of s) = gone_by (int (sockets byListener visits)) (settled_books (standing_of (new_server allowCap denyCap pool)))"
    unfolding s_def by (rule run_standing [OF assms, THEN conjunct1]) (simp add: new_server_def cache_ok_new)
  then show ?thesis
    unfolding Let_def s_def [symmetric] standing_new
    by (auto simp: settled_books_def gone_by_def standing_of_def)
qed

text \<open>A run: a client that hangs up in its ClientHello and a request that is redirected.\<close>

definition sample_answers :: answers where
  "sample_answers = \<lparr>aID = 1, aRemote = TCPAddr [192, 0, 2, 7] 40000 [], aLocal = TCPAddr [192, 0, 2, 1] 443 [],
     aInbound = \<lparr>pending = [0x16, 3, 1], ending = EOF\<rparr>, aCut = (\<lambda>b. [b]), aStart = 0, aEnd = 5, aSeenAt = 0,
     aSentAt = 0, aPutAt = 0, aBusy = False, aStopped = (\<lambda>_. False), aStoppedLate = (\<lambda>_. False),
     aChallenge = (\<lambda>_. False), aChallengeTLS = None, aDial = Inl ''refused'', aHeaderWrites = [],
     aHelloWrite = (0, None), aTargetTLS = Inl [], aClientTLS = Inl [], aKillReason = [], aTraffic = (0, 0),
     aRelayEnd = []\<rparr>"

definition sample_turns :: visitTurns where
  "sample_turns = \<lparr>viTurns = [\<lparr>tuRead = Inr \<lparr>rqHost = ''example.com'', rqMethod = ''GET'', rqTarget = ''/'', rqURL = ''/'',
       rqClose = True, rqLength = 0, rqTransfer = []\<rparr>, tuUp = 60, tuKilled = None, tuWrite = (1000, None)\<rparr>],
     viKilled = False, viCloseWrite = True, viDropped = 0\<rparr>"

definition sample_listeners :: "string \<Rightarrow> Config option" where
  "sample_listeners = [''tls'' \<mapsto> ForListener (initial_config []) (zero_listener\<lparr>lName := ''tls''\<rparr>),
     ''http'' \<mapsto> ForListener (initial_config []) (zero_listener\<lparr>lName := ''http'', lIsRedirect := True\<rparr>)]"

theorem books_balance_witness:
  "let s = serve_all \<lparr>hashSource = (\<lambda>_. 0), hashHello = (\<lambda>_. 0), hashName = (\<lambda>_. 0)\<rparr> (initial_config [])
        sample_listeners [(sample_answers, sample_turns, ''tls''), (sample_answers, sample_turns, ''http'')]
        (new_server 4 4 (NewBufferPool 64 2)); t = svTotals s in
     tAccepted t = tDenied t + tFailed t + tCompleted t \<and> tRejected t + tAccepted t = 2 \<and> svOpen s = []"
proof -
  have "named sample_listeners" by (auto simp: named_def sample_listeners_def ForListener_def split: if_splits)
  moreover have "sockets sample_listeners [(sample_answers, sample_turns, ''tls''), (sample_answers, sample_turns, ''http'')] = 2"
    by (simp add: sockets_def sample_listeners_def)
  ultimately show ?thesis
    using books_balance [of sample_listeners "[(sample_answers, sample_turns, ''tls''), (sample_answers, sample_turns, ''http'')]" "\<lambda>_. False"
      "\<lparr>hashSource = (\<lambda>_. 0), hashHello = (\<lambda>_. 0), hashName = (\<lambda>_. 0)\<rparr>" "initial_config []" 4 4 "NewBufferPool 64 2"]
    by (simp add: Let_def sample_answers_def)
qed

end
