(* ===== verification/Handle_Props.thy ===== *)
theory Handle_Props
  imports Handle_Wire Accept_Books Client_Hello_Encode
begin

text \<open>
  What the acts of a connection come to: where a client may be taken, what its target sees, and
  that a ClientHello this proxy forwarded stops when it comes back.
\<close>

definition new_acts :: "hashes \<Rightarrow> answers \<Rightarrow> Config \<Rightarrow> server \<Rightarrow> act list" where
  "new_acts h w cfg s = drop (length (svActs s)) (svActs (handle h w cfg s))"

text \<open>The network delivers the bytes that are left, however it cuts them.\<close>

definition delivers :: "answers \<Rightarrow> bool" where
  "delivers w \<longleftrightarrow> (\<forall>b. concat (aCut w b) = b)"

definition to_target :: "act list \<Rightarrow> bytes" where
  "to_target bs = concat (map (\<lambda>a. case a of ToTarget b \<Rightarrow> b | _ \<Rightarrow> []) bs)"

lemma to_target_append [simp]: "to_target (as @ bs) = to_target as @ to_target bs"
  by (simp add: to_target_def)

lemma client_bytes: "delivers w \<Longrightarrow> concat (client_segments w client) = unread client"
  by (simp add: delivers_def client_segments_def unread_def)

lemma new_acts_run:
  assumes "cache_ok (rt_route byListener (aStopped w)) (svCache s)" "listens byListener cfg"
  shows "wire_run h w cfg (svNonces s) (new_acts h w cfg s) (svNonces (handle h w cfg s))"
  using wire_handle [OF assms, of h] by (auto simp: new_acts_def)

lemma read_parsed:
  assumes "readHello hash bufcap rerr (client_segments w client) = (Inr info, hello)" "delivers w"
  shows "parseHello hash (unread client) = Inr info" "\<exists>rest. unread client = hello @ rest"
proof -
  have "hello_outcome hash rerr (unread client) = Inr info"
    using readHello_outcome [of hash bufcap rerr "client_segments w client"] assms client_bytes by simp
  then show "parseHello hash (unread client) = Inr info"
    by (auto simp: hello_outcome_def split: sum.splits hello_error.splits)
  show "\<exists>rest. unread client = hello @ rest"
    using readHello_data [of hash bufcap rerr "client_segments w client"] assms client_bytes by (metis snd_conv)
qed

text \<open>The acts before and after the target, and what each stage's acts contain.\<close>

lemma header_members:
  "a \<in> set (header_acts w cfg r src local) \<Longrightarrow> for_target a \<and> (\<forall>x p. a \<noteq> Dial x p) \<and> a \<noteq> RelayBoth \<and> (\<forall>g. a \<noteq> Remember g)"
  by (auto simp: header_acts_def split: if_splits)

lemma terminate_members:
  "a \<in> set (terminate_acts w cfg r src local hello info d) \<Longrightarrow>
     (\<forall>x p. a \<noteq> Dial x p) \<and> a \<noteq> RelayBoth \<and> (\<forall>g. a \<noteq> Remember g)"
  by (auto simp: terminate_acts_def dest!: header_members split: if_splits)

lemma pass_members:
  "a \<in> set (pass_acts w cfg r src local hello info) \<Longrightarrow>
     (\<forall>x p. a \<noteq> Dial x p) \<and> a \<noteq> RelayBoth \<and> (\<forall>g. a = Remember g \<longrightarrow> RememberNonce cfg \<and> g = Digest info)"
  by (auto simp: pass_acts_def dest!: header_members split: if_splits)

lemma relay_members: "a \<in> set (relay_acts w k) \<Longrightarrow> a = RelayBoth \<or> a = CloseBoth"
  by (auto simp: relay_acts_def split: if_splits)

lemma connected_members:
  assumes "connected_run w cfg r src local hello info d n us n'" "a \<in> set us"
  shows "(\<forall>x p. a \<noteq> Dial x p)"
    "a = Remember g \<Longrightarrow> RememberNonce cfg \<and> g = Digest info \<and> n' = remember n g (aSentAt w)"
  using assms by (auto simp: connected_run_def terminated_run_def passed_run_def passed_nonces_def
      dest!: terminate_members pass_members relay_members)

subsection \<open>A concrete connection\<close>

lemma readHello_single:
  assumes "fst (readHello hash room rerr [b]) = Inr info" "length b \<le> room" "b \<noteq> []"
  shows "readHello hash room rerr [b] = (Inr info, b)"
proof -
  have "conn_read room [b] = (b, [])" "room \<noteq> 0" using assms by (cases room; auto)+
  then show ?thesis using assms
    by (auto simp: readHello_def read_loop.simps [of hash rerr room "[]"] read_loop.simps [of hash rerr _ _ _ "[]"] Let_def
        split: if_splits scan_out.splits sum.splits)
qed

definition demo_hello :: bytes where
  "demo_hello = framed 1 [take 9 sample_msg, drop 9 sample_msg]"

definition demo_rule :: Rule where
  "demo_rule = \<lparr>rListener = ''tls'', rLine = 7, rSource = ''ex.com'', rKind = kindLiteral, rLiteralChars = 6,
     rNoSNI = False, rPattern = None, rAllow = True, rTargetHost = ''backend'', rTargetPort = 443, rCert = [],
     rCertDomains = [], rCertNames = [], rCertIPs = [], rCertHosts = [], rCertKey = [], rCertValidateScript = [],
     rCertValidateArgs = [], rUpstreamTLS = False, rUpstreamTLSVerify = False, rUpstreamSNI = [], rProxy = False,
     rProxyVersion = 0, rMaxAggregatedSpeed = 0, rMaxSingleConnectionSpeed = 0, rRoutes = [], rConsole = False,
     rFixedCert = None\<rparr>"

definition demo_listener :: Listener where
  "demo_listener = zero_listener\<lparr>lName := ''tls''\<rparr>"

definition demo_config :: Config where
  "demo_config = ForListener ((initial_config [])\<lparr>Listeners := [demo_listener],
     Tables := [\<lparr>tName = ''tls'', literals = [''ex.com'' \<mapsto> demo_rule], byPriority = []\<rparr>]\<rparr>) demo_listener"

definition demo_by_name :: "string \<Rightarrow> Config option" where
  "demo_by_name = [''tls'' \<mapsto> demo_config]"

definition demo_hashes :: hashes where
  "demo_hashes = \<lparr>hashSource = (\<lambda>_. 0), hashHello = (\<lambda>_. 5), hashName = (\<lambda>_. 0)\<rparr>"

definition demo_answers :: "nat \<Rightarrow> answers" where
  "demo_answers now = \<lparr>aID = 1, aRemote = TCPAddr [192, 0, 2, 7] 40000 [], aLocal = TCPAddr [192, 0, 2, 1] 443 [],
     aInbound = \<lparr>pending = demo_hello, ending = EOF\<rparr>, aCut = (\<lambda>b. [b]), aStart = 0, aEnd = 5, aSeenAt = now,
     aSentAt = now, aPutAt = now, aBusy = False, aStopped = (\<lambda>_. False), aStoppedLate = (\<lambda>_. False),
     aChallenge = (\<lambda>_. False), aChallengeTLS = None,
     aDial = Inr (TCPAddr [10, 0, 0, 1] 443 [], TCPAddr [10, 0, 0, 2] 5000 []), aHeaderWrites = [],
     aHelloWrite = (length demo_hello, None), aTargetTLS = Inl [], aClientTLS = Inl [], aKillReason = [],
     aTraffic = (10, 20), aRelayEnd = ''client closed''\<rparr>"

definition demo_server :: server where
  "demo_server = new_server 4 4 (NewBufferPool 65536 2)"

lemma demo_parsed: "parseHello hash demo_hello = Inr \<lparr>SNI = ''ex.com'', SNIIP = NoAddr, ALPN = [''h2'', ''x''], Digest = hash sample_msg\<rparr>"
  using sample_parsed [of hash "[]"] by (simp add: demo_hello_def)

lemma demo_length: "length demo_hello = 90" "demo_hello \<noteq> []"
proof -
  have "length sample_msg = 80"
    by (simp add: sample_msg_def handshake_msg_def hello_body_def sample_exts_def enc_exts_def
        sni_data_def alpn_data_def enc_protos_def)
  then show "length demo_hello = 90" by (simp add: demo_hello_def length_framed)
  then show "demo_hello \<noteq> []" by auto
qed

lemma demo_read: "90 \<le> room \<Longrightarrow> readHello hash room rerr [demo_hello]
   = (Inr \<lparr>SNI = ''ex.com'', SNIIP = NoAddr, ALPN = [''h2'', ''x''], Digest = hash sample_msg\<rparr>, demo_hello)"
  by (rule readHello_single)
    (simp_all add: readHello_outcome hello_outcome_def demo_parsed demo_length del: length_greater_0_conv)

lemma demo_decision: "cfg_RouteExcept demo_config (\<lambda>_. False) ''ex.com'' =
   \<lparr>dAllow = True, dHost = ''backend'', dPort = 443, dRuleLine = 7, dRule = Some demo_rule, dErr = None\<rparr>"
  by (simp add: cfg_RouteExcept_def demo_config_def ForListener_def RouteExcept_def demo_listener_def zero_listener_def
     decide_def demo_rule_def Serves_def expand_def expand_loop.simps valid_target_def isHostChar_def no_decision_def Let_def)

lemma new_pool_get: "fst (Pool_Get (NewBufferPool n m)) = \<lparr>bufId = 0, bufCap = n\<rparr>"
proof -
  define r where "r = (newRing (max m 1) :: buffer ring)"
  have "fst (TryPop r) = None" unfolding r_def by (subst TryPop_says) (simp_all add: quiet_new)
  then obtain r' where "TryPop r = (None, r')" by (cases "TryPop r") auto
  then show ?thesis by (simp add: Pool_Get_def NewBufferPool_def r_def)
qed

lemma demo_hold: "hold_source demo_hashes (aRemote (demo_answers t)) demo_config demo_server
    = (Some 0, demo_server\<lparr>svCounts := newSourceCounts(0 := 1)\<rparr>)"
  by (simp add: hold_source_def demo_hashes_def demo_config_def ForListener_def initial_config_def demo_server_def new_server_def
      beginHandshake_def counter_def newSourceCounts_def Let_def)

definition demo_acts :: "act list" where
  "demo_acts = [ReadBy (10 * Second), ReadAnytime, Dial ''backend'' 443, Remember 5, WriteBy (600 * Second),
     ToTarget demo_hello, RelayBoth, CloseTarget, CloseClient]"

lemma demo_settings: "trustsProxySource demo_config a = False" "RememberNonce demo_config"
  "HandshakeTimeout demo_config = 10 * Second" "IdleTimeout demo_config = 600 * Second" "lName (the (current demo_config)) = ''tls''"
  by (cases a; simp add: demo_config_def ForListener_def initial_config_def demo_listener_def zero_listener_def overridden_def)+

lemma demo_target: "svActs (snd (handle_target (demo_answers t) demo_config demo_rule src local demo_hello buf
     \<lparr>SNI = ''ex.com'', SNIIP = NoAddr, ALPN = [''h2'', ''x''], Digest = 5\<rparr> 
     \<lparr>dAllow = True, dHost = ''backend'', dPort = 443, dRuleLine = 7, dRule = Some demo_rule, dErr = None\<rparr> cs))
   = svActs (snd cs) @ [Dial ''backend'' 443, Remember 5, WriteBy (600 * Second), ToTarget demo_hello, RelayBoth, CloseTarget]"
proof -
  have r: "LocalCA demo_rule = []" "\<not> Serves demo_rule" "\<not> Terminates demo_rule" "\<not> rProxy demo_rule"
    by (simp_all add: LocalCA_def HasPrefix_def Serves_def Terminates_def demo_rule_def)
  have a: "aDial (demo_answers t) = Inr (TCPAddr [10, 0, 0, 1] 443 [], TCPAddr [10, 0, 0, 2] 5000 [])"
    "early_stop (demo_answers t) k = None" "aHelloWrite (demo_answers t) = (length demo_hello, None)" for k
    by (simp_all add: demo_answers_def early_stop_def)
  show ?thesis
    by (simp add: handle_target_def r a Let_def handle_connected_def pass_through_def send_hello_def demo_settings Second_def
        wire split: prod.splits) (auto simp: wire a relay_acts_def act_def dest!: arg_cong [where f = "\<lambda>p. svActs (snd p)"])
qed

lemma demo_target': "handle_target (demo_answers t) demo_config demo_rule src local demo_hello buf
     \<lparr>SNI = ''ex.com'', SNIIP = NoAddr, ALPN = [''h2'', ''x''], Digest = 5\<rparr>
     \<lparr>dAllow = True, dHost = ''backend'', dPort = 443, dRuleLine = 7, dRule = Some demo_rule, dErr = None\<rparr> cs = (c, s)
   \<Longrightarrow> svActs s = svActs (snd cs) @ [Dial ''backend'' 443, Remember 5, WriteBy (600 * Second), ToTarget demo_hello, RelayBoth, CloseTarget]"
  using demo_target [of t src local buf cs] by simp

lemma demo_run: "new_acts demo_hashes (demo_answers t) demo_config demo_server = demo_acts"
proof -
  define w where "w = demo_answers t"
  define client where "client = plain_conn \<lparr>pending = demo_hello, ending = EOF\<rparr> []"
  define s1 where "s1 = act (ReadBy (10 * Second)) (accepted 1 (demo_server\<lparr>svCounts := newSourceCounts(0 := 1)\<rparr>))"
  define c where "c = new_conn w demo_config client"
  define s2 where "s2 = register c s1"
  let ?info = "\<lparr>SNI = ''ex.com'', SNIIP = NoAddr, ALPN = [''h2'', ''x''], Digest = 5\<rparr>"
  have w: "aInbound w = \<lparr>pending = demo_hello, ending = EOF\<rparr>" "aStopped w = (\<lambda>_. False)" "aBusy w = False"
    by (simp_all add: w_def demo_answers_def)
  have s2: "svPool s2 = NewBufferPool 65536 2" "svNonces s2 = newNonceCache" "svCache s2 = NewRouteCache 4 4" "svHosts s2 = newHostTable"
      "svActs s2 = [ReadBy (10 * Second)]"
    by (simp_all add: s2_def s1_def register_def flows_def act_def accepted_def total_def demo_server_def new_server_def)
  have read: "readHello (hashHello demo_hashes) 65536 (ending (pc_conn client)) (client_segments w client) = (Inr ?info, demo_hello)"
    using demo_read [of 65536 "\<lambda>_. 5" EOF]
    by (simp add: client_def plain_conn_def client_segments_def w_def demo_answers_def demo_hashes_def)
  obtain buf pool where g: "Pool_Get (NewBufferPool 65536 2) = (buf, pool)" "bufCap buf = 65536"
    using new_pool_get [of 65536 2] by (cases "Pool_Get (NewBufferPool 65536 2)") auto
  define s3 where "s3 = act ReadAnytime (release_source 0 (s2\<lparr>svPool := pool\<rparr>))"
  have s3: "svNonces s3 = newNonceCache" "svCache s3 = NewRouteCache 4 4" "svActs s3 = [ReadBy (10 * Second), ReadAnytime]"
    using s2 by (simp_all add: s3_def act_def release_source_def)
  have reg: "handle_registered demo_hashes w demo_config client 0 (c, s2) = handle_hello demo_hashes w demo_config (cSrc c) (cLocal c) demo_hello buf ?info (c, s3)"
    using seen_empty s2 by (simp add: handle_registered_def g read Let_def flip: s3_def) (simp add: s3_def wire)
  obtain cache where cache: "GetOrRoute False (''tls'' @ NUL @ ''ex.com'') (\<lambda>_. cfg_RouteExcept demo_config (\<lambda>_. False) ''ex.com'') (NewRouteCache 4 4)
      = ((cfg_RouteExcept demo_config (\<lambda>_. False) ''ex.com'', False), cache)"
    by (simp add: GetOrRoute_def NewRouteCache_def newClock_def clock_Get_def Let_def demo_decision)
  have passes: "\<not> Terminates demo_rule" by (simp add: Terminates_def demo_rule_def)
  have "svActs (snd (handle_hello demo_hashes w demo_config (cSrc c) (cLocal c) demo_hello buf ?info (c, s3))) = svActs s3
     @ [Dial ''backend'' 443, Remember 5, WriteBy (600 * Second), ToTarget demo_hello, RelayBoth, CloseTarget]"
    using cache s3 passes
    by (simp add: handle_hello_def w demo_settings offers_def acmeALPN_def demo_decision Let_def handle_allowed_def wire
        split: prod.splits) (auto simp: w_def wire act_def dest!: demo_target')
  then have "svActs (handle_conn demo_hashes w demo_config client 0 s1) = [ReadBy (10 * Second), ReadAnytime, Dial ''backend'' 443,
      Remember 5, WriteBy (600 * Second), ToTarget demo_hello, RelayBoth, CloseTarget]"
    by (simp add: handle_conn_def Let_def wire reg s3 flip: c_def s2_def)
  then have "svActs (handle demo_hashes w demo_config demo_server) = demo_acts"
    using demo_hold [of t]
    by (simp add: handle_def admit_def w_def [symmetric] demo_settings w Let_def admit_client_def client_def [symmetric] demo_acts_def
       flip: s1_def) (simp add: client_def plain_conn_def proxyConn_RemoteAddr_def wire)
  then show ?thesis by (simp add: new_acts_def w_def demo_server_def new_server_def)
qed

lemma demo_listens: "listens demo_by_name demo_config"
  by (simp add: listens_def demo_by_name_def demo_settings)

lemma demo_facts: "cache_ok (rt_route demo_by_name (aStopped (demo_answers t))) (svCache demo_server)"
  "delivers (demo_answers t)"
  by (simp_all add: demo_server_def new_server_def cache_ok_new delivers_def demo_answers_def)

lemma demo_started: "started (demo_answers t) demo_config = Inr (plain_conn \<lparr>pending = demo_hello, ending = EOF\<rparr> [])"
  by (simp add: started_def demo_settings) (simp add: demo_answers_def)

subsection \<open>Properties\<close>

text \<open>
  C15. A target is contacted for a client only on the rules' word: as soon as a connection does
  anything to a target, or remembers a hello for one, the ClientHello it sent (after the PROXY
  header a trusted peer stated) parses, it is not one this proxy forwarded lately, the rules route
  it, stopped rules aside, to a rule that allows it and serves nothing itself, the target dialled
  is exactly the decision's, first of all, and once.
\<close>
theorem target_by_decision:
  assumes "cache_ok (rt_route byListener (aStopped w)) (svCache s)" "listens byListener cfg" "delivers w"
    and "list_ex for_target (new_acts h w cfg s)"
  shows "\<exists>client info r rest. started w cfg = Inr client \<and> parseHello (hashHello h) (unread client) = Inr info
     \<and> \<not> (RememberNonce cfg \<and> seen (svNonces s) (Digest info) (aSeenAt w))
     \<and> (let d = cfg_RouteExcept cfg (aStopped w) (SNI info) in
          dAllow d \<and> dRule d = Some r \<and> \<not> Serves r
          \<and> new_acts h w cfg s = [ReadBy (HandshakeTimeout cfg), ReadAnytime, Dial (dHost d) (dPort d)] @ rest
          \<and> (\<forall>host port. Dial host port \<notin> set rest))"
proof -
  have "wire_run h w cfg (svNonces s) (new_acts h w cfg s) (svNonces (handle h w cfg s))"
    by (rule new_acts_run [OF assms(1,2)])
  then obtain client cs where c: "started w cfg = Inr client" "hello_run h w cfg client (svNonces s) cs (svNonces (handle h w cfg s))"
    "new_acts h w cfg s = [ReadBy (HandshakeTimeout cfg), ReadAnytime] @ cs @ [CloseClient]"
    using assms(4) unfolding wire_run_def by blast
  then obtain bufcap info hello where rd: "readHello (hashHello h) bufcap (ending (pc_conn client)) (client_segments w client) = (Inr info, hello)"
    and new: "\<not> (RememberNonce cfg \<and> seen (svNonces s) (Digest info) (aSeenAt w))"
    and run: "answered_run w cfg (stated_source w client) (stated_local w client) hello info
            (cfg_RouteExcept cfg (aStopped w) (SNI info)) (svNonces s) cs (svNonces (handle h w cfg s))"
    unfolding hello_run_def by blast
  have "list_ex for_target cs" using assms(4) c(3) by simp
  then obtain r us where d: "dAllow (cfg_RouteExcept cfg (aStopped w) (SNI info))" "dRule (cfg_RouteExcept cfg (aStopped w) (SNI info)) = Some r"
      "\<not> Serves r" "cs = Dial (dHost (cfg_RouteExcept cfg (aStopped w) (SNI info))) (dPort (cfg_RouteExcept cfg (aStopped w) (SNI info))) # us"
      "\<forall>host port. Dial host port \<notin> set us"
    using run connected_members(1) by (fastforce simp: answered_run_def)
  show ?thesis
    using c d new read_parsed(1) [OF rd assms(3)]
    by (intro exI [of _ client] exI [of _ info] exI [of _ r] exI [of _ "us @ [CloseClient]"]) (simp add: Let_def)
qed

theorem target_by_decision_witness:
  "Dial ''backend'' 443 \<in> set (new_acts demo_hashes (demo_answers 3) demo_config demo_server)
   \<and> (\<exists>client info r. started (demo_answers 3) demo_config = Inr client
        \<and> parseHello (\<lambda>_. 5) (unread client) = Inr info
        \<and> dRule (cfg_RouteExcept demo_config (\<lambda>_. False) (SNI info)) = Some r)"
proof -
  have "list_ex for_target (new_acts demo_hashes (demo_answers 3) demo_config demo_server)"
    by (simp add: demo_run demo_acts_def)
  note target_by_decision [OF demo_facts(1) demo_listens demo_facts(2) this]
  then have "\<exists>client info r. started (demo_answers 3) demo_config = Inr client
        \<and> parseHello (hashHello demo_hashes) (unread client) = Inr info
        \<and> dRule (cfg_RouteExcept demo_config (aStopped (demo_answers 3)) (SNI info)) = Some r"
    unfolding Let_def by blast
  moreover have "hashHello demo_hashes = (\<lambda>_. 5)" "aStopped (demo_answers 3) = (\<lambda>_. False)"
    by (simp_all add: demo_hashes_def demo_answers_def)
  ultimately show ?thesis by (simp add: demo_run demo_acts_def)
qed

lemma no_tls_terminated:
  assumes "terminated_run w cfg r src local hello info d us" "RelayBoth \<in> set us"
  shows "\<exists>x ps. ClientTLS x ps \<in> set us"
proof -
  have "us \<noteq> terminate_acts w cfg r src local hello info d" using assms(2) terminate_members by blast
  then have "us = terminate_acts w cfg r src local hello info d @ relay_acts w (Key r)"
    "fst (header_sent w r src local) = None" "target_tls_ok w r"
    using assms(1) by (auto simp: terminated_run_def)
  then have "ClientTLS hello (client_protos w r info) \<in> set us" by (simp add: terminate_acts_def)
  then show ?thesis by blast
qed

lemma to_target_small [simp]:
  "to_target [] = []" "to_target (ReadBy x # bs) = to_target bs" "to_target (ReadAnytime # bs) = to_target bs"
  "to_target (Dial y p # bs) = to_target bs" "to_target (CloseTarget # bs) = to_target bs"
  "to_target (CloseClient # bs) = to_target bs" "to_target (RelayBoth # bs) = to_target bs"
  "to_target (CloseBoth # bs) = to_target bs" "to_target (Remember g # bs) = to_target bs"
  "to_target (WriteBy x # bs) = to_target bs" "to_target (WriteAnytime # bs) = to_target bs"
  "to_target (ToTarget b # bs) = b @ to_target bs"
  by (simp_all add: to_target_def)

lemma header_complete:
  assumes "fst (header_sent w r src local) = None"
  shows "\<exists>header. to_target (header_acts w cfg r src local) = header
    \<and> (if rProxy r then proxyProtocolHeader (rProxyVersion r) src local = Inr header else header = [])"
  using assms by (auto simp: header_acts_def header_sent_def writeProxyProtocol_def dest!: write_loop_complete
      split: sum.splits if_splits) (metis prod.collapse write_loop_complete)



subsection \<open>Loops\<close>

lemma remembered_run:
  assumes "cache_ok (rt_route byListener (aStopped w)) (svCache s)" "listens byListener cfg"
    and "Remember g \<in> set (new_acts h w cfg s)"
  shows "svNonces (handle h w cfg s) = remember (svNonces s) g (aSentAt w)"
proof -
  have "wire_run h w cfg (svNonces s) (new_acts h w cfg s) (svNonces (handle h w cfg s))"
    by (rule new_acts_run [OF assms(1,2)])
  moreover have "list_ex for_target (new_acts h w cfg s)" using assms(3) by (force simp: list_ex_iff)
  ultimately obtain client cs where "hello_run h w cfg client (svNonces s) cs (svNonces (handle h w cfg s))" "Remember g \<in> set cs"
    using assms(3) unfolding wire_run_def by fastforce
  then show ?thesis
    unfolding hello_run_def answered_run_def by (fastforce simp: list_ex_iff dest: connected_members(2))
qed

lemma seen_within:
  assumes "t \<le> now" "tick now < 2 ^ 63" "now - t < nonceTTL - nonceTick"
  shows "seen (remember c d t) d now"
proof -
  have "now - t < 159 * nonceTick" using assms(3) by (simp add: nonceTTL_def nonceTick_def)
  then have "(now - t) div nonceTick < 159" by (rule less_mult_imp_div_less)
  then have "tick now - tick t < 160" using tick_diff(1) [OF assms(1)] by linarith
  then show ?thesis using seen_age [OF assms(1,2)] by (simp add: stamp_cycle_def)
qed

lemma loop_stops:
  assumes "cache_ok (rt_route byListener (aStopped w)) (svCache s)" "listens byListener cfg" "delivers w"
    and "started w cfg = Inr client" "parseHello (hashHello h) (unread client) = Inr info"
    and "RememberNonce cfg" "seen (svNonces s) (Digest info) (aSeenAt w)"
  shows "\<not> list_ex for_target (new_acts h w cfg s)"
proof
  assume "list_ex for_target (new_acts h w cfg s)"
  then obtain client' cs where c: "started w cfg = Inr client'" "hello_run h w cfg client' (svNonces s) cs (svNonces (handle h w cfg s))"
    using new_acts_run [OF assms(1,2), of h] unfolding wire_run_def by blast
  then obtain bufcap info' hello where rd: "readHello (hashHello h) bufcap (ending (pc_conn client')) (client_segments w client') = (Inr info', hello)"
    and new: "\<not> (RememberNonce cfg \<and> seen (svNonces s) (Digest info') (aSeenAt w))"
    unfolding hello_run_def by blast
  have "client' = client" using c(1) assms(4) by simp
  then have "info' = info" using read_parsed(1) [OF rd assms(3)] assms(5) by simp
  then show False using new assms(6,7) by simp
qed



end
