(* ===== verification/Spec2Isabelle.thy ===== *)
theory Spec2Isabelle
  imports Client_Hello_Encode Proxy_Protocol_Props Route_Cache Nonce Buffer_Pool
    Admission Conn_Table Host_Table Limiter Log_Rotation Relay
    Config_Values_Props Listener_Set_Props Rule_Config_Props Load_Config_Sound Rule_Stop Live_Listeners_Props
    Handle_Props
begin

text \<open>
  A verification library of tlsproxy_go_quick, a proxy that reads the ClientHello of a TLS
  connection, picks a target for its name by the rules of config.yaml, and relays the connection
  untouched, terminates its TLS, or serves HTTP itself. The theories model the Go sources directly
  under src/ (package main); each definition has the name of the function it models where Isabelle
  allows it.

  \<^bold>\<open>The program and how its parts meet.\<close> A listener accepts a socket (acceptLoop), whose handler
  (handle) counts its source, looks for a PROXY header when the peer may send one, reads the
  ClientHello, looks it up among those forwarded lately, asks the routing cache and through it the
  rules, and then denies, serves, or dials and relays. What it uses on the way is shared by all
  connections and mostly lock-free: counters, the registry of connections, per-name counters, the
  ring under the buffer pool, the CLOCK caches, the table of hellos. The configuration is one
  immutable value, swapped by a reload; the console stops and starts rules, connections and
  listeners while all of this runs. Log lines go to files that rotate.

  \<^bold>\<open>Theories, by part.\<close>

  \<^item> Prelude, Go_Strings, Netip, Netip_Print, Paths: results as sums, bytes and strings, and the
    functions of strings, strconv, net, net/netip and path that the code calls; an address printed
    and parsed is the address.

  \<^item> What a client sends. Client_Hello (sni.go: parseHello, parseExtensions, the cursor), with
    Client_Hello_Encode (an encoder as the specification: the round trip) and Client_Hello_Props
    (which names come out); Read_Hello (proxy.go: readHello, reading in pieces, equal to the parser
    on the whole input); Proxy_Protocol and Proxy_Protocol_Props (proxy_protocol.go: v1 and v2
    headers written, detected and read back, and connections without one left as they were).

  \<^item> Routing. Patterns (config.go: classify and the expressions it builds), Host_Names, Routing
    (decide, expand, RouteExcept, prioritiseListener), Routing_Props (the most specific rule
    decides, a stopped rule is one not configured, keys identify rules), Clock_Cache and
    Route_Cache (cache.go: the cache answers as routing would).

  \<^item> Shared structures. Ring and Buffer_Pool (lockfree.go, pool.go: every atomic access a step of any
    number of threads; FIFO, a bounded queue when quiet, buffers with one owner), Admission,
    Conn_Table, Host_Table (lockfree.go, proxy.go: caps that hold, a registry that is exact, names
    with counters of their own), Nonce (nonce.go: the table of hellos, on 64-bit words), Limiter
    (limit.go: GCRA buckets and the rate they allow), Linger (linger.go), Log_Rotation (rotate.go).

  \<^item> Connections. Flow_Log and Traffic (flows.go, stats.go: the state of a connection, the log of
    closed ones, counters and rates), Handle (proxy.go: handle, terminate; serve.go: serveHere; the
    server's state passed through, what is done to the sockets recorded in order), Redirect
    (redirect.go: handleRedirect; proxy.go: acceptLoop), Relay (the two pumps and the ways a relay
    ends, as interleaved steps), Rule_Stop (setRuleStopped, stop, setKill and reloads as one
    transition system with the connections they meet).

  \<^item> What connections come to. Handle_Books and Accept_Books: everything borrowed is given back on
    every path and every socket ends in exactly one counted way, for whole runs. Handle_Wire: the
    acts of each stage in closed form; Handle_Props: targets are contacted only on the rules' word,
    a passed-through hello arrives as it came, a hello that loops back is stopped.

  \<^item> The configuration. Config_Types (its data), Config_Values and Config_Values_Props (values and
    keys), Listener_Set and Listener_Set_Props (which listeners may exist together, the redirect
    listener), Password, Serve_Config, San_Key, Rule_Config, Oidc_Config (the sections' items), with
    Rule_Config_Props, Yaml_Node and Yaml_Walk (config_yaml.go over the library's nodes),
    Load_Config (LoadConfig, console_config.go), Load_Config_Props and Load_Config_Sound (what every
    configuration that loads guarantees), Live_Listeners and Live_Listeners_Props (listeners.go:
    the ports follow the configuration).

  \<^bold>\<open>How state and code correspond.\<close> Structs are records, enumerations and error texts are datatypes,
  fallible functions return sums, pointers that may be nil are options, a pointer to an immutable
  rule is the rule. Machine words are words where wrap-around is used (hashes, stamps, bytes);
  counters that cannot overflow in practice are naturals or integers. Concurrent components are
  step functions or inductive relations with invariants over every interleaving; sequential ones
  are functions that pass state. A connection in Handle runs as if alone: its shared accesses are
  single atomic operations of the structures whose interleavings have theories of their own.

  \<^bold>\<open>Interfaces.\<close> Three locales state what one part relies on in another. admission (Admission):
  what a counter that is tested and then counted promises the connections it admits, interpreted
  on the three tests of proxy.go. memo (Clock_Cache): what a cache in front of a pure function
  needs of its lookup and store, interpreted on the CLOCK cache and used by the routing cache.
  bounded_queue (Ring): a queue of bounded length behind push and pop, interpreted on the ring's
  TryPush and TryPop and used by the buffer pool.

  \<^bold>\<open>Parameters and hypotheses.\<close> Keyed hashes, random numbers, argon2id, PBKDF2, gzip, the clock,
  sockets, dialling, TLS handshakes, http.ReadRequest, the YAML library's nodes, url and PEM
  parsing are arguments. Hypotheses state what the environment does: \<open>delivers\<close> (the network loses
  and adds no bytes), \<open>listens\<close> and \<open>named\<close> (a listener's configuration is found under its name,
  which has no NUL), \<open>cache_ok\<close> (the cache holds what routing answers, which it does from the
  start and after every call), \<open>aStopped\<close> fixed over a run (a stop makes a new cache).

  \<^bold>\<open>Bounds and termination.\<close> No definition runs on fuel. Loops over input end by its length
  (readHello's by the bytes and reads left), probes by the table's size (4096 slots, capped at 2000
  names), the second-chance sweep by the number of used entries, target expansion by the template.
  The parser's limits (64 KiB, the records of a hello), the flow log's 2000 views and the stamps'
  20 bits are the code's own.

  \<^bold>\<open>Not modelled.\<close> Certificates (certs.go) and the local CA's files (localca.go, caconfig.go) are
  cryptography, ACME and disk; of localca.go the names and folders are modelled. Signing in (oidc.go,
  oidc_check.go, identity.go) and the HTTP serving (serve.go beyond serveHere, serve_listing.go)
  live in net/http and its handlers. The console (console.go and console_*.go, sections.go,
  config_tree.go, config_keys.go, websocket.go) is pages, JSON and edits of the YAML tree around
  the operations modelled here. dial.go is name resolution and timing of connects; logx.go's
  queue, main.go, signals, splice_linux.go and sync_directory are system calls. Of proxy.go, the
  rotation of ticket keys, newRuntime and watchConfig are left out; Runtime's parts are arguments.
  Text written to the log is not modelled anywhere.
\<close>

end
